(* ===== verification/Prelude.thy ===== *)
theory Prelude
  imports Main "HOL-Library.Char_ord" "HOL-Library.List_Lexorder" "HOL-Library.Sublist"
begin

text \<open>
  What the component theories share: Rust's \<open>String\<close> and the few \<open>str\<close> operations the kernel
  uses, \<open>u64\<close> arithmetic with its wrap-around written out, and the two string-keyed maps of the
  kernel (\<open>indexmap::IndexMap\<close>, which keeps insertion order, and \<open>BTreeMap\<close>, which keeps key
  order) with the one interface both promise.

  A Rust \<open>String\<close> is UTF-8, so it is modelled as its octets: a HOL \<open>string\<close>. Equality, ordering
  (\<open>BTreeMap\<close> orders strings by octet), prefixes and splitting at an ASCII character are all
  octet-wise in Rust too; \<open>chars().count()\<close> counts the octets that are not continuation octets.
  A \<open>u64\<close> or \<open>usize\<close> is a \<open>nat\<close>, and every operation of the code that could pass \<open>2 ^ 64\<close>
  says what happens there.
\<close>

named_theorems shape_simps \<open>unfolding of the shape-language helpers\<close>
named_theorems plan_simps \<open>what each core plan action computes\<close>
named_theorems walk_simps \<open>unfolding of the subsumption walk\<close>

subsection \<open>Options and lists\<close>

lemma option_all_conv: "(case x of None \<Rightarrow> True | Some y \<Rightarrow> P y) \<longleftrightarrow> (\<forall>y. x = Some y \<longrightarrow> P y)"
  by (cases x) auto

fun position :: "('a \<Rightarrow> bool) \<Rightarrow> 'a list \<Rightarrow> nat option" where
  "position P [] = None"
| "position P (x # xs) = (if P x then Some 0 else map_option Suc (position P xs))"

lemma position_SomeD: "position P xs = Some i \<Longrightarrow> i < length xs \<and> P (xs ! i)"
  by (induction xs arbitrary: i) (auto split: if_splits)

lemma position_None_iff: "position P xs = None \<longleftrightarrow> (\<forall>x \<in> set xs. \<not> P x)"
  by (induction xs) auto

fun all2 :: "('a \<Rightarrow> 'b \<Rightarrow> bool) \<Rightarrow> 'a list \<Rightarrow> 'b list \<Rightarrow> bool" where
  "all2 P [] [] = True"
| "all2 P (x # xs) (y # ys) = (P x y \<and> all2 P xs ys)"
| "all2 P _ _ = False"

lemma all2_conv_list_all2: "all2 P xs ys = list_all2 P xs ys"
  by (induction P xs ys rule: all2.induct) auto

lemma all2_length: "all2 P xs ys \<Longrightarrow> length xs = length ys"
  by (simp add: all2_conv_list_all2 list_all2_lengthD)

lemma all2_cong [fundef_cong]:
  assumes "xs = xs'" and "ys = ys'"
    and "\<And>x y. x \<in> set xs' \<Longrightarrow> y \<in> set ys' \<Longrightarrow> P x y = Q x y"
  shows "all2 P xs ys = all2 Q xs' ys'"
  using assms(3) unfolding assms(1,2)
  by (induction P xs' ys' rule: all2.induct) auto

lemma first_separator_unique:
  "a \<notin> set xs \<Longrightarrow> a \<notin> set ys \<Longrightarrow> xs @ a # zs = ys @ a # ws \<longleftrightarrow> xs = ys \<and> zs = ws"
proof (induction xs arbitrary: ys)
  case Nil
  then show ?case by (cases ys) auto
next
  case (Cons x xs)
  then show ?case by (cases ys) auto
qed

lemma last_separator_unique:
  assumes "a \<notin> set xs" and "a \<notin> set ys"
  shows "zs @ a # xs = ws @ a # ys \<longleftrightarrow> xs = ys \<and> zs = ws"
proof -
  have "zs @ a # xs = ws @ a # ys \<longleftrightarrow> rev (zs @ a # xs) = rev (ws @ a # ys)"
    by (simp only: rev_is_rev_conv)
  also have "\<dots> \<longleftrightarrow> rev xs @ a # rev zs = rev ys @ a # rev ws" by simp
  also have "\<dots> \<longleftrightarrow> xs = ys \<and> zs = ws"
    using assms by (subst first_separator_unique) auto
  finally show ?thesis .
qed

lemma size_list_elem: "x \<in> set xs \<Longrightarrow> f x < Suc (size_list f xs)"
  by (induction xs) auto

subsection \<open>Text\<close>

definition strip_prefix :: "string \<Rightarrow> string \<Rightarrow> string option" where
  "strip_prefix p s = (if take (length p) s = p then Some (drop (length p) s) else None)"

lemma strip_prefix_append [simp]: "strip_prefix p (p @ s) = Some s"
  by (simp add: strip_prefix_def)

lemma strip_prefix_SomeD: "strip_prefix p s = Some r \<Longrightarrow> s = p @ r"
  unfolding strip_prefix_def by (metis append_take_drop_id option.distinct(1) option.inject)

definition starts_with :: "string \<Rightarrow> string \<Rightarrow> bool" where
  "starts_with s p \<longleftrightarrow> take (length p) s = p"

definition ends_with :: "string \<Rightarrow> string \<Rightarrow> bool" where
  "ends_with s p \<longleftrightarrow> starts_with (rev s) (rev p)"

text \<open>\<open>str::contains\<close>: the needle is a prefix of some suffix.\<close>

fun contains_text :: "string \<Rightarrow> string \<Rightarrow> bool" where
  "contains_text [] n = (n = [])"
| "contains_text (c # s) n = (starts_with (c # s) n \<or> contains_text s n)"

text \<open>\<open>str::split_once\<close> at one ASCII character.\<close>

fun split_once :: "char \<Rightarrow> string \<Rightarrow> (string \<times> string) option" where
  "split_once c [] = None"
| "split_once c (x # xs) =
     (if x = c then Some ([], xs) else map_option (\<lambda>(a, b). (x # a, b)) (split_once c xs))"

definition rsplit_once :: "char \<Rightarrow> string \<Rightarrow> (string \<times> string) option" where
  "rsplit_once c s = map_option (\<lambda>(a, b). (rev b, rev a)) (split_once c (rev s))"

text \<open>\<open>str::split\<close> at one ASCII character: never empty.\<close>

fun split_on :: "char \<Rightarrow> string \<Rightarrow> string list" where
  "split_on c [] = [[]]"
| "split_on c (x # xs) =
     (if x = c then [] # split_on c xs
      else (case split_on c xs of [] \<Rightarrow> [[x]] | y # ys \<Rightarrow> (x # y) # ys))"

fun join_with :: "string \<Rightarrow> string list \<Rightarrow> string" where
  "join_with sep [] = []"
| "join_with sep [x] = x"
| "join_with sep (x # y # ys) = x @ sep @ join_with sep (y # ys)"

text \<open>\<open>str::replace\<close> of one ASCII character by a text.\<close>

definition replace_char :: "char \<Rightarrow> string \<Rightarrow> string \<Rightarrow> string" where
  "replace_char c r s = concat (map (\<lambda>x. if x = c then r else [x]) s)"

lemma replace_char_simps [simp]:
  "replace_char c r [] = []"
  "replace_char c r (x # xs) = (if x = c then r else [x]) @ replace_char c r xs"
  "replace_char c r (xs @ ys) = replace_char c r xs @ replace_char c r ys"
  by (simp_all add: replace_char_def)

definition ascii_lower :: "char \<Rightarrow> char" where
  "ascii_lower c = (let n = of_char c :: nat in if 65 \<le> n \<and> n \<le> 90 then char_of (n + 32) else c)"

definition to_ascii_lowercase :: "string \<Rightarrow> string" where
  "to_ascii_lowercase = map ascii_lower"

definition eq_ignore_ascii_case :: "string \<Rightarrow> string \<Rightarrow> bool" where
  "eq_ignore_ascii_case a b \<longleftrightarrow> to_ascii_lowercase a = to_ascii_lowercase b"

text \<open>
  \<open>char::is_whitespace\<close>, on the octets at the head of a text: the ASCII white space, and the
  UTF-8 octets of U+0085, U+00A0, U+1680, U+2000 to U+200A, U+2028, U+2029, U+202F, U+205F and
  U+3000. UTF-8 is self-synchronising, so these octets start a character wherever they occur.
  The result is the number of octets of the white-space character, 0 when there is none.
\<close>

definition whitespace_at :: "string \<Rightarrow> nat" where
  "whitespace_at s = (case map of_char (take 3 s) :: nat list of
      [] \<Rightarrow> 0
    | a # r \<Rightarrow>
        if (9 \<le> a \<and> a \<le> 13) \<or> a = 32 then 1
        else (case r of
            [] \<Rightarrow> 0
          | b # r' \<Rightarrow>
              if a = 194 \<and> (b = 133 \<or> b = 160) then 2
              else (case r' of
                  [] \<Rightarrow> 0
                | c # _ \<Rightarrow>
                    if (a = 225 \<and> b = 154 \<and> c = 128)
                      \<or> (a = 226 \<and> b = 128 \<and> ((128 \<le> c \<and> c \<le> 138) \<or> c = 168 \<or> c = 169 \<or> c = 175))
                      \<or> (a = 226 \<and> b = 129 \<and> c = 159)
                      \<or> (a = 227 \<and> b = 128 \<and> c = 128)
                    then 3 else 0)))"

fun has_whitespace :: "string \<Rightarrow> bool" where
  "has_whitespace [] = False"
| "has_whitespace (c # s) = (0 < whitespace_at (c # s) \<or> has_whitespace s)"

lemma whitespace_at_le: "whitespace_at s \<le> length s"
  by (cases s rule: list.exhaust; cases "tl s"; cases "tl (tl s)") (auto simp: whitespace_at_def)

lemma whitespace_at_drop: "0 < whitespace_at s \<Longrightarrow> length (drop (whitespace_at s) s) < length s"
  using whitespace_at_le [of s] by simp

function trim_start :: "string \<Rightarrow> string" where
  "trim_start s = (if 0 < whitespace_at s then trim_start (drop (whitespace_at s) s) else s)"
  by pat_completeness auto
termination
  by (relation "measure length") (auto simp only: whitespace_at_drop in_measure wf_measure)

declare trim_start.simps [simp del]

text \<open>\<open>trim_end\<close>: drop the white-space characters at the end, each of one to three octets.\<close>

definition whitespace_before :: "string \<Rightarrow> nat" where
  "whitespace_before r =
     (if whitespace_at (rev (take 1 r)) = 1 \<and> r \<noteq> [] then 1
      else if whitespace_at (rev (take 2 r)) = 2 then 2
      else if whitespace_at (rev (take 3 r)) = 3 then 3 else 0)"

lemma whitespace_before_le: "whitespace_before r \<le> length r"
  using whitespace_at_le [of "rev (take 2 r)"] whitespace_at_le [of "rev (take 3 r)"]
  by (auto simp: whitespace_before_def Suc_le_eq split: if_splits)

lemma whitespace_before_drop:
  "0 < whitespace_before r \<Longrightarrow> length (drop (whitespace_before r) r) < length r"
  using whitespace_before_le [of r] by simp

function trim_rev :: "string \<Rightarrow> string" where
  "trim_rev r = (if 0 < whitespace_before r then trim_rev (drop (whitespace_before r) r) else r)"
  by pat_completeness auto
termination
  by (relation "measure length") (auto simp only: whitespace_before_drop in_measure wf_measure)

declare trim_rev.simps [simp del]

definition trim :: "string \<Rightarrow> string" where
  "trim s = rev (trim_rev (rev (trim_start s)))"

text \<open>\<open>str::trim_matches\<close> of one character, at both ends.\<close>

definition trim_char :: "char \<Rightarrow> string \<Rightarrow> string" where
  "trim_char c s = rev (dropWhile (\<lambda>x. x = c) (rev (dropWhile (\<lambda>x. x = c) s)))"

text \<open>\<open>chars().count()\<close>: the octets that do not continue a character.\<close>

definition chars_count :: "string \<Rightarrow> nat" where
  "chars_count s = length (filter (\<lambda>c. \<not> (128 \<le> (of_char c :: nat) \<and> (of_char c :: nat) < 192)) s)"

text \<open>\<open>std::str::from_utf8\<close>: whether octets are well-formed UTF-8 (no overlong form, no surrogate,
  nothing above U+10FFFF).\<close>

fun utf8_ok :: "nat list \<Rightarrow> bool" where
  "utf8_ok [] = True"
| "utf8_ok (a # r) =
     (if a < 128 then utf8_ok r
      else if 194 \<le> a \<and> a \<le> 223 then
        (case r of b # r' \<Rightarrow> 128 \<le> b \<and> b \<le> 191 \<and> utf8_ok r' | [] \<Rightarrow> False)
      else if 224 \<le> a \<and> a \<le> 239 then
        (case r of
           b # c # r' \<Rightarrow>
             (if a = 224 then 160 else 128) \<le> b \<and> b \<le> (if a = 237 then 159 else 191)
             \<and> 128 \<le> c \<and> c \<le> 191 \<and> utf8_ok r'
         | _ \<Rightarrow> False)
      else if 240 \<le> a \<and> a \<le> 244 then
        (case r of
           b # c # d # r' \<Rightarrow>
             (if a = 240 then 144 else 128) \<le> b \<and> b \<le> (if a = 244 then 143 else 191)
             \<and> 128 \<le> c \<and> c \<le> 191 \<and> 128 \<le> d \<and> d \<le> 191 \<and> utf8_ok r'
         | _ \<Rightarrow> False)
      else False)"

definition from_utf8 :: "string \<Rightarrow> string option" where
  "from_utf8 s = (if utf8_ok (map of_char s) then Some s else None)"

subsection \<open>Decimal numerals\<close>

definition digit_char :: "nat \<Rightarrow> char" where
  "digit_char d = char_of (48 + d)"

definition digit_value :: "char \<Rightarrow> nat option" where
  "digit_value c = (let n = of_char c :: nat in if 48 \<le> n \<and> n \<le> 57 then Some (n - 48) else None)"

fun nat_text :: "nat \<Rightarrow> string" where
  "nat_text n = (if n < 10 then [digit_char n] else nat_text (n div 10) @ [digit_char (n mod 10)])"

declare nat_text.simps [simp del]

definition is_digit :: "char \<Rightarrow> bool" where
  "is_digit c \<longleftrightarrow> digit_value c \<noteq> None"

definition digits_value :: "string \<Rightarrow> nat" where
  "digits_value s = foldl (\<lambda>acc c. 10 * acc + the (digit_value c)) 0 s"

text \<open>\<open>str::parse::<u64>\<close> (and \<open>usize\<close>): an optional plus sign, at least one digit, no overflow.\<close>

definition parse_u64 :: "string \<Rightarrow> nat option" where
  "parse_u64 s =
     (let d = (case s of [] \<Rightarrow> [] | c # r \<Rightarrow> if c = CHR ''+'' then r else s)
      in if d \<noteq> [] \<and> list_all is_digit d \<and> digits_value d < 2 ^ 64 then Some (digits_value d) else None)"

lemma digit_value_digit_char: "d < 10 \<Longrightarrow> digit_value (digit_char d) = Some d"
  by (simp add: digit_value_def digit_char_def Let_def)

lemma is_digit_digit_char: "d < 10 \<Longrightarrow> is_digit (digit_char d)"
  by (simp add: is_digit_def digit_value_digit_char)

lemma nat_text_digits: "list_all is_digit (nat_text n)"
proof (induction n rule: nat_text.induct)
  case (1 n)
  then show ?case
    by (subst nat_text.simps) (auto simp: is_digit_digit_char)
qed

lemma nat_text_nonempty [simp]: "nat_text n \<noteq> []"
  by (subst nat_text.simps) auto

lemma digits_value_snoc: "digits_value (s @ [c]) = 10 * digits_value s + the (digit_value c)"
  by (simp add: digits_value_def)

lemma digits_value_nat_text: "digits_value (nat_text n) = n"
proof (induction n rule: nat_text.induct)
  case (1 n)
  show ?case
  proof (cases "n < 10")
    case True
    then show ?thesis
      by (subst nat_text.simps) (simp add: digits_value_def digit_value_digit_char)
  next
    case False
    with "1.IH" show ?thesis
      by (subst nat_text.simps) (simp add: digits_value_snoc digit_value_digit_char)
  qed
qed

lemma is_digit_range: "is_digit c \<longleftrightarrow> 48 \<le> (of_char c :: nat) \<and> (of_char c :: nat) \<le> 57"
  by (simp add: is_digit_def digit_value_def Let_def)

lemma nat_text_hd: "is_digit (hd (nat_text n))"
  using nat_text_digits [of n] nat_text_nonempty [of n]
  by (cases "nat_text n") auto

lemma parse_u64_nat_text: "n < 2 ^ 64 \<Longrightarrow> parse_u64 (nat_text n) = Some n"
proof -
  assume n: "n < 2 ^ 64"
  have plus: "\<not> is_digit (CHR ''+'')" by (simp add: is_digit_range)
  obtain c r where cr: "nat_text n = c # r" by (cases "nat_text n") auto
  with nat_text_hd [of n] plus have "c \<noteq> CHR ''+''" by auto
  with cr have "(case nat_text n of [] \<Rightarrow> [] | c # r \<Rightarrow> if c = CHR ''+'' then r else nat_text n) = nat_text n"
    by simp
  with n show ?thesis
    unfolding parse_u64_def by (simp add: nat_text_digits digits_value_nat_text del: power_numeral)
qed

subsection \<open>Machine integers\<close>

definition u64_max :: nat where
  "u64_max = 2 ^ 64 - 1"

text \<open>\<open>u64\<close> addition as a release build computes it, and the checked multiplications and additions.\<close>

definition u64_add :: "nat \<Rightarrow> nat \<Rightarrow> nat" where
  "u64_add a b = (a + b) mod 2 ^ 64"

definition overflowing_mul :: "nat \<Rightarrow> nat \<Rightarrow> nat \<times> bool" where
  "overflowing_mul a b = ((a * b) mod 2 ^ 64, 2 ^ 64 \<le> a * b)"

definition overflowing_add :: "nat \<Rightarrow> nat \<Rightarrow> nat \<times> bool" where
  "overflowing_add a b = ((a + b) mod 2 ^ 64, 2 ^ 64 \<le> a + b)"

lemma u64_add_small [simp]: "a + b < 2 ^ 64 \<Longrightarrow> u64_add a b = a + b"
  by (simp add: u64_add_def)

end
