(* ===== verification/String_Map.thy ===== *)
theory String_Map
  imports Prelude
begin

text \<open>
  The string-keyed maps of the kernel, as the association lists their iteration yields:
  \<open>indexmap::IndexMap\<close> and \<open>serde_json::Map\<close> (built with \<open>preserve_order\<close>) keep a key where it was
  first inserted, \<open>BTreeMap\<close> keeps its keys in order. Looking a key up is \<open>map_of\<close>. What the
  clients rely on is stated once, in the locale \<open>entry_map\<close>, and both maps interpret it.
\<close>

type_synonym 'a smap = "(string \<times> 'a) list"

definition keys :: "'a smap \<Rightarrow> string list" where
  "keys m = map fst m"

definition contains_key :: "'a smap \<Rightarrow> string \<Rightarrow> bool" where
  "contains_key m k \<longleftrightarrow> map_of m k \<noteq> None"

fun index_insert :: "string \<Rightarrow> 'a \<Rightarrow> 'a smap \<Rightarrow> 'a smap" where
  "index_insert k v [] = [(k, v)]"
| "index_insert k v ((k', v') # m) =
     (if k = k' then (k', v) # m else (k', v') # index_insert k v m)"

fun btree_insert :: "string \<Rightarrow> 'a \<Rightarrow> 'a smap \<Rightarrow> 'a smap" where
  "btree_insert k v [] = [(k, v)]"
| "btree_insert k v ((k', v') # m) =
     (if k < k' then (k, v) # (k', v') # m
      else if k = k' then (k', v) # m
      else (k', v') # btree_insert k v m)"

definition remove_key :: "string \<Rightarrow> 'a smap \<Rightarrow> 'a smap" where
  "remove_key k m = filter (\<lambda>(k', _). k' \<noteq> k) m"

text \<open>\<open>members_by_name\<close> and its kin: the entries by key, equal keys in the order they were.\<close>

definition by_name :: "'a smap \<Rightarrow> 'a smap" where
  "by_name m = sort_key fst m"

definition index_map :: "'a smap \<Rightarrow> bool" where
  "index_map m \<longleftrightarrow> distinct (map fst m)"

definition btree_map :: "'a smap \<Rightarrow> bool" where
  "btree_map m \<longleftrightarrow> sorted_wrt (<) (map fst m)"

subsection \<open>The interface\<close>

locale entry_map =
  fixes insert_entry :: "string \<Rightarrow> 'a \<Rightarrow> 'a smap \<Rightarrow> 'a smap"
    and valid :: "'a smap \<Rightarrow> bool"
  assumes valid_empty: "valid []"
    and valid_distinct: "valid m \<Longrightarrow> distinct (map fst m)"
    and valid_insert: "valid m \<Longrightarrow> valid (insert_entry k v m)"
    and get_insert: "valid m \<Longrightarrow> map_of (insert_entry k v m) = (map_of m)(k \<mapsto> v)"
begin

definition extend :: "'a smap \<Rightarrow> 'a smap \<Rightarrow> 'a smap" where
  "extend m es = fold (\<lambda>(k, v). insert_entry k v) es m"

lemma valid_extend: "valid m \<Longrightarrow> valid (extend m es)"
  unfolding extend_def by (induction es arbitrary: m) (auto simp: valid_insert)

lemma get_extend: "valid m \<Longrightarrow> map_of (extend m es) = map_of m ++ map_of (rev es)"
  unfolding extend_def
proof (induction es arbitrary: m)
  case Nil
  then show ?case by simp
next
  case (Cons e es)
  obtain k v where e: "e = (k, v)" by (cases e)
  from Cons.prems have "valid (insert_entry k v m)" by (rule valid_insert)
  from Cons.IH [OF this] Cons.prems show ?case
    by (simp add: e get_insert fun_eq_iff map_add_def split: option.splits)
qed

lemma keys_insert: "valid m \<Longrightarrow> fst ` set (insert_entry k v m) = insert k (fst ` set m)"
  using get_insert [of m k v] by (simp add: dom_map_of_conv_image_fst [symmetric])

lemma insert_same:
  "valid m \<Longrightarrow> map_of m k = Some v \<Longrightarrow> map_of (insert_entry k v m) = map_of m"
  by (simp add: get_insert fun_upd_idem)

lemma insert_commute:
  "valid m \<Longrightarrow> k \<noteq> l \<Longrightarrow>
   map_of (insert_entry k v (insert_entry l w m)) = map_of (insert_entry l w (insert_entry k v m))"
  by (simp add: get_insert valid_insert fun_upd_twist)

end

subsection \<open>Both maps keep the promise\<close>

lemma map_of_index_insert: "map_of (index_insert k v m) = (map_of m)(k \<mapsto> v)"
  by (induction k v m rule: index_insert.induct) (auto simp: fun_eq_iff)

lemma fst_index_insert: "fst ` set (index_insert k v m) = insert k (fst ` set m)"
  by (induction k v m rule: index_insert.induct) auto

lemma index_map_insert: "index_map m \<Longrightarrow> index_map (index_insert k v m)"
  unfolding index_map_def
proof (induction k v m rule: index_insert.induct)
  case (1 k v)
  then show ?case by simp
next
  case (2 k v k' v' m)
  have "fst ` set (index_insert k v m) = insert k (fst ` set m)" by (rule fst_index_insert)
  with 2 show ?case by (auto simp: image_iff)
qed

lemma fst_btree_insert: "fst ` set (btree_insert k v m) = insert k (fst ` set m)"
  by (induction k v m rule: btree_insert.induct) auto

lemma btree_map_insert: "btree_map m \<Longrightarrow> btree_map (btree_insert k v m)"
  unfolding btree_map_def
proof (induction k v m rule: btree_insert.induct)
  case (1 k v)
  then show ?case by simp
next
  case (2 k v k' v' m)
  have keys: "fst ` set (btree_insert k v m) = insert k (fst ` set m)" by (rule fst_btree_insert)
  from 2(2) have lt: "\<forall>x \<in> set m. k' < fst x" by simp
  show ?case
  proof (cases "k < k'")
    case True
    with 2(2) show ?thesis by (auto dest: less_trans)
  next
    case False
    show ?thesis
    proof (cases "k = k'")
      case True
      with 2(2) show ?thesis by simp
    next
      case neq: False
      with False have "k' < k" by simp
      have "\<forall>x \<in> set (btree_insert k v m). k' < fst x"
      proof
        fix x assume "x \<in> set (btree_insert k v m)"
        then have "fst x \<in> insert k (fst ` set m)" using keys by blast
        with lt \<open>k' < k\<close> show "k' < fst x" by auto
      qed
      with False neq 2 show ?thesis by simp
    qed
  qed
qed

lemma map_of_btree_insert: "btree_map m \<Longrightarrow> map_of (btree_insert k v m) = (map_of m)(k \<mapsto> v)"
proof (induction k v m rule: btree_insert.induct)
  case (1 k v)
  then show ?case by (simp add: fun_eq_iff)
next
  case (2 k v k' v' m)
  then have "btree_map m" by (simp add: btree_map_def)
  with 2 show ?case by (auto simp: fun_eq_iff)
qed

lemma btree_map_index_map: "btree_map m \<Longrightarrow> index_map m"
  unfolding btree_map_def index_map_def by (simp add: strict_sorted_iff)

interpretation index: entry_map index_insert index_map
  by unfold_locales
    (auto simp: index_map_insert map_of_index_insert, auto simp: index_map_def)

interpretation btree: entry_map btree_insert btree_map
  by unfold_locales
    (auto simp: btree_map_insert map_of_btree_insert,
     auto simp: btree_map_index_map [unfolded index_map_def] btree_map_def)

subsection \<open>Entries\<close>

lemma smap_size [termination_simp]:
  "(k, v) \<in> set m \<Longrightarrow> g v < size_list (size_prod f g) m"
  by (induction m) auto

lemma smap_size_le [termination_simp]:
  "(k, v) \<in> set m \<Longrightarrow> g v \<le> size_list (size_prod f g) m"
  using smap_size [of k v m g f] by simp

lemma set_by_name [simp]: "set (by_name m) = set m"
  by (simp add: by_name_def)

lemma by_name_btree: "btree_map m \<Longrightarrow> by_name m = m"
  unfolding by_name_def btree_map_def
  by (intro sort_key_id_if_sorted) (simp add: strict_sorted_imp_sorted)

lemma map_of_by_name: "index_map m \<Longrightarrow> map_of (by_name m) = map_of m"
proof -
  assume m: "index_map m"
  then have "distinct (map fst (by_name m))"
    by (simp add: index_map_def by_name_def distinct_map)
  with m show ?thesis
    unfolding index_map_def by (intro map_of_inject_set [THEN iffD2]) simp_all
qed

lemma map_of_Some_iff: "index_map m \<Longrightarrow> map_of m k = Some v \<longleftrightarrow> (k, v) \<in> set m"
  by (simp add: index_map_def)

end
