(* ===== verification/Json.thy ===== *)
theory Json
  imports String_Map "HOL-Library.Word"
begin

text \<open>
  JSON values as the kernel holds them (\<open>serde_json::Value\<close>, with \<open>preserve_order\<close>) and the two
  equalities the code decides with: \<open>==\<close>, and the shape language's numeric rule, under which \<open>1\<close> and
  \<open>1.0\<close> are one value (\<open>value_eq\<close> of engine/kernel/src/subsumption/compare.rs, \<open>values_equal\<close> of
  engine/kernel/src/shape/parse.rs).

  A number is what \<open>serde_json\<close> keeps: an unsigned or a negative 64-bit integer, or a finite
  double. A double is its IEEE 754 bit pattern; \<open>as_f64\<close> rounds an integer to the nearest double,
  ties to even. The record \<open>lib\<close> holds the third-party functions the kernel calls.
\<close>

subsection \<open>Doubles\<close>

type_synonym f64 = "64 word"

definition f64_exponent :: "f64 \<Rightarrow> nat" where
  "f64_exponent w = unat (drop_bit 52 w) mod 2048"

definition f64_fraction :: "f64 \<Rightarrow> nat" where
  "f64_fraction w = unat w mod 2 ^ 52"

definition f64_negative :: "f64 \<Rightarrow> bool" where
  "f64_negative w \<longleftrightarrow> 2 ^ 63 \<le> unat w"

definition f64_is_zero :: "f64 \<Rightarrow> bool" where
  "f64_is_zero w \<longleftrightarrow> unat w mod 2 ^ 63 = 0"

definition f64_finite :: "f64 \<Rightarrow> bool" where
  "f64_finite w \<longleftrightarrow> f64_exponent w < 2047"

text \<open>\<open>==\<close> of two finite doubles: equal bits, or both a zero.\<close>

definition f64_eq :: "f64 \<Rightarrow> f64 \<Rightarrow> bool" where
  "f64_eq a b \<longleftrightarrow> a = b \<or> (f64_is_zero a \<and> f64_is_zero b)"

lemma f64_eq_refl [simp, intro]: "f64_eq a a"
  by (simp add: f64_eq_def)

lemma f64_eq_sym: "f64_eq a b \<Longrightarrow> f64_eq b a"
  by (auto simp: f64_eq_def)

lemma f64_eq_trans: "f64_eq a b \<Longrightarrow> f64_eq b c \<Longrightarrow> f64_eq a c"
  by (auto simp: f64_eq_def)

fun bit_length :: "nat \<Rightarrow> nat" where
  "bit_length n = (if n = 0 then 0 else Suc (bit_length (n div 2)))"

declare bit_length.simps [simp del]

text \<open>\<open>u64 as f64\<close>: the significand is rounded to 53 bits, to nearest, ties to even; a carry out of
  the significand moves into the exponent field, as adding the bit patterns does.\<close>

definition f64_of_nat :: "nat \<Rightarrow> f64" where
  "f64_of_nat n =
     (if n = 0 then 0
      else let k = bit_length n - 1 in
        if k \<le> 52 then word_of_nat ((k + 1023) * 2 ^ 52 + (n * 2 ^ (52 - k) - 2 ^ 52))
        else let s = k - 52; q = n div 2 ^ s; r = n mod 2 ^ s; half = 2 ^ (s - 1);
                 q' = (if half < r \<or> (r = half \<and> odd q) then q + 1 else q)
             in word_of_nat ((k + 1023) * 2 ^ 52 + (q' - 2 ^ 52)))"

definition f64_neg :: "f64 \<Rightarrow> f64" where
  "f64_neg w = (if f64_negative w then w - 2 ^ 63 else w + 2 ^ 63)"

text \<open>A finite double is (sign) \<open>m * 2 ^ (e - 1075)\<close>.\<close>

definition f64_mantissa :: "f64 \<Rightarrow> nat" where
  "f64_mantissa w = (if f64_exponent w = 0 then f64_fraction w else f64_fraction w + 2 ^ 52)"

definition f64_scale :: "f64 \<Rightarrow> nat" where
  "f64_scale w = max 1 (f64_exponent w)"

text \<open>\<open>f as u64\<close>: towards zero, saturating at both ends.\<close>

definition f64_to_u64 :: "f64 \<Rightarrow> nat" where
  "f64_to_u64 w =
     (if f64_negative w then 0
      else min u64_max
        (if 1075 \<le> f64_scale w then f64_mantissa w * 2 ^ (f64_scale w - 1075)
         else f64_mantissa w div 2 ^ (1075 - f64_scale w)))"

text \<open>
  \<open>Display\<close> for \<open>f64\<close>: the shortest decimal digits that read back as the double, the closest of those
  when there are several, with no exponent. \<open>a / b\<close> is the magnitude and \<open>(4a - u) / 4b\<close> to
  \<open>(4a + v) / 4b\<close> the interval that reads back as it; the search takes the largest power of ten
  that has a multiple in the interval.
\<close>

definition f64_interval :: "f64 \<Rightarrow> nat \<times> nat \<times> nat \<times> nat \<times> bool" where
  "f64_interval w =
     (let m = f64_mantissa w; e = f64_scale w;
          a = (if 1075 \<le> e then m * 2 ^ (e - 1075) else m);
          b = (if 1075 \<le> e then 1 else 2 ^ (1075 - e));
          ulp = (if 1075 \<le> e then 2 ^ (e - 1075) else 1)
      in (a, b, (if f64_fraction w = 0 \<and> 1 < f64_exponent w then ulp else 2 * ulp), 2 * ulp, even m))"

definition f64_digits_at :: "f64 \<Rightarrow> int \<Rightarrow> nat option" where
  "f64_digits_at w k =
     (let (a, b, u, v, closed) = f64_interval w;
          p = (if 0 \<le> k then 10 ^ nat k else 1); q = (if 0 \<le> k then 1 else 10 ^ nat (- k));
          lo = 4 * a * q - u * q; hi = 4 * a * q + v * q;
          inside = (\<lambda>d. let x = d * p * 4 * b in 0 < d \<and> (if closed then lo \<le> x \<and> x \<le> hi else lo < x \<and> x < hi));
          d = (a * q) div (b * p);
          near = (\<lambda>x. let y = x * p * b in if y \<le> a * q then a * q - y else y - a * q)
      in if inside d \<and> inside (d + 1) then Some (if near (d + 1) \<le> near d then d + 1 else d)
         else if inside d then Some d else if inside (d + 1) then Some (d + 1) else None)"

definition f64_shortest :: "f64 \<Rightarrow> nat \<times> int" where
  "f64_shortest w =
     (case filter (\<lambda>k. f64_digits_at w k \<noteq> None) (map (\<lambda>i. 309 - int i) [0..<640]) of
        [] \<Rightarrow> (0, 0)
      | k # _ \<Rightarrow> (the (f64_digits_at w k), k))"

definition f64_text :: "f64 \<Rightarrow> string" where
  "f64_text w =
     (if f64_negative w then ''-'' else []) @
     (if f64_is_zero w then ''0''
      else case f64_shortest w of (d, k) \<Rightarrow>
        let s = nat_text d; n = nat (- k) in
        if 0 \<le> k then s @ replicate (nat k) (CHR ''0'')
        else if n < length s then take (length s - n) s @ ''.'' @ drop (length s - n) s
        else ''0.'' @ replicate (n - length s) (CHR ''0'') @ s)"

subsection \<open>Values\<close>

datatype number = PosInt nat | NegInt int | Float f64

datatype json =
    JNull
  | JBool bool
  | JNumber number
  | JString string
  | JArray "json list"
  | JObject "(string \<times> json) list"

fun as_f64 :: "number \<Rightarrow> f64" where
  "as_f64 (PosInt n) = f64_of_nat n"
| "as_f64 (NegInt i) = f64_neg (f64_of_nat (nat (- i)))"
| "as_f64 (Float f) = f"

fun as_u64 :: "number \<Rightarrow> nat option" where
  "as_u64 (PosInt n) = Some n"
| "as_u64 _ = None"

text \<open>What a \<open>Number\<close> can hold, and a \<open>Value\<close>: each object's keys are distinct, as a map's are.\<close>

fun wf_number :: "number \<Rightarrow> bool" where
  "wf_number (PosInt n) = (n < 2 ^ 64)"
| "wf_number (NegInt i) = (- (2 ^ 63) \<le> i \<and> i < 0)"
| "wf_number (Float f) = f64_finite f"

fun wf_json :: "json \<Rightarrow> bool" where
  "wf_json (JNumber n) = wf_number n"
| "wf_json (JArray xs) = list_all wf_json xs"
| "wf_json (JObject m) = (index_map m \<and> list_all (\<lambda>(k, v). wf_json v) m)"
| "wf_json _ = True"

fun number_eq :: "number \<Rightarrow> number \<Rightarrow> bool" where
  "number_eq (PosInt a) (PosInt b) = (a = b)"
| "number_eq (NegInt a) (NegInt b) = (a = b)"
| "number_eq (Float a) (Float b) = f64_eq a b"
| "number_eq _ _ = False"

text \<open>\<open>==\<close> on \<open>Value\<close>: objects compare as maps, in any order.\<close>

fun json_eq :: "json \<Rightarrow> json \<Rightarrow> bool" where
  "json_eq JNull JNull = True"
| "json_eq (JBool a) (JBool b) = (a = b)"
| "json_eq (JNumber a) (JNumber b) = number_eq a b"
| "json_eq (JString a) (JString b) = (a = b)"
| "json_eq (JArray x) (JArray y) = all2 json_eq x y"
| "json_eq (JObject x) (JObject y) =
     (length x = length y
      \<and> list_all (\<lambda>(k, v). case map_of y k of None \<Rightarrow> False | Some w \<Rightarrow> json_eq v w) x)"
| "json_eq _ _ = False"

text \<open>Structural equality with the shape language's numeric rule.\<close>

fun value_eq :: "json \<Rightarrow> json \<Rightarrow> bool" where
  "value_eq (JNumber x) (JNumber y) = f64_eq (as_f64 x) (as_f64 y)"
| "value_eq (JArray x) (JArray y) = all2 value_eq x y"
| "value_eq (JObject x) (JObject y) =
     (length x = length y
      \<and> list_all (\<lambda>(k, v). case map_of y k of None \<Rightarrow> False | Some w \<Rightarrow> value_eq v w) x)"
| "value_eq JNull JNull = True"
| "value_eq (JBool a) (JBool b) = (a = b)"
| "value_eq (JString a) (JString b) = (a = b)"
| "value_eq _ _ = False"

definition is_written_integer :: "number \<Rightarrow> bool" where
  "is_written_integer n = (case n of Float _ \<Rightarrow> False | _ \<Rightarrow> True)"

subsection \<open>What the kernel calls outside its own source\<close>

text \<open>
  \<open>json_text\<close> is \<open>serde_json\<close>'s \<open>Value::to_string\<close>; \<open>number_text\<close> its \<open>Number::to_string\<close>;
  \<open>regex\<close> is \<open>Regex::new\<close> followed by \<open>is_match\<close>, or the error's text; \<open>validate_datetime\<close> is
  \<open>pact_models::time_utils::validate_datetime\<close> on a value and a format, an error's text when it
  fails; \<open>semver_parses\<close> is whether \<open>semver::Version::parse\<close> succeeds; the two \<open>base64\<close> functions
  are the standard engine's. \<open>lower_case\<close> and \<open>upper_case\<close> are Unicode's tables.
\<close>

record lib =
  json_text :: "json \<Rightarrow> string"
  number_text :: "number \<Rightarrow> string"
  regex :: "string \<Rightarrow> string + (string \<Rightarrow> bool)"
  validate_datetime :: "string \<Rightarrow> string \<Rightarrow> string option"
  semver_parses :: "string \<Rightarrow> bool"
  base64_encode :: "string \<Rightarrow> string"
  base64_decode :: "string \<Rightarrow> string option"
  lower_case :: "string \<Rightarrow> string"
  upper_case :: "string \<Rightarrow> string"

text \<open>One choice of these functions, for the examples that need concrete ones.\<close>

definition example_number_text :: "number \<Rightarrow> string" where
  "example_number_text n =
     (case n of
        PosInt k \<Rightarrow> nat_text k
      | NegInt i \<Rightarrow> ''-'' @ nat_text (nat (- i))
      | Float f \<Rightarrow> nat_text (unat f) @ ''f'')"

fun example_json_text :: "json \<Rightarrow> string" where
  "example_json_text JNull = ''null''"
| "example_json_text (JBool b) = (if b then ''true'' else ''false'')"
| "example_json_text (JNumber n) = example_number_text n"
| "example_json_text (JString s) = [CHR 0x22] @ s @ [CHR 0x22]"
| "example_json_text (JArray xs) = ''['' @ join_with '','' (map example_json_text xs) @ '']''"
| "example_json_text (JObject m) =
     ''{'' @ join_with '','' (map (\<lambda>(k, v). k @ '':'' @ example_json_text v) m) @ ''}''"

definition example_lib :: lib where
  "example_lib =
     \<lparr>json_text = example_json_text, number_text = example_number_text,
      regex = (\<lambda>p. Inr (\<lambda>s. contains_text s p)), validate_datetime = (\<lambda>_ _. None),
      semver_parses = (\<lambda>s. s \<noteq> []), base64_encode = id, base64_decode = Some,
      lower_case = to_ascii_lowercase, upper_case = id\<rparr>"

end
