(* ===== verification/Shape_Model.thy ===== *)
theory Shape_Model
  imports Json
begin

text \<open>
  The shape document model, engine/kernel/src/shape/model.rs: one node of a shape tree, its operator
  and the operator's members, and the dimension-path syntax of engine/kernel/src/shape/path.rs, by
  which the variant space, the compiler, the generator and the checker address a node.

  A Rust \<open>IndexMap\<close> or \<open>BTreeMap\<close> of nodes is an association list in its iteration order. The
  well-formedness the shape parser establishes is \<open>wf_shape\<close>.
\<close>

record example =
  ex_value :: json
  ex_encoded :: "string option"

datatype value_kind = VK_String | VK_Number | VK_Integer | VK_Decimal | VK_Boolean | VK_Null

datatype temporal_kind = TK_DateTime | TK_Date | TK_Time

datatype shape =
    ShapeNode (sn_example: "example option") (sn_generator: "json option") (sn_kind: shape_kind)
and shape_kind =
    Core core_shape
  | Component string "(string \<times> json) list"
and core_shape =
    Any
  | Equality
  | Type
  | Kind value_kind
  | NotEmpty
  | Regex string
  | Temporal temporal_kind "string option"
  | Include string
  | ContentType string
  | Semver
  | Object "(string \<times> shape) list"
  | ArrayOf "shape list"
  | EachLike shape nat "nat option"
  | EachEntry "shape option" shape nat "nat option"
  | Contains "shape list"
  | Optional shape
  | Forbidden
  | Nullable shape
  | AnyOf "json list"
  | OneOf string "(string \<times> shape) list" "string option"

fun value_kind_name :: "value_kind \<Rightarrow> string" where
  "value_kind_name VK_String = ''string''"
| "value_kind_name VK_Number = ''number''"
| "value_kind_name VK_Integer = ''integer''"
| "value_kind_name VK_Decimal = ''decimal''"
| "value_kind_name VK_Boolean = ''boolean''"
| "value_kind_name VK_Null = ''null''"

fun temporal_kind_name :: "temporal_kind \<Rightarrow> string" where
  "temporal_kind_name TK_DateTime = ''datetime''"
| "temporal_kind_name TK_Date = ''date''"
| "temporal_kind_name TK_Time = ''time''"

fun core_operator_name :: "core_shape \<Rightarrow> string" where
  "core_operator_name Any = ''any''"
| "core_operator_name Equality = ''equality''"
| "core_operator_name Type = ''type''"
| "core_operator_name (Kind k) = value_kind_name k"
| "core_operator_name NotEmpty = ''not-empty''"
| "core_operator_name (Regex _) = ''regex''"
| "core_operator_name (Temporal k _) = temporal_kind_name k"
| "core_operator_name (Include _) = ''include''"
| "core_operator_name (ContentType _) = ''content-type''"
| "core_operator_name Semver = ''semver''"
| "core_operator_name (Object _) = ''object''"
| "core_operator_name (ArrayOf _) = ''array''"
| "core_operator_name (EachLike _ _ _) = ''each-like''"
| "core_operator_name (EachEntry _ _ _ _) = ''each-entry''"
| "core_operator_name (Contains _) = ''contains''"
| "core_operator_name (Optional _) = ''optional''"
| "core_operator_name Forbidden = ''forbidden''"
| "core_operator_name (Nullable _) = ''nullable''"
| "core_operator_name (AnyOf _) = ''any-of''"
| "core_operator_name (OneOf _ _ _) = ''one-of''"

fun shape_operator :: "shape \<Rightarrow> string" where
  "shape_operator (ShapeNode _ _ (Core core)) = core_operator_name core"
| "shape_operator (ShapeNode _ _ (Component operator _)) = operator"

fun admits_absent :: "shape \<Rightarrow> bool" where
  "admits_absent (ShapeNode _ _ (Core (Optional _))) = True"
| "admits_absent (ShapeNode _ _ (Core Forbidden)) = True"
| "admits_absent _ = False"

definition core_operators :: "string list" where
  "core_operators =
     [''any'', ''equality'', ''type'', ''string'', ''number'', ''integer'', ''decimal'', ''boolean'',
      ''null'', ''regex'', ''datetime'', ''date'', ''time'', ''include'', ''content-type'',
      ''semver'', ''not-empty'', ''object'', ''array'', ''each-like'', ''each-entry'', ''contains'',
      ''optional'', ''nullable'', ''forbidden'', ''any-of'', ''one-of'']"

definition members_by_name :: "shape smap \<Rightarrow> shape smap" where
  "members_by_name members = by_name members"

subsection \<open>Dimension paths\<close>

definition path_root :: "string \<Rightarrow> string \<Rightarrow> string" where
  "path_root part slot = part @ ''.'' @ slot"

definition path_member :: "string \<Rightarrow> string \<Rightarrow> string" where
  "path_member base name = base @ ''.'' @ name"

definition each_like_item :: "string \<Rightarrow> string" where
  "each_like_item base = base @ ''[*]''"

definition each_entry_value :: "string \<Rightarrow> string" where
  "each_entry_value base = base @ ''{*}''"

definition each_entry_key :: "string \<Rightarrow> string" where
  "each_entry_key base = base @ ''{key}''"

definition path_array_index :: "string \<Rightarrow> nat \<Rightarrow> string" where
  "path_array_index base index = base @ ''['' @ nat_text index @ '']''"

definition path_alternative :: "string \<Rightarrow> string \<Rightarrow> string" where
  "path_alternative base name = base @ ''@'' @ name"

definition dimension_id :: "string \<Rightarrow> string \<Rightarrow> string" where
  "dimension_id path facet = path @ ''#'' @ facet"

lemma dimension_id_inject:
  assumes "CHR ''#'' \<notin> set f" and "CHR ''#'' \<notin> set g"
  shows "dimension_id p f = dimension_id q g \<longleftrightarrow> p = q \<and> f = g"
  using last_separator_unique [OF assms, of p q] by (auto simp: dimension_id_def)

subsection \<open>Sub-shapes\<close>

text \<open>The nodes a shape node holds, in the order the code visits them.\<close>

fun core_children :: "core_shape \<Rightarrow> shape list" where
  "core_children (Object ms) = map snd ms"
| "core_children (ArrayOf es) = es"
| "core_children (EachLike s _ _) = [s]"
| "core_children (EachEntry k v _ _) = (case k of None \<Rightarrow> [v] | Some k \<Rightarrow> [k, v])"
| "core_children (Contains es) = es"
| "core_children (Optional s) = [s]"
| "core_children (Nullable s) = [s]"
| "core_children (OneOf _ as _) = map snd as"
| "core_children _ = []"

fun shape_children :: "shape \<Rightarrow> shape list" where
  "shape_children (ShapeNode _ _ (Core c)) = core_children c"
| "shape_children (ShapeNode _ _ (Component _ _)) = []"

lemma smap_child_size: "s \<in> snd ` set ms \<Longrightarrow> size s < Suc (size_list (size_prod (\<lambda>_. 0) size) ms)"
proof -
  assume "s \<in> snd ` set ms"
  then obtain n where "(n, s) \<in> set ms" by auto
  then have "size s < size_list (size_prod (\<lambda>_. 0) size) ms" by (rule smap_size)
  then show ?thesis by simp
qed

lemma core_children_size: "c \<in> set (core_children core) \<Longrightarrow> size c < size core"
  by (cases core) (auto simp: smap_child_size size_list_elem split: option.splits)

lemma shape_children_size: "c \<in> set (shape_children s) \<Longrightarrow> size c < size s"
proof (cases s rule: shape_children.cases)
  case (1 ex g core)
  assume "c \<in> set (shape_children s)"
  with 1 have "size c < size core" by (simp add: core_children_size)
  with 1 show ?thesis by simp
qed simp

lemma shape_tree_induct [case_names node]:
  assumes "\<And>s. (\<And>c. c \<in> set (shape_children s) \<Longrightarrow> P c) \<Longrightarrow> P s"
  shows "P s"
proof (induction s rule: measure_induct_rule [where f = size])
  case (less s)
  show ?case by (rule assms) (rule less, rule shape_children_size)
qed

text \<open>A property of every node of a shape tree.\<close>

function every_shape :: "(shape \<Rightarrow> bool) \<Rightarrow> shape \<Rightarrow> bool" where
  "every_shape P s = (P s \<and> list_all (every_shape P) (shape_children s))"
  by pat_completeness auto
termination
  by (relation "measure (\<lambda>(_, s). size s)") (auto dest: shape_children_size)

declare every_shape.simps [simp del]

lemma every_shape_here: "every_shape P s \<Longrightarrow> P s"
  by (simp add: every_shape.simps)

lemma every_shape_child: "every_shape P s \<Longrightarrow> c \<in> set (shape_children s) \<Longrightarrow> every_shape P c"
  by (subst (asm) every_shape.simps) (simp add: list_all_iff)

lemma enumerate_member: "(i, x) \<in> set (List.enumerate n xs) \<Longrightarrow> x \<in> set xs"
  by (auto simp: in_set_enumerate_eq)

text \<open>A shape induction with one case per operator that has sub-shapes.\<close>

fun leaf_operator :: "core_shape \<Rightarrow> bool" where
  "leaf_operator (Object _) = False"
| "leaf_operator (ArrayOf _) = False"
| "leaf_operator (EachLike _ _ _) = False"
| "leaf_operator (EachEntry _ _ _ _) = False"
| "leaf_operator (Contains _) = False"
| "leaf_operator (Optional _) = False"
| "leaf_operator (Nullable _) = False"
| "leaf_operator (OneOf _ _ _) = False"
| "leaf_operator _ = True"

lemma shape_cases_induct [case_names component leaf object array each_like each_entry contains optional nullable one_of]:
  assumes "\<And>ex g op raw. P (ShapeNode ex g (Component op raw))"
    and "\<And>ex g c. leaf_operator c \<Longrightarrow> P (ShapeNode ex g (Core c))"
    and "\<And>ex g ms. (\<And>n m. (n, m) \<in> set ms \<Longrightarrow> P m) \<Longrightarrow> P (ShapeNode ex g (Core (Object ms)))"
    and "\<And>ex g es. (\<And>e. e \<in> set es \<Longrightarrow> P e) \<Longrightarrow> P (ShapeNode ex g (Core (ArrayOf es)))"
    and "\<And>ex g i mn mx. P i \<Longrightarrow> P (ShapeNode ex g (Core (EachLike i mn mx)))"
    and "\<And>ex g k v mn mx. (\<And>k'. k = Some k' \<Longrightarrow> P k') \<Longrightarrow> P v \<Longrightarrow>
           P (ShapeNode ex g (Core (EachEntry k v mn mx)))"
    and "\<And>ex g es. (\<And>e. e \<in> set es \<Longrightarrow> P e) \<Longrightarrow> P (ShapeNode ex g (Core (Contains es)))"
    and "\<And>ex g s. P s \<Longrightarrow> P (ShapeNode ex g (Core (Optional s)))"
    and "\<And>ex g s. P s \<Longrightarrow> P (ShapeNode ex g (Core (Nullable s)))"
    and "\<And>ex g d as df. (\<And>n m. (n, m) \<in> set as \<Longrightarrow> P m) \<Longrightarrow>
           P (ShapeNode ex g (Core (OneOf d as df)))"
  shows "P s"
proof (induction s rule: shape_tree_induct)
  case (node s)
  obtain ex g k where s: "s = ShapeNode ex g k" by (cases s)
  show ?case
  proof (cases k)
    case (Core c)
    have sub: "\<And>x. x \<in> set (core_children c) \<Longrightarrow> P x"
      using node by (simp add: s Core)
    show ?thesis
      unfolding s Core
    proof (cases c)
      case (Object ms)
      show "P (ShapeNode ex g (Core c))"
        unfolding Object by (rule assms(3)) (use sub in \<open>force simp: Object\<close>)
    next
      case (EachEntry k v mn mx)
      show "P (ShapeNode ex g (Core c))"
        unfolding EachEntry by (rule assms(6)) (use sub in \<open>auto simp: EachEntry split: option.splits\<close>)
    next
      case (OneOf d as df)
      show "P (ShapeNode ex g (Core c))"
        unfolding OneOf by (rule assms(10)) (use sub in \<open>force simp: OneOf\<close>)
    qed (use sub in \<open>auto intro!: assms(2,4,5,7,8,9)\<close>)
  next
    case (Component op raw)
    then show ?thesis by (simp add: s assms(1))
  qed
qed

end
