(* ===== verification/Plan_Model.thy ===== *)
theory Plan_Model
  imports Shape_Model
begin

text \<open>
  The plan document model, engine/kernel/src/plan/model.rs: plan nodes, the literals they carry, and
  the structured document form with its reader. The Rust struct \<open>Node\<close> has one field, its kind, so a
  node here is its kind. Reading a document yields \<open>Inl\<close> the error text or \<open>Inr\<close> the node.
\<close>

definition grammar_version :: string where
  "grammar_version = ''v1''"

datatype document_kind =
  DK_Null | DK_Boolean | DK_Number | DK_String | DK_Array | DK_Object | DK_Bytes | DK_Entry

record literal =
  l_of :: document_kind
  l_value :: json
  l_encoded :: "string option"
  l_key :: "string option"

datatype node =
    Container "string option" "node list"
  | Action string "node list"
  | Value literal
  | Resolve string
  | ResolveCurrent string
  | Pipeline "node list"
  | Splat "node list"
  | Annotation string

record plan =
  plan_grammar :: string
  plan_root :: node
  plan_variant :: "string option"

subsection \<open>Literals\<close>

definition literal_null :: literal where
  "literal_null = \<lparr>l_of = DK_Null, l_value = JNull, l_encoded = None, l_key = None\<rparr>"

definition literal_string :: "string \<Rightarrow> literal" where
  "literal_string s = \<lparr>l_of = DK_String, l_value = JString s, l_encoded = None, l_key = None\<rparr>"

definition literal_number :: "nat \<Rightarrow> literal" where
  "literal_number n = \<lparr>l_of = DK_Number, l_value = JNumber (PosInt n), l_encoded = None, l_key = None\<rparr>"

definition literal_bytes :: "lib \<Rightarrow> string \<Rightarrow> literal" where
  "literal_bytes L bytes =
     \<lparr>l_of = DK_Bytes, l_value = JString (base64_encode L bytes), l_encoded = Some ''base64'', l_key = None\<rparr>"

fun json_document_kind :: "json \<Rightarrow> document_kind" where
  "json_document_kind JNull = DK_Null"
| "json_document_kind (JBool _) = DK_Boolean"
| "json_document_kind (JNumber _) = DK_Number"
| "json_document_kind (JString _) = DK_String"
| "json_document_kind (JArray _) = DK_Array"
| "json_document_kind (JObject _) = DK_Object"

definition literal_from_json :: "json \<Rightarrow> literal" where
  "literal_from_json v = \<lparr>l_of = json_document_kind v, l_value = v, l_encoded = None, l_key = None\<rparr>"

definition literal_from_example :: "example \<Rightarrow> literal" where
  "literal_from_example ex =
     (if ex_encoded ex = Some ''base64''
      then \<lparr>l_of = DK_Bytes, l_value = ex_value ex, l_encoded = Some ''base64'', l_key = None\<rparr>
      else literal_from_json (ex_value ex))"

subsection \<open>The structured document form\<close>

fun document_kind_name :: "document_kind \<Rightarrow> string" where
  "document_kind_name DK_Null = ''null''"
| "document_kind_name DK_Boolean = ''boolean''"
| "document_kind_name DK_Number = ''number''"
| "document_kind_name DK_String = ''string''"
| "document_kind_name DK_Array = ''array''"
| "document_kind_name DK_Object = ''object''"
| "document_kind_name DK_Bytes = ''bytes''"
| "document_kind_name DK_Entry = ''entry''"

definition literal_json :: "literal \<Rightarrow> json" where
  "literal_json l =
     JObject ([(''of'', JString (document_kind_name (l_of l))), (''value'', l_value l)]
       @ (case l_encoded l of None \<Rightarrow> [] | Some t \<Rightarrow> [(''encoded'', JString t)])
       @ (case l_key l of None \<Rightarrow> [] | Some k \<Rightarrow> [(''key'', JString k)]))"

fun node_json :: "node \<Rightarrow> json" where
  "node_json (Container label children) =
     JObject ([(''kind'', JString ''container'')]
       @ (case label of None \<Rightarrow> [] | Some l \<Rightarrow> [(''label'', JString l)])
       @ [(''children'', JArray (map node_json children))])"
| "node_json (Action name children) =
     JObject [(''kind'', JString ''action''), (''name'', JString name),
              (''children'', JArray (map node_json children))]"
| "node_json (Value literal) =
     JObject [(''kind'', JString ''value''), (''value'', literal_json literal)]"
| "node_json (Resolve path) = JObject [(''kind'', JString ''resolve''), (''path'', JString path)]"
| "node_json (ResolveCurrent path) =
     JObject [(''kind'', JString ''resolve-current''), (''path'', JString path)]"
| "node_json (Pipeline children) =
     JObject [(''kind'', JString ''pipeline''), (''children'', JArray (map node_json children))]"
| "node_json (Splat children) =
     JObject [(''kind'', JString ''splat''), (''children'', JArray (map node_json children))]"
| "node_json (Annotation text) =
     JObject [(''kind'', JString ''annotation''), (''text'', JString text)]"

definition plan_json :: "plan \<Rightarrow> json" where
  "plan_json p =
     JObject ([(''grammar'', JString (plan_grammar p)), (''root'', node_json (plan_root p))]
       @ (case plan_variant p of None \<Rightarrow> [] | Some v \<Rightarrow> [(''variant'', JString v)]))"

definition quote1 :: "string \<Rightarrow> string" where
  "quote1 s = [CHR 0x27] @ s @ [CHR 0x27]"

text \<open>\<open>Value::get\<close> with a key, and \<open>as_str\<close>.\<close>

fun json_get :: "json \<Rightarrow> string \<Rightarrow> json option" where
  "json_get (JObject m) k = map_of m k"
| "json_get _ _ = None"

fun as_str :: "json \<Rightarrow> string option" where
  "as_str (JString s) = Some s"
| "as_str _ = None"

definition get_str :: "json \<Rightarrow> string \<Rightarrow> string option" where
  "get_str v k = Option.bind (json_get v k) as_str"

definition document_kind_of_name :: "string \<Rightarrow> document_kind option" where
  "document_kind_of_name s =
     map_of (map (\<lambda>k. (document_kind_name k, k))
       [DK_Null, DK_Boolean, DK_Number, DK_String, DK_Array, DK_Object, DK_Bytes, DK_Entry]) s"

definition read_literal :: "json \<Rightarrow> string + literal" where
  "read_literal v =
     (let name = (case get_str v ''of'' of None \<Rightarrow> ''null'' | Some s \<Rightarrow> s) in
      case document_kind_of_name name of
        None \<Rightarrow> Inl (''unknown literal kind '' @ quote1 name)
      | Some k \<Rightarrow>
          Inr \<lparr>l_of = k, l_value = (case json_get v ''value'' of None \<Rightarrow> JNull | Some x \<Rightarrow> x),
               l_encoded = get_str v ''encoded'', l_key = get_str v ''key''\<rparr>)"

text \<open>Collecting \<open>Result\<close>s: the first error wins.\<close>

fun collect :: "('e + 'a) list \<Rightarrow> 'e + 'a list" where
  "collect [] = Inr []"
| "collect (Inl e # rs) = Inl e"
| "collect (Inr x # rs) = map_sum id (\<lambda>xs. x # xs) (collect rs)"

lemma collect_Inr: "collect (map Inr xs) = Inr xs"
  by (induction xs) auto

text \<open>
  The reader visits a member of its document: each child it reads is inside the document, which is
  what its termination rests on.
\<close>

lemma json_get_size: "json_get v k = Some w \<Longrightarrow> size w < size v"
  by (cases v) (auto dest!: map_of_SomeD intro: less_SucI smap_size)

lemma json_get_array_size: "json_get v k = Some (JArray xs) \<Longrightarrow> x \<in> set xs \<Longrightarrow> size x < size v"
  using json_get_size [of v k "JArray xs"] size_list_elem [of x xs size] by simp

definition need_text :: "json \<Rightarrow> string \<Rightarrow> string \<Rightarrow> string + string" where
  "need_text v kind member =
     (case get_str v member of
        Some s \<Rightarrow> Inr s
      | None \<Rightarrow> Inl (''a '' @ quote1 kind @ '' node needs a '' @ quote1 member))"

definition sum_bind :: "'e + 'a \<Rightarrow> ('a \<Rightarrow> 'e + 'b) \<Rightarrow> 'e + 'b" where
  "sum_bind r f = (case r of Inl e \<Rightarrow> Inl e | Inr x \<Rightarrow> f x)"

lemma sum_bind_simps [simp]: "sum_bind (Inl e) f = Inl e" "sum_bind (Inr x) f = f x"
  by (simp_all add: sum_bind_def)

function node_from_json :: "json \<Rightarrow> string + node" where
  "node_from_json v =
     (case get_str v ''kind'' of
        None \<Rightarrow> Inl (''a node needs a '' @ quote1 ''kind'')
      | Some kind \<Rightarrow>
          let children = (case json_get v ''children'' of
                            Some (JArray xs) \<Rightarrow> collect (map node_from_json xs)
                          | _ \<Rightarrow> Inr [])
          in if kind = ''container'' then sum_bind children (\<lambda>cs. Inr (Container (get_str v ''label'') cs))
             else if kind = ''action'' then
               sum_bind (need_text v kind ''name'') (\<lambda>n. sum_bind children (\<lambda>cs. Inr (Action n cs)))
             else if kind = ''value'' then
               (case json_get v ''value'' of
                  None \<Rightarrow> Inl (''a '' @ quote1 ''value'' @ '' node needs a '' @ quote1 ''value'')
                | Some l \<Rightarrow> sum_bind (read_literal l) (\<lambda>l. Inr (Value l)))
             else if kind = ''resolve'' then sum_bind (need_text v kind ''path'') (\<lambda>p. Inr (Resolve p))
             else if kind = ''resolve-current'' then
               sum_bind (need_text v kind ''path'') (\<lambda>p. Inr (ResolveCurrent p))
             else if kind = ''pipeline'' then sum_bind children (\<lambda>cs. Inr (Pipeline cs))
             else if kind = ''splat'' then sum_bind children (\<lambda>cs. Inr (Splat cs))
             else if kind = ''annotation'' then
               sum_bind (need_text v kind ''text'') (\<lambda>t. Inr (Annotation t))
             else Inl (''unknown plan node kind '' @ quote1 kind))"
  by pat_completeness auto
termination
  by (relation "measure size") (auto dest: json_get_array_size)

declare node_from_json.simps [simp del]

lemma read_literal_json: "read_literal (literal_json l) = Inr l"
  by (cases l; cases "l_of l")
    (auto simp: read_literal_def literal_json_def get_str_def document_kind_of_name_def Let_def
      split: option.splits)

lemma node_from_json_node_json: "node_from_json (node_json n) = Inr n"
proof (induction n)
  case (Container label children)
  then have c: "map (node_from_json \<circ> node_json) children = map Inr children" by simp
  show ?case
    by (subst node_from_json.simps; cases label) (simp_all add: get_str_def c collect_Inr)
next
  case (Action name children)
  then have c: "map (node_from_json \<circ> node_json) children = map Inr children" by simp
  show ?case
    by (subst node_from_json.simps) (simp add: get_str_def c collect_Inr need_text_def)
next
  case (Pipeline children)
  then have c: "map (node_from_json \<circ> node_json) children = map Inr children" by simp
  show ?case
    by (subst node_from_json.simps) (simp add: get_str_def c collect_Inr)
next
  case (Splat children)
  then have c: "map (node_from_json \<circ> node_json) children = map Inr children" by simp
  show ?case
    by (subst node_from_json.simps) (simp add: get_str_def c collect_Inr)
qed (subst node_from_json.simps, simp add: get_str_def need_text_def read_literal_json)+

end
