(* ===== verification/Plan_Actions.thy ===== *)
theory Plan_Actions
  imports Plan_Model
begin

text \<open>
  The names of the core action set, engine/kernel/src/plan/actions.rs: the reserved namespaces, the
  table of core actions with each one's grammar v0 name and the least number of children it takes,
  and how a name is read under a grammar.
\<close>

definition reserved_namespaces :: "string list" where
  "reserved_namespaces = [''flow'', ''value'', ''expect'', ''check'', ''match'', ''legacy'']"

definition v0_families :: "string list" where
  "v0_families = [''match'', ''expect'', ''check'', ''convert'']"

definition core_table :: "(string \<times> string option \<times> nat) list" where
  "core_table =
    [(''flow:and'', Some ''and'', 0),
     (''flow:or'', Some ''or'', 0),
     (''flow:if'', Some ''if'', 2),
     (''flow:error'', Some ''error'', 1),
     (''flow:apply'', Some ''apply'', 0),
     (''flow:for-each'', Some ''for-each'', 2),
     (''flow:tee'', Some ''tee'', 0),
     (''value:join'', Some ''join'', 0),
     (''value:join-with'', Some ''join-with'', 1),
     (''value:length'', Some ''length'', 1),
     (''value:lower-case'', Some ''lower-case'', 1),
     (''value:upper-case'', Some ''upper-case'', 1),
     (''value:to-string'', Some ''to-string'', 1),
     (''expect:object'', Some ''expect:object'', 1),
     (''expect:array'', Some ''expect:array'', 1),
     (''expect:empty'', Some ''expect:empty'', 1),
     (''expect:not-empty'', Some ''expect:not-empty'', 1),
     (''expect:count'', Some ''expect:count'', 2),
     (''expect:size'', Some ''expect:size'', 3),
     (''expect:entries'', Some ''expect:entries'', 2),
     (''expect:absent'', Some ''expect:absent'', 1),
     (''check:exists'', Some ''check:exists'', 1),
     (''check:equals'', Some ''check:equals'', 2),
     (''check:null'', Some ''check:null'', 1),
     (''match:any'', Some ''match:any'', 1),
     (''match:equality'', Some ''match:equality'', 2),
     (''match:type'', Some ''match:type'', 2),
     (''match:string'', Some ''match:string'', 1),
     (''match:number'', Some ''match:number'', 1),
     (''match:integer'', Some ''match:integer'', 1),
     (''match:decimal'', Some ''match:decimal'', 1),
     (''match:boolean'', Some ''match:boolean'', 1),
     (''match:null'', Some ''match:null'', 1),
     (''match:regex'', Some ''match:regex'', 2),
     (''match:datetime'', Some ''match:datetime'', 1),
     (''match:date'', Some ''match:date'', 1),
     (''match:time'', Some ''match:time'', 1),
     (''match:include'', Some ''match:include'', 2),
     (''match:content-type'', Some ''match:content-type'', 2),
     (''match:semver'', Some ''match:semver'', 1),
     (''match:any-of'', Some ''match:any-of'', 1),
     (''match:contains'', Some ''match:contains'', 1),
     (''legacy:only-entries'', Some ''expect:only-entries'', 1),
     (''legacy:array-contains'', Some ''match:array-contains'', 2),
     (''legacy:min-type'', Some ''match:min-type'', 3),
     (''legacy:max-type'', Some ''match:max-type'', 3),
     (''legacy:min-max-type'', Some ''match:min-max-type'', 4),
     (''legacy:header-value'', Some ''match:header-value'', 2),
     (''legacy:body-type'', None, 2),
     (''legacy:message-type'', None, 2),
     (''legacy:xml-children'', None, 1),
     (''legacy:xml-only-children'', None, 1),
     (''legacy:parses-as'', None, 2),
     (''legacy:mime-part'', None, 3)]"

datatype grammar = V0 | V1

text \<open>\<open>v<major>\<close> or \<open>v<major>.<minor>\<close> (fragment.rs), and the grammar a version names.\<close>

definition parse_version :: "string \<Rightarrow> (nat \<times> nat) option" where
  "parse_version version =
     (case strip_prefix ''v'' version of
        None \<Rightarrow> None
      | Some digits \<Rightarrow>
          (let (major, minor) = (case split_once (CHR ''.'') digits of
                                   Some mm \<Rightarrow> mm | None \<Rightarrow> (digits, ''0''))
           in case parse_u64 major of
                None \<Rightarrow> None
              | Some a \<Rightarrow> (case parse_u64 minor of None \<Rightarrow> None | Some b \<Rightarrow> Some (a, b))))"

definition grammar_of :: "string \<Rightarrow> grammar option" where
  "grammar_of version =
     (case parse_version version of
        None \<Rightarrow> None
      | Some (major, _) \<Rightarrow> if major = 0 then Some V0 else if major = 1 then Some V1 else None)"

definition grammar_core :: "grammar \<Rightarrow> string \<Rightarrow> string option" where
  "grammar_core g name =
     map_option fst
       (List.find (\<lambda>(v1, v0, _). case g of V0 \<Rightarrow> v0 = Some name | V1 \<Rightarrow> v1 = name) core_table)"

definition grammar_reserves :: "grammar \<Rightarrow> string \<Rightarrow> bool" where
  "grammar_reserves g name =
     (case (g, split_once (CHR '':'') name) of
        (V0, None) \<Rightarrow> True
      | (V0, Some (family, _)) \<Rightarrow> family \<in> set v0_families
      | (V1, None) \<Rightarrow> False
      | (V1, Some (namespace, _)) \<Rightarrow> namespace \<in> set reserved_namespaces)"

definition from_v0 :: "string \<Rightarrow> string option" where
  "from_v0 name = grammar_core V0 name"

definition is_core :: "string \<Rightarrow> bool" where
  "is_core name \<longleftrightarrow> grammar_core V1 name \<noteq> None"

definition least_children :: "string \<Rightarrow> nat option" where
  "least_children name =
     map_option (\<lambda>(_, _, least). least) (List.find (\<lambda>(v1, _, _). v1 = name) core_table)"

definition is_component_action :: "string \<Rightarrow> bool" where
  "is_component_action name =
     (case split_once (CHR '':'') name of
        None \<Rightarrow> False
      | Some (namespace, _) \<Rightarrow> namespace \<notin> set reserved_namespaces)"

subsection \<open>What the table promises\<close>

lemma find_SomeD: "List.find P xs = Some x \<Longrightarrow> x \<in> set xs \<and> P x"
  by (induction xs) (auto split: if_splits)

lemma grammar_core_table: "grammar_core g name = Some c \<Longrightarrow> c \<in> fst ` set core_table"
  by (force simp: grammar_core_def dest!: find_SomeD)

lemma table_names:
  "list_all (\<lambda>c. grammar_core V1 c = Some c \<and> grammar_core V0 c \<in> {None, Some c}
     \<and> grammar_reserves V1 c \<and> least_children c \<noteq> None \<and> \<not> is_component_action c) (map fst core_table)"
  by code_simp

lemma grammar_core_props:
  assumes "grammar_core g name = Some c"
  shows "grammar_core V1 c = Some c" and "grammar_core V0 c = None \<or> grammar_core V0 c = Some c"
    and "grammar_reserves V1 c" and "least_children c \<noteq> None" and "\<not> is_component_action c"
  using grammar_core_table [OF assms] table_names by (auto simp: list_all_iff)

lemma is_core_grammar_core: "grammar_core g name = Some c \<Longrightarrow> is_core c"
  by (simp add: is_core_def grammar_core_props)

lemma component_action_not_core: "is_component_action c \<Longrightarrow> \<not> is_core c"
proof
  assume comp: "is_component_action c" and "is_core c"
  then obtain d where d: "grammar_core V1 c = Some d" by (auto simp: is_core_def)
  then have "d = c" by (auto simp: grammar_core_def dest!: find_SomeD)
  with d comp show False using grammar_core_props(5) [of V1 c c] by simp
qed

end
