(* ===== verification/Fragment.thy ===== *)
theory Fragment
  imports Plan_Actions
begin

text \<open>
  Component-contributed plan fragments, engine/kernel/src/plan/fragment.rs, and the reading of a
  whole plan document (\<open>from_json\<close> of engine/kernel/src/plan/model.rs). A fragment comes from outside
  the engine, so what \<open>validate\<close> lets through is what the interpreter may rely on: it resolves
  nothing outside its slot, and every action is a core one with the children it takes or one the
  component contributed.
\<close>

definition readable_grammar_versions :: "string list" where
  "readable_grammar_versions = [''v0'', ''v1'']"

datatype fragment_error =
    Skew "string option" string
  | Invalid string

definition readable_by :: "string \<Rightarrow> string \<Rightarrow> bool" where
  "readable_by engine fragment =
     (case (parse_version engine, parse_version fragment) of
        (Some (engine_major, engine_minor), Some (major, minor)) \<Rightarrow>
          major = engine_major \<and> minor \<le> engine_minor
      | _ \<Rightarrow> False)"

definition readable :: "string option \<Rightarrow> fragment_error option" where
  "readable declared =
     (case declared of
        None \<Rightarrow>
          Some (Skew None
            (''the fragment does not say which plan grammar it was written against; this engine reads ''
             @ join_with '', '' readable_grammar_versions))
      | Some d \<Rightarrow>
          if list_ex (\<lambda>engine. readable_by engine d) readable_grammar_versions then None
          else Some (Skew (Some d)
            (''the fragment was written against plan grammar '' @ quote1 d
             @ '', and this engine reads '' @ join_with '', '' readable_grammar_versions)))"

definition inside_slot :: "string \<Rightarrow> string \<Rightarrow> bool" where
  "inside_slot slot_path path \<longleftrightarrow>
     path = slot_path \<or> starts_with path (slot_path @ ''.'') \<or> starts_with path (slot_path @ ''['')"

text \<open>The name an action of the fragment is left under, or why it is refused.\<close>

definition check_action ::
  "grammar \<Rightarrow> string \<Rightarrow> string list \<Rightarrow> string \<Rightarrow> nat \<Rightarrow> fragment_error + string" where
  "check_action g component contributed name given =
     (case grammar_core g name of
        Some core \<Rightarrow>
          let least = (case least_children core of None \<Rightarrow> 0 | Some n \<Rightarrow> n) in
          if given < least
          then Inl (Invalid (quote1 name @ '' takes at least '' @ nat_text least
                 @ '' child node(s) and the fragment gives it '' @ nat_text given))
          else Inr core
      | None \<Rightarrow>
          if grammar_reserves g name
          then Inl (Invalid (quote1 name
                 @ '' is not a core action of the grammar the fragment declared''))
          else if map_option fst (split_once (CHR '':'') name) \<noteq> Some component
          then Inl (Invalid (quote1 name @ [CHR '' '']
                 @ ''is in another component'' @ [CHR 0x27] @ ''s namespace; a fragment may use core actions and ''
                 @ quote1 (component @ '':'') @ '' ones''))
          else if name \<notin> set contributed
          then Inl (Invalid (quote1 name @ '' is not among the actions '' @ quote1 component
                 @ '' contributed in its handshake''))
          else Inr name)"

text \<open>\<open>check_actions\<close> renames in place and stops at the first error; the renamed node is its result.\<close>

fun check_actions ::
  "grammar \<Rightarrow> string \<Rightarrow> string list \<Rightarrow> string \<Rightarrow> node \<Rightarrow> fragment_error + node" where
  "check_actions g component contributed slot_path (Action name children) =
     sum_bind (check_action g component contributed name (length children)) (\<lambda>name'.
       sum_bind (collect (map (check_actions g component contributed slot_path) children)) (\<lambda>cs.
         Inr (Action name' cs)))"
| "check_actions g component contributed slot_path (Resolve path) =
     (if inside_slot slot_path path then Inr (Resolve path)
      else Inl (Invalid (''resolves '' @ quote1 path @ '', outside the slot '' @ quote1 slot_path
             @ '' it was compiled for'')))"
| "check_actions g component contributed slot_path (Container label children) =
     sum_bind (collect (map (check_actions g component contributed slot_path) children)) (\<lambda>cs.
       Inr (Container label cs))"
| "check_actions g component contributed slot_path (Pipeline children) =
     sum_bind (collect (map (check_actions g component contributed slot_path) children)) (\<lambda>cs.
       Inr (Pipeline cs))"
| "check_actions g component contributed slot_path (Splat children) =
     sum_bind (collect (map (check_actions g component contributed slot_path) children)) (\<lambda>cs.
       Inr (Splat cs))"
| "check_actions g component contributed slot_path (Value l) = Inr (Value l)"
| "check_actions g component contributed slot_path (ResolveCurrent p) = Inr (ResolveCurrent p)"
| "check_actions g component contributed slot_path (Annotation t) = Inr (Annotation t)"

text \<open>\<open>validate\<close>: \<open>None\<close> is the panic of its \<open>expect\<close>, which \<open>validate_total\<close> rules out.\<close>

definition fragment_validate ::
  "json \<Rightarrow> string option \<Rightarrow> string \<Rightarrow> string list \<Rightarrow> string \<Rightarrow> (fragment_error + node) option" where
  "fragment_validate fragment declared component contributed slot_path =
     (case readable declared of
        Some err \<Rightarrow> Some (Inl err)
      | None \<Rightarrow>
          (case Option.bind declared grammar_of of
             None \<Rightarrow> None
           | Some g \<Rightarrow>
               (case node_from_json fragment of
                  Inl err \<Rightarrow> Some (Inl (Invalid (''not a plan node: '' @ err)))
                | Inr node \<Rightarrow> Some (check_actions g component contributed slot_path node))))"

fun rename_from_v0 :: "node \<Rightarrow> node" where
  "rename_from_v0 (Action name children) =
     Action (case grammar_core V0 name of Some core \<Rightarrow> core | None \<Rightarrow> name) (map rename_from_v0 children)"
| "rename_from_v0 (Container label children) = Container label (map rename_from_v0 children)"
| "rename_from_v0 (Pipeline children) = Pipeline (map rename_from_v0 children)"
| "rename_from_v0 (Splat children) = Splat (map rename_from_v0 children)"
| "rename_from_v0 n = n"

text \<open>The slot of a part's container: its contents are replaced by the fragment.\<close>

fun splice_slots :: "string \<Rightarrow> node \<Rightarrow> node list \<Rightarrow> node list option" where
  "splice_slots slot fragment [] = None"
| "splice_slots slot fragment (Container (Some name) contents # rest) =
     (if name = slot then Some (Container (Some name) [fragment] # rest)
      else map_option ((#) (Container (Some name) contents)) (splice_slots slot fragment rest))"
| "splice_slots slot fragment (n # rest) = map_option ((#) n) (splice_slots slot fragment rest)"

text \<open>\<open>splice\<close>: the new tree, or \<open>None\<close> when the slot was not found (and the tree is as it was).\<close>

fun splice :: "string \<Rightarrow> string \<Rightarrow> node \<Rightarrow> node \<Rightarrow> node option"
  and splice_children :: "string \<Rightarrow> string \<Rightarrow> node \<Rightarrow> node list \<Rightarrow> node list option" where
  "splice part slot fragment (Container label children) =
     map_option (Container label) (splice_children part slot fragment children)"
| "splice part slot fragment _ = None"
| "splice_children part slot fragment [] = None"
| "splice_children part slot fragment (child # rest) =
     (case (case child of
              Container (Some label) slots \<Rightarrow>
                if label = part
                then map_option (Container (Some label)) (splice_slots slot fragment slots)
                else None
            | _ \<Rightarrow> None) of
        Some child' \<Rightarrow> Some (child' # rest)
      | None \<Rightarrow>
          (case splice part slot fragment child of
             Some child' \<Rightarrow> Some (child' # rest)
           | None \<Rightarrow> map_option ((#) child) (splice_children part slot fragment rest)))"

definition skew_message :: "fragment_error \<Rightarrow> string" where
  "skew_message e = (case e of Skew _ m \<Rightarrow> m | Invalid m \<Rightarrow> m)"

text \<open>\<open>str::replace\<close> of a non-empty text.\<close>

function replace_text :: "string \<Rightarrow> string \<Rightarrow> string \<Rightarrow> string" where
  "replace_text from to [] = []"
| "replace_text from to (c # s) =
     (if from \<noteq> [] \<and> starts_with (c # s) from
      then to @ replace_text from to (drop (length from) (c # s))
      else c # replace_text from to s)"
  by pat_completeness auto
termination
  by (relation "measure (\<lambda>(f, t, s). length s)") (auto simp: Suc_le_eq)

text \<open>\<open>from_json\<close> of model.rs: a plan document back into a plan.\<close>

definition plan_from_json :: "json \<Rightarrow> string + plan" where
  "plan_from_json document =
     (case get_str document ''grammar'' of
        None \<Rightarrow> Inl (''a plan needs a '' @ quote1 ''grammar'')
      | Some g \<Rightarrow>
          (case readable (Some g) of
             Some skew \<Rightarrow> Inl (replace_text ''the fragment'' ''the plan'' (skew_message skew))
           | None \<Rightarrow>
               (case json_get document ''root'' of
                  None \<Rightarrow> Inl (''a plan needs a '' @ quote1 ''root'')
                | Some r \<Rightarrow>
                    sum_bind (node_from_json r) (\<lambda>root.
                      Inr \<lparr>plan_grammar = grammar_version,
                           plan_root = (if grammar_of g = Some V0 then rename_from_v0 root else root),
                           plan_variant = get_str document ''variant''\<rparr>))))"

subsection \<open>What validation establishes\<close>

fun every_node :: "(node \<Rightarrow> bool) \<Rightarrow> node \<Rightarrow> bool" where
  "every_node P (Action name children) = (P (Action name children) \<and> list_all (every_node P) children)"
| "every_node P (Container label children) = (P (Container label children) \<and> list_all (every_node P) children)"
| "every_node P (Pipeline children) = (P (Pipeline children) \<and> list_all (every_node P) children)"
| "every_node P (Splat children) = (P (Splat children) \<and> list_all (every_node P) children)"
| "every_node P n = P n"

definition contributed_action :: "string \<Rightarrow> string list \<Rightarrow> string \<Rightarrow> bool" where
  "contributed_action component contributed name \<longleftrightarrow>
     map_option fst (split_once (CHR '':'') name) = Some component \<and> name \<in> set contributed"

text \<open>The slot's own path, or one that goes on with a segment of its own.\<close>

definition below_slot :: "string \<Rightarrow> string \<Rightarrow> bool" where
  "below_slot slot_path path =
     (case strip_prefix slot_path path of
        Some (c # _) \<Rightarrow> c = CHR ''.'' \<or> c = CHR ''[''
      | Some [] \<Rightarrow> True
      | None \<Rightarrow> False)"

lemma starts_with_append: "starts_with s p \<Longrightarrow> s = p @ drop (length p) s"
  by (metis append_take_drop_id starts_with_def)

lemma inside_slot_below: "inside_slot slot_path path \<Longrightarrow> below_slot slot_path path"
proof -
  assume "inside_slot slot_path path"
  then consider "path = slot_path @ []" | r where "path = slot_path @ CHR ''.'' # r"
    | r where "path = slot_path @ CHR ''['' # r"
    unfolding inside_slot_def using starts_with_append by fastforce
  then show ?thesis by cases (simp_all only: below_slot_def strip_prefix_append option.case list.case simp_thms)
qed

fun fragment_safe :: "string \<Rightarrow> string list \<Rightarrow> string \<Rightarrow> node \<Rightarrow> bool" where
  "fragment_safe component contributed slot_path (Action name children) =
     ((case least_children name of None \<Rightarrow> False | Some least \<Rightarrow> is_core name \<and> least \<le> length children)
      \<or> contributed_action component contributed name)"
| "fragment_safe component contributed slot_path (Resolve path) = below_slot slot_path path"
| "fragment_safe component contributed slot_path _ = True"

lemma collect_InrD: "collect rs = Inr xs \<Longrightarrow> rs = map Inr xs"
proof (induction rs arbitrary: xs rule: collect.induct)
  case (3 x rs)
  then show ?case by (cases "collect rs") auto
qed auto

lemma sum_bind_InrD: "sum_bind r f = Inr y \<Longrightarrow> \<exists>x. r = Inr x \<and> f x = Inr y"
  by (cases r) auto

lemma collected_member:
  "map f xs = map Inr ys \<Longrightarrow> y \<in> set ys \<Longrightarrow> \<exists>x \<in> set xs. f x = Inr y"
  by (metis imageE image_eqI list.set_map)

lemma collected_all:
  assumes "map f xs = map Inr ys" and "\<And>x y. x \<in> set xs \<Longrightarrow> f x = Inr y \<Longrightarrow> P y"
  shows "list_all P ys"
  unfolding list_all_iff using assms(2) collected_member [OF assms(1)] by blast

lemma collected_same:
  assumes "map f xs = map Inr ys" and "\<And>x y. x \<in> set xs \<Longrightarrow> f x = Inr y \<Longrightarrow> y = x"
  shows "ys = xs"
proof (rule nth_equalityI)
  show len: "length ys = length xs" using assms(1) by (metis length_map)
  fix i assume i: "i < length ys"
  with len assms(1) have "f (xs ! i) = Inr (ys ! i)" by (metis nth_map)
  with i len show "ys ! i = xs ! i" by (auto intro!: assms(2))
qed

lemma check_action_safe:
  assumes "check_action g component contributed name given = Inr name'"
  shows "(\<exists>least. least_children name' = Some least \<and> is_core name' \<and> least \<le> given)
     \<or> contributed_action component contributed name'"
proof (cases "grammar_core g name")
  case None
  with assms show ?thesis
    by (auto simp: check_action_def contributed_action_def split: if_splits)
next
  case (Some core)
  from grammar_core_props(4) [OF Some] obtain least where l: "least_children core = Some least" by auto
  with Some assms is_core_grammar_core [OF Some] show ?thesis
    by (auto simp: check_action_def split: if_splits)
qed

lemma check_actions_safe:
  "check_actions g component contributed slot_path n = Inr n' \<Longrightarrow>
   every_node (fragment_safe component contributed slot_path) n'"
proof (induction n arbitrary: n')
  case (Action name children)
  then obtain name' cs where
    name: "check_action g component contributed name (length children) = Inr name'" and
    cs: "map (check_actions g component contributed slot_path) children = map Inr cs" and
    n': "n' = Action name' cs"
    by (auto dest!: sum_bind_InrD collect_InrD)
  from cs have len: "length cs = length children" by (metis length_map)
  have "list_all (every_node (fragment_safe component contributed slot_path)) cs"
    by (rule collected_all [OF cs]) (rule Action.IH)
  with check_action_safe [OF name] len show ?case by (auto simp: n')
next
  case (Resolve path)
  then show ?case by (auto dest: inside_slot_below split: if_splits)
qed (auto dest!: sum_bind_InrD collect_InrD elim!: collected_all)

lemma readable_grammar: "readable declared = None \<Longrightarrow> \<exists>g. Option.bind declared grammar_of = Some g"
proof -
  assume r: "readable declared = None"
  then obtain d where d: "declared = Some d" by (cases declared) (auto simp: readable_def)
  have v: "parse_version ''v0'' = Some (0, 0)" "parse_version ''v1'' = Some (1, 0)"
    by (simp_all add: parse_version_def strip_prefix_def parse_u64_def digits_value_def is_digit_def
        digit_value_def)
  from r d show ?thesis
    by (auto simp: readable_def readable_grammar_versions_def readable_by_def v grammar_of_def
        split: option.splits if_splits)
qed

lemma check_actions_v1:
  "check_actions V1 component contributed slot_path n = Inr n' \<Longrightarrow> n' = n"
proof (induction n arbitrary: n')
  case (Action name children)
  then obtain name' cs where
    name: "check_action V1 component contributed name (length children) = Inr name'" and
    cs: "map (check_actions V1 component contributed slot_path) children = map Inr cs" and
    n': "n' = Action name' cs"
    by (auto dest!: sum_bind_InrD collect_InrD)
  from name have "name' = name"
    by (auto simp: check_action_def grammar_core_def dest!: find_SomeD split: option.splits if_splits)
  moreover have "cs = children"
    by (rule collected_same [OF cs]) (rule Action.IH)
  ultimately show ?case by (simp add: n')
next
  case (Container label children)
  then obtain cs where "map (check_actions V1 component contributed slot_path) children = map Inr cs"
    and "n' = Container label cs"
    by (auto dest!: sum_bind_InrD collect_InrD)
  with collected_same Container.IH show ?case by blast
next
  case (Pipeline children)
  then obtain cs where "map (check_actions V1 component contributed slot_path) children = map Inr cs"
    and "n' = Pipeline cs"
    by (auto dest!: sum_bind_InrD collect_InrD)
  with collected_same Pipeline.IH show ?case by blast
next
  case (Splat children)
  then obtain cs where "map (check_actions V1 component contributed slot_path) children = map Inr cs"
    and "n' = Splat cs"
    by (auto dest!: sum_bind_InrD collect_InrD)
  with collected_same Splat.IH show ?case by blast
qed (auto split: if_splits)

lemma rename_idempotent_name:
  "(case grammar_core V0 (case grammar_core V0 name of Some core \<Rightarrow> core | None \<Rightarrow> name) of
      Some core \<Rightarrow> core | None \<Rightarrow> (case grammar_core V0 name of Some core \<Rightarrow> core | None \<Rightarrow> name)) =
   (case grammar_core V0 name of Some core \<Rightarrow> core | None \<Rightarrow> name)"
proof (cases "grammar_core V0 name")
  case (Some core)
  with grammar_core_props(2) [OF Some] show ?thesis by auto
qed simp

lemma splice_slots_again:
  "splice_slots slot f ns = Some ns' \<Longrightarrow> splice_slots slot f' ns' = splice_slots slot f' ns"
  by (induction slot f ns arbitrary: ns' rule: splice_slots.induct) (auto split: if_splits)

lemma splice_slots_found: "splice_slots slot f ns = None \<longleftrightarrow> splice_slots slot f' ns = None"
  by (induction slot f ns rule: splice_slots.induct) auto



text \<open>\<open>validate\<close> never reaches the panic of its \<open>expect\<close>: every version \<open>readable\<close> accepts names a
  grammar of the action table.\<close>

theorem fragment_validate_total:
  "fragment_validate fragment declared component contributed slot_path \<noteq> None"
proof (cases "readable declared")
  case None
  then obtain g where "Option.bind declared grammar_of = Some g" using readable_grammar by blast
  with None show ?thesis by (simp add: fragment_validate_def split: sum.splits)
qed (simp add: fragment_validate_def)

text \<open>C31: reading a plan document back gives the plan it was written from, for every plan of the
  grammar the compiler writes.\<close>

theorem plan_document_roundtrip:
  assumes "plan_grammar p = grammar_version"
  shows "plan_from_json (plan_json p) = Inr p"
proof -
  have r: "readable (Some grammar_version) = None" and g: "grammar_of grammar_version = Some V1"
    by (simp_all add: grammar_version_def readable_def readable_by_def readable_grammar_versions_def
        grammar_of_def parse_version_def strip_prefix_def parse_u64_def digits_value_def is_digit_def
        digit_value_def)
  show ?thesis
    using assms
    by (cases p; cases "plan_variant p")
      (simp_all add: plan_from_json_def plan_json_def get_str_def r g node_from_json_node_json)
qed

theorem plan_document_roundtrip_witness:
  "plan_from_json (plan_json \<lparr>plan_grammar = ''v1'',
     plan_root = Container (Some '':body'') [Action ''match:integer'' [Resolve ''response.body.id'']],
     plan_variant = Some ''base''\<rparr>) =
   Inr \<lparr>plan_grammar = ''v1'',
     plan_root = Container (Some '':body'') [Action ''match:integer'' [Resolve ''response.body.id'']],
     plan_variant = Some ''base''\<rparr>"
  by (rule plan_document_roundtrip) (simp add: grammar_version_def)

text \<open>Renaming a v0 plan to v1 leaves a plan of v1 names: renaming it again changes nothing.\<close>

theorem rename_from_v0_idempotent: "rename_from_v0 (rename_from_v0 n) = rename_from_v0 n"
  by (induction n) (simp_all add: rename_idempotent_name)

text \<open>What splicing keeps: the kind and the label of every node on the way to the slot.\<close>

fun head_label :: "node \<Rightarrow> string option option" where
  "head_label (Container label _) = Some label"
| "head_label _ = None"

lemma splice_head:
  "splice part slot f n = Some n' \<Longrightarrow> head_label n' = head_label n \<and> head_label n \<noteq> None"
  "splice_children part slot f ns = Some ns' \<Longrightarrow> map head_label ns' = map head_label ns"
  by (induction part slot f n and part slot f ns arbitrary: n' and ns' rule: splice_splice_children.induct)
    (auto split: option.splits if_splits node.splits)

lemma splice_slots_None: "splice_slots slot f ns = None \<longleftrightarrow> Some (Some slot) \<notin> set (map head_label ns)"
  by (induction slot f ns rule: splice_slots.induct) auto

definition splice_direct :: "string \<Rightarrow> string \<Rightarrow> node \<Rightarrow> node \<Rightarrow> node option" where
  "splice_direct part slot fragment child =
     (case child of
        Container (Some label) slots \<Rightarrow>
          if label = part then map_option (Container (Some label)) (splice_slots slot fragment slots)
          else None
      | _ \<Rightarrow> None)"

lemma splice_children_Cons:
  "splice_children part slot fragment (child # rest) =
     (case splice_direct part slot fragment child of
        Some child' \<Rightarrow> Some (child' # rest)
      | None \<Rightarrow>
          (case splice part slot fragment child of
             Some child' \<Rightarrow> Some (child' # rest)
           | None \<Rightarrow> map_option ((#) child) (splice_children part slot fragment rest)))"
  by (simp add: splice_direct_def)

declare splice_children.simps(2) [simp del]

lemma splice_direct_again:
  "splice_direct part slot f n = Some n' \<Longrightarrow> splice_direct part slot f' n' = splice_direct part slot f' n"
  by (auto simp: splice_direct_def splice_slots_again split: node.splits option.splits if_splits)

lemma splice_direct_None: "splice_direct part slot f n = None \<longleftrightarrow> splice_direct part slot f' n = None"
  by (auto simp: splice_direct_def splice_slots_None split: node.splits option.splits if_splits)

lemma splice_direct_spliced:
  assumes "splice part slot f n = Some n'" and "splice_direct part slot f' n = None"
  shows "splice_direct part slot f' n' = None"
proof -
  from assms(1) obtain l cs cs' where n: "n = Container l cs" "n' = Container l cs'"
    and cs: "splice_children part slot f cs = Some cs'"
    by (cases n) auto
  from splice_head(2) [OF cs] assms(2) show ?thesis
    by (auto simp: n splice_direct_def splice_slots_None simp del: list.set_map
        split: option.splits if_splits)
qed

lemma splice_None:
  "splice part slot f n = None \<longleftrightarrow> splice part slot f' n = None"
  "splice_children part slot f ns = None \<longleftrightarrow> splice_children part slot f' ns = None"
proof (induction part slot f n and part slot f ns rule: splice_splice_children.induct)
  case (4 part slot fragment child rest)
  from 4 [folded splice_direct_def] show ?case
    using splice_direct_None [of part slot fragment child f']
    by (auto simp: splice_children_Cons split: option.splits)
qed auto

lemma splice_again_aux:
  "splice part slot f n = Some n' \<Longrightarrow> splice part slot f' n' = splice part slot f' n"
  "splice_children part slot f ns = Some ns' \<Longrightarrow>
   splice_children part slot f' ns' = splice_children part slot f' ns"
proof (induction part slot f n and part slot f ns arbitrary: n' and ns' rule: splice_splice_children.induct)
  case (4 part slot fragment child rest)
  show ?case
  proof (cases "splice_direct part slot fragment child")
    case (Some child')
    with 4 [folded splice_direct_def] show ?thesis
      using splice_direct_again [OF Some, of f'] splice_direct_None [of part slot fragment child f']
      by (auto simp: splice_children_Cons split: option.splits)
  next
    case direct: None
    then have direct': "splice_direct part slot f' child = None"
      using splice_direct_None by blast
    show ?thesis
    proof (cases "splice part slot fragment child")
      case (Some child')
      with 4 [folded splice_direct_def] direct direct' show ?thesis
        using splice_direct_spliced [OF Some direct'] splice_None(1) [of part slot fragment child f']
        by (auto simp: splice_children_Cons split: option.splits)
    next
      case None
      with 4 [folded splice_direct_def] direct direct' show ?thesis
        using splice_None(1) [of part slot fragment child f']
        by (auto simp: splice_children_Cons split: option.splits)
    qed
  qed
qed auto

text \<open>Splicing a fragment into the slot a fragment was spliced into replaces that one: the slot
  found is the same, and what it held is gone.\<close>

theorem splice_again:
  assumes "splice part slot f n = Some n'"
  shows "splice part slot f' n' = splice part slot f' n"
  using assms by (rule splice_again_aux)

theorem splice_again_witness:
  "splice ''response'' ''body'' (Value literal_null)
     (Container None [Container (Some ''response'') [Container (Some ''body'') [Annotation ''a'']]]) =
   splice ''response'' ''body'' (Value literal_null)
     (Container None [Container (Some ''response'') [Container (Some ''body'') []]])"
  by (rule splice_again [where f = "Annotation ''a''"]) (simp add: splice_children_Cons splice_direct_def)

end
