(* ===== verification/Runtime_Value.thy ===== *)
theory Runtime_Value
  imports Fragment
begin

text \<open>
  The interpreter's runtime value and the path language that reads one, engine/kernel/src/plan/value.rs.
  A path suffix is a text; \<open>segment_text\<close> is how the compilers write one member or index of it, and
  \<open>navigate_segments\<close> shows that the reader takes those texts apart as they were put together,
  whatever a member is called.
\<close>

datatype rv =
    RAbsent
  | RNull
  | RBool bool
  | RNumber number
  | RString string
  | RArray "rv list"
  | RObject "(string \<times> rv) list"
  | RBytes string
  | REntry string rv

fun rv_from_json :: "json \<Rightarrow> rv" where
  "rv_from_json JNull = RNull"
| "rv_from_json (JBool b) = RBool b"
| "rv_from_json (JNumber n) = RNumber n"
| "rv_from_json (JString s) = RString s"
| "rv_from_json (JArray items) = RArray (map rv_from_json items)"
| "rv_from_json (JObject members) = RObject (map (\<lambda>(k, v). (k, rv_from_json v)) members)"

definition rv_from_literal :: "lib \<Rightarrow> literal \<Rightarrow> rv" where
  "rv_from_literal L literal =
     (case l_of literal of
        DK_Bytes \<Rightarrow>
          if l_encoded literal = Some ''base64''
          then (case Option.bind (as_str (l_value literal)) (base64_decode L) of
                  Some bytes \<Rightarrow> RBytes bytes
                | None \<Rightarrow> RAbsent)
          else rv_from_json (l_value literal)
      | DK_Entry \<Rightarrow>
          REntry (case l_key literal of Some k \<Rightarrow> k | None \<Rightarrow> []) (rv_from_json (l_value literal))
      | _ \<Rightarrow> rv_from_json (l_value literal))"

fun rv_to_json :: "lib \<Rightarrow> rv \<Rightarrow> json" where
  "rv_to_json L RAbsent = JNull"
| "rv_to_json L RNull = JNull"
| "rv_to_json L (RBool b) = JBool b"
| "rv_to_json L (RNumber n) = JNumber n"
| "rv_to_json L (RString s) = JString s"
| "rv_to_json L (RArray items) = JArray (map (rv_to_json L) items)"
| "rv_to_json L (RObject members) = JObject (map (\<lambda>(k, v). (k, rv_to_json L v)) members)"
| "rv_to_json L (RBytes bytes) = JString (base64_encode L bytes)"
| "rv_to_json L (REntry key v) = JObject [(key, rv_to_json L v)]"

text \<open>From a document-model value (\<open>Literal::from_document\<close>, model.rs).\<close>

definition literal_from_document :: "lib \<Rightarrow> rv \<Rightarrow> literal" where
  "literal_from_document L v =
     (case v of
        RBytes bytes \<Rightarrow> literal_bytes L bytes
      | REntry key x \<Rightarrow>
          \<lparr>l_of = DK_Entry, l_value = rv_to_json L x, l_encoded = None, l_key = Some key\<rparr>
      | other \<Rightarrow> literal_from_json (rv_to_json L other))"

text \<open>\<open>==\<close> on runtime values: members compare as a map's.\<close>

fun rv_eq :: "rv \<Rightarrow> rv \<Rightarrow> bool" where
  "rv_eq RAbsent RAbsent = True"
| "rv_eq RNull RNull = True"
| "rv_eq (RBool a) (RBool b) = (a = b)"
| "rv_eq (RNumber a) (RNumber b) = number_eq a b"
| "rv_eq (RString a) (RString b) = (a = b)"
| "rv_eq (RArray x) (RArray y) = all2 rv_eq x y"
| "rv_eq (RObject x) (RObject y) =
     (length x = length y
      \<and> list_all (\<lambda>(k, v). case map_of y k of None \<Rightarrow> False | Some w \<Rightarrow> rv_eq v w) x)"
| "rv_eq (RBytes a) (RBytes b) = (a = b)"
| "rv_eq (REntry k v) (REntry l w) = (k = l \<and> rv_eq v w)"
| "rv_eq _ _ = False"

subsection \<open>Paths\<close>

definition path_special :: "char list" where
  "path_special = [CHR ''.'', CHR ''['', CHR '']'', CHR 0x27, CHR 0x5C, CHR ''{'', CHR ''}'', CHR ''~'']"

definition plain_name :: "string \<Rightarrow> bool" where
  "plain_name name \<longleftrightarrow> name \<noteq> [] \<and> \<not> has_whitespace name \<and> list_all (\<lambda>c. c \<notin> set path_special) name"

definition escape_name :: "string \<Rightarrow> string" where
  "escape_name name = replace_char (CHR 0x27) [CHR 0x5C, CHR 0x27] (replace_char (CHR 0x5C) [CHR 0x5C, CHR 0x5C] name)"

definition member_path :: "string \<Rightarrow> string \<Rightarrow> string" where
  "member_path base name =
     (if plain_name name then base @ ''.'' @ name
      else base @ [CHR ''['', CHR 0x27] @ escape_name name @ [CHR 0x27, CHR '']''])"

fun unquote :: "string \<Rightarrow> string \<times> string" where
  "unquote [] = ([], [])"
| "unquote [c] = (if c = CHR 0x5C then ([], []) else ([c], []))"
| "unquote (c # d # s) =
     (if c = CHR 0x5C then map_prod ((#) d) id (unquote s)
      else if c = CHR 0x27 \<and> d = CHR '']'' then ([], s)
      else map_prod ((#) c) id (unquote (d # s)))"

lemma unquote_shorter: "length (snd (unquote s)) \<le> length s"
  by (induction s rule: unquote.induct) auto

text \<open>One turn of \<open>navigate\<close>'s loop: what the first segment reads, and the rest of the rest.\<close>

definition read_member :: "rv \<Rightarrow> string \<Rightarrow> rv option" where
  "read_member current member =
     (case current of
        RObject members \<Rightarrow> map_of members member
      | REntry key v \<Rightarrow>
          if member = ''key'' then Some (RString key) else if member = ''value'' then Some v else None
      | _ \<Rightarrow> None)"

definition read_quoted :: "rv \<Rightarrow> string \<Rightarrow> rv option" where
  "read_quoted current member =
     (case current of RObject members \<Rightarrow> map_of members member | _ \<Rightarrow> None)"

definition read_index :: "rv \<Rightarrow> nat option \<Rightarrow> rv option" where
  "read_index current index =
     (case (index, current) of
        (Some i, RArray items) \<Rightarrow> if i < length items then Some (items ! i) else None
      | _ \<Rightarrow> None)"

definition path_end :: "char \<Rightarrow> bool" where
  "path_end c \<longleftrightarrow> c = CHR ''.'' \<or> c = CHR ''[''"

definition navigate_step :: "rv \<Rightarrow> string \<Rightarrow> rv option \<times> string" where
  "navigate_step current rest =
     (case strip_prefix ''.'' rest of
        Some after_dot \<Rightarrow>
          (read_member current (takeWhile (\<lambda>c. \<not> path_end c) after_dot),
           dropWhile (\<lambda>c. \<not> path_end c) after_dot)
      | None \<Rightarrow>
          (case strip_prefix [CHR ''['', CHR 0x27] rest of
             Some quoted \<Rightarrow>
               (let (member, remaining) = unquote quoted in (read_quoted current member, remaining))
           | None \<Rightarrow>
               (case strip_prefix ''['' rest of
                  Some after_bracket \<Rightarrow>
                    (read_index current (parse_u64 (takeWhile (\<lambda>c. c \<noteq> CHR '']'') after_bracket)),
                     tl (dropWhile (\<lambda>c. c \<noteq> CHR '']'') after_bracket))
                | None \<Rightarrow> (None, rest))))"

lemma length_tl_dropWhile: "length (tl (dropWhile P xs)) \<le> length xs"
  using length_dropWhile_le [of P xs] by simp

lemma navigate_step_shorter:
  assumes "navigate_step v s = (Some w, r)"
  shows "length r < length s"
proof (cases "strip_prefix ''.'' s")
  case (Some a)
  with assms have "r = dropWhile (\<lambda>c. \<not> path_end c) a" by (simp add: navigate_step_def)
  moreover from Some have "s = ''.'' @ a" by (rule strip_prefix_SomeD)
  ultimately show ?thesis using length_dropWhile_le [of "\<lambda>c. \<not> path_end c" a] by simp
next
  case dot: None
  show ?thesis
  proof (cases "strip_prefix [CHR ''['', CHR 0x27] s")
    case (Some a)
    with assms dot have "r = snd (unquote a)" by (auto simp: navigate_step_def split: prod.splits)
    moreover from Some have "s = [CHR ''['', CHR 0x27] @ a" by (rule strip_prefix_SomeD)
    ultimately show ?thesis using unquote_shorter [of a] by simp
  next
    case quoted: None
    show ?thesis
    proof (cases "strip_prefix ''['' s")
      case (Some a)
      with assms dot quoted have "r = tl (dropWhile (\<lambda>c. c \<noteq> CHR '']'') a)"
        by (simp add: navigate_step_def)
      moreover from Some have "s = ''['' @ a" by (rule strip_prefix_SomeD)
      ultimately show ?thesis using length_tl_dropWhile [of "\<lambda>c. c \<noteq> CHR '']''" a] by simp
    next
      case None
      with assms dot quoted show ?thesis by (simp add: navigate_step_def)
    qed
  qed
qed

function navigate :: "rv \<Rightarrow> string \<Rightarrow> rv" where
  "navigate current rest =
     (if rest = [] then current
      else (case navigate_step current rest of
              (None, _) \<Rightarrow> RAbsent
            | (Some next, remaining) \<Rightarrow> navigate next remaining))"
  by pat_completeness auto
termination
  by (relation "measure (\<lambda>(_, s). length s)") (auto dest: navigate_step_shorter [OF sym])

declare navigate.simps [simp del]

lemma navigate_empty [simp]: "navigate v [] = v"
  by (simp add: navigate.simps)

lemma navigate_absent [simp]: "navigate RAbsent s = RAbsent"
proof (induction s rule: length_induct)
  case (1 s)
  have "fst (navigate_step RAbsent s) = None"
    by (auto simp: navigate_step_def read_member_def read_quoted_def read_index_def
        split: option.splits prod.splits)
  then show ?case by (subst navigate.simps) (auto split: prod.splits option.splits)
qed

subsection \<open>Segments\<close>

datatype path_segment = Member string | Index nat

text \<open>How a compiler writes a segment, and what reading it from a value gives.\<close>

fun segment_text :: "path_segment \<Rightarrow> string" where
  "segment_text (Member name) = member_path [] name"
| "segment_text (Index i) = ''['' @ nat_text i @ '']''"

definition segments_text :: "path_segment list \<Rightarrow> string" where
  "segments_text ss = concat (map segment_text ss)"

definition or_absent :: "rv option \<Rightarrow> rv" where
  "or_absent v = (case v of Some v \<Rightarrow> v | None \<Rightarrow> RAbsent)"

fun read_segment :: "rv \<Rightarrow> path_segment \<Rightarrow> rv" where
  "read_segment v (Member name) =
     or_absent (if plain_name name then read_member v name else read_quoted v name)"
| "read_segment v (Index i) = or_absent (read_index v (Some i))"

fun segment_ok :: "path_segment \<Rightarrow> bool" where
  "segment_ok (Member _) = True"
| "segment_ok (Index i) = (i < 2 ^ 64)"

text \<open>A suffix that starts a segment, or is over.\<close>

definition at_boundary :: "string \<Rightarrow> bool" where
  "at_boundary s \<longleftrightarrow> s = [] \<or> path_end (hd s)"

lemma segment_text_boundary: "at_boundary (segment_text s @ r)"
  by (cases s) (auto simp: at_boundary_def member_path_def path_end_def)

lemma segments_text_boundary: "at_boundary (segments_text ss)"
proof (cases ss)
  case Nil
  then show ?thesis by (simp add: segments_text_def at_boundary_def)
next
  case (Cons s ss')
  then show ?thesis using segment_text_boundary [of s] by (simp add: segments_text_def)
qed

lemma plain_name_chars:
  assumes "plain_name n" and "at_boundary r"
  shows "takeWhile (\<lambda>c. \<not> path_end c) (n @ r) = n" and "dropWhile (\<lambda>c. \<not> path_end c) (n @ r) = r"
proof -
  have "list_all (\<lambda>c. \<not> path_end c) n"
    using assms(1) by (auto simp: plain_name_def path_special_def path_end_def list_all_iff)
  with assms(2) show "takeWhile (\<lambda>c. \<not> path_end c) (n @ r) = n"
    and "dropWhile (\<lambda>c. \<not> path_end c) (n @ r) = r"
    by (cases r; auto simp: at_boundary_def list_all_iff takeWhile_append dropWhile_append)+
qed

lemma escape_name_Nil [simp]: "escape_name [] = []"
  by (simp add: escape_name_def)

lemma escape_name_Cons:
  "escape_name (c # n) =
     (if c = CHR 0x5C \<or> c = CHR 0x27 then [CHR 0x5C, c] else [c]) @ escape_name n"
  by (simp add: escape_name_def)

lemma unquote_plain:
  "c \<noteq> CHR 0x5C \<Longrightarrow> c \<noteq> CHR 0x27 \<Longrightarrow> unquote (c # s) = map_prod ((#) c) id (unquote s)"
  by (cases s) auto

lemma unquote_escape: "unquote (escape_name n @ [CHR 0x27, CHR '']''] @ r) = (n, r)"
  by (induction n) (auto simp: escape_name_Cons unquote_plain)

lemma strip_prefix_Cons: "strip_prefix [c] (d # s) = (if c = d then Some s else None)"
  by (auto simp: strip_prefix_def)

lemma strip_prefix_Cons2:
  "strip_prefix [c, c'] (d # d' # s) = (if c = d \<and> c' = d' then Some s else None)"
  by (auto simp: strip_prefix_def)

lemma nat_text_head: "\<exists>c r. nat_text i = c # r \<and> is_digit c \<and> list_all is_digit r"
  using nat_text_digits [of i] by (cases "nat_text i") auto

lemma navigate_segment:
  assumes "segment_ok s" and "at_boundary r"
  shows "navigate v (segment_text s @ r) = navigate (read_segment v s) r"
proof -
  have step: "navigate_step v (segment_text s @ r) =
     (case s of Member n \<Rightarrow> (if plain_name n then read_member v n else read_quoted v n)
        | Index i \<Rightarrow> read_index v (Some i), r)"
  proof (cases s)
    case (Member n)
    then show ?thesis
      using plain_name_chars [OF _ assms(2), of n] unquote_escape [of n r]
      by (simp add: navigate_step_def member_path_def strip_prefix_Cons strip_prefix_Cons2)
  next
    case (Index i)
    obtain c t where ct: "nat_text i = c # t" "is_digit c" "list_all is_digit t"
      using nat_text_head by blast
    have no_bracket: "list_all (\<lambda>c. c \<noteq> CHR '']'') (nat_text i)"
      using nat_text_digits [of i] by (auto simp: list_all_iff is_digit_range)
    then have "takeWhile (\<lambda>c. c \<noteq> CHR '']'') (nat_text i @ CHR '']'' # r) = nat_text i"
      and "dropWhile (\<lambda>c. c \<noteq> CHR '']'') (nat_text i @ CHR '']'' # r) = CHR '']'' # r"
      by (simp_all add: takeWhile_append dropWhile_append list_all_iff)
    moreover from ct have "c \<noteq> CHR 0x27" by (auto simp: is_digit_range)
    moreover have "parse_u64 (c # t) = Some i"
      using parse_u64_nat_text [of i] assms(1) by (simp add: Index ct(1) [symmetric])
    ultimately show ?thesis
      using Index ct(1) by (simp add: navigate_step_def strip_prefix_Cons strip_prefix_Cons2)
  qed
  have "segment_text s @ r \<noteq> []" by (cases s) (simp_all add: member_path_def)
  then have "navigate v (segment_text s @ r) =
     (case navigate_step v (segment_text s @ r) of
        (None, _) \<Rightarrow> RAbsent | (Some w, r) \<Rightarrow> navigate w r)"
    by (subst navigate.simps) (simp only: if_False)
  also have "\<dots> = navigate (read_segment v s) r"
    unfolding step by (cases s) (simp_all add: or_absent_def split: option.splits)
  finally show ?thesis .
qed

lemma navigate_segments_aux:
  "list_all segment_ok ss \<Longrightarrow> navigate v (segments_text ss) = foldl read_segment v ss"
proof (induction ss arbitrary: v)
  case Nil
  then show ?case by (simp add: segments_text_def)
next
  case (Cons s ss)
  have "segments_text (s # ss) = segment_text s @ segments_text ss" by (simp add: segments_text_def)
  with Cons segments_text_boundary [of ss] show ?case by (simp add: navigate_segment)
qed

text \<open>A path's reader takes apart what its writer put together: navigating by the text of a list
  of segments reads them one after the other, whatever characters the member names hold.\<close>

theorem navigate_segments:
  assumes "list_all segment_ok ss"
  shows "navigate v (segments_text ss) = foldl read_segment v ss"
  using assms by (rule navigate_segments_aux)

theorem navigate_segments_witness:
  "navigate (RObject [(''a.b'', RArray [RNull, RString ''x''])])
     (segments_text [Member ''a.b'', Index 1]) =
   foldl read_segment (RObject [(''a.b'', RArray [RNull, RString ''x''])]) [Member ''a.b'', Index 1]"
  by (rule navigate_segments) simp

end
