(* ===== verification/Display.thy ===== *)
theory Display
  imports Prelude
begin

text \<open>
  Display text with its segments: \<open>Marked\<close> of engine/kernel/src/display.rs, which every mismatch
  message of the interpreter is built through. The text a host reads is the concatenation of the
  segments, and adjacent segments of one kind are kept as one.
\<close>

datatype display_kind =
    K_Pass | K_Fail | K_Warn | K_Review | K_Quiet | K_Path | K_Code | K_Heading | K_String
  | K_Number | K_Literal | K_Label | K_Action | K_Operator | K_Annotation | K_Arrow

record segment =
  seg_text :: string
  seg_kind :: "display_kind option"

type_synonym marked = "segment list"

definition marked_push :: "marked \<Rightarrow> display_kind option \<Rightarrow> string \<Rightarrow> marked" where
  "marked_push m k t =
     (if t = [] then m
      else if m \<noteq> [] \<and> seg_kind (last m) = k
      then butlast m @ [(last m)\<lparr>seg_text := seg_text (last m) @ t\<rparr>]
      else m @ [\<lparr>seg_text = t, seg_kind = k\<rparr>])"

definition marked_plain :: "string \<Rightarrow> marked" where
  "marked_plain t = marked_push [] None t"

definition marked_of :: "display_kind \<Rightarrow> string \<Rightarrow> marked" where
  "marked_of k t = marked_push [] (Some k) t"

definition marked_append :: "marked \<Rightarrow> marked \<Rightarrow> marked" where
  "marked_append m other = foldl (\<lambda>acc s. marked_push acc (seg_kind s) (seg_text s)) m other"

definition marked_text :: "marked \<Rightarrow> string" where
  "marked_text m = concat (map seg_text m)"

definition marked_all_as :: "marked \<Rightarrow> display_kind \<Rightarrow> marked" where
  "marked_all_as m k = marked_of k (marked_text m)"

fun marked_join_from :: "bool \<Rightarrow> marked \<Rightarrow> marked list \<Rightarrow> string \<Rightarrow> marked" where
  "marked_join_from first acc [] sep = acc"
| "marked_join_from first acc (p # ps) sep =
     marked_join_from False
       (marked_append (if first then acc else marked_push acc None sep) p) ps sep"

definition marked_join :: "marked list \<Rightarrow> string \<Rightarrow> marked" where
  "marked_join parts sep = marked_join_from True [] parts sep"

text \<open>The writer's invariant: no empty segment, and no two neighbours of one kind.\<close>

definition marked_wf :: "marked \<Rightarrow> bool" where
  "marked_wf m \<longleftrightarrow> (\<forall>s \<in> set m. seg_text s \<noteq> []) \<and> distinct_adj (map seg_kind m)"

lemma marked_text_push [simp]: "marked_text (marked_push m k t) = marked_text m @ t"
proof (cases "m = []")
  case False
  then obtain b l where "m = b @ [l]" by (metis append_butlast_last_id)
  then show ?thesis by (simp add: marked_push_def marked_text_def)
qed (simp add: marked_push_def marked_text_def)

lemma marked_text_plain [simp]: "marked_text (marked_plain t) = t"
  by (simp add: marked_plain_def) (simp add: marked_text_def)

lemma marked_text_of [simp]: "marked_text (marked_of k t) = t"
  by (simp add: marked_of_def) (simp add: marked_text_def)

lemma marked_text_append [simp]: "marked_text (marked_append m o') = marked_text m @ marked_text o'"
proof (induction o' arbitrary: m)
  case Nil
  then show ?case by (simp add: marked_append_def marked_text_def)
next
  case (Cons s o')
  then show ?case by (simp add: marked_append_def) (simp add: marked_text_def)
qed

lemma marked_wf_push: "marked_wf m \<Longrightarrow> marked_wf (marked_push m k t)"
proof (cases "m = []")
  case False
  assume wf: "marked_wf m"
  from False obtain b l where m: "m = b @ [l]" by (metis append_butlast_last_id)
  from wf show ?thesis
    by (auto simp: m marked_wf_def marked_push_def distinct_adj_append_iff)
qed (simp add: marked_wf_def marked_push_def)

lemma marked_wf_append: "marked_wf m \<Longrightarrow> marked_wf (marked_append m o')"
  by (induction o' arbitrary: m) (auto simp: marked_append_def marked_wf_push)

lemma marked_text_join_from:
  "marked_text (marked_join_from first acc parts sep) =
   marked_text acc @ (if first \<or> parts = [] then [] else sep) @ join_with sep (map marked_text parts)"
proof (induction first acc parts sep rule: marked_join_from.induct)
  case (2 first acc p ps sep)
  then show ?case by (cases ps) auto
qed simp

lemma marked_wf_join_from: "marked_wf acc \<Longrightarrow> marked_wf (marked_join_from first acc parts sep)"
  by (induction first acc parts sep rule: marked_join_from.induct)
    (auto simp: marked_wf_append marked_wf_push)

end
