(* ===== verification/Plan_Text.thy ===== *)
theory Plan_Text
  imports Runtime_Value Display
begin

text \<open>
  What the interpreter's actions ask of a value, and the texts they make of one, engine/kernel/src/plan/interpret.rs:
  kinds, sizes, the shape language's equality, and the marked messages of a mismatch.
\<close>

definition bool_text :: "bool \<Rightarrow> string" where
  "bool_text b = (if b then ''true'' else ''false'')"

text \<open>\<open>render_bytes\<close> of engine/kernel/src/plan/render.rs.\<close>

definition render_bytes :: "lib \<Rightarrow> string \<Rightarrow> string" where
  "render_bytes L bytes =
     (let encoded = base64_encode L bytes;
          shown = (if 48 < length encoded then take 48 encoded @ ''...'' else encoded)
      in ''BYTES('' @ nat_text (length bytes) @ '', '' @ shown @ '')'')"

fun display_value :: "lib \<Rightarrow> rv \<Rightarrow> string" where
  "display_value L RAbsent = ''<absent>''"
| "display_value L RNull = ''null''"
| "display_value L (RBool b) = bool_text b"
| "display_value L (RNumber n) = number_text L n"
| "display_value L (RString s) = quote1 s"
| "display_value L (RBytes bytes) = render_bytes L bytes"
| "display_value L (REntry key _) = ''entry '' @ quote1 key"
| "display_value L v = json_text L (rv_to_json L v)"

definition plain_text :: "lib \<Rightarrow> rv \<Rightarrow> string" where
  "plain_text L v = (case v of RString s \<Rightarrow> s | other \<Rightarrow> display_value L other)"

definition as_text :: "rv \<Rightarrow> string option" where
  "as_text v = (case v of RString s \<Rightarrow> Some s | RBytes bytes \<Rightarrow> from_utf8 bytes | _ \<Rightarrow> None)"

definition as_matchable_text :: "lib \<Rightarrow> rv \<Rightarrow> string option" where
  "as_matchable_text L v =
     (case v of
        RNumber _ \<Rightarrow> Some (plain_text L v)
      | RBool _ \<Rightarrow> Some (plain_text L v)
      | other \<Rightarrow> as_text other)"

definition a_kind :: "string \<Rightarrow> string" where
  "a_kind kind =
     (if kind = ''bytes'' then kind
      else if kind \<noteq> [] \<and> hd kind \<in> set ''aeiou'' then ''an '' @ kind
      else ''a '' @ kind)"

definition items_text :: "nat \<Rightarrow> string" where
  "items_text n = (if n = 1 then ''1 item'' else nat_text n @ '' items'')"

fun kind_of :: "rv \<Rightarrow> string" where
  "kind_of RAbsent = ''absent''"
| "kind_of RNull = ''null''"
| "kind_of (RBool _) = ''boolean''"
| "kind_of (RNumber _) = ''number''"
| "kind_of (RString _) = ''string''"
| "kind_of (RArray _) = ''array''"
| "kind_of (RObject _) = ''object''"
| "kind_of (RBytes _) = ''bytes''"
| "kind_of (REntry _ _) = ''entry''"

text \<open>Structural equality with the shape language's numeric rule. An entry equals nothing.\<close>

fun runtime_eq :: "rv \<Rightarrow> rv \<Rightarrow> bool" where
  "runtime_eq RAbsent RAbsent = True"
| "runtime_eq RNull RNull = True"
| "runtime_eq (RBool x) (RBool y) = (x = y)"
| "runtime_eq (RNumber x) (RNumber y) = f64_eq (as_f64 x) (as_f64 y)"
| "runtime_eq (RString x) (RString y) = (x = y)"
| "runtime_eq (RBytes x) (RBytes y) = (x = y)"
| "runtime_eq (RArray x) (RArray y) = all2 runtime_eq x y"
| "runtime_eq (RObject x) (RObject y) =
     (length x = length y
      \<and> list_all (\<lambda>(k, v). case map_of y k of None \<Rightarrow> False | Some w \<Rightarrow> runtime_eq v w) x)"
| "runtime_eq _ _ = False"

fun is_empty_value :: "rv \<Rightarrow> bool" where
  "is_empty_value (RString s) = (s = [])"
| "is_empty_value (RArray items) = (items = [])"
| "is_empty_value (RObject members) = (members = [])"
| "is_empty_value (RBytes bytes) = (bytes = [])"
| "is_empty_value RAbsent = True"
| "is_empty_value RNull = True"
| "is_empty_value _ = False"

fun length_of_opt :: "rv \<Rightarrow> nat option" where
  "length_of_opt (RString s) = Some (chars_count s)"
| "length_of_opt (RArray items) = Some (length items)"
| "length_of_opt (RObject members) = Some (length members)"
| "length_of_opt (RBytes bytes) = Some (length bytes)"
| "length_of_opt _ = None"

definition length_of :: "rv \<Rightarrow> nat" where
  "length_of v = (case length_of_opt v of Some n \<Rightarrow> n | None \<Rightarrow> 0)"

definition value_as_u64 :: "rv \<Rightarrow> nat option" where
  "value_as_u64 v =
     (case v of
        RNumber n \<Rightarrow> (case as_u64 n of Some u \<Rightarrow> Some u | None \<Rightarrow> Some (f64_to_u64 (as_f64 n)))
      | _ \<Rightarrow> None)"

subsection \<open>Results and their messages\<close>

datatype node_result =
    ROk
  | RVal rv
  | RErr string "string option" "marked option"

definition shown_value :: "lib \<Rightarrow> rv \<Rightarrow> marked" where
  "shown_value L v =
     (let t = display_value L v in
      case v of
        RString _ \<Rightarrow> marked_of K_String t
      | RNumber _ \<Rightarrow> marked_of K_Number t
      | REntry _ _ \<Rightarrow> marked_plain t
      | _ \<Rightarrow> marked_of K_Literal t)"

definition quoted_text :: "string \<Rightarrow> marked" where
  "quoted_text t = marked_of K_String (quote1 t)"

definition failed :: "marked list \<Rightarrow> string option \<Rightarrow> node_result" where
  "failed pieces path =
     (let m = foldl marked_append [] pieces in RErr (marked_text m) path (Some m))"

definition marked_number :: "nat \<Rightarrow> marked" where
  "marked_number n = marked_of K_Number (nat_text n)"

lemma failed_message:
  "failed pieces path = RErr (concat (map marked_text pieces)) path (Some (foldl marked_append [] pieces))"
proof -
  have "marked_text (foldl marked_append m pieces) = marked_text m @ concat (map marked_text pieces)" for m
    by (induction pieces arbitrary: m) auto
  from this [of "[]"] show ?thesis by (simp add: failed_def Let_def) (simp add: marked_text_def)
qed

lemma failed_wf: "failed pieces path = RErr t p (Some m) \<Longrightarrow> marked_wf m"
proof -
  have wf: "marked_wf a \<Longrightarrow> marked_wf (foldl marked_append a pieces)" for a
    by (induction pieces arbitrary: a) (auto simp: marked_wf_append)
  assume "failed pieces path = RErr t p (Some m)"
  then show ?thesis using wf [of "[]"] by (auto simp: failed_def Let_def marked_wf_def)
qed

subsection \<open>Equality is the shape language's\<close>

lemma runtime_eq_from_json: "runtime_eq (rv_from_json v) (rv_from_json w) = value_eq v w"
proof (induction v w rule: value_eq.induct)
  case (2 x y)
  have "list_all2 (\<lambda>v w. runtime_eq (rv_from_json v) (rv_from_json w)) x y = list_all2 value_eq x y"
    by (rule list.rel_cong) (auto simp: 2)
  then show ?case by (simp add: all2_conv_list_all2 list.rel_map)
next
  case (3 x y)
  have m: "map_of (map (\<lambda>(k, v). (k, rv_from_json v)) y) k = map_option rv_from_json (map_of y k)" for k
    by (induction y) auto
  have "(\<forall>(k, v) \<in> set x. case map_option rv_from_json (map_of y k) of
            None \<Rightarrow> False | Some w \<Rightarrow> runtime_eq (rv_from_json v) w) =
        (\<forall>(k, v) \<in> set x. case map_of y k of None \<Rightarrow> False | Some w \<Rightarrow> value_eq v w)"
    using 3 by (intro ball_cong) (auto split: option.splits)
  then show ?case by (simp add: list_all_iff m case_prod_beta cong: option.case_cong)
qed simp_all

end
