(* ===== verification/Header_Values.thy ===== *)
theory Header_Values
  imports Prelude "HOL-Library.Product_Lexorder"
begin

text \<open>
  Content types and header values as the v1 to v4 actions of engine/kernel/src/plan/interpret.rs compare
  them, and \<open>media_type_matches\<close> of engine/kernel/src/component/registry.rs.
\<close>

definition mime_parts :: "string \<Rightarrow> string \<times> (string \<times> string) list" where
  "mime_parts v =
     (let parts = map trim (split_on (CHR '';'') v)
      in (hd parts,
          List.map_filter (\<lambda>p.
            map_option (\<lambda>(k, v). (trim k, trim_char (CHR 0x22) (trim v))) (split_once (CHR ''='') p)) (tl parts)))"

definition header_values_match :: "string \<Rightarrow> string \<Rightarrow> bool" where
  "header_values_match expected actual =
     (if CHR '';'' \<in> set expected \<or> CHR '';'' \<in> set actual
      then let (expected_type, expected_params) = mime_parts expected;
               (actual_type, actual_params) = mime_parts actual
           in eq_ignore_ascii_case expected_type actual_type
              \<and> list_all (\<lambda>(key, v).
                   list_ex (\<lambda>(k, w). eq_ignore_ascii_case k key \<and> eq_ignore_ascii_case w v) actual_params)
                 expected_params
      else if CHR '','' \<in> set expected \<or> CHR '','' \<in> set actual
      then map trim (split_on (CHR '','') expected) = map trim (split_on (CHR '','') actual)
      else expected = actual)"

definition body_type_parts :: "string \<Rightarrow> (string \<times> string \<times> (string \<times> string) list) option" where
  "body_type_parts v =
     (let (base, params) = mime_parts v
      in map_option (\<lambda>(main, sub). (main, sub, sort (map (\<lambda>(k, v). (to_ascii_lowercase k, v)) params)))
           (split_once (CHR ''/'') (to_ascii_lowercase base)))"

definition body_types_agree :: "string \<Rightarrow> string \<Rightarrow> bool" where
  "body_types_agree expected actual =
     (case (body_type_parts expected, body_type_parts actual) of
        (Some (e_main, e_sub, e_params), Some (a_main, a_sub, a_params)) \<Rightarrow>
          if ''*'' \<in> {e_main, e_sub, a_main, a_sub} then True
          else let same = (e_main = a_main \<and> e_sub = a_sub) in
            if e_params = []
            then same \<or> (e_main = a_main
                   \<and> (case rsplit_once (CHR ''+'') a_sub of
                        Some (_, suff) \<Rightarrow> suff = e_sub | None \<Rightarrow> False))
            else same \<and> e_params = a_params
      | _ \<Rightarrow> True)"

definition message_type_parts ::
  "string \<Rightarrow> (string \<times> string \<times> string option \<times> (string \<times> string) list) option" where
  "message_type_parts v =
     (let (base, params) = mime_parts v;
          params = sort (map (\<lambda>(k, v). (to_ascii_lowercase k, to_ascii_lowercase v)) params)
      in map_option (\<lambda>(main, sub).
           (case split_once (CHR ''+'') sub of
              Some (s, suff) \<Rightarrow> (main, s, Some suff, params)
            | None \<Rightarrow> (main, sub, None, params)))
         (split_once (CHR ''/'') (to_ascii_lowercase base)))"

definition strict_xml :: "string \<times> string \<times> string option \<times> (string \<times> string) list \<Rightarrow> bool" where
  "strict_xml = (\<lambda>(main, sub, _, _). (main = ''application'' \<or> main = ''text'') \<and> sub = ''xml'')"

definition message_types_equivalent :: "string \<Rightarrow> string \<Rightarrow> bool" where
  "message_types_equivalent expected actual =
     (case (message_type_parts expected, message_type_parts actual) of
        (Some e, Some a) \<Rightarrow>
          (case (e, a) of ((e_main, e_sub, _, e_params), (a_main, a_sub, _, a_params)) \<Rightarrow>
             if strict_xml e \<and> strict_xml a then e_params = [] \<or> e_params = a_params
             else if e_params = [] then e_main = a_main \<and> e_sub = a_sub
             else e = a)
      | _ \<Rightarrow> eq_ignore_ascii_case (trim expected) (trim actual))"

definition media_essence :: "string \<Rightarrow> string" where
  "media_essence v = to_ascii_lowercase (trim (hd (split_on (CHR '';'') v)))"

definition media_type_matches :: "string \<Rightarrow> string \<Rightarrow> bool" where
  "media_type_matches pattern content_type =
     (case (split_once (CHR ''/'') (media_essence pattern), split_once (CHR ''/'') (media_essence content_type)) of
        (Some (pattern_type, pattern_subtype), Some (main_type, subtype)) \<Rightarrow>
          (pattern_type = ''*'' \<or> pattern_type = main_type)
          \<and> (pattern_subtype = ''*'' \<or> pattern_subtype = subtype)
      | _ \<Rightarrow> False)"

subsection \<open>How lenient each comparison is\<close>

text \<open>A header value matches itself, whichever of the three ways it is compared.\<close>

theorem header_values_match_refl: "header_values_match v v"
  by (auto simp: header_values_match_def eq_ignore_ascii_case_def list_all_iff list_ex_iff
      split: prod.splits)

lemma split_on_nonempty [simp]: "split_on c s \<noteq> []"
  by (cases s) (auto split: list.splits)

lemma split_on_append_sep: "split_on c (a @ c # b) = split_on c a @ split_on c b"
proof (induction a)
  case (Cons x a)
  then show ?case
    by (cases "split_on c a") (auto split: list.splits)
qed simp

lemma mime_parts_append:
  "mime_parts (a @ CHR '';'' # b) =
     (fst (mime_parts a), snd (mime_parts a) @ snd (mime_parts (CHR '';'' # b)))"
  by (simp add: mime_parts_def split_on_append_sep map_filter_def Let_def)

text \<open>Parameters a media-typed header value carries beyond the expected ones never fail it: what
  matches a value that names its parameters still matches when more are appended to the actual one.\<close>

theorem header_values_match_more_params:
  assumes "header_values_match expected actual" and "CHR '';'' \<in> set expected \<or> CHR '';'' \<in> set actual"
  shows "header_values_match expected (actual @ CHR '';'' # more)"
proof -
  from assms have "eq_ignore_ascii_case (fst (mime_parts expected)) (fst (mime_parts actual))"
    and "list_all (\<lambda>(key, v). list_ex (\<lambda>(k, w). eq_ignore_ascii_case k key \<and> eq_ignore_ascii_case w v)
      (snd (mime_parts actual))) (snd (mime_parts expected))"
    by (auto simp: header_values_match_def split: prod.splits if_splits)
  then show ?thesis
    by (auto simp: header_values_match_def mime_parts_append list_all_iff split: prod.splits)
qed

theorem header_values_match_more_params_witness:
  "header_values_match ''text/csv; header=present'' (''Text/CSV;HEADER=Present'' @ CHR '';'' # ''charset=x'')"
  by (rule header_values_match_more_params) code_simp+

end
