(* ===== verification/Plan_Dispatch.thy ===== *)
theory Plan_Dispatch
  imports Plan_Text Header_Values
begin

text \<open>
  The executed tree and the actions that take their children's values, engine/kernel/src/plan/interpret.rs:
  one definition per arm of \<open>dispatch\<close>, and the table of the names it matches on. An arm reads its
  children by position (\<open>arg\<close>), which \<open>least_children\<close> bounds before it is reached.
\<close>

datatype executed = Exec (x_kind: exec_kind) (x_result: "node_result option")
and exec_kind =
    XContainer "string option" "executed list"
  | XAction string "executed list"
  | XValue literal
  | XResolve string
  | XResolveCurrent string "string option"
  | XPipeline "executed list"
  | XSplat "executed list"
  | XAnnotation string

text \<open>What a run can reach outside the plan: the resolver, the content detector and the applier of
  component actions, when there are any.\<close>

record host =
  h_resolve :: "string \<Rightarrow> rv"
  h_content :: "(rv \<Rightarrow> string option \<Rightarrow> string option) option"
  h_actions :: "(string \<Rightarrow> rv list \<Rightarrow> string option \<Rightarrow> node_result option) option"

subsection \<open>Reading an executed node\<close>

definition child_failed :: "executed \<Rightarrow> bool" where
  "child_failed e =
     (case x_result e of
        Some (RErr _ _ _) \<Rightarrow> True
      | Some (RVal (RBool b)) \<Rightarrow> \<not> b
      | _ \<Rightarrow> False)"

definition truthy :: "node_result \<Rightarrow> bool" where
  "truthy r \<longleftrightarrow> r = ROk \<or> r = RVal (RBool True)"

definition is_truthy :: "executed \<Rightarrow> bool" where
  "is_truthy e = (case x_result e of Some r \<Rightarrow> truthy r | None \<Rightarrow> False)"

definition value_of :: "executed \<Rightarrow> rv" where
  "value_of e = (case x_result e of Some (RVal v) \<Rightarrow> v | _ \<Rightarrow> RAbsent)"

fun path_of :: "executed \<Rightarrow> string option" where
  "path_of (Exec (XResolve path) _) = Some path"
| "path_of (Exec (XResolveCurrent path absolute) _) =
     Some (case absolute of Some a \<Rightarrow> a | None \<Rightarrow> path)"
| "path_of (Exec (XAction _ (c # _)) _) = path_of c"
| "path_of (Exec (XPipeline (c # _)) _) = path_of c"
| "path_of (Exec (XSplat (c # _)) _) = path_of c"
| "path_of _ = None"

definition locus :: "executed list \<Rightarrow> string option" where
  "locus cs = (case cs of [] \<Rightarrow> None | c # _ \<Rightarrow> path_of c)"

definition arg :: "executed list \<Rightarrow> nat \<Rightarrow> rv" where
  "arg cs i = value_of (cs ! i)"

definition fail_at :: "executed list \<Rightarrow> marked list \<Rightarrow> node_result" where
  "fail_at cs pieces = failed pieces (locus cs)"

definition matched_result :: node_result where
  "matched_result = RVal (RBool True)"

definition expected_but :: "lib \<Rightarrow> executed list \<Rightarrow> string \<Rightarrow> rv \<Rightarrow> node_result" where
  "expected_but L cs wanted v =
     fail_at cs [marked_plain ''Expected '', marked_plain wanted, marked_plain '' but got '', shown_value L v]"

definition expected_string :: "lib \<Rightarrow> executed list \<Rightarrow> rv \<Rightarrow> node_result" where
  "expected_string L cs v =
     fail_at cs [marked_plain ''Expected a string but got '', shown_value L v]"

subsection \<open>The \<open>flow\<close>, \<open>value\<close> and \<open>check\<close> actions\<close>

definition act_flow_and :: "executed list \<Rightarrow> node_result" where
  "act_flow_and cs =
     (if cs = [] then ROk else if list_ex child_failed cs then RVal (RBool False) else ROk)"

definition act_flow_error :: "lib \<Rightarrow> executed list \<Rightarrow> node_result" where
  "act_flow_error L cs = RErr (plain_text L (arg cs 0)) None None"

definition act_flow_last :: "executed list \<Rightarrow> node_result" where
  "act_flow_last cs =
     (if cs = [] then ROk else (case x_result (last cs) of Some r \<Rightarrow> r | None \<Rightarrow> ROk))"

definition act_join :: "lib \<Rightarrow> executed list \<Rightarrow> node_result" where
  "act_join L cs = RVal (RString (concat (map (\<lambda>c. plain_text L (value_of c)) cs)))"

definition act_join_with :: "lib \<Rightarrow> executed list \<Rightarrow> node_result" where
  "act_join_with L cs =
     RVal (RString (join_with (plain_text L (arg cs 0)) (map (\<lambda>c. plain_text L (value_of c)) (tl cs))))"

definition act_length :: "executed list \<Rightarrow> node_result" where
  "act_length cs = RVal (RNumber (PosInt (length_of (arg cs 0))))"

definition act_lower_case :: "lib \<Rightarrow> executed list \<Rightarrow> node_result" where
  "act_lower_case L cs = RVal (RString (lower_case L (plain_text L (arg cs 0))))"

definition act_upper_case :: "lib \<Rightarrow> executed list \<Rightarrow> node_result" where
  "act_upper_case L cs = RVal (RString (upper_case L (plain_text L (arg cs 0))))"

definition act_to_string :: "lib \<Rightarrow> executed list \<Rightarrow> node_result" where
  "act_to_string L cs = RVal (RString (plain_text L (arg cs 0)))"

definition act_check_exists :: "executed list \<Rightarrow> node_result" where
  "act_check_exists cs = RVal (RBool (arg cs 0 \<noteq> RAbsent))"

definition act_check_null :: "executed list \<Rightarrow> node_result" where
  "act_check_null cs = RVal (RBool (arg cs 0 = RNull))"

definition act_check_equals :: "executed list \<Rightarrow> node_result" where
  "act_check_equals cs = RVal (RBool (runtime_eq (arg cs 0) (arg cs 1)))"

subsection \<open>The \<open>expect\<close> actions\<close>

definition act_expect_absent :: "lib \<Rightarrow> executed list \<Rightarrow> node_result" where
  "act_expect_absent L cs =
     (if arg cs 0 = RAbsent then ROk
      else fail_at cs [marked_plain ''Expected no value but got '', shown_value L (arg cs 0)])"

definition act_expect_object :: "lib \<Rightarrow> executed list \<Rightarrow> node_result" where
  "act_expect_object L cs =
     (case arg cs 0 of RObject _ \<Rightarrow> ROk | v \<Rightarrow> expected_but L cs ''an object'' v)"

definition act_expect_array :: "lib \<Rightarrow> executed list \<Rightarrow> node_result" where
  "act_expect_array L cs =
     (case arg cs 0 of RArray _ \<Rightarrow> ROk | v \<Rightarrow> expected_but L cs ''an array'' v)"

definition act_expect_not_empty :: "lib \<Rightarrow> executed list \<Rightarrow> node_result" where
  "act_expect_not_empty L cs =
     (if is_empty_value (arg cs 0)
      then fail_at cs [marked_plain ''Expected a non-empty value but got '', shown_value L (arg cs 0)]
      else ROk)"

definition act_expect_empty :: "lib \<Rightarrow> executed list \<Rightarrow> node_result" where
  "act_expect_empty L cs =
     (if is_empty_value (arg cs 0) then ROk
      else fail_at cs [marked_plain ''Expected an empty value but got '', shown_value L (arg cs 0)])"

definition not_countable :: "lib \<Rightarrow> executed list \<Rightarrow> node_result" where
  "not_countable L cs =
     fail_at cs [marked_plain ''Expected a countable value but got '', shown_value L (arg cs 0)]"

definition act_expect_count :: "lib \<Rightarrow> executed list \<Rightarrow> node_result" where
  "act_expect_count L cs =
     (let expected = value_as_u64 (arg cs 1) in
      case length_of_opt (arg cs 0) of
        Some len \<Rightarrow>
          if expected = Some len then ROk
          else fail_at cs [marked_plain ''Expected exactly '',
                 marked_plain (items_text (case expected of Some n \<Rightarrow> n | None \<Rightarrow> 0)),
                 marked_plain '' but got '', marked_number len]
      | None \<Rightarrow> not_countable L cs)"

definition act_expect_size :: "lib \<Rightarrow> executed list \<Rightarrow> node_result" where
  "act_expect_size L cs =
     (let least = (case value_as_u64 (arg cs 1) of Some n \<Rightarrow> n | None \<Rightarrow> 0);
          most = value_as_u64 (arg cs 2) in
      case length_of_opt (arg cs 0) of
        Some len \<Rightarrow>
          if least \<le> len \<and> (case most of Some m \<Rightarrow> len \<le> m | None \<Rightarrow> True) then ROk
          else fail_at cs [marked_plain ''Expected at least '', marked_plain (items_text least),
                 marked_plain (case most of Some m \<Rightarrow> '' and at most '' @ nat_text m | None \<Rightarrow> []),
                 marked_plain '' but got '', marked_number len]
      | None \<Rightarrow> not_countable L cs)"

subsection \<open>The \<open>match\<close> actions\<close>

definition act_match_any :: "executed list \<Rightarrow> node_result" where
  "act_match_any cs =
     (if arg cs 0 = RAbsent then RErr ''Expected a value but it was absent'' (locus cs) None
      else matched_result)"

text \<open>Octets display as their length, so a mismatch of two says where they part.\<close>

definition differing_byte :: "string \<Rightarrow> string \<Rightarrow> nat" where
  "differing_byte a e =
     (case position (\<lambda>(x, y). x \<noteq> y) (zip a e) of Some i \<Rightarrow> i | None \<Rightarrow> min (length a) (length e))"

definition act_match_equality :: "lib \<Rightarrow> executed list \<Rightarrow> node_result" where
  "act_match_equality L cs =
     (let actual = arg cs 0; expected = arg cs 1 in
      if runtime_eq actual expected then matched_result
      else fail_at cs
        ([marked_plain ''Expected '', shown_value L actual, marked_plain '' to equal '', shown_value L expected]
         @ (case (actual, expected) of
              (RBytes a, RBytes e) \<Rightarrow>
                [marked_plain '', differing from byte '', marked_number (differing_byte a e)]
            | _ \<Rightarrow> [])))"

definition act_match_type :: "lib \<Rightarrow> executed list \<Rightarrow> node_result" where
  "act_match_type L cs =
     (let actual = arg cs 0; expected = arg cs 1 in
      if actual \<noteq> RAbsent \<and> kind_of actual = kind_of expected then matched_result
      else expected_but L cs (a_kind (kind_of expected)) actual)"

definition match_kind :: "lib \<Rightarrow> (rv \<Rightarrow> bool) \<Rightarrow> string \<Rightarrow> executed list \<Rightarrow> node_result" where
  "match_kind L pred kind_name cs =
     (if pred (arg cs 0) then matched_result
      else expected_but L cs (a_kind kind_name) (arg cs 0))"

fun is_string :: "rv \<Rightarrow> bool" where
  "is_string (RString _) = True" | "is_string _ = False"

fun is_boolean :: "rv \<Rightarrow> bool" where
  "is_boolean (RBool _) = True" | "is_boolean _ = False"

fun is_number :: "rv \<Rightarrow> bool" where
  "is_number (RNumber _) = True" | "is_number _ = False"

fun is_integer :: "rv \<Rightarrow> bool" where
  "is_integer (RNumber n) = is_written_integer n" | "is_integer _ = False"

fun is_decimal :: "rv \<Rightarrow> bool" where
  "is_decimal (RNumber n) = (\<not> is_written_integer n)" | "is_decimal _ = False"

definition act_match_regex :: "lib \<Rightarrow> executed list \<Rightarrow> node_result" where
  "act_match_regex L cs =
     (let pattern = plain_text L (arg cs 1) in
      case as_matchable_text L (arg cs 0) of
        None \<Rightarrow> expected_string L cs (arg cs 0)
      | Some t \<Rightarrow>
          (case regex L pattern of
             Inl err \<Rightarrow>
               fail_at cs [marked_plain ''Invalid regex '', quoted_text pattern, marked_plain '': '', marked_plain err]
           | Inr is_match \<Rightarrow>
               if is_match t then matched_result
               else fail_at cs [marked_plain ''Expected '', quoted_text t, marked_plain '' to match '', quoted_text pattern]))"

definition default_format :: "temporal_kind \<Rightarrow> string" where
  "default_format k =
     (case k of
        TK_DateTime \<Rightarrow> ''yyyy-MM-dd'' @ quote1 ''T'' @ ''HH:mm:ssXXX''
      | TK_Date \<Rightarrow> ''yyyy-MM-dd''
      | TK_Time \<Rightarrow> ''HH:mm:ss'')"

definition match_temporal :: "lib \<Rightarrow> temporal_kind \<Rightarrow> executed list \<Rightarrow> node_result" where
  "match_temporal L k cs =
     (let format = (if 1 < length cs then plain_text L (arg cs 1) else default_format k) in
      case as_text (arg cs 0) of
        None \<Rightarrow> expected_string L cs (arg cs 0)
      | Some t \<Rightarrow>
          (case validate_datetime L t format of
             None \<Rightarrow> matched_result
           | Some err \<Rightarrow>
               fail_at cs [quoted_text t, marked_plain '' is not a '', marked_plain (temporal_kind_name k),
                 marked_plain '' in format '', quoted_text format, marked_plain '': '', marked_plain err]))"

definition act_match_include :: "lib \<Rightarrow> executed list \<Rightarrow> node_result" where
  "act_match_include L cs =
     (let part = plain_text L (arg cs 1) in
      case as_text (arg cs 0) of
        Some t \<Rightarrow>
          if contains_text t part then matched_result
          else fail_at cs [marked_plain ''Expected '', quoted_text t, marked_plain '' to include '', quoted_text part]
      | None \<Rightarrow> expected_string L cs (arg cs 0))"

definition act_match_content_type :: "lib \<Rightarrow> host \<Rightarrow> executed list \<Rightarrow> node_result" where
  "act_match_content_type L h cs =
     (let expected = plain_text L (arg cs 1) in
      case h_content h of
        None \<Rightarrow> RErr ''no content component is loaded to detect content type'' (locus cs) None
      | Some detect \<Rightarrow>
          (case detect (arg cs 0) (locus cs) of
             Some detected \<Rightarrow>
               if media_type_matches expected detected then matched_result
               else fail_at cs [marked_plain ''Expected content type '', quoted_text expected,
                      marked_plain '' but detected '', quoted_text detected]
           | None \<Rightarrow>
               fail_at cs [marked_plain ''Could not detect a content type for '', shown_value L (arg cs 0)]))"

definition act_match_semver :: "lib \<Rightarrow> executed list \<Rightarrow> node_result" where
  "act_match_semver L cs =
     (case as_text (arg cs 0) of
        Some t \<Rightarrow>
          if semver_parses L t then matched_result
          else fail_at cs [marked_plain ''Expected '', quoted_text t, marked_plain '' to be a semantic version'']
      | None \<Rightarrow> expected_string L cs (arg cs 0))"

definition act_match_any_of :: "lib \<Rightarrow> executed list \<Rightarrow> node_result" where
  "act_match_any_of L cs =
     (let v = arg cs 0; options = map value_of (tl cs) in
      if list_ex (\<lambda>x. runtime_eq x v) options then matched_result
      else fail_at cs [marked_plain ''Expected '', shown_value L v, marked_plain '' to be one of '',
             marked_plain (join_with '', '' (map (display_value L) options))])"

subsection \<open>The \<open>legacy\<close> actions\<close>

definition act_only_entries :: "lib \<Rightarrow> executed list \<Rightarrow> node_result" where
  "act_only_entries L cs =
     (let allowed = map (\<lambda>c. plain_text L (value_of c)) (tl cs) in
      case arg cs 0 of
        RObject members \<Rightarrow>
          (let extra = filter (\<lambda>k. k \<notin> set allowed) (keys members) in
           if extra = [] then ROk
           else RErr (''Unexpected member(s): '' @ join_with '', '' extra) (locus cs) None)
      | other \<Rightarrow> fail_at cs [marked_plain ''Expected an object but got '', shown_value L other])"

definition match_type_with_bounds ::
  "lib \<Rightarrow> executed list \<Rightarrow> nat option \<Rightarrow> nat option \<Rightarrow> node_result" where
  "match_type_with_bounds L cs least most =
     (let actual = arg cs 0; expected = arg cs 1 in
      if actual = RAbsent \<or> kind_of actual \<noteq> kind_of expected
      then expected_but L cs (a_kind (kind_of expected)) actual
      else (case actual of
              RArray items \<Rightarrow>
                (if (case least of Some m \<Rightarrow> length items < m | None \<Rightarrow> False)
                 then fail_at cs [marked_plain ''Expected at least '',
                        marked_plain (items_text (case least of Some m \<Rightarrow> m | None \<Rightarrow> 0)),
                        marked_plain '' but got '', marked_number (length items)]
                 else if (case most of Some m \<Rightarrow> m < length items | None \<Rightarrow> False)
                 then fail_at cs [marked_plain ''Expected at most '',
                        marked_plain (items_text (case most of Some m \<Rightarrow> m | None \<Rightarrow> 0)),
                        marked_plain '' but got '', marked_number (length items)]
                 else matched_result)
            | _ \<Rightarrow> matched_result))"

definition u64_arg :: "executed list \<Rightarrow> nat \<Rightarrow> nat" where
  "u64_arg cs i = (case value_as_u64 (arg cs i) of Some n \<Rightarrow> n | None \<Rightarrow> 0)"

definition act_min_type :: "lib \<Rightarrow> executed list \<Rightarrow> node_result" where
  "act_min_type L cs = match_type_with_bounds L cs (Some (u64_arg cs 2)) None"

definition act_max_type :: "lib \<Rightarrow> executed list \<Rightarrow> node_result" where
  "act_max_type L cs = match_type_with_bounds L cs None (Some (u64_arg cs 2))"

definition act_min_max_type :: "lib \<Rightarrow> executed list \<Rightarrow> node_result" where
  "act_min_max_type L cs = match_type_with_bounds L cs (Some (u64_arg cs 2)) (Some (u64_arg cs 3))"

definition act_header_value :: "lib \<Rightarrow> executed list \<Rightarrow> node_result" where
  "act_header_value L cs =
     (let expected = plain_text L (arg cs 1) in
      case as_text (arg cs 0) of
        None \<Rightarrow> expected_string L cs (arg cs 0)
      | Some actual \<Rightarrow>
          if header_values_match expected actual then matched_result
          else fail_at cs [marked_plain ''Expected '', quoted_text actual, marked_plain '' to equal '', quoted_text expected])"

text \<open>A member of an XML element that is a child: not an attribute (\<open>@\<close>), not its own (\<open>#\<close>).\<close>

definition xml_child_name :: "string \<Rightarrow> bool" where
  "xml_child_name name \<longleftrightarrow> \<not> starts_with name ''@'' \<and> \<not> starts_with name ''#''"

definition act_xml_children :: "lib \<Rightarrow> executed list \<Rightarrow> node_result" where
  "act_xml_children L cs =
     (case arg cs 0 of
        RAbsent \<Rightarrow> RVal RAbsent
      | RObject members \<Rightarrow>
          RVal (RArray (concat (map (\<lambda>(name, v).
            replicate (case v of RArray items \<Rightarrow> length items | _ \<Rightarrow> 1) (RString name))
            (filter (\<lambda>(name, _). xml_child_name name) members))))
      | other \<Rightarrow> fail_at cs [marked_plain ''Expected an XML element but got '', shown_value L other])"

definition act_xml_only_children :: "lib \<Rightarrow> executed list \<Rightarrow> node_result" where
  "act_xml_only_children L cs =
     (let allowed = map (\<lambda>c. plain_text L (value_of c)) (tl cs) in
      case arg cs 0 of
        RObject members \<Rightarrow>
          (let extra = map (\<lambda>name. ''<'' @ name @ ''/>'')
                 (filter (\<lambda>name. xml_child_name name \<and> name \<notin> set allowed) (keys members)) in
           case extra of
             [] \<Rightarrow> ROk
           | [e] \<Rightarrow> RErr (''Unexpected child '' @ e) (locus cs) None
           | _ \<Rightarrow> RErr (''Unexpected children '' @ join_with '', '' extra) (locus cs) None)
      | other \<Rightarrow> fail_at cs [marked_plain ''Expected an XML element but got '', shown_value L other])"

definition mime_part_kind :: "rv smap \<Rightarrow> string" where
  "mime_part_kind members =
     (let disposition = (case map_of members ''headers'' of
            Some (RObject headers) \<Rightarrow> contains_key headers ''content-disposition'' | _ \<Rightarrow> False);
          named_file = (case map_of members ''filename'' of Some f \<Rightarrow> f \<noteq> RAbsent | None \<Rightarrow> False)
      in if disposition \<and> \<not> named_file then ''field'' else ''file'')"

definition act_mime_part :: "lib \<Rightarrow> executed list \<Rightarrow> node_result" where
  "act_mime_part L cs =
     (let kind = plain_text L (arg cs 1); name = plain_text L (arg cs 2) in
      case arg cs 0 of
        RObject members \<Rightarrow>
          if kind = mime_part_kind members then ROk
          else fail_at cs [marked_plain ''Expected a MIME '', marked_plain kind, marked_plain '' '',
                 quoted_text name, marked_plain '' but was '', marked_plain (mime_part_kind members)]
      | _ \<Rightarrow> fail_at cs [marked_plain ''Expected a MIME part '', quoted_text name, marked_plain '' but was missing''])"

text \<open>Whether \<open>str::parse::<f64>\<close> succeeds: a sign, then digits with an optional point and exponent, or
  \<open>inf\<close>, \<open>infinity\<close> or \<open>nan\<close> in any case.\<close>

definition exponent_ok :: "string \<Rightarrow> bool" where
  "exponent_ok s =
     (case s of
        [] \<Rightarrow> True
      | e # r \<Rightarrow>
          (e = CHR ''e'' \<or> e = CHR ''E'')
          \<and> (let d = (case r of [] \<Rightarrow> [] | c # t \<Rightarrow> if c = CHR ''+'' \<or> c = CHR ''-'' then t else r)
             in d \<noteq> [] \<and> list_all is_digit d))"

definition f64_parses :: "string \<Rightarrow> bool" where
  "f64_parses s =
     (let d = (case s of [] \<Rightarrow> [] | c # t \<Rightarrow> if c = CHR ''+'' \<or> c = CHR ''-'' then t else s);
          whole = takeWhile is_digit d; after = dropWhile is_digit d;
          fraction = (case after of c # t \<Rightarrow> if c = CHR ''.'' then takeWhile is_digit t else [] | [] \<Rightarrow> []);
          rest = (case after of c # t \<Rightarrow> if c = CHR ''.'' then dropWhile is_digit t else after | [] \<Rightarrow> [])
      in to_ascii_lowercase d \<in> {''inf'', ''infinity'', ''nan''}
         \<or> (whole @ fraction \<noteq> [] \<and> exponent_ok rest))"

definition act_parses_as :: "lib \<Rightarrow> executed list \<Rightarrow> node_result" where
  "act_parses_as L cs =
     (let kind = plain_text L (arg cs 1) in
      case as_text (arg cs 0) of
        None \<Rightarrow> expected_string L cs (arg cs 0)
      | Some t \<Rightarrow>
          (case (if kind = ''number'' \<or> kind = ''decimal'' then Some (f64_parses t, ''a number'')
                 else if kind = ''integer'' then Some (parse_u64 t \<noteq> None, ''an integer number'')
                 else if kind = ''boolean'' then Some (t = ''true'' \<or> t = ''false'', ''a boolean'')
                 else None) of
             None \<Rightarrow> fail_at cs [quoted_text kind, marked_plain '' is not a kind a string can be read as'']
           | Some (parses, described) \<Rightarrow>
               if parses then matched_result
               else fail_at cs [marked_plain ''Expected '', quoted_text t, marked_plain '' to match '', marked_plain described]))"

definition act_body_type :: "lib \<Rightarrow> executed list \<Rightarrow> node_result" where
  "act_body_type L cs =
     (let v = arg cs 0; expected = plain_text L (arg cs 1); actual = as_text v in
      if actual = None \<and> (v = RAbsent \<or> v = RNull) then matched_result
      else if (case actual of Some a \<Rightarrow> body_types_agree expected a | None \<Rightarrow> False) then matched_result
      else fail_at cs [marked_plain ''Expected a body of '', quoted_text expected,
             marked_plain '' but the actual content type was '',
             quoted_text (case actual of Some a \<Rightarrow> a | None \<Rightarrow> display_value L v)])"

definition act_message_type :: "lib \<Rightarrow> executed list \<Rightarrow> node_result" where
  "act_message_type L cs =
     (let expected = plain_text L (arg cs 1);
          actual = (case as_text (arg cs 0) of Some a \<Rightarrow> a | None \<Rightarrow> ''*/*'') in
      if message_types_equivalent expected actual then matched_result
      else RErr (''Expected message with content type '' @ expected @ '' but was '' @ actual) (locus cs) None)"

subsection \<open>Dispatch\<close>

definition unknown_action :: "string \<Rightarrow> node_result" where
  "unknown_action name = failed [marked_plain ''unknown or unavailable action '', quoted_text name] None"

text \<open>The names \<open>dispatch\<close> matches on, the number of children each arm reads by position, and the arm.\<close>

definition dispatch_table :: "lib \<Rightarrow> host \<Rightarrow> (string \<times> nat \<times> (executed list \<Rightarrow> node_result)) list" where
  "dispatch_table L h =
     [(''flow:and'', 0, act_flow_and),
      (''flow:error'', 1, act_flow_error L),
      (''flow:apply'', 0, act_flow_last),
      (''flow:tee'', 0, act_flow_last),
      (''value:join'', 0, act_join L),
      (''value:join-with'', 1, act_join_with L),
      (''value:length'', 1, act_length),
      (''value:lower-case'', 1, act_lower_case L),
      (''value:upper-case'', 1, act_upper_case L),
      (''value:to-string'', 1, act_to_string L),
      (''check:exists'', 1, act_check_exists),
      (''check:null'', 1, act_check_null),
      (''check:equals'', 2, act_check_equals),
      (''expect:absent'', 1, act_expect_absent L),
      (''expect:object'', 1, act_expect_object L),
      (''expect:array'', 1, act_expect_array L),
      (''expect:not-empty'', 1, act_expect_not_empty L),
      (''expect:empty'', 1, act_expect_empty L),
      (''expect:count'', 2, act_expect_count L),
      (''expect:entries'', 2, act_expect_count L),
      (''expect:size'', 3, act_expect_size L),
      (''legacy:only-entries'', 1, act_only_entries L),
      (''match:any'', 1, act_match_any),
      (''match:equality'', 2, act_match_equality L),
      (''match:type'', 2, act_match_type L),
      (''match:string'', 1, match_kind L is_string ''string''),
      (''match:boolean'', 1, match_kind L is_boolean ''boolean''),
      (''match:null'', 1, match_kind L (\<lambda>v. v = RNull) ''null''),
      (''match:number'', 1, match_kind L is_number ''number''),
      (''match:integer'', 1, match_kind L is_integer ''integer''),
      (''match:decimal'', 1, match_kind L is_decimal ''decimal''),
      (''match:regex'', 2, act_match_regex L),
      (''match:datetime'', 1, match_temporal L TK_DateTime),
      (''match:date'', 1, match_temporal L TK_Date),
      (''match:time'', 1, match_temporal L TK_Time),
      (''match:include'', 2, act_match_include L),
      (''match:content-type'', 2, act_match_content_type L h),
      (''match:semver'', 1, act_match_semver L),
      (''match:any-of'', 1, act_match_any_of L),
      (''legacy:min-type'', 3, act_min_type L),
      (''legacy:max-type'', 3, act_max_type L),
      (''legacy:min-max-type'', 4, act_min_max_type L),
      (''legacy:header-value'', 2, act_header_value L),
      (''legacy:xml-children'', 1, act_xml_children L),
      (''legacy:xml-only-children'', 1, act_xml_only_children L),
      (''legacy:mime-part'', 3, act_mime_part L),
      (''legacy:parses-as'', 2, act_parses_as L),
      (''legacy:body-type'', 2, act_body_type L),
      (''legacy:message-type'', 2, act_message_type L)]"

definition dispatch :: "lib \<Rightarrow> host \<Rightarrow> string \<Rightarrow> executed list \<Rightarrow> node_result" where
  "dispatch L h name cs =
     (case map_of (dispatch_table L h) name of
        Some (_, act) \<Rightarrow> act cs
      | None \<Rightarrow> unknown_action name)"

text \<open>The five actions that run their own children.\<close>

definition lazy_actions :: "(string \<times> nat) list" where
  "lazy_actions =
     [(''flow:if'', 2), (''flow:or'', 0), (''flow:for-each'', 2), (''match:contains'', 1),
      (''legacy:array-contains'', 2)]"

lemma dispatch_table_reads:
  "map (\<lambda>(name, reads, _). (name, reads)) (dispatch_table L h) =
     [(''flow:and'', 0),
      (''flow:error'', 1),
      (''flow:apply'', 0),
      (''flow:tee'', 0),
      (''value:join'', 0),
      (''value:join-with'', 1),
      (''value:length'', 1),
      (''value:lower-case'', 1),
      (''value:upper-case'', 1),
      (''value:to-string'', 1),
      (''check:exists'', 1),
      (''check:null'', 1),
      (''check:equals'', 2),
      (''expect:absent'', 1),
      (''expect:object'', 1),
      (''expect:array'', 1),
      (''expect:not-empty'', 1),
      (''expect:empty'', 1),
      (''expect:count'', 2),
      (''expect:entries'', 2),
      (''expect:size'', 3),
      (''legacy:only-entries'', 1),
      (''match:any'', 1),
      (''match:equality'', 2),
      (''match:type'', 2),
      (''match:string'', 1),
      (''match:boolean'', 1),
      (''match:null'', 1),
      (''match:number'', 1),
      (''match:integer'', 1),
      (''match:decimal'', 1),
      (''match:regex'', 2),
      (''match:datetime'', 1),
      (''match:date'', 1),
      (''match:time'', 1),
      (''match:include'', 2),
      (''match:content-type'', 2),
      (''match:semver'', 1),
      (''match:any-of'', 1),
      (''legacy:min-type'', 3),
      (''legacy:max-type'', 3),
      (''legacy:min-max-type'', 4),
      (''legacy:header-value'', 2),
      (''legacy:xml-children'', 1),
      (''legacy:xml-only-children'', 1),
      (''legacy:mime-part'', 3),
      (''legacy:parses-as'', 2),
      (''legacy:body-type'', 2),
      (''legacy:message-type'', 2)]"
  by (simp add: dispatch_table_def)

lemma map_of_reads:
  "map_option fst (map_of t name) = map_of (map (\<lambda>(name, reads, _). (name, reads)) t) name"
  by (induction t) auto


end
