(* ===== verification/Resolve.thy ===== *)
theory Resolve
  imports Runtime_Value
begin

text \<open>
  Resolvers, engine/kernel/src/plan/resolve.rs. The interpreter asks a resolver for absolute paths;
  what it relies on is the locale \<open>slot_resolver\<close>: a path under a slot is the slot's value, navigated by
  the rest of the path. \<open>CapturedValues\<close>, the one resolver of the source, keeps that promise for every
  slot captured whole.
\<close>

locale slot_resolver =
  fixes resolve :: "'c \<Rightarrow> string \<Rightarrow> rv"
    and holds_slot :: "'c \<Rightarrow> string \<Rightarrow> bool"
  assumes resolve_under:
    "holds_slot c slot \<Longrightarrow> at_boundary s \<Longrightarrow> resolve c (slot @ s) = navigate (resolve c slot) s"
begin

lemma resolve_segments:
  assumes "holds_slot c slot" and "list_all segment_ok ss"
  shows "resolve c (slot @ segments_text ss) = foldl read_segment (resolve c slot) ss"
  using resolve_under [OF assms(1) segments_text_boundary] navigate_segments_aux [OF assms(2)] by simp

lemma resolve_absent:
  assumes "holds_slot c slot" and "resolve c slot = RAbsent" and "at_boundary s"
  shows "resolve c (slot @ s) = RAbsent"
  using resolve_under [OF assms(1,3)] assms(2) by simp

end

subsection \<open>Captured values\<close>

definition capture :: "string \<Rightarrow> rv \<Rightarrow> rv smap \<Rightarrow> rv smap" where
  "capture path v captured = btree_insert path v captured"

definition captured_from_json :: "json smap \<Rightarrow> rv smap" where
  "captured_from_json values = fold (\<lambda>(path, v). capture path (rv_from_json v)) values []"

text \<open>\<open>candidate[..candidate.rfind(['.', '['])]\<close>.\<close>

definition cut_last :: "string \<Rightarrow> string option" where
  "cut_last s =
     (case dropWhile (\<lambda>c. \<not> path_end c) (rev s) of [] \<Rightarrow> None | _ # r \<Rightarrow> Some (rev r))"

lemma cut_last_shorter: "cut_last s = Some c \<Longrightarrow> length c < length s"
  using length_dropWhile_le [of "\<lambda>c. \<not> path_end c" "rev s"]
  by (auto simp: cut_last_def split: list.splits)

function resolve_from :: "rv smap \<Rightarrow> string \<Rightarrow> string \<Rightarrow> rv" where
  "resolve_from captured path candidate =
     (case map_of captured candidate of
        Some v \<Rightarrow> navigate v (drop (length candidate) path)
      | None \<Rightarrow>
          (case cut_last candidate of
             Some shorter \<Rightarrow> resolve_from captured path shorter
           | None \<Rightarrow> RAbsent))"
  by pat_completeness auto
termination
  by (relation "measure (\<lambda>(_, _, c). length c)") (auto dest: cut_last_shorter)

declare resolve_from.simps [simp del]

definition captured_resolve :: "rv smap \<Rightarrow> string \<Rightarrow> rv" where
  "captured_resolve captured path = resolve_from captured path path"

text \<open>A slot captured whole: its own path is captured, and no path under it is.\<close>

definition captured_whole :: "rv smap \<Rightarrow> string \<Rightarrow> bool" where
  "captured_whole captured slot \<longleftrightarrow>
     contains_key captured slot \<and> (\<forall>k \<in> fst ` set captured. prefix slot k \<longrightarrow> k = slot)"

lemma cut_last_snoc: "path_end c \<Longrightarrow> list_all (\<lambda>c. \<not> path_end c) t \<Longrightarrow> cut_last (s @ c # t) = Some s"
  by (auto simp: cut_last_def dropWhile_append list_all_iff)

lemma last_segment_split:
  assumes "s \<noteq> []" and "path_end (hd s)"
  obtains a c t where "s = a @ c # t" "path_end c" "list_all (\<lambda>c. \<not> path_end c) t"
    "a = [] \<or> path_end (hd a)"
proof -
  have "\<exists>x \<in> set s. path_end x" using assms by (cases s) auto
  then obtain a c t where s: "s = a @ c # t" "path_end c" "\<forall>x \<in> set t. \<not> path_end x"
    using split_list_last_prop [of s path_end] by blast
  with assms have "a = [] \<or> path_end (hd a)" by (cases a) auto
  with s that show thesis by (auto simp: list_all_iff)
qed

lemma resolve_from_under:
  assumes whole: "captured_whole captured slot"
  shows "at_boundary s \<Longrightarrow> resolve_from captured path (slot @ s) = resolve_from captured path slot"
proof (induction s rule: length_induct)
  case (1 s)
  show ?case
  proof (cases "s = []")
    case False
    with 1(2) have "path_end (hd s)" by (simp add: at_boundary_def)
    with False obtain a c t where s: "s = a @ c # t" "path_end c" "list_all (\<lambda>c. \<not> path_end c) t"
      and a: "a = [] \<or> path_end (hd a)"
      by (rule last_segment_split)
    have "map_of captured (slot @ s) = None"
      using whole False by (force simp: captured_whole_def map_of_eq_None_iff)
    moreover have "cut_last (slot @ s) = Some (slot @ a)"
      using cut_last_snoc [OF s(2,3), of "slot @ a"] by (simp add: s(1))
    ultimately have "resolve_from captured path (slot @ s) = resolve_from captured path (slot @ a)"
      by (subst resolve_from.simps) simp
    with 1(1) a s(1) show ?thesis by (auto simp: at_boundary_def)
  qed simp
qed

lemma resolve_slot:
  assumes "captured_whole captured slot"
  shows "resolve_from captured path slot = navigate (the (map_of captured slot)) (drop (length slot) path)"
  using assms by (subst resolve_from.simps) (auto simp: captured_whole_def contains_key_def)

interpretation captured: slot_resolver captured_resolve captured_whole
proof unfold_locales
  fix c slot s
  assume "captured_whole c slot" and "at_boundary s"
  then show "captured_resolve c (slot @ s) = navigate (captured_resolve c slot) s"
    by (simp add: captured_resolve_def resolve_from_under resolve_slot)
qed

text \<open>A captured slot answers every path under it: the value the slot was captured with, read one
  segment after the other, and absence past the first segment it does not have.\<close>

theorem captured_resolve_segments:
  assumes "captured_whole captured slot" and "list_all segment_ok ss"
  shows "captured_resolve captured (slot @ segments_text ss) =
    foldl read_segment (the (map_of captured slot)) ss"
  using captured.resolve_segments [OF assms] resolve_slot [OF assms(1), of slot]
  by (simp add: captured_resolve_def)

theorem captured_resolve_segments_witness:
  "captured_resolve [(''$.request.body'', RObject [(''a'', RNull)]), (''$.request.status'', RNull)]
     (''$.request.body'' @ segments_text [Member ''a'']) =
   foldl read_segment (the (map_of [(''$.request.body'', RObject [(''a'', RNull)]),
     (''$.request.status'', RNull)] ''$.request.body'')) [Member ''a'']"
  by (rule captured_resolve_segments) (simp_all add: captured_whole_def contains_key_def)

end
