(* ===== verification/Plan_Interpret.thy ===== *)
theory Plan_Interpret
  imports Plan_Dispatch Resolve
begin

text \<open>
  The plan interpreter's walk, engine/kernel/src/plan/interpret.rs: \<open>run\<close> and the five actions that
  decide themselves which children to execute. The iteration stack (\<open>current\<close> and \<open>current_paths\<close>,
  pushed and popped in step) is a list with the current item first, passed down: every push of the
  source is popped before the node that pushed it returns. A lazy action gets its children as
  \<open>cells\<close>, each a node with what running it against a stack gives.
\<close>

type_synonym stack = "(rv \<times> string option) list"
type_synonym cell = "node \<times> (stack \<Rightarrow> executed)"

text \<open>\<open>skip\<close>: a lazy branch a condition did not take.\<close>

primrec skip :: "node \<Rightarrow> executed" where
  "skip (Container label children) = Exec (XContainer label (map skip children)) None"
| "skip (Action name children) = Exec (XAction name (map skip children)) None"
| "skip (Value literal) = Exec (XValue literal) None"
| "skip (Resolve path) = Exec (XResolve path) None"
| "skip (ResolveCurrent path) = Exec (XResolveCurrent path None) None"
| "skip (Pipeline children) = Exec (XPipeline (map skip children)) None"
| "skip (Splat children) = Exec (XSplat (map skip children)) None"
| "skip (Annotation t) = Exec (XAnnotation t) None"

definition malformed :: "string \<Rightarrow> node list \<Rightarrow> string \<Rightarrow> executed" where
  "malformed name children message =
     Exec (XAction name (map skip children)) (Some (RErr message None None))"

subsection \<open>Items\<close>

definition iteration_items :: "rv \<Rightarrow> rv list" where
  "iteration_items v =
     (case v of
        RArray items \<Rightarrow> items
      | RObject members \<Rightarrow> map (\<lambda>(key, x). REntry key x) members
      | _ \<Rightarrow> [])"

definition item_path :: "string \<Rightarrow> nat \<Rightarrow> rv \<Rightarrow> string" where
  "item_path source index item =
     (case item of
        REntry key _ \<Rightarrow> member_path source key
      | _ \<Rightarrow> path_array_index source index)"

definition item_paths :: "string option \<Rightarrow> rv list \<Rightarrow> string option list" where
  "item_paths source items =
     map (\<lambda>(index, item). map_option (\<lambda>s. item_path s index item) source) (List.enumerate 0 items)"

definition absolute_path :: "string \<Rightarrow> rv \<Rightarrow> string \<Rightarrow> string" where
  "absolute_path item base rest =
     item @
     (case base of
        REntry _ _ \<Rightarrow>
          (case strip_prefix ''.value'' rest of
             Some r \<Rightarrow> r
           | None \<Rightarrow> (case strip_prefix ''.key'' rest of Some r \<Rightarrow> r | None \<Rightarrow> rest))
      | _ \<Rightarrow> rest)"

definition run_resolve_current :: "string \<Rightarrow> stack \<Rightarrow> executed" where
  "run_resolve_current path st =
     (let base = (case st of [] \<Rightarrow> RAbsent | (v, _) # _ \<Rightarrow> v);
          rest = (case strip_prefix ''~>'' path of Some r \<Rightarrow> r | None \<Rightarrow> path);
          absolute = (case st of (_, Some item) # _ \<Rightarrow> Some (absolute_path item base rest) | _ \<Rightarrow> None)
      in Exec (XResolveCurrent path absolute) (Some (RVal (navigate base rest))))"

subsection \<open>The lazy actions\<close>

definition run_container :: "string option \<Rightarrow> executed list \<Rightarrow> executed" where
  "run_container label es = Exec (XContainer label es) (Some (RVal (RBool (\<not> list_ex child_failed es))))"

definition run_splat :: "executed list \<Rightarrow> executed" where
  "run_splat es = Exec (XSplat es) (case es of [] \<Rightarrow> None | e # _ \<Rightarrow> x_result e)"

text \<open>Each child's value is current for the ones after it.\<close>

fun pipeline_steps :: "(stack \<Rightarrow> executed) list \<Rightarrow> stack \<Rightarrow> node_result \<Rightarrow> executed list \<times> node_result" where
  "pipeline_steps [] st result = ([], result)"
| "pipeline_steps (r # rs) st result =
     (let e = r st;
          result = (case x_result e of Some x \<Rightarrow> x | None \<Rightarrow> ROk);
          st' = (case result of RVal v \<Rightarrow> (v, path_of e) # st | _ \<Rightarrow> st);
          (es, final) = pipeline_steps rs st' result
      in (e # es, final))"

definition run_pipeline :: "(stack \<Rightarrow> executed) list \<Rightarrow> stack \<Rightarrow> executed" where
  "run_pipeline rs st = (let (es, result) = pipeline_steps rs st ROk in Exec (XPipeline es) (Some result))"

definition branch_result :: "executed \<Rightarrow> node_result" where
  "branch_result e = RVal (RBool (\<not> child_failed e))"

definition run_if :: "cell list \<Rightarrow> stack \<Rightarrow> executed" where
  "run_if cells st =
     (let cond = snd (cells ! 0) st in
      if is_truthy cond
      then (let branch = snd (cells ! 1) st in
            Exec (XAction ''flow:if''
                ([cond, branch] @ (if 2 < length cells then [skip (fst (cells ! 2))] else [])))
              (Some (branch_result branch)))
      else if 2 < length cells
      then (let branch = snd (cells ! 2) st in
            Exec (XAction ''flow:if'' [cond, skip (fst (cells ! 1)), branch]) (Some (branch_result branch)))
      else Exec (XAction ''flow:if'' [cond, skip (fst (cells ! 1))]) (Some ROk))"

fun or_steps :: "cell list \<Rightarrow> stack \<Rightarrow> bool \<Rightarrow> executed list \<times> bool" where
  "or_steps [] st success = ([], success)"
| "or_steps ((n, r) # cells) st success =
     (if success then map_prod ((#) (skip n)) id (or_steps cells st success)
      else let e = r st in map_prod ((#) e) id (or_steps cells st (is_truthy e)))"

definition run_or :: "cell list \<Rightarrow> stack \<Rightarrow> executed" where
  "run_or cells st =
     (let (es, success) = or_steps cells st False
      in Exec (XAction ''flow:or'' es) (Some (RVal (RBool success))))"

text \<open>The item template once per item, each pushed as the current one. A \<open>splat\<close> in the source's
  place contributes its own first child: \<open>splat\<close> is that child, when there is a splat.\<close>

definition for_each_items :: "cell \<Rightarrow> executed \<Rightarrow> executed \<Rightarrow> stack \<Rightarrow> executed" where
  "for_each_items template source inner st =
     (let items = iteration_items (value_of inner);
          es = map (\<lambda>entry. snd template (entry # st)) (zip items (item_paths (path_of inner) items))
      in Exec (XAction ''flow:for-each'' (source # es))
           (Some (RVal (RBool (\<not> list_ex child_failed es)))))"

definition run_for_each :: "(stack \<Rightarrow> executed) option option \<Rightarrow> cell list \<Rightarrow> stack \<Rightarrow> executed" where
  "run_for_each splat cells st =
     (case splat of
        Some None \<Rightarrow>
          malformed ''flow:for-each'' (map fst cells)
            (quote1 ''flow:for-each'' @ '' was given a splat with nothing in it to iterate over'')
      | Some (Some source) \<Rightarrow>
          (let inner = source st
           in for_each_items (cells ! 1)
                (Exec (XSplat [inner]) (Some (RVal (RArray (iteration_items (value_of inner)))))) inner st)
      | None \<Rightarrow> (let e = snd (cells ! 0) st in for_each_items (cells ! 1) e e st))"

text \<open>\<open>match:contains\<close>: greedy, each entry claiming the first unclaimed element it matches. An attempt
  that failed is kept, the last one, when none matched.\<close>

fun claim_element ::
  "(stack \<Rightarrow> executed) \<Rightarrow> stack \<Rightarrow> (nat \<times> rv \<times> string option) list \<Rightarrow> (nat \<times> executed) option \<Rightarrow>
   (nat \<times> executed) option" where
  "claim_element r st [] found = found"
| "claim_element r st ((i, item, path) # rest) found =
     (let attempt = r ((item, path) # st) in
      if child_failed attempt then claim_element r st rest (Some (i, attempt)) else Some (i, attempt))"

fun contains_steps ::
  "cell list \<Rightarrow> stack \<Rightarrow> (nat \<times> rv \<times> string option) list \<Rightarrow> nat set \<Rightarrow> executed list \<times> bool" where
  "contains_steps [] st elements used = ([], False)"
| "contains_steps ((n, r) # cells) st elements used =
     (case claim_element r st (filter (\<lambda>(i, _). i \<notin> used) elements) None of
        Some (i, attempt) \<Rightarrow>
          if child_failed attempt
          then map_prod ((#) attempt) (\<lambda>_. True) (contains_steps cells st elements used)
          else map_prod ((#) attempt) id (contains_steps cells st elements (insert i used))
      | None \<Rightarrow> map_prod ((#) (skip n)) (\<lambda>_. True) (contains_steps cells st elements used))"

definition array_items :: "rv \<Rightarrow> rv list" where
  "array_items v = (case v of RArray items \<Rightarrow> items | _ \<Rightarrow> [])"

definition run_contains :: "cell list \<Rightarrow> stack \<Rightarrow> executed" where
  "run_contains cells st =
     (let e = snd (cells ! 0) st;
          items = array_items (value_of e);
          (es, any_failed) = contains_steps (tl cells) st
             (List.enumerate 0 (zip items (item_paths (path_of e) items))) {}
      in Exec (XAction ''match:contains'' (e # es))
           (Some (if any_failed
                  then RErr ''not every entry found a distinct matching element'' None None
                  else matched_result)))"

text \<open>\<open>legacy:array-contains\<close>: the first element the template matches; none is claimed.\<close>

fun first_match :: "(stack \<Rightarrow> executed) \<Rightarrow> stack \<Rightarrow> (rv \<times> string option) list \<Rightarrow> executed option" where
  "first_match r st [] = None"
| "first_match r st (entry # rest) =
     (let attempt = r (entry # st) in if child_failed attempt then first_match r st rest else Some attempt)"

definition run_array_contains :: "lib \<Rightarrow> cell list \<Rightarrow> stack \<Rightarrow> executed" where
  "run_array_contains L cells st =
     (let e = snd (cells ! 0) st; v = value_of e;
          template = cells ! 1;
          described = map (\<lambda>c. snd c st) (drop 2 cells);
          (attempt, result) =
            (case v of
               RArray items \<Rightarrow>
                 (case first_match (snd template) st (zip items (item_paths (path_of e) items)) of
                    Some attempt \<Rightarrow> (attempt, matched_result)
                  | None \<Rightarrow>
                      (skip (fst template),
                       fail_at [e]
                         (case described of
                            index # element # _ \<Rightarrow>
                              [marked_plain ''Variant at index '', shown_value L (value_of index),
                               marked_plain '' ('', shown_value L (value_of element),
                               marked_plain '') was not found in the actual list'']
                          | _ \<Rightarrow>
                              [marked_plain ''No element of '', shown_value L v,
                               marked_plain '' matched the variant''])))
             | _ \<Rightarrow>
                 (skip (fst template),
                  fail_at [e] [marked_plain ''Expected an array but got '', shown_value L v]))
      in Exec (XAction ''legacy:array-contains'' ([e, attempt] @ described)) (Some result))"

subsection \<open>Component actions\<close>

definition apply_component :: "host \<Rightarrow> string \<Rightarrow> executed list \<Rightarrow> node_result" where
  "apply_component h name cs =
     (case Option.bind (h_actions h) (\<lambda>apply. apply name (map value_of cs) (locus cs)) of
        Some (RErr message None marks) \<Rightarrow> RErr message (locus cs) marks
      | Some other \<Rightarrow> other
      | None \<Rightarrow>
          fail_at cs [marked_plain ''no component in scope contributes the action '', quoted_text name])"

definition run_eager :: "lib \<Rightarrow> host \<Rightarrow> string \<Rightarrow> executed list \<Rightarrow> executed" where
  "run_eager L h name es =
     Exec (XAction name es)
       (Some (if is_component_action name then apply_component h name es else dispatch L h name es))"

subsection \<open>The walk\<close>

definition too_few :: "string \<Rightarrow> nat \<Rightarrow> nat option" where
  "too_few name given =
     (case least_children name of
        Some least \<Rightarrow> if given < least then Some least else None
      | None \<Rightarrow> None)"

function (sequential) run :: "lib \<Rightarrow> host \<Rightarrow> stack \<Rightarrow> node \<Rightarrow> executed" where
  "run L h st (Container label cs) = run_container label (map (run L h st) cs)"
| "run L h st (Value literal) = Exec (XValue literal) (Some (RVal (rv_from_literal L literal)))"
| "run L h st (Resolve path) = Exec (XResolve path) (Some (RVal (h_resolve h path)))"
| "run L h st (ResolveCurrent path) = run_resolve_current path st"
| "run L h st (Annotation t) = Exec (XAnnotation t) None"
| "run L h st (Pipeline cs) = run_pipeline (map (\<lambda>c s. run L h s c) cs) st"
| "run L h st (Splat cs) = run_splat (map (run L h st) cs)"
| "run L h st (Action name cs) =
     (case too_few name (length cs) of
        Some least \<Rightarrow>
          malformed name cs (quote1 name @ '' takes at least '' @ nat_text least
            @ '' child node(s) and this one has '' @ nat_text (length cs))
      | None \<Rightarrow>
          let cells = map (\<lambda>c. (c, \<lambda>s. run L h s c)) cs in
          if name = ''flow:if'' then run_if cells st
          else if name = ''flow:or'' then run_or cells st
          else if name = ''flow:for-each''
          then run_for_each
            (case cs of
               Splat ss # _ \<Rightarrow> Some (case ss of [] \<Rightarrow> None | c # _ \<Rightarrow> Some (\<lambda>s. run L h s c))
             | _ \<Rightarrow> None) cells st
          else if name = ''match:contains'' then run_contains cells st
          else if name = ''legacy:array-contains'' then run_array_contains L cells st
          else run_eager L h name (map (run L h st) cs))"
  by pat_completeness auto
termination
  by (relation "measure (\<lambda>(L, h, st, n). size n)") (auto simp: less_Suc_eq_le intro: size_list_estimation')

definition execute_with :: "lib \<Rightarrow> host \<Rightarrow> plan \<Rightarrow> executed" where
  "execute_with L h p = run L h [] (plan_root p)"

subsection \<open>The verdict\<close>

record mismatch =
  mm_path :: "string option"
  mm_message :: string
  mm_marks :: "marked option"
  mm_action :: "string option"

fun children_of :: "exec_kind \<Rightarrow> executed list" where
  "children_of (XContainer _ cs) = cs"
| "children_of (XAction _ cs) = cs"
| "children_of (XPipeline cs) = cs"
| "children_of (XSplat cs) = cs"
| "children_of _ = []"

definition own_mismatch :: "string option \<Rightarrow> node_result option \<Rightarrow> mismatch list" where
  "own_mismatch act result =
     (case result of
        Some (RErr message path marks) \<Rightarrow>
          [\<lparr>mm_path = path, mm_message = message, mm_marks = marks, mm_action = act\<rparr>]
      | _ \<Rightarrow> [])"

lemma children_of_size: "c \<in> set (children_of k) \<Longrightarrow> size c < size (Exec k r)"
  by (cases k) (auto simp: less_Suc_eq_le intro: size_list_estimation' le_SucI)

function collect_mismatches :: "executed \<Rightarrow> string option \<Rightarrow> mismatch list" where
  "collect_mismatches (Exec k result) enclosing =
     (let act = (case k of XAction name _ \<Rightarrow> Some name | _ \<Rightarrow> enclosing)
      in own_mismatch act result @ concat (map (\<lambda>c. collect_mismatches c act) (children_of k)))"
  by pat_completeness auto
termination
  by (relation "measure (\<lambda>(e, _). size e)") (auto simp del: executed.size dest: children_of_size)

datatype status = Matched | Mismatched

definition outcome :: "executed \<Rightarrow> status \<times> mismatch list" where
  "outcome e =
     (let mismatches = collect_mismatches e None
      in (if mismatches = [] then Matched else Mismatched, mismatches))"

text \<open>An executed tree with no error anywhere.\<close>

function no_errors :: "executed \<Rightarrow> bool" where
  "no_errors (Exec k result) =
     ((case result of Some (RErr _ _ _) \<Rightarrow> False | _ \<Rightarrow> True) \<and> list_all no_errors (children_of k))"
  by pat_completeness auto
termination
  by (relation "measure size") (auto simp del: executed.size dest: children_of_size)

lemma collect_mismatches_empty: "collect_mismatches e act = [] \<longleftrightarrow> no_errors e"
proof (induction e arbitrary: act rule: no_errors.induct)
  case (1 k result)
  then show ?case
    by (auto simp: own_mismatch_def list_all_iff Let_def split: option.splits node_result.splits)
qed

lemma outcome_matched: "fst (outcome e) = Matched \<longleftrightarrow> no_errors e"
  by (simp add: outcome_def collect_mismatches_empty Let_def)

lemma skip_no_errors [simp]: "no_errors (skip n)"
  by (induction n) (auto simp: list_all_iff)

lemma skip_not_failed [simp]: "\<not> child_failed (skip n)"
  by (cases n) (auto simp: child_failed_def)

end
