(* ===== verification/Plan_Verdict.thy ===== *)
theory Plan_Verdict
  imports Plan_Interpret
begin

text \<open>
  Reading a run: when an executed node's result and its mismatches say the same thing, how that
  composes over containers, and what each core action a compiled plan uses runs as.
\<close>

subsection \<open>Verdicts\<close>

text \<open>An executed node whose result and whose mismatches say the same thing.\<close>

definition verdict :: "executed \<Rightarrow> bool \<Rightarrow> bool" where
  "verdict e b \<longleftrightarrow> child_failed e = (\<not> b) \<and> no_errors e = b"

definition nodes_verdict :: "executed list \<Rightarrow> bool \<Rightarrow> bool" where
  "nodes_verdict es b \<longleftrightarrow> list_ex child_failed es = (\<not> b) \<and> list_all no_errors es = b"

fun result_verdict :: "node_result \<Rightarrow> bool \<Rightarrow> bool" where
  "result_verdict ROk b = b"
| "result_verdict (RErr _ _ _) b = (\<not> b)"
| "result_verdict (RVal (RBool x)) b = (x \<and> b)"
| "result_verdict (RVal _) b = b"

lemma fail_at_verdict [simp]: "result_verdict (fail_at cs pieces) b = (\<not> b)"
  by (simp add: fail_at_def failed_message)

lemma expected_but_verdict [simp]: "result_verdict (expected_but L cs w v) b = (\<not> b)"
  by (simp add: expected_but_def)

lemma expected_string_verdict [simp]: "result_verdict (expected_string L cs v) b = (\<not> b)"
  by (simp add: expected_string_def)

lemma not_countable_verdict [simp]: "result_verdict (not_countable L cs) b = (\<not> b)"
  by (simp add: not_countable_def)

lemma matched_verdict [simp]: "result_verdict matched_result b = b"
  by (simp add: matched_result_def)

lemma action_verdict:
  "list_all no_errors es \<Longrightarrow> result_verdict r b \<Longrightarrow> verdict (Exec (XAction name es) (Some r)) b"
  by (cases "(r, b)" rule: result_verdict.cases) (auto simp: verdict_def child_failed_def split: rv.splits)

lemma nodes_verdict_single: "nodes_verdict [e] b = verdict e b"
  by (simp add: nodes_verdict_def verdict_def)

lemma nodes_verdict_Nil: "nodes_verdict [] True"
  by (simp add: nodes_verdict_def)

lemma nodes_verdict_Cons: "verdict e a \<Longrightarrow> nodes_verdict es b \<Longrightarrow> nodes_verdict (e # es) (a \<and> b)"
  by (auto simp: nodes_verdict_def verdict_def)

lemma nodes_verdict_append:
  "nodes_verdict es a \<Longrightarrow> nodes_verdict fs b \<Longrightarrow> nodes_verdict (es @ fs) (a \<and> b)"
  by (auto simp: nodes_verdict_def)

lemma nodes_verdict_map:
  "(\<And>x. x \<in> set xs \<Longrightarrow> verdict (f x) (p x)) \<Longrightarrow> nodes_verdict (map f xs) (list_all p xs)"
  by (induction xs) (auto intro: nodes_verdict_Nil nodes_verdict_Cons)

lemma container_verdict: "nodes_verdict es b \<Longrightarrow> verdict (run_container label es) b"
  by (simp add: verdict_def nodes_verdict_def run_container_def child_failed_def)

subsection \<open>Running one action\<close>

lemma core_action_eager:
  assumes "least_children name \<noteq> None" and "the (least_children name) \<le> length cs"
    and "map_of lazy_actions name = None"
  shows "run L h st (Action name cs) =
    Exec (XAction name (map (run L h st) cs)) (Some (dispatch L h name (map (run L h st) cs)))"
proof -
  from assms(1) obtain v0 least where "(name, v0, least) \<in> set core_table"
    by (auto simp: least_children_def dest!: find_SomeD)
  then have "grammar_core V1 name = Some name"
    using table_names by (auto simp: list_all_iff)
  then have "\<not> is_component_action name" by (rule grammar_core_props)
  moreover have "name \<notin> {''flow:if'', ''flow:or'', ''flow:for-each'', ''match:contains'', ''legacy:array-contains''}"
    using assms(3) by (auto simp: lazy_actions_def)
  ultimately show ?thesis
    using assms by (auto simp: too_few_def run_eager_def)
qed

lemma lazy_least:
  "too_few ''flow:if'' n = (if n < 2 then Some 2 else None)"
  "too_few ''flow:or'' n = None"
  "too_few ''flow:for-each'' n = (if n < 2 then Some 2 else None)"
  "too_few ''match:contains'' n = (if n < 1 then Some 1 else None)"
  by (simp_all add: too_few_def least_children_def core_table_def)

text \<open>Each core action a compiled plan uses, run on enough children.\<close>

lemma least_values:
  "least_children ''match:any'' = Some 1"
  "least_children ''match:equality'' = Some 2"
  "least_children ''match:type'' = Some 2"
  "least_children ''match:string'' = Some 1"
  "least_children ''match:boolean'' = Some 1"
  "least_children ''match:null'' = Some 1"
  "least_children ''match:number'' = Some 1"
  "least_children ''match:integer'' = Some 1"
  "least_children ''match:decimal'' = Some 1"
  "least_children ''match:regex'' = Some 2"
  "least_children ''match:datetime'' = Some 1"
  "least_children ''match:date'' = Some 1"
  "least_children ''match:time'' = Some 1"
  "least_children ''match:include'' = Some 2"
  "least_children ''match:content-type'' = Some 2"
  "least_children ''match:semver'' = Some 1"
  "least_children ''match:any-of'' = Some 1"
  "least_children ''expect:not-empty'' = Some 1"
  "least_children ''expect:absent'' = Some 1"
  "least_children ''expect:object'' = Some 1"
  "least_children ''expect:array'' = Some 1"
  "least_children ''expect:count'' = Some 2"
  "least_children ''expect:size'' = Some 3"
  "least_children ''check:exists'' = Some 1"
  "least_children ''check:null'' = Some 1"
  "least_children ''check:equals'' = Some 2"
  "least_children ''flow:error'' = Some 1"
  "least_children ''value:join'' = Some 0"
  "least_children ''flow:and'' = Some 0"
  by (simp_all add: least_children_def core_table_def)

lemma eager_values:
  "map_of lazy_actions ''match:any'' = None"
  "map_of lazy_actions ''match:equality'' = None"
  "map_of lazy_actions ''match:type'' = None"
  "map_of lazy_actions ''match:string'' = None"
  "map_of lazy_actions ''match:boolean'' = None"
  "map_of lazy_actions ''match:null'' = None"
  "map_of lazy_actions ''match:number'' = None"
  "map_of lazy_actions ''match:integer'' = None"
  "map_of lazy_actions ''match:decimal'' = None"
  "map_of lazy_actions ''match:regex'' = None"
  "map_of lazy_actions ''match:datetime'' = None"
  "map_of lazy_actions ''match:date'' = None"
  "map_of lazy_actions ''match:time'' = None"
  "map_of lazy_actions ''match:include'' = None"
  "map_of lazy_actions ''match:content-type'' = None"
  "map_of lazy_actions ''match:semver'' = None"
  "map_of lazy_actions ''match:any-of'' = None"
  "map_of lazy_actions ''expect:not-empty'' = None"
  "map_of lazy_actions ''expect:absent'' = None"
  "map_of lazy_actions ''expect:object'' = None"
  "map_of lazy_actions ''expect:array'' = None"
  "map_of lazy_actions ''expect:count'' = None"
  "map_of lazy_actions ''expect:size'' = None"
  "map_of lazy_actions ''check:exists'' = None"
  "map_of lazy_actions ''check:null'' = None"
  "map_of lazy_actions ''check:equals'' = None"
  "map_of lazy_actions ''flow:error'' = None"
  "map_of lazy_actions ''value:join'' = None"
  "map_of lazy_actions ''flow:and'' = None"
  by (simp_all add: lazy_actions_def)

lemma dispatch_values:
  "dispatch L h ''match:any'' es = act_match_any es"
  "dispatch L h ''match:equality'' es = act_match_equality L es"
  "dispatch L h ''match:type'' es = act_match_type L es"
  "dispatch L h ''match:string'' es = match_kind L is_string ''string'' es"
  "dispatch L h ''match:boolean'' es = match_kind L is_boolean ''boolean'' es"
  "dispatch L h ''match:null'' es = match_kind L (\<lambda>v. v = RNull) ''null'' es"
  "dispatch L h ''match:number'' es = match_kind L is_number ''number'' es"
  "dispatch L h ''match:integer'' es = match_kind L is_integer ''integer'' es"
  "dispatch L h ''match:decimal'' es = match_kind L is_decimal ''decimal'' es"
  "dispatch L h ''match:regex'' es = act_match_regex L es"
  "dispatch L h ''match:datetime'' es = match_temporal L TK_DateTime es"
  "dispatch L h ''match:date'' es = match_temporal L TK_Date es"
  "dispatch L h ''match:time'' es = match_temporal L TK_Time es"
  "dispatch L h ''match:include'' es = act_match_include L es"
  "dispatch L h ''match:content-type'' es = act_match_content_type L h es"
  "dispatch L h ''match:semver'' es = act_match_semver L es"
  "dispatch L h ''match:any-of'' es = act_match_any_of L es"
  "dispatch L h ''expect:not-empty'' es = act_expect_not_empty L es"
  "dispatch L h ''expect:absent'' es = act_expect_absent L es"
  "dispatch L h ''expect:object'' es = act_expect_object L es"
  "dispatch L h ''expect:array'' es = act_expect_array L es"
  "dispatch L h ''expect:count'' es = act_expect_count L es"
  "dispatch L h ''expect:size'' es = act_expect_size L es"
  "dispatch L h ''check:exists'' es = act_check_exists es"
  "dispatch L h ''check:null'' es = act_check_null es"
  "dispatch L h ''check:equals'' es = act_check_equals es"
  "dispatch L h ''flow:error'' es = act_flow_error L es"
  "dispatch L h ''value:join'' es = act_join L es"
  "dispatch L h ''flow:and'' es = act_flow_and es"
  by (simp_all add: dispatch_def dispatch_table_def)

lemma run_actions [plan_simps]:
  "1 \<le> length cs \<Longrightarrow> run L h st (Action ''match:any'' cs) =
     Exec (XAction ''match:any'' (map (run L h st) cs)) (Some (act_match_any (map (run L h st) cs)))"
  "2 \<le> length cs \<Longrightarrow> run L h st (Action ''match:equality'' cs) =
     Exec (XAction ''match:equality'' (map (run L h st) cs)) (Some (act_match_equality L (map (run L h st) cs)))"
  "2 \<le> length cs \<Longrightarrow> run L h st (Action ''match:type'' cs) =
     Exec (XAction ''match:type'' (map (run L h st) cs)) (Some (act_match_type L (map (run L h st) cs)))"
  "1 \<le> length cs \<Longrightarrow> run L h st (Action ''match:string'' cs) =
     Exec (XAction ''match:string'' (map (run L h st) cs)) (Some (match_kind L is_string ''string'' (map (run L h st) cs)))"
  "1 \<le> length cs \<Longrightarrow> run L h st (Action ''match:boolean'' cs) =
     Exec (XAction ''match:boolean'' (map (run L h st) cs)) (Some (match_kind L is_boolean ''boolean'' (map (run L h st) cs)))"
  "1 \<le> length cs \<Longrightarrow> run L h st (Action ''match:null'' cs) =
     Exec (XAction ''match:null'' (map (run L h st) cs)) (Some (match_kind L (\<lambda>v. v = RNull) ''null'' (map (run L h st) cs)))"
  "1 \<le> length cs \<Longrightarrow> run L h st (Action ''match:number'' cs) =
     Exec (XAction ''match:number'' (map (run L h st) cs)) (Some (match_kind L is_number ''number'' (map (run L h st) cs)))"
  "1 \<le> length cs \<Longrightarrow> run L h st (Action ''match:integer'' cs) =
     Exec (XAction ''match:integer'' (map (run L h st) cs)) (Some (match_kind L is_integer ''integer'' (map (run L h st) cs)))"
  "1 \<le> length cs \<Longrightarrow> run L h st (Action ''match:decimal'' cs) =
     Exec (XAction ''match:decimal'' (map (run L h st) cs)) (Some (match_kind L is_decimal ''decimal'' (map (run L h st) cs)))"
  "2 \<le> length cs \<Longrightarrow> run L h st (Action ''match:regex'' cs) =
     Exec (XAction ''match:regex'' (map (run L h st) cs)) (Some (act_match_regex L (map (run L h st) cs)))"
  "1 \<le> length cs \<Longrightarrow> run L h st (Action ''match:datetime'' cs) =
     Exec (XAction ''match:datetime'' (map (run L h st) cs)) (Some (match_temporal L TK_DateTime (map (run L h st) cs)))"
  "1 \<le> length cs \<Longrightarrow> run L h st (Action ''match:date'' cs) =
     Exec (XAction ''match:date'' (map (run L h st) cs)) (Some (match_temporal L TK_Date (map (run L h st) cs)))"
  "1 \<le> length cs \<Longrightarrow> run L h st (Action ''match:time'' cs) =
     Exec (XAction ''match:time'' (map (run L h st) cs)) (Some (match_temporal L TK_Time (map (run L h st) cs)))"
  "2 \<le> length cs \<Longrightarrow> run L h st (Action ''match:include'' cs) =
     Exec (XAction ''match:include'' (map (run L h st) cs)) (Some (act_match_include L (map (run L h st) cs)))"
  "2 \<le> length cs \<Longrightarrow> run L h st (Action ''match:content-type'' cs) =
     Exec (XAction ''match:content-type'' (map (run L h st) cs)) (Some (act_match_content_type L h (map (run L h st) cs)))"
  "1 \<le> length cs \<Longrightarrow> run L h st (Action ''match:semver'' cs) =
     Exec (XAction ''match:semver'' (map (run L h st) cs)) (Some (act_match_semver L (map (run L h st) cs)))"
  "1 \<le> length cs \<Longrightarrow> run L h st (Action ''match:any-of'' cs) =
     Exec (XAction ''match:any-of'' (map (run L h st) cs)) (Some (act_match_any_of L (map (run L h st) cs)))"
  "1 \<le> length cs \<Longrightarrow> run L h st (Action ''expect:not-empty'' cs) =
     Exec (XAction ''expect:not-empty'' (map (run L h st) cs)) (Some (act_expect_not_empty L (map (run L h st) cs)))"
  "1 \<le> length cs \<Longrightarrow> run L h st (Action ''expect:absent'' cs) =
     Exec (XAction ''expect:absent'' (map (run L h st) cs)) (Some (act_expect_absent L (map (run L h st) cs)))"
  "1 \<le> length cs \<Longrightarrow> run L h st (Action ''expect:object'' cs) =
     Exec (XAction ''expect:object'' (map (run L h st) cs)) (Some (act_expect_object L (map (run L h st) cs)))"
  "1 \<le> length cs \<Longrightarrow> run L h st (Action ''expect:array'' cs) =
     Exec (XAction ''expect:array'' (map (run L h st) cs)) (Some (act_expect_array L (map (run L h st) cs)))"
  "2 \<le> length cs \<Longrightarrow> run L h st (Action ''expect:count'' cs) =
     Exec (XAction ''expect:count'' (map (run L h st) cs)) (Some (act_expect_count L (map (run L h st) cs)))"
  "3 \<le> length cs \<Longrightarrow> run L h st (Action ''expect:size'' cs) =
     Exec (XAction ''expect:size'' (map (run L h st) cs)) (Some (act_expect_size L (map (run L h st) cs)))"
  "1 \<le> length cs \<Longrightarrow> run L h st (Action ''check:exists'' cs) =
     Exec (XAction ''check:exists'' (map (run L h st) cs)) (Some (act_check_exists (map (run L h st) cs)))"
  "1 \<le> length cs \<Longrightarrow> run L h st (Action ''check:null'' cs) =
     Exec (XAction ''check:null'' (map (run L h st) cs)) (Some (act_check_null (map (run L h st) cs)))"
  "2 \<le> length cs \<Longrightarrow> run L h st (Action ''check:equals'' cs) =
     Exec (XAction ''check:equals'' (map (run L h st) cs)) (Some (act_check_equals (map (run L h st) cs)))"
  "1 \<le> length cs \<Longrightarrow> run L h st (Action ''flow:error'' cs) =
     Exec (XAction ''flow:error'' (map (run L h st) cs)) (Some (act_flow_error L (map (run L h st) cs)))"
  "run L h st (Action ''value:join'' cs) =
     Exec (XAction ''value:join'' (map (run L h st) cs)) (Some (act_join L (map (run L h st) cs)))"
  "run L h st (Action ''flow:and'' cs) =
     Exec (XAction ''flow:and'' (map (run L h st) cs)) (Some (act_flow_and (map (run L h st) cs)))"
  by (simp_all only: core_action_eager least_values eager_values dispatch_values option.sel option.distinct not_False_eq_True zero_le)

end
