(* ===== verification/Variant_Space.thy ===== *)
theory Variant_Space
  imports Shape_Model
begin

text \<open>
  The variant space of a shape, engine/kernel/src/shape/variant_space.rs: the dimensions a shape tree
  contributes, in declaration order, each with its points, its default and its gates; and the lengths a
  cardinality point stands for.
\<close>

record point =
  pt_name :: string
  pt_value :: "json option"
  pt_size :: "nat option"

record gate =
  gate_dimension :: string
  gate_point :: string

record dimension =
  dim_id :: string
  dim_path :: string
  dim_facet :: string
  dim_operator :: string
  dim_points :: "point list"
  dim_default :: string
  dim_gates :: "gate list"

definition named_point :: "string \<Rightarrow> point" where
  "named_point name = \<lparr>pt_name = name, pt_value = None, pt_size = None\<rparr>"

definition canonical_point_name :: "lib \<Rightarrow> json \<Rightarrow> string" where
  "canonical_point_name L v = (case v of JString s \<Rightarrow> s | other \<Rightarrow> json_text L other)"

subsection \<open>Cardinality\<close>

text \<open>The points of \<open>min\<close>/\<open>max\<close>: \<open>min + 1\<close> is \<open>u64\<close> arithmetic.\<close>

definition cardinality_points :: "nat \<Rightarrow> nat option \<Rightarrow> (string \<times> nat) list" where
  "cardinality_points least most =
     (let has_min_plus_1 = (case most of None \<Rightarrow> True | Some m \<Rightarrow> least < m)
      in [(''min'', least)]
         @ (if has_min_plus_1 then [(''min+1'', u64_add least 1)] else [])
         @ (case most of
              None \<Rightarrow> []
            | Some m \<Rightarrow>
                if m \<noteq> least \<and> (\<not> has_min_plus_1 \<or> m \<noteq> u64_add least 1) then [(''max'', m)] else []))"

definition cardinality_region :: "nat \<Rightarrow> nat option \<Rightarrow> string \<Rightarrow> (nat \<times> nat option) option" where
  "cardinality_region least most name =
     (let points = cardinality_points least most in
      case map_of points name of
        None \<Rightarrow> None
      | Some sz \<Rightarrow>
          if name \<noteq> ''min+1'' then Some (sz, Some sz)
          else Some (sz,
            (case most of
               Some m \<Rightarrow> if ''max'' \<in> fst ` set points then Some (m - 1) else most
             | None \<Rightarrow> None)))"

definition in_region :: "nat \<Rightarrow> nat \<times> nat option \<Rightarrow> bool" where
  "in_region n region =
     (case region of (lower, upper) \<Rightarrow> lower \<le> n \<and> (case upper of Some u \<Rightarrow> n \<le> u | None \<Rightarrow> True))"

definition cardinality_names :: "nat \<Rightarrow> nat option \<Rightarrow> string list" where
  "cardinality_names least most = map fst (cardinality_points least most)"

subsection \<open>The walk\<close>

definition cardinality_dimension ::
  "string \<Rightarrow> string \<Rightarrow> nat \<Rightarrow> nat option \<Rightarrow> gate list \<Rightarrow> dimension list" where
  "cardinality_dimension operator at least most gates =
     (let points = cardinality_points least most in
      if 2 \<le> length points
      then [\<lparr>dim_id = dimension_id at ''cardinality'', dim_path = at, dim_facet = ''cardinality'',
             dim_operator = operator,
             dim_points = map (\<lambda>(n, size). \<lparr>pt_name = n, pt_value = None, pt_size = Some size\<rparr>) points,
             dim_default = ''min'', dim_gates = gates\<rparr>]
      else [])"

definition presence_dimension :: "string \<Rightarrow> gate list \<Rightarrow> dimension" where
  "presence_dimension at gates =
     \<lparr>dim_id = dimension_id at ''presence'', dim_path = at, dim_facet = ''presence'',
      dim_operator = ''optional'', dim_points = [named_point ''present'', named_point ''absent''],
      dim_default = ''present'', dim_gates = gates\<rparr>"

definition nullability_dimension :: "string \<Rightarrow> gate list \<Rightarrow> dimension" where
  "nullability_dimension at gates =
     \<lparr>dim_id = dimension_id at ''nullability'', dim_path = at, dim_facet = ''nullability'',
      dim_operator = ''nullable'', dim_points = [named_point ''non-null'', named_point ''null''],
      dim_default = ''non-null'', dim_gates = gates\<rparr>"

definition value_dimension :: "lib \<Rightarrow> string \<Rightarrow> example option \<Rightarrow> json list \<Rightarrow> gate list \<Rightarrow> dimension" where
  "value_dimension L at ex options gates =
     \<lparr>dim_id = dimension_id at ''value'', dim_path = at, dim_facet = ''value'', dim_operator = ''any-of'',
      dim_points = map (\<lambda>v. \<lparr>pt_name = canonical_point_name L v, pt_value = Some v, pt_size = None\<rparr>) options,
      dim_default = (case ex of
          Some e \<Rightarrow> canonical_point_name L (ex_value e) | None \<Rightarrow> canonical_point_name L (hd options)),
      dim_gates = gates\<rparr>"

definition alternative_dimension :: "string \<Rightarrow> shape smap \<Rightarrow> string option \<Rightarrow> gate list \<Rightarrow> dimension" where
  "alternative_dimension at alternatives dflt gates =
     \<lparr>dim_id = dimension_id at ''alternative'', dim_path = at, dim_facet = ''alternative'',
      dim_operator = ''one-of'', dim_points = map (\<lambda>(n, _). named_point n) alternatives,
      dim_default = (case dflt of Some d \<Rightarrow> d | None \<Rightarrow> fst (hd alternatives)), dim_gates = gates\<rparr>"

definition under :: "gate list \<Rightarrow> string \<Rightarrow> string \<Rightarrow> gate list" where
  "under gates dimension point = gates @ [\<lparr>gate_dimension = dimension, gate_point = point\<rparr>]"

function (sequential) space_walk :: "lib \<Rightarrow> string \<Rightarrow> gate list \<Rightarrow> shape \<Rightarrow> dimension list" where
  "space_walk L at gates (ShapeNode ex g (Core (Optional s))) =
     presence_dimension at gates
       # space_walk L at (under gates (dimension_id at ''presence'') ''present'') s"
| "space_walk L at gates (ShapeNode ex g (Core (Nullable s))) =
     nullability_dimension at gates
       # space_walk L at (under gates (dimension_id at ''nullability'') ''non-null'') s"
| "space_walk L at gates (ShapeNode ex g (Core (AnyOf options))) =
     (if length options < 2 then [] else [value_dimension L at ex options gates])"
| "space_walk L at gates (ShapeNode ex g (Core (OneOf disc alternatives dflt))) =
     (if length alternatives < 2 then []
      else alternative_dimension at alternatives dflt gates
        # concat (map (\<lambda>(name, alt).
            space_walk L (path_alternative at name)
              (under gates (dimension_id at ''alternative'') name) alt) alternatives))"
| "space_walk L at gates (ShapeNode ex g (Core (EachLike items least most))) =
     cardinality_dimension ''each-like'' at least most gates
       @ space_walk L (each_like_item at) gates items"
| "space_walk L at gates (ShapeNode ex g (Core (EachEntry ks vs least most))) =
     cardinality_dimension ''each-entry'' at least most gates
       @ (case ks of Some k \<Rightarrow> space_walk L (each_entry_key at) gates k | None \<Rightarrow> [])
       @ space_walk L (each_entry_value at) gates vs"
| "space_walk L at gates (ShapeNode ex g (Core (Object members))) =
     concat (map (\<lambda>(name, member). space_walk L (path_member at name) gates member)
       (members_by_name members))"
| "space_walk L at gates (ShapeNode ex g (Core (ArrayOf entries))) =
     concat (map (\<lambda>(i, entry). space_walk L (path_array_index at i) gates entry)
       (List.enumerate 0 entries))"
| "space_walk L at gates (ShapeNode ex g (Core (Contains entries))) =
     concat (map (\<lambda>(i, entry). space_walk L (path_array_index at i) gates entry)
       (List.enumerate 0 entries))"
| "space_walk L at gates _ = []"
  by pat_completeness auto
termination
  by (relation "measure (\<lambda>(L, at, gates, s). size s)")
    (auto simp: members_by_name_def less_Suc_eq_le
      intro: size_list_estimation' smap_size_le le_SucI dest: enumerate_member)

definition compute_space :: "lib \<Rightarrow> shape \<Rightarrow> string \<Rightarrow> dimension list" where
  "compute_space L s at = space_walk L at [] s"

definition compute_many :: "lib \<Rightarrow> (string \<times> shape) list \<Rightarrow> dimension list" where
  "compute_many L shapes = concat (map (\<lambda>(at, s). compute_space L s at) shapes)"

subsection \<open>Cardinality regions\<close>

lemma cardinality_partition_aux:
  assumes "least < 2 ^ 64 - 1" and "\<And>m. most = Some m \<Longrightarrow> least \<le> m"
  shows "length (filter (\<lambda>name. case cardinality_region least most name of
            Some r \<Rightarrow> in_region n r | None \<Rightarrow> False) (cardinality_names least most)) =
    (if in_region n (least, most) then 1 else 0)"
proof -
  from assms(1) have plus: "u64_add least (Suc 0) = least + 1" using u64_add_small [of least 1] by simp
  show ?thesis
  proof (cases most)
    case None
    then show ?thesis
      by (auto simp: cardinality_region_def cardinality_names_def cardinality_points_def plus in_region_def)
  next
    case (Some m)
    with assms(2) have "least \<le> m" by simp
    then consider "m = least" | "m = least + 1" | "least + 1 < m" by linarith
    then show ?thesis
      by cases (auto simp: Some cardinality_region_def cardinality_names_def cardinality_points_def plus
          in_region_def)
  qed
qed

text \<open>C30: the points of a cardinality dimension partition the lengths the operator admits: a length
  in \<open>[min, max]\<close> is in the region of exactly one point, and any other length in none. Pinning a
  point therefore neither loses nor repeats a length. (\<open>min\<close> is below the largest \<open>u64\<close>, where
  \<open>min + 1\<close> would wrap.)\<close>

theorem cardinality_partition:
  assumes "least < 2 ^ 64 - 1" and "\<And>m. most = Some m \<Longrightarrow> least \<le> m"
  shows "length (filter (\<lambda>name. case cardinality_region least most name of
            Some r \<Rightarrow> in_region n r | None \<Rightarrow> False) (cardinality_names least most)) =
    (if in_region n (least, most) then 1 else 0)"
  using assms by (rule cardinality_partition_aux)

theorem cardinality_partition_witness:
  "length (filter (\<lambda>name. case cardinality_region 1 (Some 5) name of
      Some r \<Rightarrow> in_region 3 r | None \<Rightarrow> False) (cardinality_names 1 (Some 5))) = 1"
  using cardinality_partition [of 1 "Some 5" 3] by (simp add: in_region_def)

subsection \<open>Gates and defaults\<close>

definition dim_gates_of :: "dimension \<Rightarrow> gate set" where
  "dim_gates_of d = (\<lambda>p. \<lparr>gate_dimension = dim_id d, gate_point = pt_name p\<rparr>) ` set (dim_points d)"

fun parents_first :: "gate set \<Rightarrow> dimension list \<Rightarrow> bool" where
  "parents_first known [] = True"
| "parents_first known (d # ds) =
     (set (dim_gates d) \<subseteq> known \<and> parents_first (known \<union> dim_gates_of d) ds)"

lemma parents_first_mono: "parents_first K ds \<Longrightarrow> K \<subseteq> K' \<Longrightarrow> parents_first K' ds"
proof (induction ds arbitrary: K K')
  case (Cons d ds)
  then have "parents_first (K' \<union> dim_gates_of d) ds" by (meson Un_mono parents_first.simps(2) subset_refl)
  with Cons.prems show ?case by auto
qed simp

lemma parents_first_append:
  "parents_first K xs \<Longrightarrow> parents_first K ys \<Longrightarrow> parents_first K (xs @ ys)"
proof (induction xs arbitrary: K)
  case (Cons x xs)
  then have "parents_first (K \<union> dim_gates_of x) ys" by (blast intro: parents_first_mono)
  with Cons show ?case by simp
qed simp

lemma parents_first_concat:
  "(\<And>ds. ds \<in> set dss \<Longrightarrow> parents_first K ds) \<Longrightarrow> parents_first K (concat dss)"
  by (induction dss) (auto intro: parents_first_append)

lemma parents_first_cardinality: "parents_first (set gates) (cardinality_dimension opr at least most gates)"
  by (simp add: cardinality_dimension_def Let_def)

lemma set_under [simp]:
  "set (under gates d p) = insert \<lparr>gate_dimension = d, gate_point = p\<rparr> (set gates)"
  by (simp add: under_def)

lemma space_walk_parents: "parents_first (set gates) (space_walk L at gates s)"
proof (induction L at gates s rule: space_walk.induct)
  case (1 L at gates ex g s)
  then show ?case
    by (auto simp: presence_dimension_def dim_gates_of_def named_point_def elim!: parents_first_mono)
next
  case (2 L at gates ex g s)
  then show ?case
    by (auto simp: nullability_dimension_def dim_gates_of_def named_point_def elim!: parents_first_mono)
next
  case (3 L at gates ex g options)
  then show ?case by (simp add: value_dimension_def)
next
  case (4 L at gates ex g disc alternatives dflt)
  have "parents_first (set gates \<union> dim_gates_of (alternative_dimension at alternatives dflt gates))
      (space_walk L (path_alternative at name) (under gates (dimension_id at ''alternative'') name) alt)"
    if "(name, alt) \<in> set alternatives" and "\<not> length alternatives < 2" for name alt
  proof (rule parents_first_mono)
    show "parents_first (set (under gates (dimension_id at ''alternative'') name))
        (space_walk L (path_alternative at name) (under gates (dimension_id at ''alternative'') name) alt)"
      using 4 [OF that(2,1) refl] .
    show "set (under gates (dimension_id at ''alternative'') name)
        \<subseteq> set gates \<union> dim_gates_of (alternative_dimension at alternatives dflt gates)"
      using that(1) by (force simp: alternative_dimension_def dim_gates_of_def named_point_def)
  qed
  then show ?case
    by (auto simp: alternative_dimension_def intro!: parents_first_concat)
next
  case (5 L at gates ex g items least most)
  then show ?case by (auto intro!: parents_first_append parents_first_cardinality)
next
  case (6 L at gates ex g ks vs least most)
  then show ?case
    by (auto intro!: parents_first_append parents_first_cardinality split: option.splits)
next
  case (7 L at gates ex g members)
  then show ?case by (auto simp: members_by_name_def intro!: parents_first_concat)
next
  case (8 L at gates ex g entries)
  then show ?case by (fastforce intro!: parents_first_concat)
next
  case (9 L at gates ex g entries)
  then show ?case by (fastforce intro!: parents_first_concat)
qed simp_all

text \<open>A variant space lists every dimension after the ones that gate it, and each gate names a
  point its dimension has: the document can be read once, front to back.\<close>

theorem space_parents_first: "parents_first {} (compute_space L s at)"
  using space_walk_parents [of "[]" L at s] by (simp add: compute_space_def)

text \<open>What the shape parser checks of a default, by name.\<close>

fun default_named :: "lib \<Rightarrow> shape \<Rightarrow> bool" where
  "default_named L (ShapeNode (Some ex) _ (Core (AnyOf options))) =
     (canonical_point_name L (ex_value ex) \<in> canonical_point_name L ` set options)"
| "default_named L (ShapeNode _ _ (Core (OneOf _ alternatives (Some d)))) = contains_key alternatives d"
| "default_named L _ = True"

definition dimension_ok :: "dimension \<Rightarrow> bool" where
  "dimension_ok d \<longleftrightarrow> 2 \<le> length (dim_points d) \<and> dim_default d \<in> pt_name ` set (dim_points d)"

lemma cardinality_dimension_ok: "d \<in> set (cardinality_dimension opr at least most gates) \<Longrightarrow> dimension_ok d"
  by (auto simp: cardinality_dimension_def dimension_ok_def cardinality_points_def Let_def split: if_splits)

lemma alternative_names:
  "pt_name ` set (dim_points (alternative_dimension at alternatives dflt gates)) = fst ` set alternatives"
  by (force simp: alternative_dimension_def named_point_def image_iff)

lemma space_walk_ok:
  "every_shape (default_named L) s \<Longrightarrow> d \<in> set (space_walk L at gates s) \<Longrightarrow> dimension_ok d"
proof (induction L at gates s rule: space_walk.induct)
  case (1 L at gates ex g s)
  then show ?case
    using every_shape_child [OF 1(2), of s]
    by (auto simp: presence_dimension_def dimension_ok_def named_point_def)
next
  case (2 L at gates ex g s)
  then show ?case
    using every_shape_child [OF 2(2), of s]
    by (auto simp: nullability_dimension_def dimension_ok_def named_point_def)
next
  case (3 L at gates ex g options)
  from every_shape_here [OF 3(1)] 3(2) show ?case
    by (cases ex; cases options)
      (auto simp: value_dimension_def dimension_ok_def image_iff Suc_le_eq split: if_splits)
next
  case (4 L at gates ex g disc alternatives dflt)
  then have len: "\<not> length alternatives < 2" by (auto split: if_splits)
  from 4(3) len consider
      "d = alternative_dimension at alternatives dflt gates"
    | name alt where "(name, alt) \<in> set alternatives"
        "d \<in> set (space_walk L (path_alternative at name) (under gates (dimension_id at ''alternative'') name) alt)"
    by auto
  then show ?case
  proof cases
    case 1
    have "alternatives \<noteq> []" using len by auto
    moreover have "a \<in> fst ` set alternatives" if "dflt = Some a" for a
      using every_shape_here [OF 4(2)] that
      by (cases ex) (force simp: contains_key_def dest: map_of_SomeD)+
    ultimately have "(case dflt of Some d \<Rightarrow> d | None \<Rightarrow> fst (hd alternatives)) \<in> fst ` set alternatives"
      by (auto split: option.splits)
    with 1 len show ?thesis
      unfolding dimension_ok_def 1 alternative_names by (simp add: alternative_dimension_def)
  next
    case 2
    with 4(1) [OF len 2(1) refl] every_shape_child [OF 4(2), of alt] show ?thesis by force
  qed
next
  case (5 L at gates ex g items least most)
  then show ?case
    using every_shape_child [OF 5(2), of items] cardinality_dimension_ok by auto
next
  case (6 L at gates ex g ks vs least most)
  from 6(4) consider "d \<in> set (cardinality_dimension ''each-entry'' at least most gates)"
    | k where "ks = Some k" "d \<in> set (space_walk L (each_entry_key at) gates k)"
    | "d \<in> set (space_walk L (each_entry_value at) gates vs)"
    by (auto split: option.splits)
  then show ?case
    by cases (use 6(1,2) every_shape_child [OF 6(3)] cardinality_dimension_ok in \<open>auto split: option.splits\<close>)
next
  case (7 L at gates ex g members)
  then show ?case
    using every_shape_child [OF 7(2)] by (force simp: members_by_name_def)
next
  case (8 L at gates ex g entries)
  then show ?case
    using every_shape_child [OF 8(2)] by (fastforce dest: enumerate_member)
next
  case (9 L at gates ex g entries)
  then show ?case
    using every_shape_child [OF 9(2)] by (fastforce dest: enumerate_member)
qed simp_all

text \<open>Every dimension of a space has at least two points, its default among them, whenever each
  \<open>any-of\<close> example and each \<open>one-of\<close> default of the shape is one of the names offered.\<close>

theorem space_dimensions_ok:
  assumes "every_shape (default_named L) s"
  shows "list_all dimension_ok (compute_space L s at)"
  using space_walk_ok [OF assms] by (simp add: compute_space_def list_all_iff)

theorem space_dimensions_ok_witness:
  "list_all dimension_ok (compute_space example_lib
     (ShapeNode None None (Core (Object [(''a'', ShapeNode None None (Core (Optional
        (ShapeNode (Some \<lparr>ex_value = JNull, ex_encoded = None\<rparr>) None (Core (AnyOf [JNull, JString ''x''])))))) ])))
     ''request.body'')"
  by (rule space_dimensions_ok) (simp add: every_shape.simps)

text \<open>The names can disagree with the shape language's equality. An \<open>any-of\<close> whose example is
  written \<open>1.0\<close> among options \<open>1\<close> and \<open>2\<close> is well-formed, since \<open>1\<close> and \<open>1.0\<close> are one value; its
  dimension's default is then the name of no point, as soon as the two are printed differently.\<close>

theorem any_of_default_not_a_point:
  assumes "json_text L (JNumber (Float (f64_of_nat 1))) \<notin>
      {json_text L (JNumber (PosInt 1)), json_text L (JNumber (PosInt 2))}"
  shows "value_eq (JNumber (PosInt 1)) (JNumber (Float (f64_of_nat 1)))
    \<and> map (\<lambda>d. dim_default d \<in> pt_name ` set (dim_points d))
        (compute_space L (ShapeNode (Some \<lparr>ex_value = JNumber (Float (f64_of_nat 1)), ex_encoded = None\<rparr>) None
           (Core (AnyOf [JNumber (PosInt 1), JNumber (PosInt 2)]))) at) = [False]"
  using assms by (simp add: compute_space_def value_dimension_def canonical_point_name_def)

theorem any_of_default_not_a_point_witness:
  "value_eq (JNumber (PosInt 1)) (JNumber (Float (f64_of_nat 1)))
    \<and> map (\<lambda>d. dim_default d \<in> pt_name ` set (dim_points d))
        (compute_space example_lib (ShapeNode (Some \<lparr>ex_value = JNumber (Float (f64_of_nat 1)), ex_encoded = None\<rparr>) None
           (Core (AnyOf [JNumber (PosInt 1), JNumber (PosInt 2)]))) ''request.body'') = [False]"
  by (rule any_of_default_not_a_point)
    (simp add: example_lib_def example_number_text_def nat_text.simps [of "Suc 0"] nat_text.simps [of 2]
      append_eq_Cons_conv digit_char_def)

end
