(* ===== verification/Plan_Compile.thy ===== *)
theory Plan_Compile
  imports Plan_Interpret Variant_Space
begin

text \<open>
  The plan compiler, engine/kernel/src/plan/compile.rs: a shape compiles to plan nodes, operator by
  operator, under an assignment of variant points. Every descent updates the three positions of the
  context in step: where to resolve a value (the cursor), where the tree is dimensionally, and what a
  container's label prints.
\<close>

type_synonym assignment = "string smap"

datatype cursor = Absolute string | Relative string

definition cursor_member :: "cursor \<Rightarrow> string \<Rightarrow> cursor" where
  "cursor_member c name =
     (case c of Absolute p \<Rightarrow> Absolute (member_path p name) | Relative p \<Rightarrow> Relative (member_path p name))"

definition cursor_index :: "cursor \<Rightarrow> nat \<Rightarrow> cursor" where
  "cursor_index c index =
     (case c of
        Absolute p \<Rightarrow> Absolute (path_array_index p index)
      | Relative p \<Rightarrow> Relative (path_array_index p index))"

definition cursor_resolve :: "cursor \<Rightarrow> node" where
  "cursor_resolve c = (case c of Absolute p \<Rightarrow> Resolve p | Relative p \<Rightarrow> ResolveCurrent p)"

record cctx =
  cc_cursor :: cursor
  cc_at :: string
  cc_labelled :: string
  cc_assignment :: assignment

definition ctx_member :: "cctx \<Rightarrow> string \<Rightarrow> cctx" where
  "ctx_member ctx name =
     \<lparr>cc_cursor = cursor_member (cc_cursor ctx) name, cc_at = path_member (cc_at ctx) name,
      cc_labelled = member_path (cc_labelled ctx) name, cc_assignment = cc_assignment ctx\<rparr>"

definition ctx_index :: "cctx \<Rightarrow> nat \<Rightarrow> cctx" where
  "ctx_index ctx index =
     \<lparr>cc_cursor = cursor_index (cc_cursor ctx) index, cc_at = path_array_index (cc_at ctx) index,
      cc_labelled = path_array_index (cc_labelled ctx) index, cc_assignment = cc_assignment ctx\<rparr>"

definition ctx_item :: "cctx \<Rightarrow> (string \<Rightarrow> string) \<Rightarrow> cctx" where
  "ctx_item ctx step =
     \<lparr>cc_cursor = Relative ''~>'', cc_at = step (cc_at ctx), cc_labelled = step (cc_labelled ctx),
      cc_assignment = cc_assignment ctx\<rparr>"

definition ctx_alternative :: "cctx \<Rightarrow> string \<Rightarrow> cctx" where
  "ctx_alternative ctx name =
     \<lparr>cc_cursor = cc_cursor ctx, cc_at = path_alternative (cc_at ctx) name,
      cc_labelled = path_alternative (cc_labelled ctx) name, cc_assignment = cc_assignment ctx\<rparr>"

definition ctx_resolve :: "cctx \<Rightarrow> node" where
  "ctx_resolve ctx = cursor_resolve (cc_cursor ctx)"

definition ctx_pinned :: "cctx \<Rightarrow> string \<Rightarrow> string option" where
  "ctx_pinned ctx facet = map_of (cc_assignment ctx) (dimension_id (cc_at ctx) facet)"

definition ctx_label :: "cctx \<Rightarrow> string" where
  "ctx_label ctx = ''$.'' @ cc_labelled ctx"

subsection \<open>The pieces\<close>

definition number_value :: "nat \<Rightarrow> node" where
  "number_value n = Value (literal_number n)"

definition string_value :: "string \<Rightarrow> node" where
  "string_value s = Value (literal_string s)"

definition example_literal :: "example option \<Rightarrow> literal" where
  "example_literal ex = (case ex of Some e \<Rightarrow> literal_from_example e | None \<Rightarrow> literal_null)"

definition ok_node :: node where
  "ok_node = Action ''flow:and'' []"

definition as_single_unlabeled :: "node list \<Rightarrow> node" where
  "as_single_unlabeled nodes = (case nodes of [n] \<Rightarrow> n | _ \<Rightarrow> Container None nodes)"

definition cardinality_assertion :: "cctx \<Rightarrow> nat \<Rightarrow> nat option \<Rightarrow> node" where
  "cardinality_assertion ctx least most =
     (let region = Option.bind (ctx_pinned ctx ''cardinality'') (cardinality_region least most);
          (lower, upper) = (case region of Some r \<Rightarrow> r | None \<Rightarrow> (least, most))
      in if region \<noteq> None \<and> upper = Some lower
         then Action ''expect:count'' [ctx_resolve ctx, number_value lower]
         else Action ''expect:size''
           [ctx_resolve ctx, number_value lower,
            Value (case upper of Some m \<Rightarrow> literal_number m | None \<Rightarrow> literal_null)])"

definition compile_any_of :: "lib \<Rightarrow> cctx \<Rightarrow> json list \<Rightarrow> node" where
  "compile_any_of L ctx options =
     (case Option.bind (ctx_pinned ctx ''value'')
             (\<lambda>name. List.find (\<lambda>x. canonical_point_name L x = name) options) of
        Some pinned \<Rightarrow> Action ''match:equality'' [ctx_resolve ctx, Value (literal_from_json pinned)]
      | None \<Rightarrow>
          Action ''match:any-of'' (ctx_resolve ctx # map (\<lambda>x. Value (literal_from_json x)) options))"

definition compile_component :: "cctx \<Rightarrow> string \<Rightarrow> json smap \<Rightarrow> node" where
  "compile_component ctx operator raw =
     Action operator [ctx_resolve ctx, Value (literal_from_json (JObject raw))]"

fun object_members :: "shape \<Rightarrow> shape smap option" where
  "object_members (ShapeNode _ _ (Core (Object members))) = Some members"
| "object_members (ShapeNode _ _ (Core (Nullable (ShapeNode _ _ (Core (Object members)))))) = Some members"
| "object_members _ = None"

fun literals_of :: "shape \<Rightarrow> json list" where
  "literals_of (ShapeNode (Some ex) _ (Core Equality)) = [ex_value ex]"
| "literals_of (ShapeNode _ _ (Core (AnyOf options))) = options"
| "literals_of _ = []"

definition discriminator_literals :: "shape \<Rightarrow> string \<Rightarrow> json list" where
  "discriminator_literals alt disc =
     (case object_members alt of
        None \<Rightarrow> []
      | Some members \<Rightarrow> (case map_of members disc of Some m \<Rightarrow> literals_of m | None \<Rightarrow> []))"

definition discriminator_condition :: "shape \<Rightarrow> string \<Rightarrow> cursor \<Rightarrow> node" where
  "discriminator_condition alt disc cursor =
     (case map (\<lambda>l. Action ''check:equals'' [cursor_resolve cursor, Value (literal_from_json l)])
             (discriminator_literals alt disc) of
        [] \<Rightarrow> Action ''check:equals'' [cursor_resolve cursor, Value literal_null]
      | [check] \<Rightarrow> check
      | checks \<Rightarrow> Action ''flow:or'' checks)"

definition one_of_error_branch :: "string \<Rightarrow> string list \<Rightarrow> cursor \<Rightarrow> node" where
  "one_of_error_branch disc names cursor =
     Action ''flow:error''
       [Action ''value:join''
          [string_value (''Expected '' @ disc @ '' to be one of '' @ join_with '', '' names @ '' but got ''),
           cursor_resolve cursor]]"

text \<open>The chain of alternatives, the last one's \<open>else\<close> the error: \<open>branches\<close> are the compiled
  alternatives, with their shapes.\<close>

definition one_of_chain :: "cctx \<Rightarrow> string \<Rightarrow> (string \<times> shape \<times> node list) list \<Rightarrow> node" where
  "one_of_chain ctx disc branches =
     (let cursor = cursor_member (cc_cursor ctx) disc in
      foldr (\<lambda>(name, alt, nodes) chain.
          Action ''flow:if'' [discriminator_condition alt disc cursor, Container (Some name) nodes, chain])
        branches (one_of_error_branch disc (map fst branches) cursor))"

definition for_each_node :: "cctx \<Rightarrow> string \<Rightarrow> nat \<Rightarrow> nat option \<Rightarrow> node \<Rightarrow> node list" where
  "for_each_node ctx expected least most item =
     [Action expected [ctx_resolve ctx], cardinality_assertion ctx least most,
      Action ''flow:for-each'' [Splat [ctx_resolve ctx], item]]"

definition key_ctx :: "cctx \<Rightarrow> cctx" where
  "key_ctx ctx = (ctx_item ctx each_entry_key)\<lparr>cc_cursor := Relative ''~>.key''\<rparr>"

definition value_ctx :: "cctx \<Rightarrow> cctx" where
  "value_ctx ctx = (ctx_item ctx each_entry_value)\<lparr>cc_cursor := Relative ''~>.value''\<rparr>"

subsection \<open>Leaves\<close>

fun compile_leaf :: "lib \<Rightarrow> cctx \<Rightarrow> example option \<Rightarrow> core_shape \<Rightarrow> node list" where
  "compile_leaf L ctx ex Any = [Action ''match:any'' [ctx_resolve ctx]]"
| "compile_leaf L ctx ex Equality =
     [Action ''match:equality'' [ctx_resolve ctx, Value (example_literal ex)]]"
| "compile_leaf L ctx ex Type = [Action ''match:type'' [ctx_resolve ctx, Value (example_literal ex)]]"
| "compile_leaf L ctx ex (Kind k) = [Action (''match:'' @ value_kind_name k) [ctx_resolve ctx]]"
| "compile_leaf L ctx ex NotEmpty = [Action ''expect:not-empty'' [ctx_resolve ctx]]"
| "compile_leaf L ctx ex (Regex pattern) =
     [Action ''match:regex'' [ctx_resolve ctx, string_value pattern]]"
| "compile_leaf L ctx ex (Temporal k format) =
     [Action (''match:'' @ temporal_kind_name k)
        (ctx_resolve ctx # (case format of Some f \<Rightarrow> [string_value f] | None \<Rightarrow> []))]"
| "compile_leaf L ctx ex (Include part) = [Action ''match:include'' [ctx_resolve ctx, string_value part]]"
| "compile_leaf L ctx ex (ContentType t) =
     [Action ''match:content-type'' [ctx_resolve ctx, string_value t]]"
| "compile_leaf L ctx ex Semver = [Action ''match:semver'' [ctx_resolve ctx]]"
| "compile_leaf L ctx ex Forbidden = [Action ''expect:absent'' [ctx_resolve ctx]]"
| "compile_leaf L ctx ex (AnyOf options) = [compile_any_of L ctx options]"
| "compile_leaf L ctx ex _ = []"

subsection \<open>The recursion\<close>

function (sequential) compile_shape :: "lib \<Rightarrow> cctx \<Rightarrow> shape \<Rightarrow> node list" where
  "compile_shape L ctx (ShapeNode ex g (Component operator raw)) = [compile_component ctx operator raw]"
| "compile_shape L ctx (ShapeNode ex g (Core (Object members))) =
     Action ''expect:object'' [ctx_resolve ctx]
       # map (\<lambda>(name, member).
           Container (Some (ctx_label (ctx_member ctx name))) (compile_shape L (ctx_member ctx name) member))
         (members_by_name members)"
| "compile_shape L ctx (ShapeNode ex g (Core (ArrayOf entries))) =
     [Action ''expect:array'' [ctx_resolve ctx],
      Action ''expect:count'' [ctx_resolve ctx, number_value (length entries)]]
       @ map (\<lambda>(i, entry).
           Container (Some (ctx_label (ctx_index ctx i))) (compile_shape L (ctx_index ctx i) entry))
         (List.enumerate 0 entries)"
| "compile_shape L ctx (ShapeNode ex g (Core (EachLike items least most))) =
     (let item = ctx_item ctx each_like_item in
      for_each_node ctx ''expect:array'' least most
        (Container (Some (ctx_label item)) (compile_shape L item items)))"
| "compile_shape L ctx (ShapeNode ex g (Core (EachEntry ks vs least most))) =
     for_each_node ctx ''expect:object'' least most
       (Container (Some (ctx_label ctx))
         ((case ks of
             Some k \<Rightarrow> [Container (Some (ctx_label (key_ctx ctx))) (compile_shape L (key_ctx ctx) k)]
           | None \<Rightarrow> [])
          @ [Container (Some (ctx_label (value_ctx ctx))) (compile_shape L (value_ctx ctx) vs)]))"
| "compile_shape L ctx (ShapeNode ex g (Core (Contains entries))) =
     [Action ''expect:array'' [ctx_resolve ctx],
      Action ''match:contains''
        (ctx_resolve ctx
         # map (\<lambda>(i, entry).
             (let item = ctx_item ctx (\<lambda>at. path_array_index at i)
              in Container (Some (ctx_label item)) (compile_shape L item entry)))
           (List.enumerate 0 entries))]"
| "compile_shape L ctx (ShapeNode ex g (Core (Optional s))) =
     [if ctx_pinned ctx ''presence'' = Some ''absent'' then Action ''expect:absent'' [ctx_resolve ctx]
      else if ctx_pinned ctx ''presence'' = Some ''present'' then as_single_unlabeled (compile_shape L ctx s)
      else Action ''flow:if''
        [Action ''check:exists'' [ctx_resolve ctx], as_single_unlabeled (compile_shape L ctx s)]]"
| "compile_shape L ctx (ShapeNode ex g (Core (Nullable s))) =
     [if ctx_pinned ctx ''nullability'' = Some ''null'' then Action ''match:null'' [ctx_resolve ctx]
      else if ctx_pinned ctx ''nullability'' = Some ''non-null'' then as_single_unlabeled (compile_shape L ctx s)
      else Action ''flow:if''
        [Action ''check:null'' [ctx_resolve ctx], ok_node, as_single_unlabeled (compile_shape L ctx s)]]"
| "compile_shape L ctx (ShapeNode ex g (Core (OneOf disc alternatives dflt))) =
     (let branches = map (\<lambda>(name, alt). (name, alt, compile_shape L (ctx_alternative ctx name) alt)) alternatives
      in case Option.bind (ctx_pinned ctx ''alternative'')
                (\<lambda>name. map_option (\<lambda>(_, nodes). (name, nodes)) (map_of branches name)) of
           Some (name, nodes) \<Rightarrow> [Container (Some name) nodes]
         | None \<Rightarrow> [one_of_chain ctx disc branches])"
| "compile_shape L ctx (ShapeNode ex g (Core leaf)) = compile_leaf L ctx ex leaf"
  by pat_completeness auto
termination
  by (relation "measure (\<lambda>(L, ctx, s). size s)")
    (auto simp: members_by_name_def less_Suc_eq_le
      intro: size_list_estimation' smap_size_le le_SucI dest: enumerate_member)

text \<open>What the compiler reads of an interaction specification (interaction_spec/model.rs).\<close>

record interaction =
  in_description :: string
  in_parts :: "(string \<times> (string \<times> shape) list) list"

definition slot_ctx :: "assignment \<Rightarrow> string \<Rightarrow> string \<Rightarrow> cctx" where
  "slot_ctx A part slot =
     \<lparr>cc_cursor = Absolute (''$.'' @ path_root part slot), cc_at = path_root part slot,
      cc_labelled = path_root part slot, cc_assignment = A\<rparr>"

definition compile_plan :: "lib \<Rightarrow> interaction \<Rightarrow> assignment \<Rightarrow> string option \<Rightarrow> plan" where
  "compile_plan L spec A variant =
     \<lparr>plan_grammar = grammar_version,
      plan_root = Container (Some (in_description spec))
        (map (\<lambda>(part, slots). Container (Some part)
           (map (\<lambda>(slot, s). Container (Some slot) (compile_shape L (slot_ctx A part slot) s)) slots))
         (in_parts spec)),
      plan_variant = variant\<rparr>"

definition variant_space :: "lib \<Rightarrow> interaction \<Rightarrow> dimension list" where
  "variant_space L spec =
     compute_many L (concat (map (\<lambda>(part, slots). map (\<lambda>(slot, s). (path_root part slot, s)) slots) (in_parts spec)))"

end
