(* ===== verification/Shape_Admits.thy ===== *)
theory Shape_Admits
  imports Plan_Text Variant_Space
begin

text \<open>
  The abstract specification: which values a shape admits (the shape language's \<open>admits\<close>), under an
  assignment of variant points. It says nothing of plans, paths or messages. The compiler and the
  interpreter together implement it (theory \<open>Plan_Correct\<close>), and the checker's verdicts are about it
  (theory \<open>Subsumption\<close>).

  A \<open>judge\<close> stands for what the kernel cannot decide itself: a component operator's values, a
  value's content type, and which way \<open>contains\<close> is read, from the table of which entry admits which
  element.
\<close>

record judge =
  jd_component :: "string \<Rightarrow> json smap \<Rightarrow> rv \<Rightarrow> bool"
  jd_content :: "string \<Rightarrow> rv \<Rightarrow> bool"
  jd_contains :: "bool list list \<Rightarrow> bool"

type_synonym pins = "string \<Rightarrow> string option"

definition example_value :: "lib \<Rightarrow> example option \<Rightarrow> rv" where
  "example_value L ex =
     (case ex of
        None \<Rightarrow> RNull
      | Some e \<Rightarrow>
          if ex_encoded e = Some ''base64''
          then (case Option.bind (as_str (ex_value e)) (base64_decode L) of
                  Some bytes \<Rightarrow> RBytes bytes | None \<Rightarrow> RAbsent)
          else rv_from_json (ex_value e))"

fun kind_admits :: "value_kind \<Rightarrow> rv \<Rightarrow> bool" where
  "kind_admits VK_String (RString _) = True"
| "kind_admits VK_Number (RNumber _) = True"
| "kind_admits VK_Integer (RNumber n) = is_written_integer n"
| "kind_admits VK_Decimal (RNumber n) = (\<not> is_written_integer n)"
| "kind_admits VK_Boolean (RBool _) = True"
| "kind_admits VK_Null RNull = True"
| "kind_admits _ _ = False"

definition default_temporal_format :: "temporal_kind \<Rightarrow> string" where
  "default_temporal_format k =
     (case k of
        TK_DateTime \<Rightarrow> ''yyyy-MM-dd'' @ quote1 ''T'' @ ''HH:mm:ssXXX''
      | TK_Date \<Rightarrow> ''yyyy-MM-dd''
      | TK_Time \<Rightarrow> ''HH:mm:ss'')"

fun leaf_admits :: "lib \<Rightarrow> judge \<Rightarrow> example option \<Rightarrow> core_shape \<Rightarrow> rv \<Rightarrow> bool" where
  "leaf_admits L R ex Any v = (v \<noteq> RAbsent)"
| "leaf_admits L R ex Equality v = runtime_eq v (example_value L ex)"
| "leaf_admits L R ex Type v = (v \<noteq> RAbsent \<and> kind_of v = kind_of (example_value L ex))"
| "leaf_admits L R ex (Kind k) v = kind_admits k v"
| "leaf_admits L R ex NotEmpty v = (\<not> is_empty_value v)"
| "leaf_admits L R ex (Regex pattern) v =
     (case (as_matchable_text L v, regex L pattern) of
        (Some t, Inr is_match) \<Rightarrow> is_match t | _ \<Rightarrow> False)"
| "leaf_admits L R ex (Temporal k format) v =
     (case as_text v of
        Some t \<Rightarrow>
          validate_datetime L t (case format of Some f \<Rightarrow> f | None \<Rightarrow> default_temporal_format k) = None
      | None \<Rightarrow> False)"
| "leaf_admits L R ex (Include part) v =
     (case as_text v of Some t \<Rightarrow> contains_text t part | None \<Rightarrow> False)"
| "leaf_admits L R ex (ContentType t) v = jd_content R t v"
| "leaf_admits L R ex Semver v = (case as_text v of Some t \<Rightarrow> semver_parses L t | None \<Rightarrow> False)"
| "leaf_admits L R ex Forbidden v = (v = RAbsent)"
| "leaf_admits L R ex (AnyOf options) v = list_ex (\<lambda>x. runtime_eq (rv_from_json x) v) options"
| "leaf_admits L R ex _ v = True"

definition any_of_admits :: "lib \<Rightarrow> pins \<Rightarrow> string \<Rightarrow> json list \<Rightarrow> rv \<Rightarrow> bool" where
  "any_of_admits L A at options v =
     (case Option.bind (A (dimension_id at ''value''))
             (\<lambda>name. List.find (\<lambda>x. canonical_point_name L x = name) options) of
        Some pinned \<Rightarrow> runtime_eq v (rv_from_json pinned)
      | None \<Rightarrow> list_ex (\<lambda>x. runtime_eq (rv_from_json x) v) options)"

definition size_admits :: "pins \<Rightarrow> string \<Rightarrow> nat \<Rightarrow> nat option \<Rightarrow> nat \<Rightarrow> bool" where
  "size_admits A at least most n =
     in_region n
       (case Option.bind (A (dimension_id at ''cardinality'')) (cardinality_region least most) of
          Some r \<Rightarrow> r | None \<Rightarrow> (least, most))"

function (sequential) admits :: "lib \<Rightarrow> judge \<Rightarrow> pins \<Rightarrow> string \<Rightarrow> shape \<Rightarrow> rv \<Rightarrow> bool" where
  "admits L R A at (ShapeNode ex g (Component operator raw)) v = jd_component R operator raw v"
| "admits L R A at (ShapeNode ex g (Core (Object members))) v =
     (case v of
        RObject fs \<Rightarrow>
          list_all (\<lambda>(name, m). admits L R A (path_member at name) m (or_absent (map_of fs name))) members
      | _ \<Rightarrow> False)"
| "admits L R A at (ShapeNode ex g (Core (ArrayOf entries))) v =
     (case v of
        RArray items \<Rightarrow>
          length items = length entries
          \<and> list_all (\<lambda>(i, e). admits L R A (path_array_index at i) e (items ! i)) (List.enumerate 0 entries)
      | _ \<Rightarrow> False)"
| "admits L R A at (ShapeNode ex g (Core (EachLike s least most))) v =
     (case v of
        RArray items \<Rightarrow>
          size_admits A at least most (length items)
          \<and> list_all (admits L R A (each_like_item at) s) items
      | _ \<Rightarrow> False)"
| "admits L R A at (ShapeNode ex g (Core (EachEntry ks vs least most))) v =
     (case v of
        RObject fs \<Rightarrow>
          size_admits A at least most (length fs)
          \<and> list_all (\<lambda>(key, x).
               (case ks of Some k \<Rightarrow> admits L R A (each_entry_key at) k (RString key) | None \<Rightarrow> True)
               \<and> admits L R A (each_entry_value at) vs x) fs
      | _ \<Rightarrow> False)"
| "admits L R A at (ShapeNode ex g (Core (Contains entries))) v =
     (case v of
        RArray items \<Rightarrow>
          jd_contains R (map (\<lambda>(i, e). map (admits L R A (path_array_index at i) e) items)
            (List.enumerate 0 entries))
      | _ \<Rightarrow> False)"
| "admits L R A at (ShapeNode ex g (Core (Optional s))) v =
     (if A (dimension_id at ''presence'') = Some ''absent'' then v = RAbsent
      else if A (dimension_id at ''presence'') = Some ''present'' then admits L R A at s v
      else v = RAbsent \<or> admits L R A at s v)"
| "admits L R A at (ShapeNode ex g (Core (Nullable s))) v =
     (if A (dimension_id at ''nullability'') = Some ''null'' then v = RNull
      else if A (dimension_id at ''nullability'') = Some ''non-null'' then admits L R A at s v
      else v = RNull \<or> admits L R A at s v)"
| "admits L R A at (ShapeNode ex g (Core (OneOf disc alternatives dflt))) v =
     (case Option.bind (A (dimension_id at ''alternative''))
             (\<lambda>name. if contains_key alternatives name then Some name else None) of
        Some pinned \<Rightarrow>
          list_ex (\<lambda>(name, alt). name = pinned \<and> admits L R A (path_alternative at name) alt v) alternatives
      | None \<Rightarrow>
          list_ex (\<lambda>(name, alt). admits L R A (path_alternative at name) alt v) alternatives)"
| "admits L R A at (ShapeNode ex g (Core (AnyOf options))) v = any_of_admits L A at options v"
| "admits L R A at (ShapeNode ex g (Core leaf)) v = leaf_admits L R ex leaf v"
  by pat_completeness auto
termination
  by (relation "measure (\<lambda>(L, R, A, at, s, v). size s)")
    (auto simp: less_Suc_eq_le intro: size_list_estimation' smap_size_le le_SucI dest: enumerate_member)

definition unpinned :: pins where
  "unpinned = (\<lambda>_. None)"

definition shape_admits :: "lib \<Rightarrow> judge \<Rightarrow> shape \<Rightarrow> rv \<Rightarrow> bool" where
  "shape_admits L R s v = admits L R unpinned [] s v"

subsection \<open>Two readings of \<open>contains\<close>\<close>

text \<open>Each row of the table is an entry, each column an element. The language asks for distinct
  elements; the interpreter lets each entry claim the first one left.\<close>

fun distinct_matching :: "nat set \<Rightarrow> bool list list \<Rightarrow> bool" where
  "distinct_matching used [] = True"
| "distinct_matching used (row # rows) =
     list_ex (\<lambda>i. i \<notin> used \<and> row ! i \<and> distinct_matching (insert i used) rows) [0..<length row]"

fun greedy_matching :: "nat set \<Rightarrow> bool list list \<Rightarrow> bool" where
  "greedy_matching used [] = True"
| "greedy_matching used (row # rows) =
     (case List.find (\<lambda>i. i \<notin> used \<and> row ! i) [0..<length row] of
        Some i \<Rightarrow> greedy_matching (insert i used) rows
      | None \<Rightarrow> False)"

lemma find_Some_ex: "List.find P xs = Some x \<Longrightarrow> x \<in> set xs \<and> P x"
  by (induction xs) (auto split: if_splits)

lemma greedy_sound: "greedy_matching used rows \<Longrightarrow> distinct_matching used rows"
  by (induction used rows rule: greedy_matching.induct)
    (auto simp: list_ex_iff split: option.splits dest!: find_Some_ex)

lemma greedy_complete_single: "length rows \<le> 1 \<Longrightarrow> distinct_matching used rows \<Longrightarrow> greedy_matching used rows"
  by (cases rows) (auto simp: list_ex_iff find_None_iff split: option.splits)

end
