(* ===== verification/Value_Equality.thy ===== *)
theory Value_Equality
  imports Plan_Text
begin

text \<open>
  The shape language's equality (\<open>runtime_eq\<close>, and \<open>value_eq\<close> on JSON) is an equivalence on the values
  a document can hold. The kernel relies on it wherever it compares a literal on either side: an
  \<open>any-of\<close>, a discriminator, a pinned point. An object's keys are distinct, as a map's are; without
  that the relation is not symmetric.
\<close>

fun wf_rv :: "rv \<Rightarrow> bool" where
  "wf_rv (RArray items) = list_all wf_rv items"
| "wf_rv (RObject members) = (index_map members \<and> list_all (\<lambda>(k, v). wf_rv v) members)"
| "wf_rv (REntry k v) = wf_rv v"
| "wf_rv _ = True"

lemma wf_rv_from_json: "wf_json v \<Longrightarrow> wf_rv (rv_from_json v)"
proof (induction v)
  case (JObject m)
  then have "list_all (\<lambda>(k, v). wf_rv (rv_from_json v)) m" by (force simp: list_all_iff)
  with JObject.prems show ?case
    by (simp add: index_map_def list.pred_map case_prod_unfold comp_def)
qed (simp_all add: list.pred_map list_all_iff)

lemma wf_rv_member: "wf_rv (RObject m) \<Longrightarrow> (k, v) \<in> set m \<Longrightarrow> wf_rv v"
  by (force simp: list_all_iff)

lemma wf_rv_lookup: "wf_rv (RObject m) \<Longrightarrow> wf_rv (or_absent (map_of m k))"
  by (auto simp: or_absent_def split: option.splits dest!: map_of_SomeD intro: wf_rv_member simp del: wf_rv.simps(2))

lemma wf_rv_segment: "wf_rv v \<Longrightarrow> wf_rv (read_segment v s)"
  by (cases s; cases v)
    (auto simp: or_absent_def read_member_def read_quoted_def read_index_def list_all_iff
      split: option.splits dest!: map_of_SomeD)

lemma wf_rv_segments: "wf_rv v \<Longrightarrow> wf_rv (foldl read_segment v ss)"
  by (induction ss arbitrary: v) (auto intro: wf_rv_segment)

subsection \<open>Transitivity\<close>

lemma members_eq_lookup:
  "list_all (\<lambda>(k, v). case map_of y k of None \<Rightarrow> False | Some w \<Rightarrow> f v w) x \<longleftrightarrow>
   (\<forall>(k, v) \<in> set x. \<exists>w. map_of y k = Some w \<and> f v w)"
  by (auto simp: list_all_iff split: option.splits)

lemma runtime_eq_trans: "runtime_eq a b \<Longrightarrow> runtime_eq b c \<Longrightarrow> runtime_eq a c"
proof (induction a b arbitrary: c rule: runtime_eq.induct)
  case (4 x y)
  then show ?case by (cases c) (auto intro: f64_eq_trans)
next
  case (7 x y)
  then obtain z where c: "c = RArray z" by (cases c) auto
  have "list_all2 runtime_eq x z"
    unfolding list_all2_conv_all_nth
  proof (intro conjI allI impI)
    from 7(2,3) show len: "length x = length z" by (simp add: c all2_conv_list_all2 list_all2_conv_all_nth)
    fix i assume i: "i < length x"
    have xy: "runtime_eq (x ! i) (y ! i)" and "i < length y"
      using 7(2) i by (simp_all add: all2_conv_list_all2 list_all2_conv_all_nth)
    moreover have "runtime_eq (y ! i) (z ! i)"
      using 7(3) \<open>i < length y\<close> by (simp add: c all2_conv_list_all2 list_all2_conv_all_nth)
    ultimately show "runtime_eq (x ! i) (z ! i)"
      using 7(1) [of "x ! i" "y ! i" "z ! i"] i by simp
  qed
  then show ?case by (simp add: c all2_conv_list_all2)
next
  case (8 x y)
  then obtain z where c: "c = RObject z" by (cases c) auto
  have "\<exists>u. map_of z k = Some u \<and> runtime_eq v u" if kv: "(k, v) \<in> set x" for k v
  proof -
    from 8(2) kv obtain w where w: "map_of y k = Some w" "runtime_eq v w"
      by (auto simp: members_eq_lookup)
    from map_of_SomeD [OF w(1)] 8(3) obtain u where "map_of z k = Some u" "runtime_eq w u"
      by (auto simp: c members_eq_lookup)
    with 8(1) [OF kv refl w(1) w(2)] show ?thesis by auto
  qed
  with 8(2,3) show ?case by (auto simp: c members_eq_lookup)
qed (case_tac c; simp)+

subsection \<open>Symmetry\<close>

lemma same_keys:
  assumes "index_map x" and "index_map y" and "length x = length y"
    and "fst ` set x \<subseteq> fst ` set y"
  shows "fst ` set y = fst ` set x"
proof -
  have "card (fst ` set x) = length x" and "card (fst ` set y) = length y"
    using assms(1,2) distinct_card [of "map fst x"] distinct_card [of "map fst y"]
    by (simp_all add: index_map_def)
  with assms(3,4) show ?thesis by (metis card_subset_eq finite_imageI finite_set)
qed

lemma runtime_eq_sym: "runtime_eq a b \<Longrightarrow> wf_rv a \<Longrightarrow> wf_rv b \<Longrightarrow> runtime_eq b a"
proof (induction a b rule: runtime_eq.induct)
  case (4 x y)
  then show ?case by (simp add: f64_eq_sym)
next
  case (7 x y)
  then show ?case
    by (auto simp: all2_conv_list_all2 list_all2_conv_all_nth list_all_length)
next
  case (8 x y)
  from 8(2) have sub: "fst ` set x \<subseteq> fst ` set y"
    by (force simp: members_eq_lookup dest: map_of_SomeD)
  with 8 have keys: "fst ` set y = fst ` set x" by (intro same_keys) auto
  have "\<exists>v. map_of x k = Some v \<and> runtime_eq w v" if kw: "(k, w) \<in> set y" for k w
  proof -
    from kw keys have "k \<in> fst ` set x" by (metis fst_conv image_eqI)
    then obtain v where v: "(k, v) \<in> set x" by auto
    with 8(3) have "map_of x k = Some v" by (simp add: index_map_def)
    moreover from 8(2) v obtain w' where w': "map_of y k = Some w'" "runtime_eq v w'"
      by (auto simp: members_eq_lookup)
    moreover from w'(1) kw 8(4) have "w' = w" by (simp add: index_map_def)
    ultimately show ?thesis
      using 8(1) [OF v refl w'(1)] 8(3,4) v kw
        wf_rv_member [of x k v] wf_rv_member [of y k w] by auto
  qed
  with 8(2) show ?case by (auto simp: members_eq_lookup)
qed auto

lemma runtime_eq_iff: "wf_rv a \<Longrightarrow> wf_rv b \<Longrightarrow> runtime_eq a b = runtime_eq b a"
  using runtime_eq_sym by blast

fun no_entry :: "rv \<Rightarrow> bool" where
  "no_entry (RArray items) = list_all no_entry items"
| "no_entry (RObject members) = list_all (\<lambda>(k, v). no_entry v) members"
| "no_entry (REntry _ _) = False"
| "no_entry _ = True"

lemma runtime_eq_refl: "wf_rv v \<Longrightarrow> no_entry v \<Longrightarrow> runtime_eq v v"
proof (induction v)
  case (RArray xs)
  then show ?case by (auto simp: all2_conv_list_all2 list_all2_conv_all_nth list_all_iff)
next
  case (RObject m)
  then show ?case by (auto simp: members_eq_lookup index_map_def list_all_iff) fastforce
qed auto

lemma runtime_eq_kind: "runtime_eq a b \<Longrightarrow> kind_of a = kind_of b"
  by (cases rule: runtime_eq.cases [of "(a, b)"]) auto

lemma no_entry_from_json: "no_entry (rv_from_json v)"
proof (induction v)
  case (JObject m)
  then show ?case by (force simp: list_all_iff)
qed (auto simp: list_all_iff)

subsection \<open>On JSON\<close>

lemma value_eq_trans: "value_eq a b \<Longrightarrow> value_eq b c \<Longrightarrow> value_eq a c"
  using runtime_eq_trans [of "rv_from_json a" "rv_from_json b" "rv_from_json c"]
  by (simp add: runtime_eq_from_json)

lemma value_eq_sym: "value_eq a b \<Longrightarrow> wf_json a \<Longrightarrow> wf_json b \<Longrightarrow> value_eq b a"
  using runtime_eq_sym [of "rv_from_json a" "rv_from_json b"]
  by (simp add: runtime_eq_from_json wf_rv_from_json)

text \<open>The shape language's equality is an equivalence on documents: reflexive, symmetric and
  transitive, with objects compared as maps and numbers by value.\<close>

theorem value_eq_equivalence:
  assumes "wf_json a" and "wf_json b"
  shows "value_eq a a \<and> (value_eq a b \<longleftrightarrow> value_eq b a) \<and> (value_eq a b \<and> value_eq b c \<longrightarrow> value_eq a c)"
proof (intro conjI)
  show "value_eq a a"
    using runtime_eq_refl [OF wf_rv_from_json no_entry_from_json, of a] assms(1)
    by (simp add: runtime_eq_from_json)
  show "value_eq a b \<longleftrightarrow> value_eq b a" using assms value_eq_sym by blast
  show "value_eq a b \<and> value_eq b c \<longrightarrow> value_eq a c" using value_eq_trans by blast
qed

theorem value_eq_equivalence_witness:
  "value_eq (JObject [(''a'', JNumber (PosInt 1)), (''b'', JNull)])
     (JObject [(''a'', JNumber (PosInt 1)), (''b'', JNull)])"
  using value_eq_equivalence [of "JObject [(''a'', JNumber (PosInt 1)), (''b'', JNull)]" JNull JNull]
  by (simp add: index_map_def)

end
