(* ===== verification/Plan_Correct.thy ===== *)
theory Plan_Correct
  imports Plan_Verdict Plan_Compile Shape_Admits Value_Equality
begin

text \<open>
  The compiler and the interpreter implement the shape language: executing a compiled plan reports no
  mismatch exactly when every slot's value is one its shape admits, whatever points the plan is pinned
  to. The proof follows a cursor: a context's cursor \<open>reads\<close> a value when every path under it gives
  what reading that value's segments gives.
\<close>

declare run.simps(8) [simp del]

subsection \<open>Cursors\<close>

definition cursor_extend :: "cursor \<Rightarrow> path_segment list \<Rightarrow> cursor" where
  "cursor_extend c ss =
     (case c of
        Absolute p \<Rightarrow> Absolute (p @ segments_text ss)
      | Relative p \<Rightarrow> Relative (p @ segments_text ss))"

definition cursor_value :: "host \<Rightarrow> stack \<Rightarrow> cursor \<Rightarrow> rv" where
  "cursor_value h st c =
     (case c of Absolute p \<Rightarrow> h_resolve h p | Relative p \<Rightarrow> value_of (run_resolve_current p st))"

definition cursor_reads :: "host \<Rightarrow> stack \<Rightarrow> cursor \<Rightarrow> rv \<Rightarrow> bool" where
  "cursor_reads h st c v \<longleftrightarrow>
     (\<forall>ss. list_all segment_ok ss \<longrightarrow> cursor_value h st (cursor_extend c ss) = foldl read_segment v ss)"

lemma cursor_reads_here: "cursor_reads h st c v \<Longrightarrow> cursor_value h st c = v"
  unfolding cursor_reads_def
  by (drule spec [of _ "[]"]) (simp add: cursor_extend_def segments_text_def split: cursor.splits)

lemma cursor_reads_segment:
  assumes "cursor_reads h st c v" and "segment_ok s"
    and "\<And>ss. cursor_extend c' ss = cursor_extend c (s # ss)"
  shows "cursor_reads h st c' (read_segment v s)"
  unfolding cursor_reads_def
proof (intro allI impI)
  fix ss assume "list_all segment_ok ss"
  with assms(1,2) show "cursor_value h st (cursor_extend c' ss) = foldl read_segment (read_segment v s) ss"
    unfolding assms(3) cursor_reads_def by (drule_tac spec [of _ "s # ss"]) simp
qed

lemma cursor_extend_member: "cursor_extend (cursor_member c name) ss = cursor_extend c (Member name # ss)"
  by (cases c) (simp_all add: cursor_extend_def cursor_member_def segments_text_def member_path_def)

lemma cursor_extend_index: "cursor_extend (cursor_index c i) ss = cursor_extend c (Index i # ss)"
  by (cases c) (simp_all add: cursor_extend_def cursor_index_def segments_text_def path_array_index_def)

lemma cursor_reads_member:
  "cursor_reads h st c v \<Longrightarrow> cursor_reads h st (cursor_member c name) (read_segment v (Member name))"
  by (erule cursor_reads_segment) (simp_all add: cursor_extend_member)

lemma cursor_reads_index:
  "cursor_reads h st c v \<Longrightarrow> i < 2 ^ 64 \<Longrightarrow>
   cursor_reads h st (cursor_index c i) (read_segment v (Index i))"
  by (erule cursor_reads_segment) (simp_all add: cursor_extend_index)

lemma cursor_reads_item: "cursor_reads h ((item, p) # st) (Relative ''~>'') item"
  unfolding cursor_reads_def
proof (intro allI impI)
  fix ss assume "list_all segment_ok ss"
  then have "navigate item (segments_text ss) = foldl read_segment item ss"
    by (rule navigate_segments_aux)
  moreover have "strip_prefix ''~>'' (''~>'' @ segments_text ss) = Some (segments_text ss)"
    by (rule strip_prefix_append)
  ultimately show "cursor_value h ((item, p) # st) (cursor_extend (Relative ''~>'') ss) = foldl read_segment item ss"
    by (simp add: cursor_value_def cursor_extend_def run_resolve_current_def value_of_def Let_def)
qed

lemma entry_cursors:
  "Relative ''~>.key'' = cursor_member (Relative ''~>'') ''key''"
  "Relative ''~>.value'' = cursor_member (Relative ''~>'') ''value''"
  by (simp_all add: cursor_member_def member_path_def plain_name_def path_special_def whitespace_at_def)

lemma run_cursor:
  assumes "cursor_reads h st c v"
  shows "x_result (run L h st (cursor_resolve c)) = Some (RVal v)"
    and "no_errors (run L h st (cursor_resolve c))" and "value_of (run L h st (cursor_resolve c)) = v"
  using cursor_reads_here [OF assms]
  by (auto simp: cursor_resolve_def cursor_value_def run_resolve_current_def value_of_def Let_def
      split: cursor.splits)

lemma absolute_reads:
  assumes "\<And>s. at_boundary s \<Longrightarrow> h_resolve h (p @ s) = navigate (h_resolve h p) s"
  shows "cursor_reads h st (Absolute p) (h_resolve h p)"
  using assms segments_text_boundary
  by (auto simp: cursor_reads_def cursor_value_def cursor_extend_def navigate_segments_aux)

subsection \<open>Literals\<close>

lemma rv_literals [simp]:
  "rv_from_literal L (literal_string s) = RString s"
  "rv_from_literal L (literal_number n) = RNumber (PosInt n)"
  "rv_from_literal L literal_null = RNull"
  "rv_from_literal L (literal_from_json x) = rv_from_json x"
  by (auto simp: rv_from_literal_def literal_string_def literal_number_def literal_null_def
      literal_from_json_def split: document_kind.splits) (cases x; simp)+

lemma rv_example [simp]: "rv_from_literal L (example_literal ex) = example_value L ex"
proof (cases ex)
  case (Some e)
  then show ?thesis
    by (cases "ex_encoded e = Some ''base64''")
      (simp_all add: example_literal_def example_value_def literal_from_example_def,
       simp add: rv_from_literal_def)
qed (simp add: example_literal_def example_value_def)

lemma value_of_result [simp]: "value_of (Exec k (Some (RVal v))) = v"
  by (simp add: value_of_def)

subsection \<open>What the host answers\<close>

text \<open>A host whose detector and whose components answer as the judge does, from the value alone.\<close>

definition content_answer :: "host \<Rightarrow> string \<Rightarrow> rv \<Rightarrow> string option \<Rightarrow> bool" where
  "content_answer h t v at =
     (case h_content h of
        None \<Rightarrow> False
      | Some detect \<Rightarrow> (case detect v at of Some d \<Rightarrow> media_type_matches t d | None \<Rightarrow> False))"

definition component_answer :: "host \<Rightarrow> string \<Rightarrow> json smap \<Rightarrow> rv \<Rightarrow> string option \<Rightarrow> node_result option" where
  "component_answer h operator raw v at =
     Option.bind (h_actions h) (\<lambda>apply. apply operator [v, rv_from_json (JObject raw)] at)"

definition host_agrees :: "judge \<Rightarrow> host \<Rightarrow> bool" where
  "host_agrees R h \<longleftrightarrow>
     (\<forall>t v at. content_answer h t v at = jd_content R t v)
     \<and> (\<forall>operator raw v at.
          (case component_answer h operator raw v at of
             None \<Rightarrow> \<not> jd_component R operator raw v
           | Some r \<Rightarrow> result_verdict r (jd_component R operator raw v)))"

subsection \<open>Leaves\<close>

lemma arg_simps [simp]:
  "arg (e # es) 0 = value_of e" "arg (e # f # es) 1 = value_of f" "arg (e # f # es) (Suc 0) = value_of f"
  "arg (e # f # g # es) 2 = value_of g"
  by (simp_all add: arg_def)

lemma match_kind_verdict: "result_verdict (match_kind L P k es) (P (arg es 0))"
  by (simp add: match_kind_def)

lemma kind_admits_iff:
  "kind_admits VK_String v = is_string v" "kind_admits VK_Number v = is_number v"
  "kind_admits VK_Integer v = is_integer v" "kind_admits VK_Decimal v = is_decimal v"
  "kind_admits VK_Boolean v = is_boolean v" "kind_admits VK_Null v = (v = RNull)"
  by (cases v; simp)+

lemma size_list_find: "List.find P xs = None \<longleftrightarrow> \<not> list_ex P xs"
  by (auto simp: find_None_iff list_ex_iff)

lemma default_formats: "default_format k = default_temporal_format k"
  by (simp add: default_format_def default_temporal_format_def)

lemma leaf_verdict:
  assumes v: "cursor_reads h st (cc_cursor ctx) v" and host: "host_agrees R h"
    and leaf: "leaf_operator core" "\<nexists>options. core = AnyOf options"
  shows "nodes_verdict (map (run L h st) (compile_leaf L ctx ex core)) (leaf_admits L R ex core v)"
proof -
  note v' = run_cursor [OF v, of L, folded ctx_resolve_def]
  have content: "\<And>t at. content_answer h t v at = jd_content R t v"
    using host by (simp add: host_agrees_def)
  show ?thesis
  proof (cases core)
    case (Kind k)
    then show ?thesis
      using match_kind_verdict [of L _ _ "[run L h st (ctx_resolve ctx)]"]
      by (cases k)
        (auto simp: kind_admits_iff nodes_verdict_single run_actions v' intro!: action_verdict)
  next
    case (Temporal k format)
    then show ?thesis
      by (cases k; cases format)
        (auto simp: nodes_verdict_single run_actions v' match_temporal_def string_value_def
          default_formats Let_def plain_text_def split: option.splits intro!: action_verdict)
  next
    case (ContentType t)
    then show ?thesis
      using content [of t "locus [run L h st (ctx_resolve ctx), run L h st (string_value t)]"]
      by (auto simp: nodes_verdict_single run_actions v' act_match_content_type_def string_value_def
          Let_def plain_text_def content_answer_def split: option.splits intro!: action_verdict)
  next
    case (Regex p)
    then show ?thesis
      by (auto simp: nodes_verdict_single run_actions v' act_match_regex_def string_value_def
          Let_def plain_text_def split: option.splits sum.splits intro!: action_verdict)
  qed (use leaf in \<open>auto simp: nodes_verdict_single run_actions v' act_match_any_def act_match_equality_def
          act_match_type_def act_expect_not_empty_def act_match_include_def act_match_semver_def
          act_expect_absent_def string_value_def Let_def plain_text_def
          split: option.splits intro!: action_verdict\<close>)
qed

lemma any_of_verdict:
  assumes v: "cursor_reads h st (cc_cursor ctx) v"
  shows "verdict (run L h st (compile_any_of L ctx options))
    (any_of_admits L (map_of (cc_assignment ctx)) (cc_at ctx) options v)"
proof -
  note v' = run_cursor [OF v, of L, folded ctx_resolve_def]
  show ?thesis
    by (auto simp: compile_any_of_def any_of_admits_def ctx_pinned_def run_actions v'
        act_match_equality_def act_match_any_of_def Let_def list_all_iff list_ex_iff comp_def
        split: option.splits intro!: action_verdict)
qed

lemma component_verdict:
  assumes v: "cursor_reads h st (cc_cursor ctx) v" and host: "host_agrees R h"
    and op: "is_component_action operator"
  shows "verdict (run L h st (compile_component ctx operator raw)) (jd_component R operator raw v)"
proof -
  note v' = run_cursor [OF v, of L, folded ctx_resolve_def]
  from op have "least_children operator = None"
    using component_action_not_core [OF op] grammar_core_props(4)
    by (auto simp: is_core_def grammar_core_def least_children_def find_None_iff)
  moreover from op have "operator \<notin> {''flow:if'', ''flow:or'', ''flow:for-each'', ''match:contains'', ''legacy:array-contains''}"
    by (auto simp: is_component_action_def reserved_namespaces_def)
  ultimately have run: "run L h st (compile_component ctx operator raw) =
      run_eager L h operator [run L h st (ctx_resolve ctx), run L h st (Value (literal_from_json (JObject raw)))]"
    by (simp add: compile_component_def run.simps(8) too_few_def)
  have "\<And>at. case component_answer h operator raw v at of
             None \<Rightarrow> \<not> jd_component R operator raw v
           | Some r \<Rightarrow> result_verdict r (jd_component R operator raw v)"
    using host by (simp add: host_agrees_def)
  from this [of "locus [run L h st (ctx_resolve ctx), run L h st (Value (literal_from_json (JObject raw)))]"]
  show ?thesis
    unfolding run using op v'
    by (auto simp: run_eager_def apply_component_def component_answer_def
        split: option.splits node_result.splits intro!: action_verdict)
qed

subsection \<open>Branches and bundles\<close>

lemma single_verdict:
  assumes "nodes_verdict (map (run L h st) ns) b"
  shows "verdict (run L h st (as_single_unlabeled ns)) b"
proof (cases "\<exists>n. ns = [n]")
  case True
  with assms show ?thesis
    by (auto simp: nodes_verdict_single as_single_unlabeled_def)
next
  case False
  then have "as_single_unlabeled ns = Container None ns"
    by (auto simp: as_single_unlabeled_def split: list.splits)
  with container_verdict [OF assms] show ?thesis by simp
qed


lemma nullary_and: "verdict (run L h st ok_node) True"
  by (simp add: ok_node_def run_actions act_flow_and_def verdict_def child_failed_def)

lemma if_then_verdict:
  assumes "no_errors (run L h st c)" and "is_truthy (run L h st c) = p" and "p \<Longrightarrow> verdict (run L h st n) b"
  shows "verdict (run L h st (Action ''flow:if'' [c, n])) (\<not> p \<or> b)"
  using assms
  by (auto simp: run.simps(8) lazy_least run_if_def verdict_def child_failed_def branch_result_def)

lemma if_else_verdict:
  assumes "no_errors (run L h st c)" and "is_truthy (run L h st c) = p"
    and "p \<Longrightarrow> verdict (run L h st n) b" and "\<not> p \<Longrightarrow> verdict (run L h st m) d"
  shows "verdict (run L h st (Action ''flow:if'' [c, n, m])) (if p then b else d)"
  using assms
  by (auto simp: run.simps(8) lazy_least run_if_def verdict_def child_failed_def branch_result_def)

lemma check_facts:
  assumes v: "cursor_reads h st c v"
  shows "no_errors (run L h st (Action ''check:exists'' [cursor_resolve c]))"
    and "is_truthy (run L h st (Action ''check:exists'' [cursor_resolve c])) = (v \<noteq> RAbsent)"
    and "no_errors (run L h st (Action ''check:null'' [cursor_resolve c]))"
    and "is_truthy (run L h st (Action ''check:null'' [cursor_resolve c])) = (v = RNull)"
    and "no_errors (run L h st (Action ''check:equals'' [cursor_resolve c, Value l]))"
    and "is_truthy (run L h st (Action ''check:equals'' [cursor_resolve c, Value l])) =
      runtime_eq v (rv_from_literal L l)"
  using run_cursor [OF v, of L]
  by (simp_all add: run_actions act_check_exists_def act_check_null_def act_check_equals_def is_truthy_def truthy_def)

subsection \<open>Cardinality\<close>

lemma value_as_u64_simps [simp]:
  "value_as_u64 (RNumber (PosInt n)) = Some n" "value_as_u64 RNull = None"
  by (simp_all add: value_as_u64_def)

lemma cardinality_verdict:
  assumes v: "cursor_reads h st (cc_cursor ctx) v"
  shows "verdict (run L h st (cardinality_assertion ctx least most))
    (case length_of_opt v of
       Some n \<Rightarrow> size_admits (map_of (cc_assignment ctx)) (cc_at ctx) least most n
     | None \<Rightarrow> False)"
proof -
  note v' = run_cursor [OF v, of L, folded ctx_resolve_def]
  show ?thesis
    by (auto simp: cardinality_assertion_def size_admits_def ctx_pinned_def Let_def run_actions v'
        act_expect_count_def act_expect_size_def number_value_def in_region_def
        split: option.splits prod.splits if_splits intro!: action_verdict)
qed

subsection \<open>Iteration\<close>

lemma for_each_verdict:
  assumes v: "cursor_reads h st c v"
    and items: "\<And>item p. item \<in> set (iteration_items v) \<Longrightarrow> verdict (run L h ((item, p) # st) n) (P item)"
  shows "verdict (run L h st (Action ''flow:for-each'' [Splat [cursor_resolve c], n]))
    (list_all P (iteration_items v))"
proof -
  note v' = run_cursor [OF v, of L]
  define inner where "inner = run L h st (cursor_resolve c)"
  define es where "es = map (\<lambda>entry. run L h (entry # st) n) (zip (iteration_items v) (item_paths (path_of inner) (iteration_items v)))"
  have len: "length (item_paths q xs) = length xs" for q xs by (simp add: item_paths_def)
  have "nodes_verdict es (list_all (\<lambda>(item, p). P item)
      (zip (iteration_items v) (item_paths (path_of inner) (iteration_items v))))"
    unfolding es_def by (rule nodes_verdict_map) (auto dest!: set_zip_leftD intro: items)
  also have "list_all (\<lambda>(item, p). P item)
      (zip (iteration_items v) (item_paths (path_of inner) (iteration_items v))) = list_all P (iteration_items v)"
    by (simp add: list_all_length len)
  finally have es: "nodes_verdict es (list_all P (iteration_items v))" .
  have "run L h st (Action ''flow:for-each'' [Splat [cursor_resolve c], n]) =
      Exec (XAction ''flow:for-each'' (Exec (XSplat [inner]) (Some (RVal (RArray (iteration_items v)))) # es))
        (Some (RVal (RBool (\<not> list_ex child_failed es))))"
    using v' by (simp add: run.simps(8) lazy_least run_for_each_def for_each_items_def es_def inner_def Let_def)
  with es v' show ?thesis
    by (simp add: verdict_def nodes_verdict_def child_failed_def inner_def)
qed

subsection \<open>Contains\<close>

definition element_row :: "(stack \<Rightarrow> executed) \<Rightarrow> stack \<Rightarrow> (rv \<times> string option) list \<Rightarrow> bool list" where
  "element_row r st elements = map (\<lambda>entry. \<not> child_failed (r (entry # st))) elements"

lemma claim_element_find:
  "claim_element r st els found =
     (case List.find (\<lambda>(i, item, p). \<not> child_failed (r ((item, p) # st))) els of
        Some (i, item, p) \<Rightarrow> Some (i, r ((item, p) # st))
      | None \<Rightarrow> (case rev els of [] \<Rightarrow> found | (i, item, p) # _ \<Rightarrow> Some (i, r ((item, p) # st))))"
  by (induction r st els found rule: claim_element.induct)
    (auto simp: Let_def split: list.splits option.splits)

lemma find_filter: "List.find P (filter Q xs) = List.find (\<lambda>x. Q x \<and> P x) xs"
  by (induction xs) auto

lemma find_map: "List.find P (map f xs) = map_option f (List.find (P \<circ> f) xs)"
  by (induction xs) auto

lemma find_cong_set: "(\<And>x. x \<in> set xs \<Longrightarrow> P x = Q x) \<Longrightarrow> List.find P xs = List.find Q xs"
  by (induction xs) auto

lemma enumerate_conv: "List.enumerate 0 xs = map (\<lambda>i. (i, xs ! i)) [0..<length xs]"
  by (rule nth_equalityI) (simp_all add: nth_enumerate_eq)

lemma find_unclaimed:
  "List.find (\<lambda>(i, item, p). \<not> child_failed (r ((item, p) # st)))
      (filter (\<lambda>(i, _). i \<notin> used) (List.enumerate 0 els)) =
   map_option (\<lambda>i. (i, els ! i))
      (List.find (\<lambda>i. i \<notin> used \<and> element_row r st els ! i) [0..<length (element_row r st els)])"
proof -
  have "List.find ((\<lambda>x. (case x of (i, _) \<Rightarrow> i \<notin> used)
            \<and> (case x of (i, item, p) \<Rightarrow> \<not> child_failed (r ((item, p) # st)))) \<circ> (\<lambda>i. (i, els ! i))) [0..<length els] =
        List.find (\<lambda>i. i \<notin> used \<and> element_row r st els ! i) [0..<length els]"
    by (rule find_cong_set) (auto simp: element_row_def split: prod.splits)
  then show ?thesis
    by (simp add: find_filter enumerate_conv find_map comp_def element_row_def)
qed

lemma contains_steps_greedy:
  assumes "\<And>n r entry. (n, r) \<in> set cells \<Longrightarrow> entry \<in> set els \<Longrightarrow>
      \<not> child_failed (r (entry # st)) \<Longrightarrow> no_errors (r (entry # st))"
  shows "snd (contains_steps cells st (List.enumerate 0 els) used) =
      (\<not> greedy_matching used (map (\<lambda>(n, r). element_row r st els) cells))
    \<and> (\<not> snd (contains_steps cells st (List.enumerate 0 els) used) \<longrightarrow>
        list_all no_errors (fst (contains_steps cells st (List.enumerate 0 els) used)))"
  using assms
proof (induction cells arbitrary: used)
  case Nil
  then show ?case by simp
next
  case (Cons cell cells)
  obtain n r where cell: "cell = (n, r)" by (cases cell)
  have IH: "snd (contains_steps cells st (List.enumerate 0 els) u) =
      (\<not> greedy_matching u (map (\<lambda>(n, r). element_row r st els) cells))
    \<and> (\<not> snd (contains_steps cells st (List.enumerate 0 els) u) \<longrightarrow>
        list_all no_errors (fst (contains_steps cells st (List.enumerate 0 els) u)))" for u
    by (rule Cons.IH) (auto intro: Cons.prems)
  let ?row = "element_row r st els"
  show ?case
  proof (cases "List.find (\<lambda>i. i \<notin> used \<and> ?row ! i) [0..<length ?row]")
    case (Some i)
    then have i: "i < length els" "?row ! i" by (auto dest!: find_Some_ex simp: element_row_def)
    then have ok: "\<not> child_failed (r ((els ! i) # st))" by (simp add: element_row_def)
    with Cons.prems [of n r "els ! i"] i have "no_errors (r ((els ! i) # st))" by (simp add: cell)
    with Some ok IH [of "insert i used"] show ?thesis
      by (auto simp: cell claim_element_find find_unclaimed split: prod.splits)
  next
    case None
    have failed: "child_failed a" if "claim_element r st (filter (\<lambda>(i, _). i \<notin> used) (List.enumerate 0 els)) None = Some (j, a)" for j a
    proof -
      let ?fl = "filter (\<lambda>(i, _). i \<notin> used) (List.enumerate 0 els)"
      have none: "List.find (\<lambda>(i, item, p). \<not> child_failed (r ((item, p) # st))) ?fl = None"
        using None by (simp add: find_unclaimed)
      with that have last: "(case rev ?fl of [] \<Rightarrow> None | (i, item, p) # _ \<Rightarrow> Some (i, r ((item, p) # st))) = Some (j, a)"
        by (simp only: claim_element_find option.case)
      then obtain i item p rest where e: "rev ?fl = (i, item, p) # rest" by (auto split: list.splits)
      then have "(i, item, p) \<in> set ?fl" by (metis list.set_intros(1) set_rev)
      moreover from last e have "a = r ((item, p) # st)" by simp
      ultimately have "(i, item, p) \<in> set ?fl" and "a = r ((item, p) # st)" .
      with none show ?thesis by (auto simp: find_None_iff)
    qed
    with None show ?thesis
      by (auto simp: cell split: option.splits prod.splits)
  qed
qed

lemma length_item_paths [simp]: "length (item_paths q xs) = length xs"
  by (simp add: item_paths_def)

lemma contains_verdict:
  assumes v: "cursor_reads h st c v"
    and items: "\<And>n P item p. (n, P) \<in> set es \<Longrightarrow> item \<in> set (array_items v) \<Longrightarrow>
      verdict (run L h ((item, p) # st) n) (P item)"
  shows "verdict (run L h st (Action ''match:contains'' (cursor_resolve c # map fst es)))
    (greedy_matching {} (map (\<lambda>(n, P). map P (array_items v)) es))"
proof -
  note v' = run_cursor [OF v, of L]
  define els where "els = zip (array_items v) (item_paths (path_of (run L h st (cursor_resolve c))) (array_items v))"
  define cells where "cells = map (\<lambda>(n, P). (n, \<lambda>s. run L h s n)) es"
  have el: "fst entry \<in> set (array_items v)" if "entry \<in> set els" for entry
    using that unfolding els_def by (metis prod.collapse set_zip_leftD)
  have steps: "snd (contains_steps cells st (List.enumerate 0 els) {}) =
      (\<not> greedy_matching {} (map (\<lambda>(n, r). element_row r st els) cells))
    \<and> (\<not> snd (contains_steps cells st (List.enumerate 0 els) {}) \<longrightarrow>
        list_all no_errors (fst (contains_steps cells st (List.enumerate 0 els) {})))"
  proof (rule contains_steps_greedy)
    fix n r entry
    assume "(n, r) \<in> set cells" and entry: "entry \<in> set els" and ok: "\<not> child_failed (r (entry # st))"
    then obtain P where P: "(n, P) \<in> set es" and r: "r = (\<lambda>s. run L h s n)"
      by (auto simp: cells_def)
    obtain item p where e: "entry = (item, p)" by (cases entry)
    from items [OF P, of item p] el [OF entry] have "verdict (run L h (entry # st) n) (P item)"
      by (simp add: e)
    with ok show "no_errors (r (entry # st))" by (auto simp: r verdict_def)
  qed
  have rows: "map (\<lambda>(n, r). element_row r st els) cells = map (\<lambda>(n, P). map P (array_items v)) es"
  proof -
    have "element_row (\<lambda>s. run L h s n) st els = map P (array_items v)" if nP: "(n, P) \<in> set es" for n P
    proof (rule nth_equalityI)
      show "length (element_row (\<lambda>s. run L h s n) st els) = length (map P (array_items v))"
        by (simp add: element_row_def els_def)
      fix i assume "i < length (element_row (\<lambda>s. run L h s n) st els)"
      then have i: "i < length (array_items v)" by (simp add: element_row_def els_def)
      then have "verdict (run L h ((array_items v ! i, snd (els ! i)) # st) n) (P (array_items v ! i))"
        by (intro items [OF nP]) simp
      with i show "element_row (\<lambda>s. run L h s n) st els ! i = map P (array_items v) ! i"
        by (simp add: element_row_def els_def verdict_def)
    qed
    then show ?thesis by (auto simp: cells_def)
  qed
  have "run L h st (Action ''match:contains'' (cursor_resolve c # map fst es)) =
      (let (xs, any_failed) = contains_steps cells st (List.enumerate 0 els) {}
       in Exec (XAction ''match:contains'' (run L h st (cursor_resolve c) # xs))
           (Some (if any_failed
                  then RErr ''not every entry found a distinct matching element'' None None
                  else matched_result)))"
  proof -
    have "map ((\<lambda>c. (c, \<lambda>s. run L h s c)) \<circ> fst) es = cells"
      by (simp add: cells_def case_prod_beta comp_def)
    with v' show ?thesis by (simp add: run.simps(8) lazy_least run_contains_def els_def Let_def)
  qed
  with steps v' rows show ?thesis
    by (auto simp: verdict_def child_failed_def matched_result_def split: prod.splits)
qed

subsection \<open>Alternatives\<close>

fun literal_member :: "shape \<Rightarrow> bool" where
  "literal_member (ShapeNode (Some ex) _ (Core Equality)) =
     (ex_encoded ex \<noteq> Some ''base64'' \<and> wf_json (ex_value ex))"
| "literal_member (ShapeNode _ _ (Core (AnyOf options))) = (options \<noteq> [] \<and> list_all wf_json options)"
| "literal_member _ = False"

text \<open>What the shape parser requires of an alternative (shape-language spec section 5.4), with the
  \<open>nullable\<close> wrapping left out: the compiled chain never admits \<open>null\<close> through it.\<close>

fun alternative_ok :: "string \<Rightarrow> shape \<Rightarrow> bool" where
  "alternative_ok disc (ShapeNode _ _ (Core (Object members))) =
     (index_map members \<and> (case map_of members disc of Some m \<Rightarrow> literal_member m | None \<Rightarrow> False))"
| "alternative_ok disc _ = False"

fun disjoint_literals :: "json list list \<Rightarrow> bool" where
  "disjoint_literals [] = True"
| "disjoint_literals (ls # rest) =
     (list_all (\<lambda>l. list_all (\<lambda>ms. list_all (\<lambda>m. \<not> value_eq l m) ms) rest) ls \<and> disjoint_literals rest)"

definition selects :: "string \<Rightarrow> rv \<Rightarrow> shape \<Rightarrow> bool" where
  "selects disc x alt = list_ex (\<lambda>l. runtime_eq x (rv_from_json l)) (discriminator_literals alt disc)"

lemma alternative_literals:
  "alternative_ok disc alt \<Longrightarrow> discriminator_literals alt disc \<noteq> [] \<and> list_all wf_json (discriminator_literals alt disc)"
  by (cases "(disc, alt)" rule: alternative_ok.cases)
    (auto simp: discriminator_literals_def split: option.splits elim!: literal_member.elims)

lemma any_of_admits_option: "any_of_admits L A at options v \<Longrightarrow> wf_rv v \<Longrightarrow> list_all wf_json options \<Longrightarrow>
   list_ex (\<lambda>l. runtime_eq v (rv_from_json l)) options"
proof (cases "Option.bind (A (dimension_id at ''value''))
             (\<lambda>name. List.find (\<lambda>x. canonical_point_name L x = name) options)")
  case None
  assume "any_of_admits L A at options v" and wf: "wf_rv v" "list_all wf_json options"
  with None obtain x where x: "x \<in> set options" "runtime_eq (rv_from_json x) v"
    by (auto simp: any_of_admits_def list_ex_iff)
  from x(1) wf(2) have "wf_rv (rv_from_json x)" by (simp add: list_all_iff wf_rv_from_json)
  from runtime_eq_sym [OF x(2) this wf(1)] x(1) show ?thesis by (auto simp: list_ex_iff)
next
  case (Some x)
  assume "any_of_admits L A at options v"
  with Some have "runtime_eq v (rv_from_json x)" by (simp add: any_of_admits_def)
  moreover from Some have "x \<in> set options"
    by (auto simp: Option.bind_eq_Some_conv dest: find_Some_ex)
  ultimately show ?thesis by (auto simp: list_ex_iff)
qed

lemma alternative_selects:
  assumes ok: "alternative_ok disc alt" and adm: "admits L R A at alt v" and wf: "wf_rv v"
  shows "selects disc (read_segment v (Member disc)) alt"
proof -
  obtain ex g members where alt: "alt = ShapeNode ex g (Core (Object members))"
    using ok by (cases "(disc, alt)" rule: alternative_ok.cases) auto
  with ok obtain m where m: "map_of members disc = Some m" "literal_member m" by (auto split: option.splits)
  from adm alt obtain fs where v: "v = RObject fs"
    and all: "\<And>n s. (n, s) \<in> set members \<Longrightarrow> admits L R A (path_member at n) s (or_absent (map_of fs n))"
    by (auto simp: list_all_iff split: rv.splits)
  have x: "read_segment v (Member disc) = or_absent (map_of fs disc)"
    by (simp add: v read_member_def read_quoted_def)
  have wx: "wf_rv (or_absent (map_of fs disc))" using wf unfolding v by (rule wf_rv_lookup)
  from all [OF map_of_SomeD [OF m(1)]] m(2) wx
  have "list_ex (\<lambda>l. runtime_eq (or_absent (map_of fs disc)) (rv_from_json l)) (literals_of m)"
    by (auto elim!: literal_member.elims simp: example_value_def any_of_admits_option)
  then show ?thesis
    unfolding selects_def x by (simp add: alt discriminator_literals_def m(1))
qed

lemma or_steps_verdict:
  "(\<And>n r. (n, r) \<in> set cells \<Longrightarrow> no_errors (r st)) \<Longrightarrow>
   snd (or_steps cells st b) = (b \<or> list_ex (\<lambda>(n, r). is_truthy (r st)) cells)
   \<and> list_all no_errors (fst (or_steps cells st b))"
  by (induction cells st b rule: or_steps.induct) (auto simp: Let_def)

lemma run_flow_or:
  "run L h st (Action ''flow:or'' ns) =
     Exec (XAction ''flow:or'' (fst (or_steps (map (\<lambda>n. (n, \<lambda>s. run L h s n)) ns) st False)))
       (Some (RVal (RBool (snd (or_steps (map (\<lambda>n. (n, \<lambda>s. run L h s n)) ns) st False)))))"
  by (simp add: run.simps(8) lazy_least run_or_def case_prod_beta Let_def)

lemma condition_facts:
  assumes x: "cursor_reads h st c x" and ls: "discriminator_literals alt disc \<noteq> []"
  shows "no_errors (run L h st (discriminator_condition alt disc c))
    \<and> is_truthy (run L h st (discriminator_condition alt disc c)) = selects disc x alt"
proof -
  let ?checks = "map (\<lambda>l. Action ''check:equals'' [cursor_resolve c, Value (literal_from_json l)])
      (discriminator_literals alt disc)"
  note check = check_facts(5,6) [OF x, of L "literal_from_json l" for l]
  show ?thesis
  proof (cases "\<exists>l. discriminator_literals alt disc = [l]")
    case True
    then show ?thesis
      by (auto simp: discriminator_condition_def selects_def check)
  next
    case False
    with ls have cond: "discriminator_condition alt disc c = Action ''flow:or'' ?checks"
      by (auto simp: discriminator_condition_def split: list.splits)
    define cells where "cells = map (\<lambda>n. (n, \<lambda>s. run L h s n)) ?checks"
    have steps: "snd (or_steps cells st False) = (False \<or> list_ex (\<lambda>(n, r). is_truthy (r st)) cells)
        \<and> list_all no_errors (fst (or_steps cells st False))"
      by (rule or_steps_verdict) (auto simp: cells_def check)
    have "list_ex (\<lambda>(n, r). is_truthy (r st)) cells = selects disc x alt"
      by (auto simp: cells_def selects_def list_ex_iff check)
    with steps show ?thesis
      unfolding cond run_flow_or cells_def [symmetric] by (simp add: is_truthy_def truthy_def)
  qed
qed

lemma chain_verdict:
  assumes x: "cursor_reads h st (cursor_member (cc_cursor ctx) disc) x"
    and ok: "\<And>n alt nodes. (n, alt, nodes) \<in> set bs \<Longrightarrow> discriminator_literals alt disc \<noteq> []"
    and nodes: "\<And>n alt nodes. (n, alt, nodes) \<in> set bs \<Longrightarrow> nodes_verdict (map (run L h st) nodes) (P n alt)"
  shows "verdict (run L h st (one_of_chain ctx disc bs))
    (foldr (\<lambda>(n, alt, _) rest. if selects disc x alt then P n alt else rest) bs False)"
proof -
  let ?err = "\<lambda>names. one_of_error_branch disc names (cursor_member (cc_cursor ctx) disc)"
  have "verdict (run L h st (foldr (\<lambda>(name, alt, nodes) chain.
          Action ''flow:if'' [discriminator_condition alt disc (cursor_member (cc_cursor ctx) disc),
            Container (Some name) nodes, chain]) bs (?err names)))
      (foldr (\<lambda>(n, alt, _) rest. if selects disc x alt then P n alt else rest) bs False)"
    for names
    using ok nodes
  proof (induction bs)
    case Nil
    then show ?case
      by (simp add: one_of_error_branch_def run_actions act_flow_error_def verdict_def child_failed_def)
  next
    case (Cons b bs)
    obtain n alt nodes where b: "b = (n, alt, nodes)" by (cases b)
    from Cons.prems(1) [of n alt nodes] have "discriminator_literals alt disc \<noteq> []" by (simp add: b)
    note cond = condition_facts [OF x this, of L]
    have branch: "verdict (run L h st (Container (Some n) nodes)) (P n alt)"
      using container_verdict [OF Cons.prems(2) [of n alt nodes]] by (simp add: b)
    have IH: "verdict (run L h st (foldr (\<lambda>(name, alt, nodes) chain.
          Action ''flow:if'' [discriminator_condition alt disc (cursor_member (cc_cursor ctx) disc),
            Container (Some name) nodes, chain]) bs (?err names)))
        (foldr (\<lambda>(n, alt, _) rest. if selects disc x alt then P n alt else rest) bs False)"
    proof (rule Cons.IH)
      show "discriminator_literals alt disc \<noteq> []" if "(n, alt, nodes) \<in> set bs" for n alt nodes
        using Cons.prems(1) [of n alt nodes] that by simp
      show "nodes_verdict (map (run L h st) nodes) (P n alt)" if "(n, alt, nodes) \<in> set bs" for n alt nodes
        using Cons.prems(2) [of n alt nodes] that by simp
    qed
    show ?case
      unfolding b foldr.simps comp_def prod.case
      by (rule if_else_verdict [OF cond [THEN conjunct1] cond [THEN conjunct2]]) (rule branch IH)+
  qed
  then show ?thesis by (simp add: one_of_chain_def Let_def)
qed

lemma selected_once:
  assumes x: "wf_rv x"
    and wf: "list_all wf_json ls" "list_all wf_json ms"
    and disj: "list_all (\<lambda>l. list_all (\<lambda>m. \<not> value_eq l m) ms) ls"
  shows "\<not> (list_ex (\<lambda>l. runtime_eq x (rv_from_json l)) ls \<and> list_ex (\<lambda>m. runtime_eq x (rv_from_json m)) ms)"
proof
  assume "list_ex (\<lambda>l. runtime_eq x (rv_from_json l)) ls \<and> list_ex (\<lambda>m. runtime_eq x (rv_from_json m)) ms"
  then obtain l m where l: "l \<in> set ls" "runtime_eq x (rv_from_json l)"
    and m: "m \<in> set ms" "runtime_eq x (rv_from_json m)"
    by (auto simp: list_ex_iff)
  from wf(1) l(1) have "wf_rv (rv_from_json l)" by (simp add: list_all_iff wf_rv_from_json)
  from runtime_eq_trans [OF runtime_eq_sym [OF l(2) x this] m(2)]
  have "value_eq l m" by (simp add: runtime_eq_from_json)
  with disj l(1) m(1) show False by (simp add: list_all_iff)
qed

lemma chain_value:
  assumes x: "wf_rv x"
    and ok: "\<And>n alt. (n, alt) \<in> set alts \<Longrightarrow> list_all wf_json (discriminator_literals alt disc)"
    and disj: "disjoint_literals (map (\<lambda>(n, alt). discriminator_literals alt disc) alts)"
    and sel: "\<And>n alt. (n, alt) \<in> set alts \<Longrightarrow> P n alt \<Longrightarrow> selects disc x alt"
  shows "foldr (\<lambda>(n, alt, _) rest. if selects disc x alt then P n alt else rest)
      (map (\<lambda>(n, alt). (n, alt, f n alt)) alts) False = list_ex (\<lambda>(n, alt). P n alt) alts"
  using ok disj sel
proof (induction alts)
  case (Cons a alts)
  obtain n alt where a: "a = (n, alt)" by (cases a)
  have rest: "\<not> P m other" if "selects disc x alt" "(m, other) \<in> set alts" for m other
  proof
    assume "P m other"
    with Cons.prems(3) [of m other] that(2) have "selects disc x other" by simp
    moreover have "list_all (\<lambda>l. list_all (\<lambda>k. \<not> value_eq l k) (discriminator_literals other disc))
        (discriminator_literals alt disc)"
      using Cons.prems(2) that(2) by (force simp: a list_all_iff)
    ultimately show False
      using selected_once [OF x Cons.prems(1) [of n alt] Cons.prems(1) [of m other]] that
      by (simp add: a selects_def)
  qed
  have IH: "foldr (\<lambda>(n, alt, _) rest. if selects disc x alt then P n alt else rest)
      (map (\<lambda>(n, alt). (n, alt, f n alt)) alts) False = list_ex (\<lambda>(n, alt). P n alt) alts"
  proof (rule Cons.IH)
    show "disjoint_literals (map (\<lambda>(n, alt). discriminator_literals alt disc) alts)"
      using Cons.prems(2) by (simp add: a)
  qed (use Cons.prems(1,3) in \<open>auto simp: a\<close>)
  show ?case
  proof (cases "selects disc x alt")
    case True
    with rest show ?thesis by (auto simp: a list_ex_iff)
  next
    case False
    with Cons.prems(3) [of n alt] IH show ?thesis by (auto simp: a)
  qed
qed simp

subsection \<open>The refinement\<close>

text \<open>What the compiler assumes of a shape node; the shape parser checks it.\<close>

fun plan_ok :: "shape \<Rightarrow> bool" where
  "plan_ok (ShapeNode _ _ (Component operator _)) = is_component_action operator"
| "plan_ok (ShapeNode _ _ (Core (ArrayOf entries))) = (length entries \<le> 2 ^ 64)"
| "plan_ok (ShapeNode _ _ (Core (OneOf disc alternatives _))) =
     (index_map alternatives \<and> list_all (\<lambda>(_, alt). alternative_ok disc alt) alternatives
      \<and> disjoint_literals (map (\<lambda>(_, alt). discriminator_literals alt disc) alternatives))"
| "plan_ok _ = True"

fun is_object :: "rv \<Rightarrow> bool" where
  "is_object (RObject _) = True" | "is_object _ = False"

fun is_array :: "rv \<Rightarrow> bool" where
  "is_array (RArray _) = True" | "is_array _ = False"

lemma expect_kind_verdict:
  assumes "cursor_reads h st (cc_cursor ctx) v"
  shows "verdict (run L h st (Action ''expect:object'' [ctx_resolve ctx])) (is_object v)"
    and "verdict (run L h st (Action ''expect:array'' [ctx_resolve ctx])) (is_array v)"
  using run_cursor [OF assms, of L, folded ctx_resolve_def]
  by (auto simp: run_actions act_expect_object_def act_expect_array_def split: rv.splits intro!: action_verdict)

lemma nodes_verdict_iff: "nodes_verdict es a \<Longrightarrow> a = b \<Longrightarrow> nodes_verdict es b"
  by simp

lemma ctx_positions [simp]:
  "cc_cursor (ctx_member ctx n) = cursor_member (cc_cursor ctx) n" "cc_at (ctx_member ctx n) = path_member (cc_at ctx) n"
  "cc_cursor (ctx_index ctx i) = cursor_index (cc_cursor ctx) i" "cc_at (ctx_index ctx i) = path_array_index (cc_at ctx) i"
  "cc_cursor (ctx_item ctx f) = Relative ''~>''" "cc_at (ctx_item ctx f) = f (cc_at ctx)"
  "cc_cursor (ctx_alternative ctx n) = cc_cursor ctx" "cc_at (ctx_alternative ctx n) = path_alternative (cc_at ctx) n"
  "cc_cursor (key_ctx ctx) = cursor_member (Relative ''~>'') ''key''" "cc_at (key_ctx ctx) = each_entry_key (cc_at ctx)"
  "cc_cursor (value_ctx ctx) = cursor_member (Relative ''~>'') ''value''" "cc_at (value_ctx ctx) = each_entry_value (cc_at ctx)"
  "cc_assignment (ctx_member ctx n) = cc_assignment ctx" "cc_assignment (ctx_index ctx i) = cc_assignment ctx"
  "cc_assignment (ctx_item ctx f) = cc_assignment ctx" "cc_assignment (ctx_alternative ctx n) = cc_assignment ctx"
  "cc_assignment (key_ctx ctx) = cc_assignment ctx" "cc_assignment (value_ctx ctx) = cc_assignment ctx"
  by (simp_all add: ctx_member_def ctx_index_def ctx_item_def ctx_alternative_def key_ctx_def value_ctx_def entry_cursors)

lemma read_object_member: "read_segment (RObject fs) (Member n) = or_absent (map_of fs n)"
  by (simp add: read_member_def read_quoted_def)

lemma read_array_index: "i < length items \<Longrightarrow> read_segment (RArray items) (Index i) = items ! i"
  by (simp add: read_index_def or_absent_def)

lemma iteration_wf: "wf_rv v \<Longrightarrow> item \<in> set (iteration_items v) \<Longrightarrow> wf_rv item"
  by (cases v) (auto simp: iteration_items_def list_all_iff)

lemma leaf_compiled:
  assumes "leaf_operator c" and "\<nexists>options. c = AnyOf options"
  shows "compile_shape L ctx (ShapeNode ex g (Core c)) = compile_leaf L ctx ex c"
    and "admits L R A at (ShapeNode ex g (Core c)) v = leaf_admits L R ex c v"
  using assms by (cases c; simp)+

lemma compile_correct:
  assumes "host_agrees R h" and "jd_contains R = greedy_matching {}"
    and "every_shape plan_ok s" and "cursor_reads h st (cc_cursor ctx) v" and "wf_rv v"
  shows "nodes_verdict (map (run L h st) (compile_shape L ctx s))
    (admits L R (map_of (cc_assignment ctx)) (cc_at ctx) s v)"
  using assms(3-)
proof (induction s arbitrary: ctx st v rule: shape_cases_induct)
  case (component ex g operator raw)
  from every_shape_here [OF component(1)] have "is_component_action operator" by simp
  from component_verdict [OF component(2) assms(1) this, of L raw]
  show ?case by (simp add: nodes_verdict_single)
next
  case (leaf ex g c)
  show ?case
  proof (cases "\<exists>options. c = AnyOf options")
    case True
    then obtain options where c: "c = AnyOf options" by blast
    from any_of_verdict [OF leaf(3), of L options] show ?thesis
      by (simp add: c nodes_verdict_single)
  next
    case False
    show ?thesis
      unfolding leaf_compiled [OF leaf(1) False] by (rule leaf_verdict [OF leaf(3) assms(1) leaf(1) False])
  qed
next
  case (object ex g ms)
  have member: "verdict (run L h st (Container (Some (ctx_label (ctx_member ctx n)))
        (compile_shape L (ctx_member ctx n) m)))
      (admits L R (map_of (cc_assignment ctx)) (path_member (cc_at ctx) n) m (read_segment v (Member n)))"
    if "(n, m) \<in> set ms" for n m
  proof -
    have "every_shape plan_ok m" using every_shape_child [OF object(2), of m] that by force
    from object(1) [OF that this, of st "ctx_member ctx n" "read_segment v (Member n)"]
    show ?thesis
      using cursor_reads_member [OF object(3), of n] wf_rv_segment [OF object(4), of "Member n"]
      by (simp del: read_segment.simps add: container_verdict)
  qed
  have "nodes_verdict (map (run L h st) (compile_shape L ctx (ShapeNode ex g (Core (Object ms)))))
      (is_object v \<and> list_all (\<lambda>(n, m). admits L R (map_of (cc_assignment ctx)) (path_member (cc_at ctx) n) m
        (read_segment v (Member n))) (members_by_name ms))"
    unfolding compile_shape.simps list.map map_map comp_def
    by (intro nodes_verdict_Cons nodes_verdict_map expect_kind_verdict(1) object(3))
      (auto simp: members_by_name_def simp del: run.simps read_segment.simps intro: member)
  then show ?case
    by (rule nodes_verdict_iff)
      (cases v; simp add: members_by_name_def list_all_iff read_object_member del: read_segment.simps)
next
  case (array ex g es)
  from every_shape_here [OF array(2)] have len: "length es \<le> 2 ^ 64" by simp
  have entry: "verdict (run L h st (Container (Some (ctx_label (ctx_index ctx i)))
        (compile_shape L (ctx_index ctx i) e)))
      (admits L R (map_of (cc_assignment ctx)) (path_array_index (cc_at ctx) i) e (read_segment v (Index i)))"
    if "(i, e) \<in> set (List.enumerate 0 es)" for i e
  proof -
    from that have e: "e \<in> set es" and "i < length es" by (auto simp: in_set_enumerate_eq)
    with len have i: "i < 2 ^ 64" by simp
    have "every_shape plan_ok e" using every_shape_child [OF array(2), of e] e by simp
    from array(1) [OF e this, of st "ctx_index ctx i" "read_segment v (Index i)"]
    show ?thesis
      using cursor_reads_index [OF array(3) i] wf_rv_segment [OF array(4), of "Index i"]
      by (simp del: read_segment.simps add: container_verdict)
  qed
  note v' = run_cursor [OF array(3), of L, folded ctx_resolve_def]
  have count: "verdict (run L h st (Action ''expect:count'' [ctx_resolve ctx, number_value (length es)]))
      (length_of_opt v = Some (length es))"
    by (auto simp: run_actions v' act_expect_count_def number_value_def Let_def split: option.splits
        intro!: action_verdict)
  have "nodes_verdict (map (run L h st) (compile_shape L ctx (ShapeNode ex g (Core (ArrayOf es)))))
      (is_array v \<and> length_of_opt v = Some (length es)
        \<and> list_all (\<lambda>(i, e). admits L R (map_of (cc_assignment ctx)) (path_array_index (cc_at ctx) i) e
            (read_segment v (Index i))) (List.enumerate 0 es))"
    unfolding compile_shape.simps append.simps list.map map_map comp_def
    by (intro nodes_verdict_Cons nodes_verdict_map expect_kind_verdict(2) array(3) count)
      (auto simp del: run.simps read_segment.simps intro: entry)
  then show ?case
    by (rule nodes_verdict_iff)
      (cases v; fastforce simp: list_all_iff in_set_enumerate_eq read_array_index simp del: read_segment.simps)
next
  case (each_like ex g i mn mx)
  have "every_shape plan_ok i" using every_shape_child [OF each_like(2), of i] by simp
  note IH = each_like(1) [OF this, of _ "ctx_item ctx each_like_item"]
  have item: "verdict (run L h ((x, p) # st) (Container (Some (ctx_label (ctx_item ctx each_like_item)))
        (compile_shape L (ctx_item ctx each_like_item) i)))
      (admits L R (map_of (cc_assignment ctx)) (each_like_item (cc_at ctx)) i x)"
    if "x \<in> set (iteration_items v)" for x p
    using IH [of "(x, p) # st" x] cursor_reads_item [of h x p st] iteration_wf [OF each_like(4) that]
    by (simp add: container_verdict)
  have "nodes_verdict (map (run L h st) (compile_shape L ctx (ShapeNode ex g (Core (EachLike i mn mx)))))
      (is_array v
        \<and> (case length_of_opt v of
             Some n \<Rightarrow> size_admits (map_of (cc_assignment ctx)) (cc_at ctx) mn mx n | None \<Rightarrow> False)
        \<and> list_all (admits L R (map_of (cc_assignment ctx)) (each_like_item (cc_at ctx)) i) (iteration_items v)
        \<and> True)"
    unfolding compile_shape.simps Let_def for_each_node_def list.map ctx_resolve_def
    by (intro nodes_verdict_Cons nodes_verdict_Nil expect_kind_verdict(2) [unfolded ctx_resolve_def]
        cardinality_verdict for_each_verdict each_like(3) item)
  then show ?case
    by (rule nodes_verdict_iff) (cases v; simp add: iteration_items_def)
next
  case (each_entry ex g k vs mn mx)
  let ?A = "map_of (cc_assignment ctx)"
  let ?keys = "\<lambda>x. (case k of
      Some k \<Rightarrow> admits L R ?A (each_entry_key (cc_at ctx)) k (read_segment x (Member ''key'')) | None \<Rightarrow> True)"
  let ?value_facts = "\<lambda>x. admits L R ?A (each_entry_value (cc_at ctx)) vs (read_segment x (Member ''value''))"
  have vok: "every_shape plan_ok vs" using every_shape_child [OF each_entry(3), of vs] by (simp split: option.splits)
  have item: "verdict (run L h ((x, p) # st) (Container (Some (ctx_label ctx))
       ((case k of
           Some k \<Rightarrow> [Container (Some (ctx_label (key_ctx ctx))) (compile_shape L (key_ctx ctx) k)]
         | None \<Rightarrow> [])
        @ [Container (Some (ctx_label (value_ctx ctx))) (compile_shape L (value_ctx ctx) vs)])))
      (?keys x \<and> ?value_facts x \<and> True)"
    if "x \<in> set (iteration_items v)" for x p
  proof -
    have wf: "wf_rv x" using each_entry(5) that by (rule iteration_wf)
    have reads: "cursor_reads h ((x, p) # st) (cursor_member (Relative ''~>'') f) (read_segment x (Member f))" for f
      by (rule cursor_reads_member [OF cursor_reads_item])
    have keys: "verdict (run L h ((x, p) # st) (Container (Some (ctx_label (key_ctx ctx))) (compile_shape L (key_ctx ctx) k')))
        (?keys x)" if k: "k = Some k'" for k'
    proof -
      have "every_shape plan_ok k'" using every_shape_child [OF each_entry(3), of k'] by (simp add: k)
      from each_entry(1) [OF k this, of "(x, p) # st" "key_ctx ctx" "read_segment x (Member ''key'')"]
      show ?thesis
        using reads wf_rv_segment [OF wf] by (simp add: k container_verdict del: read_segment.simps)
    qed
    have vals: "verdict (run L h ((x, p) # st) (Container (Some (ctx_label (value_ctx ctx))) (compile_shape L (value_ctx ctx) vs)))
        (?value_facts x)"
      using each_entry(2) [OF vok, of "(x, p) # st" "value_ctx ctx" "read_segment x (Member ''value'')"]
        reads wf_rv_segment [OF wf] by (simp add: container_verdict del: read_segment.simps)
    show ?thesis
      unfolding run.simps(1)
    proof (rule container_verdict, cases k)
      case None
      with vals show "nodes_verdict (map (run L h ((x, p) # st)) ((case k of
           Some k \<Rightarrow> [Container (Some (ctx_label (key_ctx ctx))) (compile_shape L (key_ctx ctx) k)]
         | None \<Rightarrow> [])
        @ [Container (Some (ctx_label (value_ctx ctx))) (compile_shape L (value_ctx ctx) vs)])) (?keys x \<and> ?value_facts x \<and> True)"
        by (simp add: nodes_verdict_single del: read_segment.simps)
    next
      case (Some k')
      from nodes_verdict_Cons [OF keys [OF Some] nodes_verdict_Cons [OF vals nodes_verdict_Nil]]
      show "nodes_verdict (map (run L h ((x, p) # st)) ((case k of
           Some k \<Rightarrow> [Container (Some (ctx_label (key_ctx ctx))) (compile_shape L (key_ctx ctx) k)]
         | None \<Rightarrow> [])
        @ [Container (Some (ctx_label (value_ctx ctx))) (compile_shape L (value_ctx ctx) vs)])) (?keys x \<and> ?value_facts x \<and> True)"
        by (simp add: Some del: read_segment.simps)
    qed
  qed
  have "nodes_verdict (map (run L h st) (compile_shape L ctx (ShapeNode ex g (Core (EachEntry k vs mn mx)))))
      (is_object v
        \<and> (case length_of_opt v of
             Some n \<Rightarrow> size_admits ?A (cc_at ctx) mn mx n | None \<Rightarrow> False)
        \<and> list_all (\<lambda>x. ?keys x \<and> ?value_facts x \<and> True) (iteration_items v)
        \<and> True)"
    unfolding compile_shape.simps for_each_node_def list.map ctx_resolve_def
    by (intro nodes_verdict_Cons nodes_verdict_Nil expect_kind_verdict(1) [unfolded ctx_resolve_def]
        cardinality_verdict for_each_verdict each_entry(4) item)
  moreover have "read_segment (REntry key x) (Member ''key'') = RString key"
    and "read_segment (REntry key x) (Member ''value'') = x" for key x
    by (simp_all add: plain_name_def path_special_def whitespace_at_def read_member_def or_absent_def)
  ultimately show ?case
    by (elim nodes_verdict_iff)
      (cases v; simp add: iteration_items_def list.pred_map comp_def case_prod_unfold cong: option.case_cong
        del: read_segment.simps)
next
  case (contains ex g es)
  have entry: "verdict (run L h ((x, p) # st)
        (let item = ctx_item ctx (\<lambda>at. path_array_index at i)
         in Container (Some (ctx_label item)) (compile_shape L item e)))
      (admits L R (map_of (cc_assignment ctx)) (path_array_index (cc_at ctx) i) e x)"
    if "(i, e) \<in> set (List.enumerate 0 es)" and "x \<in> set (array_items v)" for i e x p
  proof -
    from that(1) have e: "e \<in> set es" by (rule enumerate_member)
    have "every_shape plan_ok e" using every_shape_child [OF contains(2), of e] e by simp
    moreover have "wf_rv x" using contains(4) that(2) by (cases v) (auto simp: array_items_def list_all_iff)
    ultimately show ?thesis
      using contains(1) [OF e, of "(x, p) # st" "ctx_item ctx (\<lambda>at. path_array_index at i)" x]
        cursor_reads_item [of h x p st]
      by (simp add: container_verdict Let_def)
  qed
  define zs where "zs = map (\<lambda>(i, e).
      (let item = ctx_item ctx (\<lambda>at. path_array_index at i)
       in Container (Some (ctx_label item)) (compile_shape L item e),
       admits L R (map_of (cc_assignment ctx)) (path_array_index (cc_at ctx) i) e)) (List.enumerate 0 es)"
  have "verdict (run L h st (Action ''match:contains'' (cursor_resolve (cc_cursor ctx) # map fst zs)))
      (greedy_matching {} (map (\<lambda>(n, P). map P (array_items v)) zs))"
    by (rule contains_verdict [OF contains(3)]) (auto simp: zs_def intro: entry)
  moreover have "map fst zs = map (\<lambda>(i, e).
      (let item = ctx_item ctx (\<lambda>at. path_array_index at i)
       in Container (Some (ctx_label item)) (compile_shape L item e))) (List.enumerate 0 es)"
    by (simp add: zs_def case_prod_beta)
  ultimately have "nodes_verdict (map (run L h st) (compile_shape L ctx (ShapeNode ex g (Core (Contains es)))))
      (is_array v \<and> greedy_matching {} (map (\<lambda>(n, P). map P (array_items v)) zs) \<and> True)"
    unfolding compile_shape.simps list.map
    by (intro nodes_verdict_Cons nodes_verdict_Nil expect_kind_verdict(2) contains(3)) (simp add: ctx_resolve_def)
  then show ?case
    by (rule nodes_verdict_iff)
      (cases v; simp add: assms(2) array_items_def zs_def comp_def case_prod_unfold)
next
  case (optional ex g s)
  note v' = run_cursor [OF optional(3), of L, folded ctx_resolve_def]
  have "every_shape plan_ok s" using every_shape_child [OF optional(2), of s] by simp
  from single_verdict [OF optional(1) [OF this optional(3,4)]]
  have inner: "verdict (run L h st (as_single_unlabeled (compile_shape L ctx s)))
      (admits L R (map_of (cc_assignment ctx)) (cc_at ctx) s v)" .
  have absent: "verdict (run L h st (Action ''expect:absent'' [ctx_resolve ctx])) (v = RAbsent)"
    by (auto simp: run_actions v' act_expect_absent_def intro!: action_verdict)
  note check = check_facts(1,2) [OF optional(3), of L, folded ctx_resolve_def]
  from if_then_verdict [OF check, of "as_single_unlabeled (compile_shape L ctx s)"
      "admits L R (map_of (cc_assignment ctx)) (cc_at ctx) s v"] inner absent
  show ?case by (simp add: nodes_verdict_single ctx_pinned_def)
next
  case (nullable ex g s)
  note v' = run_cursor [OF nullable(3), of L, folded ctx_resolve_def]
  have "every_shape plan_ok s" using every_shape_child [OF nullable(2), of s] by simp
  from single_verdict [OF nullable(1) [OF this nullable(3,4)]]
  have inner: "verdict (run L h st (as_single_unlabeled (compile_shape L ctx s)))
      (admits L R (map_of (cc_assignment ctx)) (cc_at ctx) s v)" .
  have null: "verdict (run L h st (Action ''match:null'' [ctx_resolve ctx])) (v = RNull)"
    by (auto simp: run_actions v' match_kind_def intro!: action_verdict)
  note check = check_facts(3,4) [OF nullable(3), of L, folded ctx_resolve_def]
  have either: "(if v = RNull then True else b) = (v = RNull \<or> b)" for b by simp
  from if_else_verdict [OF check, of ok_node True "as_single_unlabeled (compile_shape L ctx s)"
      "admits L R (map_of (cc_assignment ctx)) (cc_at ctx) s v", unfolded either]
    inner null nullary_and [of L h st]
  show ?case by (simp add: nodes_verdict_single ctx_pinned_def)
next
  case (one_of ex g d as df)
  let ?A = "map_of (cc_assignment ctx)"
  let ?P = "\<lambda>n alt. admits L R ?A (path_alternative (cc_at ctx) n) alt v"
  let ?nodes = "\<lambda>n alt. compile_shape L (ctx_alternative ctx n) alt"
  from every_shape_here [OF one_of(2)] have keys: "index_map as"
    and alts: "\<And>n alt. (n, alt) \<in> set as \<Longrightarrow> alternative_ok d alt"
    and disj: "disjoint_literals (map (\<lambda>(n, alt). discriminator_literals alt d) as)"
    by (auto simp: list_all_iff)
  have branch: "nodes_verdict (map (run L h st) (?nodes n alt)) (?P n alt)" if "(n, alt) \<in> set as" for n alt
  proof -
    have "every_shape plan_ok alt" using every_shape_child [OF one_of(2), of alt] that by force
    from one_of(1) [OF that this, of st "ctx_alternative ctx n" v] one_of(3,4) show ?thesis by simp
  qed
  have lookup: "map_of (map (\<lambda>(n, alt). (n, alt, ?nodes n alt)) as) n = map_option (\<lambda>alt. (alt, ?nodes n alt)) (map_of as n)" for n
    by (induction as) auto
  show ?case
  proof (cases "Option.bind (?A (dimension_id (cc_at ctx) ''alternative''))
      (\<lambda>n. if contains_key as n then Some n else None)")
    case None
    have lits: "discriminator_literals alt d \<noteq> []" "list_all wf_json (discriminator_literals alt d)"
      if "(n, alt) \<in> set as" for n alt
      using alternative_literals [OF alts [OF that]] by auto
    have "verdict (run L h st (one_of_chain ctx d (map (\<lambda>(n, alt). (n, alt, ?nodes n alt)) as)))
        (foldr (\<lambda>(n, alt, _) rest. if selects d (read_segment v (Member d)) alt then ?P n alt else rest)
          (map (\<lambda>(n, alt). (n, alt, ?nodes n alt)) as) False)"
      by (rule chain_verdict [OF cursor_reads_member [OF one_of(3)]]) (use lits branch in auto)
    also have "foldr (\<lambda>(n, alt, _) rest. if selects d (read_segment v (Member d)) alt then ?P n alt else rest)
          (map (\<lambda>(n, alt). (n, alt, ?nodes n alt)) as) False = list_ex (\<lambda>(n, alt). ?P n alt) as"
      by (rule chain_value [OF wf_rv_segment [OF one_of(4)] lits(2) disj])
        (use alternative_selects [OF alts _ one_of(4)] in auto)
    finally have "verdict (run L h st (one_of_chain ctx d (map (\<lambda>(n, alt). (n, alt, ?nodes n alt)) as)))
        (list_ex (\<lambda>(n, alt). ?P n alt) as)" .
    moreover from None have "Option.bind (ctx_pinned ctx ''alternative'')
        (\<lambda>n. map_option (\<lambda>(_, nodes). (n, nodes)) (map_of (map (\<lambda>(n, alt). (n, alt, ?nodes n alt)) as) n)) = None"
      by (auto simp: ctx_pinned_def lookup contains_key_def split: if_splits bind_splits)
    ultimately show ?thesis
      using None by (simp add: Let_def nodes_verdict_single)
  next
    case (Some n)
    then obtain alt where n: "ctx_pinned ctx ''alternative'' = Some n" "map_of as n = Some alt"
      by (auto simp: ctx_pinned_def contains_key_def split: if_splits bind_splits)
    have "list_ex (\<lambda>(m, a). m = n \<and> ?P m a) as = ?P n alt"
    proof
      assume "list_ex (\<lambda>(m, a). m = n \<and> ?P m a) as"
      then obtain a where a: "(n, a) \<in> set as" "?P n a" by (auto simp: list_ex_iff)
      from a(1) n(2) have "a = alt" using map_of_Some_iff [OF keys, of n a] by simp
      with a(2) show "?P n alt" by simp
    next
      assume "?P n alt"
      with map_of_SomeD [OF n(2)] show "list_ex (\<lambda>(m, a). m = n \<and> ?P m a) as"
        by (force simp: list_ex_iff)
    qed
    with Some n container_verdict [OF branch [OF map_of_SomeD [OF n(2)]], of "Some n"] show ?thesis
      by (simp add: Let_def lookup nodes_verdict_single)
  qed
qed

end
