(* ===== verification/Plan_Theorems.thy ===== *)
theory Plan_Theorems
  imports Plan_Correct
begin

text \<open>
  What the refinement of theory \<open>Plan_Correct\<close> gives for a whole interaction: a run of its compiled
  plan against captured values matches exactly when every slot's value is admitted, a run under pins
  never matches what the shape does not admit, and the places where the interpreter and the shape
  language part.
\<close>

subsection \<open>Whole plans\<close>

definition slot_path :: "string \<Rightarrow> string \<Rightarrow> string" where
  "slot_path part slot = ''$.'' @ path_root part slot"

definition all_slots :: "interaction \<Rightarrow> (string \<Rightarrow> string \<Rightarrow> shape \<Rightarrow> bool) \<Rightarrow> bool" where
  "all_slots spec P = list_all (\<lambda>(part, slots). list_all (\<lambda>(slot, s). P part slot s) slots) (in_parts spec)"

lemma all_slotsD:
  "all_slots spec P \<Longrightarrow> (part, slots) \<in> set (in_parts spec) \<Longrightarrow> (slot, s) \<in> set slots \<Longrightarrow> P part slot s"
  by (auto simp: all_slots_def list_all_iff)

definition slot_ready :: "rv smap \<Rightarrow> string \<Rightarrow> string \<Rightarrow> shape \<Rightarrow> bool" where
  "slot_ready captured part slot s \<longleftrightarrow>
     every_shape plan_ok s \<and> captured_whole captured (slot_path part slot)
     \<and> wf_rv (captured_resolve captured (slot_path part slot))"

lemma captured_slot_reads:
  assumes "h_resolve h = captured_resolve captured" and "captured_whole captured p"
  shows "cursor_reads h st (Absolute p) (captured_resolve captured p)"
  using absolute_reads [of h p st] captured.resolve_under [OF assms(2)] assms(1) by simp

lemma plan_verdict:
  assumes host: "host_agrees R h" "jd_contains R = greedy_matching {}"
    and res: "h_resolve h = captured_resolve captured"
    and ready: "all_slots spec (slot_ready captured)"
  shows "verdict (execute_with L h (compile_plan L spec A variant))
    (all_slots spec (\<lambda>part slot s.
       admits L R (map_of A) (path_root part slot) s (captured_resolve captured (slot_path part slot))))"
proof -
  have slot: "verdict (run L h [] (Container (Some slot) (compile_shape L (slot_ctx A part slot) s)))
      (admits L R (map_of A) (path_root part slot) s (captured_resolve captured (slot_path part slot)))"
    if "(part, slots) \<in> set (in_parts spec)" "(slot, s) \<in> set slots" for part slots slot s
  proof -
    from all_slotsD [OF ready that]
    have ok: "every_shape plan_ok s" and whole: "captured_whole captured (slot_path part slot)"
      and wf: "wf_rv (captured_resolve captured (slot_path part slot))"
      by (auto simp: slot_ready_def)
    have "cursor_reads h [] (cc_cursor (slot_ctx A part slot)) (captured_resolve captured (slot_path part slot))"
      using captured_slot_reads [OF res whole] by (simp add: slot_ctx_def slot_path_def)
    from compile_correct [OF host ok this wf, of L] show ?thesis
      by (simp add: container_verdict slot_ctx_def)
  qed
  have part: "verdict (run L h [] (Container (Some part)
        (map (\<lambda>(slot, s). Container (Some slot) (compile_shape L (slot_ctx A part slot) s)) slots)))
      (list_all (\<lambda>(slot, s). admits L R (map_of A) (path_root part slot) s
         (captured_resolve captured (slot_path part slot))) slots)"
    if "(part, slots) \<in> set (in_parts spec)" for part slots
    unfolding run.simps(1) map_map
    by (rule container_verdict, rule nodes_verdict_map) (use slot [OF that] in \<open>auto simp del: run.simps(1)\<close>)
  show ?thesis
    unfolding execute_with_def compile_plan_def plan.simps run.simps(1) all_slots_def map_map
    by (rule container_verdict, rule nodes_verdict_map) (use part in \<open>auto simp del: run.simps(1)\<close>)
qed


definition example_shape :: shape where
  "example_shape = ShapeNode None None (Core (Object
     [(''id'', ShapeNode None None (Core (Kind VK_Integer))),
      (''note'', ShapeNode None None (Core (Optional (ShapeNode None None (Core (Kind VK_String))))))]))"

definition example_spec :: interaction where
  "example_spec = \<lparr>in_description = ''d'', in_parts = [(''response'', [(''body'', example_shape)])]\<rparr>"

definition example_captured :: "rv smap" where
  "example_captured = [(''$.response.body'', RObject [(''id'', RNumber (PosInt 7))])]"

definition silent_host :: "rv smap \<Rightarrow> host" where
  "silent_host captured = \<lparr>h_resolve = captured_resolve captured, h_content = None, h_actions = None\<rparr>"

definition silent_judge :: judge where
  "silent_judge = \<lparr>jd_component = (\<lambda>_ _ _. False), jd_content = (\<lambda>_ _. False),
     jd_contains = greedy_matching {}\<rparr>"

lemma silent_agrees: "host_agrees silent_judge (silent_host captured)"
  by (simp add: host_agrees_def silent_judge_def silent_host_def content_answer_def component_answer_def)

lemma example_slot_ready: "all_slots example_spec (slot_ready example_captured)"
proof -
  have "captured_resolve example_captured ''$.response.body'' = RObject [(''id'', RNumber (PosInt 7))]"
    by (simp add: captured_resolve_def resolve_from.simps example_captured_def)
  then show ?thesis
    by (simp add: all_slots_def example_spec_def slot_ready_def slot_path_def path_root_def example_shape_def
        every_shape.simps captured_whole_def contains_key_def example_captured_def index_map_def)
qed


subsection \<open>Pinning narrows\<close>

lemma distinct_matching_mono:
  assumes "list_all2 (list_all2 (\<longrightarrow>)) rows rows'" and "distinct_matching used rows"
  shows "distinct_matching used rows'"
  using assms
proof (induction used rows arbitrary: rows' rule: distinct_matching.induct)
  case (1 used)
  then show ?case by simp
next
  case (2 used row rows)
  then obtain row' rest where r: "rows' = row' # rest" "list_all2 (\<longrightarrow>) row row'"
      "list_all2 (list_all2 (\<longrightarrow>)) rows rest"
    by (auto simp: list_all2_Cons1)
  from 2(3) obtain i where i: "i < length row" "i \<notin> used" "row ! i" "distinct_matching (insert i used) rows"
    by (auto simp: list_ex_iff)
  with r(2) have "i < length row'" "row' ! i" by (auto simp: list_all2_conv_all_nth)
  moreover have "distinct_matching (insert i used) rest"
    using 2(1) [of i] i r(3) by auto
  ultimately show ?case using i(2) by (auto simp: r(1) list_ex_iff)
qed

text \<open>The bounds the shape parser checks of a cardinality (\<open>min + 1\<close> must not wrap), and options that
  are JSON documents.\<close>

fun bounds_ok :: "shape \<Rightarrow> bool" where
  "bounds_ok (ShapeNode _ _ (Core (EachLike _ least most))) =
     (least < 2 ^ 64 - 1 \<and> (case most of Some m \<Rightarrow> least \<le> m | None \<Rightarrow> True))"
| "bounds_ok (ShapeNode _ _ (Core (EachEntry _ _ least most))) =
     (least < 2 ^ 64 - 1 \<and> (case most of Some m \<Rightarrow> least \<le> m | None \<Rightarrow> True))"
| "bounds_ok (ShapeNode _ _ (Core (AnyOf options))) = list_all wf_json options"
| "bounds_ok _ = True"

lemma size_admits_narrows:
  assumes "size_admits A at least most n"
    and "least < 2 ^ 64 - 1" and "case most of Some m \<Rightarrow> least \<le> m | None \<Rightarrow> True"
  shows "in_region n (least, most)"
proof (cases "Option.bind (A (dimension_id at ''cardinality'')) (cardinality_region least most)")
  case None
  with assms(1) show ?thesis by (simp add: size_admits_def)
next
  case (Some r)
  then obtain name where name: "cardinality_region least most name = Some r"
    by (auto simp: bind_eq_Some_conv)
  then obtain sz where "map_of (cardinality_points least most) name = Some sz"
    by (auto simp: cardinality_region_def Let_def split: option.splits)
  then have "name \<in> set (cardinality_names least most)"
    by (force simp: cardinality_names_def dest: map_of_SomeD)
  moreover from assms(1) Some have "in_region n r" by (simp add: size_admits_def)
  ultimately have "filter (\<lambda>name. case cardinality_region least most name of
            Some r \<Rightarrow> in_region n r | None \<Rightarrow> False) (cardinality_names least most) \<noteq> []"
    using name by (force simp: filter_empty_conv)
  then have "0 < length (filter (\<lambda>name. case cardinality_region least most name of
            Some r \<Rightarrow> in_region n r | None \<Rightarrow> False) (cardinality_names least most))" by simp
  with cardinality_partition_aux [OF assms(2), of most n] assms(3) show ?thesis
    by (auto split: option.splits if_splits)
qed

text \<open>Dropping every pin, and reading \<open>contains\<close> as the language does, only admits more.\<close>

definition language_judge :: "judge \<Rightarrow> judge" where
  "language_judge R = R\<lparr>jd_contains := distinct_matching {}\<rparr>"

lemma leaf_admits_judge: "leaf_admits L (language_judge R) ex c v = leaf_admits L R ex c v"
  by (cases c) (simp_all add: language_judge_def)

lemma rows_narrow:
  assumes "distinct_matching {} (map (\<lambda>z. map (f z) items) zs)"
    and "\<And>z x. z \<in> set zs \<Longrightarrow> x \<in> set items \<Longrightarrow> f z x \<Longrightarrow> g z x"
  shows "distinct_matching {} (map (\<lambda>z. map (g z) items) zs)"
  by (rule distinct_matching_mono [OF _ assms(1)])
    (auto simp: list_all2_conv_all_nth intro: assms(2))

lemma admits_narrows:
  assumes "\<And>rows. jd_contains R rows \<Longrightarrow> distinct_matching {} rows"
    and "every_shape bounds_ok s" and "wf_rv v" and "admits L R A at s v"
  shows "admits L (language_judge R) unpinned at' s v"
  using assms(2-)
proof (induction s arbitrary: at at' v rule: shape_cases_induct)
  case (component ex g operator raw)
  then show ?case by (simp add: language_judge_def)
next
  case (leaf ex g c)
  show ?case
  proof (cases "\<exists>options. c = AnyOf options")
    case True
    then obtain options where c: "c = AnyOf options" by blast
    with leaf(4) have adm: "any_of_admits L A at options v" by simp
    from every_shape_here [OF leaf(2)] c have options: "list_all wf_json options" by simp
    from any_of_admits_option [OF adm leaf(3) options]
    obtain x where x: "x \<in> set options" "runtime_eq v (rv_from_json x)"
      by (auto simp: list_ex_iff)
    have "runtime_eq (rv_from_json x) v"
      using runtime_eq_sym [OF x(2) leaf(3)] x(1) options by (simp add: list_all_iff wf_rv_from_json)
    with x(1) show ?thesis by (auto simp: c any_of_admits_def unpinned_def list_ex_iff)
  next
    case False
    with leaf show ?thesis by (simp add: leaf_compiled leaf_admits_judge)
  qed
next
  case (object ex g ms)
  from object(4) obtain fs where v: "v = RObject fs"
    and all: "\<And>n m. (n, m) \<in> set ms \<Longrightarrow> admits L R A (path_member at n) m (or_absent (map_of fs n))"
    by (cases v) (auto simp: list_all_iff)
  have "admits L (language_judge R) unpinned (path_member at' n) m (or_absent (map_of fs n))"
    if "(n, m) \<in> set ms" for n m
    using object(1) [OF that _ wf_rv_lookup [OF object(3) [unfolded v]] all [OF that]]
      every_shape_child [OF object(2), of m] that by force
  then show ?case by (auto simp: v list_all_iff)
next
  case (array ex g es)
  from array(4) obtain items where v: "v = RArray items" and len: "length items = length es"
    and all: "\<And>i e. (i, e) \<in> set (List.enumerate 0 es) \<Longrightarrow> admits L R A (path_array_index at i) e (items ! i)"
    by (cases v) (auto simp: list_all_iff)
  have "admits L (language_judge R) unpinned (path_array_index at' i) e (items ! i)"
    if "(i, e) \<in> set (List.enumerate 0 es)" for i e
  proof -
    from that have e: "e \<in> set es" and "i < length items" by (auto simp: in_set_enumerate_eq len)
    with array(3) have "wf_rv (items ! i)" by (simp add: v list_all_length)
    then show ?thesis
      using array(1) [OF e _ _ all [OF that]] every_shape_child [OF array(2), of e] e by simp
  qed
  then show ?case by (auto simp: v len list_all_iff)
next
  case (each_like ex g i mn mx)
  from each_like(4) obtain items where v: "v = RArray items"
    and sz: "size_admits A at mn mx (length items)"
    and all: "\<And>x. x \<in> set items \<Longrightarrow> admits L R A (each_like_item at) i x"
    by (cases v) (auto simp: list_all_iff)
  have "in_region (length items) (mn, mx)"
    using size_admits_narrows [OF sz] every_shape_here [OF each_like(2)] by simp
  moreover have "admits L (language_judge R) unpinned (each_like_item at') i x" if "x \<in> set items" for x
    using each_like(1) [OF _ _ all [OF that]] every_shape_child [OF each_like(2), of i] each_like(3) that
    by (simp add: v list_all_iff)
  ultimately show ?case by (simp add: v size_admits_def unpinned_def list_all_iff)
next
  case (each_entry ex g k vs mn mx)
  from each_entry(5) obtain fs where v: "v = RObject fs" by (cases v) auto
  from each_entry(5) have sz: "size_admits A at mn mx (length fs)"
    and body: "\<forall>(key, x) \<in> set fs.
        (case k of Some k \<Rightarrow> admits L R A (each_entry_key at) k (RString key) | None \<Rightarrow> True)
        \<and> admits L R A (each_entry_value at) vs x"
    by (auto simp: v list_all_iff)
  have ks: "admits L R A (each_entry_key at) k' (RString key)" if "(key, x) \<in> set fs" "k = Some k'" for key x k'
    using bspec [OF body that(1)] that(2) by simp
  have vals: "admits L R A (each_entry_value at) vs x" if "(key, x) \<in> set fs" for key x
    using bspec [OF body that(1)] by simp
  have "in_region (length fs) (mn, mx)"
    using size_admits_narrows [OF sz] every_shape_here [OF each_entry(3)] by simp
  moreover have "admits L (language_judge R) unpinned (each_entry_key at') k' (RString key)"
    if "(key, x) \<in> set fs" "k = Some k'" for key x k'
    using each_entry(1) [OF that(2) _ _ ks [OF that]] every_shape_child [OF each_entry(3), of k'] that(2) by simp
  moreover have "admits L (language_judge R) unpinned (each_entry_value at') vs x"
    if "(key, x) \<in> set fs" for key x
    using each_entry(2) [OF _ _ vals [OF that]] every_shape_child [OF each_entry(3), of vs]
      wf_rv_member [OF each_entry(4) [unfolded v] that] by (simp split: option.splits)
  ultimately show ?case
    by (auto simp: v size_admits_def unpinned_def list_all_iff split: option.splits)
next
  case (contains ex g es)
  from contains(4) obtain items where v: "v = RArray items"
    and rows: "jd_contains R (map (\<lambda>(i, e). map (admits L R A (path_array_index at i) e) items) (List.enumerate 0 es))"
    by (cases v) auto
  have "distinct_matching {} (map (\<lambda>z. map (case z of (i, e) \<Rightarrow> admits L (language_judge R) unpinned (path_array_index at' i) e) items)
      (List.enumerate 0 es))"
  proof (rule rows_narrow)
    show "distinct_matching {} (map (\<lambda>z. map (case z of (i, e) \<Rightarrow> admits L R A (path_array_index at i) e) items)
      (List.enumerate 0 es))"
      using assms(1) [OF rows] by (simp add: case_prod_unfold)
    fix z x
    assume z: "z \<in> set (List.enumerate 0 es)" and x: "x \<in> set items"
      and adm: "(case z of (i, e) \<Rightarrow> admits L R A (path_array_index at i) e) x"
    obtain i e where ze: "z = (i, e)" by (cases z)
    from z have e: "e \<in> set es" unfolding ze by (rule enumerate_member)
    have wf: "wf_rv x" using contains(3) x by (simp add: v list_all_iff)
    have ok: "every_shape bounds_ok e" using every_shape_child [OF contains(2), of e] e by simp
    from adm have adm': "admits L R A (path_array_index at i) e x" by (simp add: ze)
    show "(case z of (i, e) \<Rightarrow> admits L (language_judge R) unpinned (path_array_index at' i) e) x"
      using contains(1) [OF e ok wf adm'] by (simp add: ze)
  qed
  then show ?case by (simp add: v language_judge_def case_prod_unfold)
next
  case (optional ex g s)
  then show ?case
    using every_shape_child [OF optional(2), of s]
    by (auto simp: unpinned_def split: if_splits)
next
  case (nullable ex g s)
  then show ?case
    using every_shape_child [OF nullable(2), of s]
    by (auto simp: unpinned_def split: if_splits)
next
  case (one_of ex g d as df)
  from one_of(4) obtain n alt where alt: "(n, alt) \<in> set as" "admits L R A (path_alternative at n) alt v"
    by (auto simp: list_ex_iff split: option.splits)
  then have "admits L (language_judge R) unpinned (path_alternative at' n) alt v"
    using one_of(1) [OF alt(1) _ one_of(3) alt(2)] every_shape_child [OF one_of(2), of alt] by force
  with alt(1) show ?case by (auto simp: unpinned_def list_ex_iff)
qed


lemma example_bounds: "all_slots example_spec (\<lambda>part slot s. every_shape bounds_ok s)"
  by (simp add: all_slots_def example_spec_def example_shape_def every_shape.simps)

lemma example_captured_slot:
  "captured_resolve example_captured ''$.response.body'' = RObject [(''id'', RNumber (PosInt 7))]"
  by (simp add: captured_resolve_def resolve_from.simps example_captured_def)


subsection \<open>Where they part\<close>

lemma verdict_mismatched: "verdict e False \<Longrightarrow> fst (outcome e) = Mismatched"
  using outcome_matched [of e] by (cases "fst (outcome e)") (auto simp: verdict_def)

definition contains_spec :: interaction where
  "contains_spec = \<lparr>in_description = ''d'', in_parts = [(''response'', [(''body'',
     ShapeNode None None (Core (Contains
       [ShapeNode None None (Core (Kind VK_Number)), ShapeNode None None (Core (Kind VK_Integer))])))])]\<rparr>"

definition contains_captured :: "rv smap" where
  "contains_captured = [(''$.response.body'', RArray [RNumber (PosInt 1), RNumber (Float 0)])]"

lemma contains_captured_slot:
  "captured_resolve contains_captured ''$.response.body'' = RArray [RNumber (PosInt 1), RNumber (Float 0)]"
  by (simp add: captured_resolve_def resolve_from.simps contains_captured_def)

text \<open>C34: \<open>match:contains\<close> is first-fit, and first-fit is not the language's \<open>contains\<close>. For the entries
  \<open>number\<close> and \<open>integer\<close> and the array of \<open>1\<close> and a decimal there is a distinct element for each, but the
  run reports a mismatch: \<open>number\<close> claims the \<open>1\<close> that only \<open>integer\<close> could use.\<close>

theorem contains_first_fit_incomplete:
  "fst (outcome (execute_with L (silent_host contains_captured) (compile_plan L contains_spec [] None))) = Mismatched
   \<and> all_slots contains_spec (\<lambda>part slot s.
       shape_admits L (language_judge silent_judge) s (captured_resolve contains_captured (slot_path part slot)))"
proof -
  have ready: "all_slots contains_spec (slot_ready contains_captured)"
    using contains_captured_slot
    by (simp add: all_slots_def contains_spec_def slot_ready_def slot_path_def path_root_def
        every_shape.simps captured_whole_def contains_key_def contains_captured_def)
  have "verdict (execute_with L (silent_host contains_captured) (compile_plan L contains_spec [] None)) False"
    using plan_verdict [where L = L and A = "[]" and variant = None, OF silent_agrees _ _ ready]
      contains_captured_slot
    by (simp add: silent_judge_def silent_host_def all_slots_def contains_spec_def
        slot_path_def path_root_def is_written_integer_def)
  then have "fst (outcome (execute_with L (silent_host contains_captured) (compile_plan L contains_spec [] None))) = Mismatched"
    by (simp add: verdict_mismatched)
  then show ?thesis
    using contains_captured_slot
    by (simp add: all_slots_def contains_spec_def slot_path_def path_root_def shape_admits_def
        language_judge_def is_written_integer_def)
qed

lemma chain_unselected:
  assumes x: "cursor_reads h st (cursor_member (cc_cursor ctx) disc) x"
    and bs: "\<And>n alt nodes. (n, alt, nodes) \<in> set bs \<Longrightarrow>
      discriminator_literals alt disc \<noteq> [] \<and> \<not> selects disc x alt"
  shows "verdict (run L h st (one_of_chain ctx disc bs)) False"
proof -
  have "verdict (run L h st (foldr (\<lambda>(name, alt, nodes) chain.
          Action ''flow:if'' [discriminator_condition alt disc (cursor_member (cc_cursor ctx) disc),
            Container (Some name) nodes, chain]) bs
          (one_of_error_branch disc names (cursor_member (cc_cursor ctx) disc)))) False" for names
    using bs
  proof (induction bs)
    case Nil
    then show ?case
      by (simp add: one_of_error_branch_def run_actions act_flow_error_def verdict_def child_failed_def)
  next
    case (Cons b bs)
    obtain n alt nodes where b: "b = (n, alt, nodes)" by (cases b)
    from Cons.prems [of n alt nodes] have lit: "discriminator_literals alt disc \<noteq> []"
      and sel: "\<not> selects disc x alt" by (simp_all add: b)
    note cond = condition_facts [OF x lit, of L]
    have IH: "verdict (run L h st (foldr (\<lambda>(name, alt, nodes) chain.
          Action ''flow:if'' [discriminator_condition alt disc (cursor_member (cc_cursor ctx) disc),
            Container (Some name) nodes, chain]) bs
          (one_of_error_branch disc names (cursor_member (cc_cursor ctx) disc)))) False"
      by (rule Cons.IH) (use Cons.prems in \<open>meson list.set_intros(2)\<close>)
    from if_else_verdict [OF cond [THEN conjunct1] cond [THEN conjunct2] _ IH, of "Container (Some n) nodes" False] sel
    show ?case unfolding b foldr.simps comp_def prod.case by simp
  qed
  then show ?thesis by (simp add: one_of_chain_def Let_def)
qed

lemma absent_not_json: "\<not> runtime_eq RAbsent (rv_from_json l)"
  by (cases l) simp_all

lemma null_unselected: "\<not> selects disc RAbsent alt"
  by (simp add: selects_def list_ex_iff absent_not_json)

fun is_nullable :: "shape \<Rightarrow> bool" where
  "is_nullable (ShapeNode _ _ (Core (Nullable _))) = True"
| "is_nullable _ = False"

text \<open>C33: a \<open>one-of\<close> never matches \<open>null\<close>, though the language admits it through a \<open>nullable\<close>
  alternative and the parser accepts such an alternative: the compiled chain decides by the
  discriminator member, which \<open>null\<close> does not have, and falls through to its error.\<close>

theorem one_of_rejects_null:
  assumes "h_resolve h = captured_resolve captured" and "captured_whole captured p"
    and "captured_resolve captured p = RNull"
    and "list_all (\<lambda>(_, alt). discriminator_literals alt disc \<noteq> []) alternatives"
    and "list_ex (\<lambda>(_, alt). is_nullable alt) alternatives"
  shows "map (\<lambda>n. fst (outcome (run L h [] n)))
      (compile_shape L \<lparr>cc_cursor = Absolute p, cc_at = at, cc_labelled = lb, cc_assignment = []\<rparr>
         (ShapeNode ex g (Core (OneOf disc alternatives dflt)))) = [Mismatched]
    \<and> shape_admits L R (ShapeNode ex g (Core (OneOf disc alternatives dflt))) RNull"
proof
  let ?ctx = "\<lparr>cc_cursor = Absolute p, cc_at = at, cc_labelled = lb, cc_assignment = []\<rparr>"
  let ?bs = "map (\<lambda>(n, alt). (n, alt, compile_shape L (ctx_alternative ?ctx n) alt)) alternatives"
  have "cursor_reads h [] (cc_cursor ?ctx) RNull"
    using captured_slot_reads [OF assms(1,2), of "[]"] by (simp add: assms(3))
  moreover have "read_segment RNull (Member disc) = RAbsent"
    by (simp add: read_member_def read_quoted_def or_absent_def)
  ultimately have x: "cursor_reads h [] (cursor_member (cc_cursor ?ctx) disc) RAbsent"
    using cursor_reads_member by metis
  have "verdict (run L h [] (one_of_chain ?ctx disc ?bs)) False"
    by (rule chain_unselected [OF x]) (use assms(4) null_unselected in \<open>auto simp: list_all_iff\<close>)
  then show "map (\<lambda>n. fst (outcome (run L h [] n)))
      (compile_shape L ?ctx (ShapeNode ex g (Core (OneOf disc alternatives dflt)))) = [Mismatched]"
    by (simp add: Let_def ctx_pinned_def verdict_mismatched)
  from assms(5) obtain n alt where alt: "(n, alt) \<in> set alternatives" "is_nullable alt"
    by (auto simp: list_ex_iff)
  then have "admits L R unpinned (path_alternative [] n) alt RNull"
    by (cases alt rule: is_nullable.cases) (auto simp: unpinned_def)
  with alt(1) show "shape_admits L R (ShapeNode ex g (Core (OneOf disc alternatives dflt))) RNull"
    by (auto simp: shape_admits_def unpinned_def list_ex_iff)
qed

definition tagged :: "string \<Rightarrow> shape" where
  "tagged t = ShapeNode None None (Core (Object [(''kind'',
     ShapeNode (Some \<lparr>ex_value = JString t, ex_encoded = None\<rparr>) None (Core Equality))]))"

theorem one_of_rejects_null_witness:
  "map (\<lambda>n. fst (outcome (run example_lib (silent_host [(''$.response.body'', RNull)]) [] n)))
      (compile_shape example_lib \<lparr>cc_cursor = Absolute ''$.response.body'', cc_at = ''response.body'',
           cc_labelled = ''response.body'', cc_assignment = []\<rparr>
         (ShapeNode None None (Core (OneOf ''kind'' [(''card'', ShapeNode None None (Core (Nullable (tagged ''card'')))),
            (''cash'', tagged ''cash'')] None)))) = [Mismatched]"
proof -
  have "captured_resolve [(''$.response.body'', RNull)] ''$.response.body'' = RNull"
    by (simp add: captured_resolve_def resolve_from.simps)
  from one_of_rejects_null [where L = example_lib and R = silent_judge and h = "silent_host [(''$.response.body'', RNull)]",
      OF _ _ this, where alternatives = "[(''card'', ShapeNode None None (Core (Nullable (tagged ''card'')))),
            (''cash'', tagged ''cash'')]" and disc = "''kind''" and ex = None and g = None and dflt = None]
  show ?thesis
    by (simp add: silent_host_def captured_whole_def contains_key_def discriminator_literals_def tagged_def)
qed

text \<open>Two leaves admit more than the language's table lists: a \<open>regex\<close> is also read over the text of a
  number or a boolean, and \<open>not-empty\<close> passes every number and boolean.\<close>

lemma regex_reads_numbers:
  "arg cs 0 = RNumber n \<Longrightarrow> arg cs 1 = RString p \<Longrightarrow> regex L p = Inr f \<Longrightarrow> f (number_text L n) \<Longrightarrow>
   act_match_regex L cs = matched_result"
  by (simp add: act_match_regex_def as_matchable_text_def plain_text_def)

lemma not_empty_passes_numbers: "arg cs 0 = RNumber n \<Longrightarrow> act_expect_not_empty L cs = ROk"
  by (simp add: act_expect_not_empty_def)

end
