(* ===== verification/Interpret_Laws.thy ===== *)
theory Interpret_Laws
  imports Plan_Verdict Fragment
begin

text \<open>
  What a run keeps and what it says, over engine/kernel/src/plan/interpret.rs: an executed tree is the
  plan it ran with a result at each node, the marked form of every mismatch spells its message, and the
  verdict counts every error of the tree, the ones a \<open>flow:or\<close> recovered from included.
\<close>

subsection \<open>What a mismatch says\<close>

definition marks_ok :: "node_result \<Rightarrow> bool" where
  "marks_ok r =
     (case r of RErr message _ (Some m) \<Rightarrow> marked_text m = message \<and> marked_wf m | _ \<Rightarrow> True)"

lemma marks_ok_simps [simp]:
  "marks_ok ROk" "marks_ok (RVal v)" "marks_ok (RErr message path None)"
  by (simp_all add: marks_ok_def)

lemma failed_marks_ok [simp]: "marks_ok (failed pieces path)"
proof -
  let ?m = "foldl marked_append [] pieces"
  have "failed pieces path = RErr (marked_text ?m) path (Some ?m)" by (simp add: failed_def Let_def)
  moreover from this have "marked_wf ?m" by (rule failed_wf)
  ultimately show ?thesis by (simp add: marks_ok_def)
qed

lemma fail_at_marks_ok [simp]: "marks_ok (fail_at cs pieces)"
  by (simp add: fail_at_def)

lemma expected_marks_ok [simp]:
  "marks_ok (expected_but L cs wanted v)" "marks_ok (expected_string L cs v)" "marks_ok (not_countable L cs)"
  "marks_ok matched_result" "marks_ok (unknown_action name)"
  by (simp_all add: expected_but_def expected_string_def not_countable_def matched_result_def unknown_action_def)

lemma flow_last_marks_ok:
  "list_all (\<lambda>c. case x_result c of Some r \<Rightarrow> marks_ok r | None \<Rightarrow> True) cs \<Longrightarrow> marks_ok (act_flow_last cs)"
  by (cases cs rule: rev_cases) (auto simp: act_flow_last_def split: option.splits)

text \<open>The arms, without \<open>flow:apply\<close> and \<open>flow:tee\<close>, which hand on a child's result.\<close>

lemmas arm_defs =
  act_flow_and_def act_flow_error_def act_join_def act_join_with_def act_length_def
  act_lower_case_def act_upper_case_def act_to_string_def act_check_exists_def
  act_check_null_def act_check_equals_def act_expect_absent_def act_expect_object_def
  act_expect_array_def act_expect_not_empty_def act_expect_empty_def act_expect_count_def
  act_expect_size_def act_only_entries_def act_match_any_def act_match_equality_def
  act_match_type_def match_kind_def act_match_regex_def match_temporal_def act_match_include_def
  act_match_content_type_def act_match_semver_def act_match_any_of_def
  match_type_with_bounds_def act_min_type_def act_max_type_def act_min_max_type_def
  act_header_value_def act_xml_children_def act_xml_only_children_def act_mime_part_def
  act_parses_as_def act_body_type_def act_message_type_def

lemma arms_marks_ok:
  "list_all (\<lambda>(name, _, act). name \<noteq> ''flow:apply'' \<and> name \<noteq> ''flow:tee'' \<longrightarrow> (\<forall>cs. marks_ok (act cs)))
     (dispatch_table L h)"
  unfolding dispatch_table_def list.pred_inject prod.case
  by (intro conjI impI allI TrueI; (simp only: not_True_eq_False simp_thms)?;
      auto simp: arm_defs Let_def split: rv.splits option.splits sum.splits prod.splits list.splits)

subsection \<open>A law of every result of a run\<close>

definition holds_of :: "(node_result \<Rightarrow> bool) \<Rightarrow> executed \<Rightarrow> bool" where
  "holds_of P e = (case x_result e of Some r \<Rightarrow> P r | None \<Rightarrow> True)"

function every_result :: "(node_result \<Rightarrow> bool) \<Rightarrow> executed \<Rightarrow> bool" where
  "every_result P (Exec k r) = (holds_of P (Exec k r) \<and> list_all (every_result P) (children_of k))"
  by pat_completeness auto
termination
  by (relation "measure (size \<circ> snd)") (auto simp del: executed.size dest: children_of_size)

lemma holds_of_simps [simp]: "holds_of P (Exec k None)" "holds_of P (Exec k (Some r)) = P r"
  by (simp_all add: holds_of_def)

lemma every_result_here: "every_result P e \<Longrightarrow> holds_of P e"
  by (cases e) simp

lemma skip_every_result [simp]: "every_result P (skip n)"
  by (induction n) (auto simp: list_all_iff holds_of_def)

definition cells_ok :: "(node_result \<Rightarrow> bool) \<Rightarrow> cell list \<Rightarrow> bool" where
  "cells_ok P cells = list_all (\<lambda>(_, r). \<forall>st. every_result P (r st)) cells"

lemma cell_nth: "cells_ok P cells \<Longrightarrow> i < length cells \<Longrightarrow> every_result P (snd (cells ! i) st)"
  by (auto simp: cells_ok_def list_all_length split_beta)

lemma cells_tl: "cells_ok P cells \<Longrightarrow> cells_ok P (tl cells)"
  by (cases cells) (auto simp: cells_ok_def)

lemma mismatch_of_result:
  "every_result P e \<Longrightarrow> mm \<in> set (collect_mismatches e act) \<Longrightarrow>
   P (RErr (mm_message mm) (mm_path mm) (mm_marks mm))"
proof (induction P e arbitrary: act rule: every_result.induct)
  case (1 P k r)
  then show ?case
    by (auto simp: own_mismatch_def Let_def list_all_iff split: option.splits node_result.splits)
qed

lemma too_few_array_contains: "too_few ''legacy:array-contains'' n = (if n < 2 then Some 2 else None)"
  by (simp add: too_few_def least_children_def core_table_def)

text \<open>A property of results that no arm, no failure and no component breaks holds at every node of
  every run.\<close>

locale result_law =
  fixes P :: "node_result \<Rightarrow> bool" and L :: lib and h :: host
  assumes law_ok: "P ROk" and law_val: "P (RVal v)" and law_err: "P (RErr message path None)"
    and law_failed: "P (failed pieces path)"
    and law_dispatch: "list_all (holds_of P) cs \<Longrightarrow> P (dispatch L h name cs)"
    and law_component: "P (apply_component h name cs)"
begin

lemma pipeline_law:
  "list_all (\<lambda>r. \<forall>st. every_result P (r st)) rs \<Longrightarrow> P result \<Longrightarrow>
   list_all (every_result P) (fst (pipeline_steps rs st result)) \<and> P (snd (pipeline_steps rs st result))"
proof (induction rs st result rule: pipeline_steps.induct)
  case (2 r rs st result)
  have "holds_of P (r st)" using 2(2) by (auto intro: every_result_here)
  then show ?case using 2 law_ok
    by (auto simp: Let_def holds_of_def split: prod.splits option.splits node_result.splits)
qed simp

lemma or_law: "cells_ok P cells \<Longrightarrow> list_all (every_result P) (fst (or_steps cells st success))"
  by (induction cells st success rule: or_steps.induct) (auto simp: Let_def cells_ok_def)

lemma claim_law:
  "(\<And>st. every_result P (r st)) \<Longrightarrow> (\<And>i e. found = Some (i, e) \<Longrightarrow> every_result P e) \<Longrightarrow>
   claim_element r st elements found = Some (i, e) \<Longrightarrow> every_result P e"
  by (induction r st elements found rule: claim_element.induct) (auto simp: Let_def split: if_splits)

lemma contains_law:
  "cells_ok P cells \<Longrightarrow> list_all (every_result P) (fst (contains_steps cells st elements used))"
proof (induction cells st elements used rule: contains_steps.induct)
  case (2 n r cells st elements used)
  then show ?case
    by (cases "claim_element r st (filter (\<lambda>(i, _). i \<notin> used) elements) None")
      (auto simp: cells_ok_def dest: claim_law [rotated 2])
qed simp

lemma first_match_law:
  "(\<And>st. every_result P (r st)) \<Longrightarrow> first_match r st items = Some e \<Longrightarrow> every_result P e"
  by (induction items) (auto simp: Let_def split: if_splits)

lemma if_law: "cells_ok P cells \<Longrightarrow> 2 \<le> length cells \<Longrightarrow> every_result P (run_if cells st)"
  by (auto simp: run_if_def Let_def holds_of_def branch_result_def law_ok law_val intro!: cell_nth)

lemma or_node_law: "cells_ok P cells \<Longrightarrow> every_result P (run_or cells st)"
  using or_law [of cells st False] by (auto simp: run_or_def holds_of_def law_val split: prod.splits)

lemma items_law:
  "every_result P source \<Longrightarrow> (\<And>st. every_result P (snd template st)) \<Longrightarrow>
   every_result P (for_each_items template source inner st)"
  by (auto simp: for_each_items_def Let_def holds_of_def law_val list_all_iff)

lemma for_each_law:
  assumes "cells_ok P cells" and "2 \<le> length cells"
    and "\<And>r st. splat = Some (Some r) \<Longrightarrow> every_result P (r st)"
  shows "every_result P (run_for_each splat cells st)"
proof -
  have template: "every_result P (snd (cells ! Suc 0) st)" for st using assms by (intro cell_nth) auto
  have source: "every_result P (snd (cells ! 0) st)" for st using assms by (intro cell_nth) auto
  show ?thesis
  proof (cases splat)
    case None
    then show ?thesis by (auto simp: run_for_each_def Let_def intro!: items_law source template)
  next
    case (Some source)
    then show ?thesis using assms(3)
      by (cases source)
        (auto simp: run_for_each_def Let_def malformed_def holds_of_def law_val law_err list_all_iff
          intro!: items_law template)
  qed
qed

lemma contains_node_law:
  assumes "cells_ok P cells" and "1 \<le> length cells"
  shows "every_result P (run_contains cells st)"
proof -
  have "list_all (every_result P) (fst (contains_steps (tl cells) st elements {}))" for elements
    using contains_law [OF cells_tl [OF assms(1)]] .
  moreover have "every_result P (snd (cells ! 0) st)" using assms by (intro cell_nth) auto
  ultimately show ?thesis
    by (simp add: run_contains_def Let_def holds_of_def matched_result_def law_val law_err split_beta)
qed

lemma array_contains_law:
  assumes "cells_ok P cells" and "2 \<le> length cells"
  shows "every_result P (run_array_contains L cells st)"
proof -
  have source: "every_result P (snd (cells ! 0) st)" and template: "every_result P (snd (cells ! Suc 0) st)" for st
    using assms by (auto intro!: cell_nth)
  have described: "list_all (every_result P) (map (\<lambda>c. snd c st) (drop 2 cells))"
    using assms(1) by (auto simp: list_all_iff cells_ok_def dest!: in_set_dropD)
  show ?thesis
    using described source [of st]
    by (simp add: run_array_contains_def Let_def holds_of_def matched_result_def fail_at_def law_val law_failed
        split: rv.splits option.splits prod.splits list.splits)
      (auto dest: first_match_law [OF template] simp: law_val law_failed)
qed

lemma action_law:
  assumes "\<And>c st. c \<in> set cs \<Longrightarrow> every_result P (run L h st c)"
    and "\<And>c st ss rest. cs = Splat (c # ss) # rest \<Longrightarrow> every_result P (run L h st c)"
  shows "every_result P (run L h st (Action name cs))"
proof (cases "too_few name (length cs)")
  case None
  let ?cells = "map (\<lambda>c. (c, \<lambda>s. run L h s c)) cs"
  have cells: "cells_ok P ?cells" using assms(1) by (auto simp: cells_ok_def list_all_iff)
  have each: "list_all (every_result P) (map (run L h st) cs)" using assms(1) by (simp add: list_all_iff)
  then have "list_all (holds_of P) (map (run L h st) cs)" by (auto simp: list_all_iff intro: every_result_here)
  with each have eager: "every_result P (run_eager L h name (map (run L h st) cs))"
    by (simp add: run_eager_def law_component law_dispatch)
  define splat where "splat = (case cs of
    Splat ss # _ \<Rightarrow> Some (case ss of [] \<Rightarrow> None | c # _ \<Rightarrow> Some (\<lambda>s. run L h s c)) | _ \<Rightarrow> None)"
  have splats: "every_result P (r s)" if "splat = Some (Some r)" for r s
    using that assms(2) by (auto simp: splat_def split: list.splits node.splits)
  have least: "name = ''flow:if'' \<or> name = ''flow:for-each'' \<or> name = ''legacy:array-contains'' \<Longrightarrow> 2 \<le> length cs"
    "name = ''match:contains'' \<Longrightarrow> 1 \<le> length cs"
    using None by (auto simp: lazy_least too_few_array_contains Suc_le_eq split: if_splits)
  have run: "run L h st (Action name cs) =
     (if name = ''flow:if'' then run_if ?cells st
      else if name = ''flow:or'' then run_or ?cells st
      else if name = ''flow:for-each'' then run_for_each splat ?cells st
      else if name = ''match:contains'' then run_contains ?cells st
      else if name = ''legacy:array-contains'' then run_array_contains L ?cells st
      else run_eager L h name (map (run L h st) cs))"
    using None by (simp add: run.simps(8) Let_def splat_def)
  have for_each: "name = ''flow:for-each'' \<Longrightarrow> every_result P (run_for_each splat ?cells st)"
    using cells least splats by (intro for_each_law) auto
  show ?thesis
    unfolding run using least eager
    by (simp add: if_law [OF cells] or_node_law [OF cells] for_each
        contains_node_law [OF cells] array_contains_law [OF cells])
qed (auto simp: run.simps(8) malformed_def holds_of_def law_err list_all_iff)

lemma run_law: "every_result P (run L h st n)"
proof (induction n arbitrary: st rule: measure_induct_rule [of size])
  case (less n)
  show ?case
  proof (cases n)
    case (Action name cs)
    have "c \<in> set cs \<Longrightarrow> size c < size n" for c
      using Action size_list_elem [of c cs size] by simp
    moreover have "cs = Splat (c # ss) # rest \<Longrightarrow> size c < size n" for c ss rest
      using Action by simp
    ultimately show ?thesis using less unfolding Action by (intro action_law) blast+
  next
    case (Container label cs)
    have "c \<in> set cs \<Longrightarrow> size c < size n" for c using Container size_list_elem [of c cs size] by simp
    then show ?thesis using less Container
      by (auto simp: list_all_iff run_container_def holds_of_def law_val)
  next
    case (Pipeline cs)
    have "c \<in> set cs \<Longrightarrow> size c < size n" for c using Pipeline size_list_elem [of c cs size] by simp
    then have "list_all (\<lambda>r. \<forall>st. every_result P (r st)) (map (\<lambda>c s. run L h s c) cs)"
      using less by (auto simp: list_all_iff)
    from pipeline_law [OF this law_ok, of st] show ?thesis
      by (simp add: Pipeline run_pipeline_def holds_of_def split_beta)
  next
    case (Splat cs)
    have "c \<in> set cs \<Longrightarrow> size c < size n" for c using Splat size_list_elem [of c cs size] by simp
    then have all: "list_all (every_result P) (map (run L h st) cs)" using less by (auto simp: list_all_iff)
    then have "holds_of P (Exec k (case map (run L h st) cs of [] \<Rightarrow> None | e # _ \<Rightarrow> x_result e))" for k
      by (cases cs) (auto simp: holds_of_def dest!: every_result_here)
    with all show ?thesis by (simp add: Splat run_splat_def)
  qed (auto simp: holds_of_def law_val run_resolve_current_def Let_def)
qed

end

subsection \<open>The marked form of a mismatch\<close>

definition host_marks_ok :: "host \<Rightarrow> bool" where
  "host_marks_ok h \<longleftrightarrow>
     (\<forall>apply name arguments path r.
        h_actions h = Some apply \<and> apply name arguments path = Some r \<longrightarrow> marks_ok r)"

lemma dispatch_marks_ok: "list_all (holds_of marks_ok) cs \<Longrightarrow> marks_ok (dispatch L h name cs)"
proof (cases "map_of (dispatch_table L h) name")
  case (Some entry)
  assume cs: "list_all (holds_of marks_ok) cs"
  obtain reads act where entry: "entry = (reads, act)" by (cases entry)
  show ?thesis
  proof (cases "name = ''flow:apply'' \<or> name = ''flow:tee''")
    case True
    then have "act = act_flow_last" using Some by (auto simp: entry dispatch_table_def)
    then show ?thesis using Some cs flow_last_marks_ok [of cs]
      by (simp add: entry dispatch_def holds_of_def [abs_def])
  next
    case False
    have "(name, reads, act) \<in> set (dispatch_table L h)" using Some entry by (auto dest: map_of_SomeD)
    with arms_marks_ok [of L h] False show ?thesis using Some by (auto simp: entry dispatch_def list_all_iff)
  qed
qed (simp add: dispatch_def)

lemma component_marks_ok: "host_marks_ok h \<Longrightarrow> marks_ok (apply_component h name cs)"
proof (cases "Option.bind (h_actions h) (\<lambda>apply. apply name (map value_of cs) (locus cs))")
  case (Some r)
  assume "host_marks_ok h"
  with Some have "marks_ok r" by (auto simp: host_marks_ok_def Option.bind_eq_Some_conv)
  with Some show ?thesis by (simp add: apply_component_def marks_ok_def split: node_result.splits option.splits)
qed (simp add: apply_component_def)

interpretation marks: result_law "\<lambda>r. host_marks_ok h \<longrightarrow> marks_ok r" L h for L h
proof unfold_locales
  fix cs :: "executed list" and name
  assume cs: "list_all (holds_of (\<lambda>r. host_marks_ok h \<longrightarrow> marks_ok r)) cs"
  show "host_marks_ok h \<longrightarrow> marks_ok (dispatch L h name cs)"
  proof
    assume "host_marks_ok h"
    with cs have "list_all (holds_of marks_ok) cs" by (auto simp: list_all_iff holds_of_def split: option.splits)
    then show "marks_ok (dispatch L h name cs)" by (rule dispatch_marks_ok)
  qed
qed (auto simp: component_marks_ok)

text \<open>C16: the marked form of a mismatch is its message: in every run, of any plan against any reply, the
  segments a mismatch is reported with spell exactly the text it is reported with, and no segment is
  empty or repeats its neighbour's kind. A report may show either and says the same.\<close>

theorem mismatch_marks_spell_message:
  assumes "host_marks_ok h"
    and "mm \<in> set (snd (outcome (execute_with L h p)))" and "mm_marks mm = Some m"
  shows "marked_text m = mm_message mm \<and> marked_wf m"
proof -
  from assms(2) have "mm \<in> set (collect_mismatches (run L h [] (plan_root p)) None)"
    by (simp add: outcome_def execute_with_def Let_def)
  from mismatch_of_result [OF marks.run_law this] assms(1,3) show ?thesis by (simp add: marks_ok_def)
qed

theorem mismatch_marks_spell_message_witness:
  "let mms = snd (outcome (execute_with example_lib
       \<lparr>h_resolve = (\<lambda>_. RNull), h_content = None, h_actions = None\<rparr>
       \<lparr>plan_grammar = grammar_version, plan_root = Action ''expect:absent'' [Resolve ''$.a''], plan_variant = None\<rparr>))
   in map mm_action mms = [Some ''expect:absent'']
     \<and> list_all (\<lambda>mm. \<forall>m. mm_marks mm = Some m \<longrightarrow> marked_text m = mm_message mm \<and> marked_wf m) mms"
proof -
  let ?h = "\<lparr>h_resolve = (\<lambda>_. RNull), h_content = None, h_actions = None\<rparr>"
  let ?p = "\<lparr>plan_grammar = grammar_version, plan_root = Action ''expect:absent'' [Resolve ''$.a''], plan_variant = None\<rparr>"
  have "host_marks_ok ?h" by (simp add: host_marks_ok_def)
  note marks = mismatch_marks_spell_message [OF this, of _ example_lib ?p]
  have "map mm_action (snd (outcome (execute_with example_lib ?h ?p))) = [Some ''expect:absent'']"
    by (simp add: execute_with_def run.simps(8) too_few_def least_children_def core_table_def run_eager_def
        is_component_action_def reserved_namespaces_def dispatch_def dispatch_table_def act_expect_absent_def arg_def value_of_def
        fail_at_def failed_message outcome_def own_mismatch_def)
  with marks show ?thesis by (auto simp: Let_def list_all_iff)
qed

subsection \<open>A run keeps its plan\<close>

text \<open>An executed tree without its results.\<close>

fun unexecuted :: "executed \<Rightarrow> node" where
  "unexecuted (Exec (XContainer label cs) _) = Container label (map unexecuted cs)"
| "unexecuted (Exec (XAction name cs) _) = Action name (map unexecuted cs)"
| "unexecuted (Exec (XValue literal) _) = Value literal"
| "unexecuted (Exec (XResolve path) _) = Resolve path"
| "unexecuted (Exec (XResolveCurrent path _) _) = ResolveCurrent path"
| "unexecuted (Exec (XPipeline cs) _) = Pipeline (map unexecuted cs)"
| "unexecuted (Exec (XSplat cs) _) = Splat (map unexecuted cs)"
| "unexecuted (Exec (XAnnotation t) _) = Annotation t"

lemma unexecuted_skip [simp]: "unexecuted (skip n) = n"
  by (induction n) (auto simp: map_idI)

definition keeps :: "cell list \<Rightarrow> bool" where
  "keeps cells = list_all (\<lambda>(n, r). \<forall>st. unexecuted (r st) = n) cells"

lemma keeps_nth: "keeps cells \<Longrightarrow> i < length cells \<Longrightarrow> unexecuted (snd (cells ! i) st) = fst (cells ! i)"
  by (auto simp: keeps_def list_all_length split_beta)

lemma or_keeps: "keeps cells \<Longrightarrow> map unexecuted (fst (or_steps cells st success)) = map fst cells"
  by (induction cells st success rule: or_steps.induct) (auto simp: Let_def keeps_def)

lemma pipeline_keeps:
  "list_all2 (\<lambda>n r. \<forall>st. unexecuted (r st) = n) ns rs \<Longrightarrow>
   map unexecuted (fst (pipeline_steps rs st result)) = ns"
  by (induction rs st result arbitrary: ns rule: pipeline_steps.induct)
    (auto simp: Let_def list_all2_Cons2 split: prod.splits)

lemma if_keeps:
  assumes "keeps cells" and "2 \<le> length cells" and "length cells \<le> 3"
  shows "unexecuted (run_if cells st) = Action ''flow:if'' (map fst cells)"
proof -
  obtain c d r where cells: "cells = c # d # r" "r = [] \<or> (\<exists>e. r = [e])"
    using assms(2,3) by (cases cells; cases "tl cells"; cases "tl (tl cells)") auto
  show ?thesis using assms(1) cells(2)
    by (auto simp: cells(1) run_if_def Let_def keeps_def split_beta)
qed

lemma claim_keeps:
  "(\<And>st. unexecuted (r st) = n) \<Longrightarrow> (\<And>i e. found = Some (i, e) \<Longrightarrow> unexecuted e = n) \<Longrightarrow>
   claim_element r st elements found = Some (i, e) \<Longrightarrow> unexecuted e = n"
  by (induction r st elements found rule: claim_element.induct) (auto simp: Let_def split: if_splits)

lemma contains_keeps: "keeps cells \<Longrightarrow> map unexecuted (fst (contains_steps cells st elements used)) = map fst cells"
proof (induction cells st elements used rule: contains_steps.induct)
  case (2 n r cells st elements used)
  then show ?case
    by (cases "claim_element r st (filter (\<lambda>(i, _). i \<notin> used) elements) None")
      (auto simp: keeps_def dest: claim_keeps [rotated 2])
qed simp

lemma first_match_keeps:
  "(\<And>st. unexecuted (r st) = n) \<Longrightarrow> first_match r st items = Some e \<Longrightarrow> unexecuted e = n"
  by (induction items) (auto simp: Let_def split: if_splits)

lemma contains_node_keeps:
  assumes "keeps cells" and "1 \<le> length cells"
  shows "unexecuted (run_contains cells st) = Action ''match:contains'' (map fst cells)"
proof -
  obtain c cs where cells: "cells = c # cs" using assms(2) by (cases cells) auto
  then have "keeps cs" and "unexecuted (snd c st) = fst c" using assms(1) by (auto simp: keeps_def split_beta)
  then show ?thesis by (simp add: cells run_contains_def Let_def split_beta contains_keeps)
qed

lemma array_contains_keeps:
  assumes "keeps cells" and "2 \<le> length cells"
  shows "unexecuted (run_array_contains L cells st) = Action ''legacy:array-contains'' (map fst cells)"
proof -
  obtain c d cs where cells: "cells = c # d # cs"
    using assms(2) by (cases cells; cases "tl cells") auto
  then have "map (\<lambda>c. unexecuted (snd c st)) cs = map fst cs" and source: "unexecuted (snd c st) = fst c"
    and template: "unexecuted (snd d st) = fst d" for st
    using assms(1) by (auto simp: keeps_def list_all_iff split_beta)
  then show ?thesis
    by (simp add: cells run_array_contains_def Let_def o_def split: rv.splits option.splits prod.splits)
      (auto dest: first_match_keeps [OF template])
qed

definition keeps_children :: "node \<Rightarrow> bool" where
  "keeps_children n =
     (case n of
        Action name cs \<Rightarrow> name \<noteq> ''flow:for-each'' \<and> (name = ''flow:if'' \<longrightarrow> length cs \<le> 3)
      | _ \<Rightarrow> True)"

lemma run_keeps: "every_node keeps_children n \<Longrightarrow> unexecuted (run L h st n) = n"
proof (induction n arbitrary: st)
  case (Action name cs)
  let ?cells = "map (\<lambda>c. (c, \<lambda>s. run L h s c)) cs"
  have cells: "keeps ?cells" using Action by (auto simp: keeps_def list_all_iff)
  have fst: "map fst ?cells = cs" by (simp add: o_def)
  show ?case
  proof (cases "too_few name (length cs)")
    case None
    have least: "name = ''flow:if'' \<or> name = ''legacy:array-contains'' \<Longrightarrow> 2 \<le> length cs"
      "name = ''match:contains'' \<Longrightarrow> 1 \<le> length cs"
      using None by (auto simp: lazy_least too_few_array_contains Suc_le_eq split: if_splits)
    have eager: "unexecuted (run_eager L h name (map (run L h st) cs)) = Action name cs"
      using Action by (auto simp: run_eager_def list_all_iff intro: map_idI)
    have or_node: "unexecuted (run_or ?cells st) = Action ''flow:or'' cs"
      using or_keeps [OF cells, of st False] by (simp add: run_or_def split_beta o_def)
    show ?thesis
      using None Action.prems least eager or_node
        if_keeps [OF cells, of st] contains_node_keeps [OF cells, of st] array_contains_keeps [OF cells, of L st]
      unfolding fst by (simp add: run.simps(8) Let_def keeps_children_def)
  qed (simp add: run.simps(8) malformed_def o_def)
next
  case (Pipeline cs)
  then have "list_all2 (\<lambda>n r. \<forall>st. unexecuted (r st) = n) cs (map (\<lambda>c s. run L h s c) cs)"
    by (auto simp: list_all_iff list.rel_map intro!: list.rel_refl_strong)
  from pipeline_keeps [OF this]
  have "map unexecuted (fst (pipeline_steps (map (\<lambda>c s. run L h s c) cs) st result)) = cs" for result .
  then show ?case by (simp add: run_pipeline_def split_beta)
qed (auto simp: run_container_def run_splat_def run_resolve_current_def Let_def list_all_iff intro: map_idI)

text \<open>A run records the plan it ran: with the results taken off, the executed tree is the plan's
  own, every child of every node in its place, whether it was executed or skipped. (A \<open>flow:for-each\<close>
  records its template once per item instead, and a \<open>flow:if\<close> drops what follows its third child.)\<close>

theorem executed_is_the_plan:
  assumes "every_node keeps_children (plan_root p)"
  shows "unexecuted (execute_with L h p) = plan_root p"
  using assms by (simp add: execute_with_def run_keeps)

theorem executed_is_the_plan_witness:
  "unexecuted (execute_with example_lib \<lparr>h_resolve = (\<lambda>_. RNull), h_content = None, h_actions = None\<rparr>
     \<lparr>plan_grammar = grammar_version,
       plan_root = Container (Some ''body'') [Action ''flow:if'' [Action ''check:exists'' [Resolve ''$.a''],
         Action ''flow:error'' [Annotation ''seen'']]], plan_variant = None\<rparr>) =
   Container (Some ''body'') [Action ''flow:if'' [Action ''check:exists'' [Resolve ''$.a''],
     Action ''flow:error'' [Annotation ''seen'']]]"
  using executed_is_the_plan [of "\<lparr>plan_grammar = grammar_version,
       plan_root = Container (Some ''body'') [Action ''flow:if'' [Action ''check:exists'' [Resolve ''$.a''],
         Action ''flow:error'' [Annotation ''seen'']]], plan_variant = None\<rparr>"]
  by (simp add: keeps_children_def)

subsection \<open>What an alternative that failed leaves behind\<close>

lemma outcome_mismatched: "fst (outcome e) = Mismatched \<longleftrightarrow> \<not> no_errors e"
  using outcome_matched [of e] by (cases "fst (outcome e)") auto

text \<open>C32: \<open>flow:or\<close> does not recover. When its first alternative fails with a mismatch and its second
  succeeds, the node's own value is true, and so is the container's over it, but the verdict of the run
  is a mismatch: \<open>outcome\<close> counts every error in the tree, the failed alternative's among them. A legacy
  rule list combined with \<open>OR\<close> compiles to such a node.\<close>

theorem or_alternative_reported:
  assumes "x_result (run L h [] first) = Some (RErr message path marks)"
    and "is_truthy (run L h [] second)"
  shows "x_result (run L h [] (Container label [Action ''flow:or'' [first, second]])) = Some (RVal (RBool True))
    \<and> fst (outcome (run L h [] (Container label [Action ''flow:or'' [first, second]]))) = Mismatched"
proof -
  have "\<not> no_errors (run L h [] first)" using assms(1) by (cases "run L h [] first") simp
  moreover have "\<not> is_truthy (run L h [] first)" using assms(1) by (simp add: is_truthy_def truthy_def)
  ultimately show ?thesis
    using assms(2)
    by (simp add: outcome_mismatched run.simps(8) lazy_least run_or_def run_container_def child_failed_def)
qed

theorem or_alternative_reported_witness:
  "fst (outcome (run example_lib \<lparr>h_resolve = (\<lambda>_. RString ''b''), h_content = None, h_actions = None\<rparr> []
     (Container None [Action ''flow:or''
       [Action ''match:equality'' [Resolve ''$.a'', Value (literal_string ''a'')],
        Action ''match:equality'' [Resolve ''$.a'', Value (literal_string ''b'')]]]))) = Mismatched"
proof -
  let ?h = "\<lparr>h_resolve = (\<lambda>_. RString ''b''), h_content = None, h_actions = None\<rparr>"
  note evaluate = run.simps(8) too_few_def least_children_def core_table_def run_eager_def
    is_component_action_def reserved_namespaces_def dispatch_def dispatch_table_def act_match_equality_def
    arg_def value_of_def literal_string_def is_truthy_def truthy_def matched_result_def fail_at_def
    failed_message Let_def rv_from_literal_def
  have "\<exists>message path marks. x_result (run example_lib ?h []
      (Action ''match:equality'' [Resolve ''$.a'', Value (literal_string ''a'')])) = Some (RErr message path marks)"
    by (simp add: evaluate)
  moreover have "is_truthy (run example_lib ?h []
      (Action ''match:equality'' [Resolve ''$.a'', Value (literal_string ''b'')]))"
    by (simp add: evaluate)
  ultimately show ?thesis using or_alternative_reported by blast
qed

end
