(* ===== verification/Phrases.thy ===== *)
theory Phrases
  imports Shape_Model Plan_Model
begin

text \<open>
  The phrase table of the subsumption checker, engine/kernel/src/subsumption/phrases.rs: how a shape
  node is described in a finding, a total function of the node's operator and its parameters.
\<close>

definition kind_phrase :: "value_kind \<Rightarrow> string" where
  "kind_phrase k =
     (case k of
        VK_String \<Rightarrow> ''any string''
      | VK_Number \<Rightarrow> ''any number''
      | VK_Integer \<Rightarrow> ''a whole number''
      | VK_Decimal \<Rightarrow> ''a number with a fractional part''
      | VK_Boolean \<Rightarrow> ''any boolean''
      | VK_Null \<Rightarrow> ''null'')"

definition class_phrase :: "example \<Rightarrow> string" where
  "class_phrase ex =
     (if ex_encoded ex \<noteq> None then ''octet sequence''
      else case ex_value ex of
        JNull \<Rightarrow> ''null''
      | JBool _ \<Rightarrow> ''boolean''
      | JNumber _ \<Rightarrow> ''number''
      | JString _ \<Rightarrow> ''string''
      | JArray _ \<Rightarrow> ''array''
      | JObject _ \<Rightarrow> ''object'')"

definition value_phrase :: "lib \<Rightarrow> json \<Rightarrow> string" where
  "value_phrase L v = (case v of JString t \<Rightarrow> quote1 t | other \<Rightarrow> json_text L other)"

definition literal_phrase :: "lib \<Rightarrow> example \<Rightarrow> string" where
  "literal_phrase L ex =
     (if ex_encoded ex \<noteq> None then ''an octet sequence'' else value_phrase L (ex_value ex))"

definition literals_phrase :: "lib \<Rightarrow> json list \<Rightarrow> string" where
  "literals_phrase L options = join_with '' | '' (map (value_phrase L) options)"

definition bound_phrase :: "nat \<Rightarrow> nat option \<Rightarrow> string" where
  "bound_phrase least most =
     nat_text least @ '' to '' @ (case most of Some m \<Rightarrow> nat_text m | None \<Rightarrow> ''unbounded'')"

definition cardinality_phrase :: "nat \<Rightarrow> nat option \<Rightarrow> string" where
  "cardinality_phrase least most = bound_phrase least most @ '' elements''"

definition cardinality_entries_phrase :: "nat \<Rightarrow> nat option \<Rightarrow> string" where
  "cardinality_entries_phrase least most = bound_phrase least most @ '' entries''"

text \<open>The provider side of an \<open>undeclared-member\<close> finding.\<close>

definition unconstrained_phrase :: string where
  "unconstrained_phrase = ''unconstrained: any value, or absent''"

fun describe :: "lib \<Rightarrow> shape \<Rightarrow> string" where
  "describe L (ShapeNode ex g (Component operator _)) = ''component operator '' @ quote1 operator"
| "describe L (ShapeNode ex g (Core Any)) = ''any value''"
| "describe L (ShapeNode ex g (Core Equality)) =
     (case ex of Some e \<Rightarrow> ''exactly '' @ literal_phrase L e | None \<Rightarrow> ''exactly one value'')"
| "describe L (ShapeNode ex g (Core Type)) =
     (case ex of Some e \<Rightarrow> ''any '' @ class_phrase e | None \<Rightarrow> ''any value of one kind'')"
| "describe L (ShapeNode ex g (Core (Kind k))) = kind_phrase k"
| "describe L (ShapeNode ex g (Core NotEmpty)) = ''any non-empty value''"
| "describe L (ShapeNode ex g (Core (Regex pattern))) = ''strings matching '' @ quote1 pattern"
| "describe L (ShapeNode ex g (Core (Temporal k _))) =
     (case k of TK_DateTime \<Rightarrow> ''a datetime'' | TK_Date \<Rightarrow> ''a date'' | TK_Time \<Rightarrow> ''a time'')"
| "describe L (ShapeNode ex g (Core (Include part))) = ''strings containing '' @ quote1 part"
| "describe L (ShapeNode ex g (Core (ContentType t))) = ''octets detected as '' @ t"
| "describe L (ShapeNode ex g (Core Semver)) = ''a semantic version''"
| "describe L (ShapeNode ex g (Core (Object _))) = ''an object''"
| "describe L (ShapeNode ex g (Core (ArrayOf entries))) =
     ''an array of exactly '' @ nat_text (length entries) @ '' elements''"
| "describe L (ShapeNode ex g (Core (EachLike _ least most))) = cardinality_phrase least most"
| "describe L (ShapeNode ex g (Core (EachEntry _ _ least most))) = cardinality_entries_phrase least most"
| "describe L (ShapeNode ex g (Core (Contains entries))) =
     ''an array containing '' @ nat_text (length entries) @ '' matched elements''"
| "describe L (ShapeNode ex g (Core (Optional s))) = describe L s @ '', or absent''"
| "describe L (ShapeNode ex g (Core Forbidden)) = ''absent''"
| "describe L (ShapeNode ex g (Core (Nullable s))) = describe L s @ '', or null''"
| "describe L (ShapeNode ex g (Core (AnyOf options))) = ''one of '' @ literals_phrase L options"
| "describe L (ShapeNode ex g (Core (OneOf _ alternatives _))) =
     ''one of the alternatives '' @ join_with '' | '' (map quote1 (keys alternatives))"

definition describe_present :: "lib \<Rightarrow> shape \<Rightarrow> string" where
  "describe_present L s = describe L s @ '', always present''"

end
