(* ===== verification/Findings.thy ===== *)
theory Findings
  imports Phrases
begin

text \<open>
  The subsumption checker's three-valued verdict, its findings and the outcome of one node, from
  engine/kernel/src/subsumption/compare.rs and report.rs. Every \<open>no\<close> and every \<open>unknown\<close> is built
  with the finding that records it.
\<close>

datatype sub_verdict = Yes | No | Unknown

fun verdict_and :: "sub_verdict \<Rightarrow> sub_verdict \<Rightarrow> sub_verdict" where
  "verdict_and No _ = No"
| "verdict_and _ No = No"
| "verdict_and Unknown _ = Unknown"
| "verdict_and _ Unknown = Unknown"
| "verdict_and Yes Yes = Yes"

definition verdict_text :: "sub_verdict \<Rightarrow> string" where
  "verdict_text v = (case v of Yes \<Rightarrow> ''yes'' | No \<Rightarrow> ''no'' | Unknown \<Rightarrow> ''unknown'')"

datatype severity = S_Finding | S_Review | S_Advisory

definition severity_of :: "sub_verdict \<Rightarrow> severity" where
  "severity_of v = (case v of No \<Rightarrow> S_Finding | Unknown \<Rightarrow> S_Review | Yes \<Rightarrow> S_Advisory)"

type_synonym side = string

record finding =
  fg_path :: string
  fg_verdict :: sub_verdict
  fg_severity :: severity
  fg_kind :: string
  fg_provider :: "side option"
  fg_consumer :: "side option"
  fg_reason :: "string option"
  fg_excluded_by :: "json list"

definition finding_new :: "string \<Rightarrow> sub_verdict \<Rightarrow> string \<Rightarrow> side \<Rightarrow> side \<Rightarrow> string \<Rightarrow> finding" where
  "finding_new path v kind provider consumer reason =
     \<lparr>fg_path = path, fg_verdict = v, fg_severity = severity_of v, fg_kind = kind,
      fg_provider = Some provider, fg_consumer = Some consumer, fg_reason = Some reason,
      fg_excluded_by = []\<rparr>"

definition wider_values :: "string \<Rightarrow> side \<Rightarrow> side \<Rightarrow> string \<Rightarrow> finding" where
  "wider_values path = finding_new path No ''wider-values''"

definition broader_type :: "string \<Rightarrow> side \<Rightarrow> side \<Rightarrow> string \<Rightarrow> finding" where
  "broader_type path = finding_new path No ''broader-type''"

definition weaker_presence :: "string \<Rightarrow> side \<Rightarrow> side \<Rightarrow> string \<Rightarrow> finding" where
  "weaker_presence path = finding_new path No ''weaker-presence''"

definition wider_cardinality :: "string \<Rightarrow> side \<Rightarrow> side \<Rightarrow> string \<Rightarrow> finding" where
  "wider_cardinality path = finding_new path No ''wider-cardinality''"

definition undeclared_member :: "string \<Rightarrow> side \<Rightarrow> finding" where
  "undeclared_member path consumer =
     finding_new path No ''undeclared-member'' unconstrained_phrase consumer
       (''the provider'' @ [CHR 0x27] @ ''s shape does not name this member; an unnamed member is the widest possible ''
        @ ''claim, not a narrow one (spec '' @ [CHR 0xC2, CHR 0xA7] @ ''3.2 Rule 2)'')"

definition unreviewable :: "string \<Rightarrow> side \<Rightarrow> side \<Rightarrow> string \<Rightarrow> finding" where
  "unreviewable path = finding_new path Unknown ''unreviewable''"

definition advisory :: "string \<Rightarrow> side \<Rightarrow> side \<Rightarrow> string \<Rightarrow> finding" where
  "advisory path = finding_new path Yes ''excluded-combination''"

subsection \<open>One node's contribution\<close>

record out =
  out_verdict :: sub_verdict
  out_findings :: "finding list"

definition out_yes :: out where
  "out_yes = \<lparr>out_verdict = Yes, out_findings = []\<rparr>"

definition out_no :: "finding \<Rightarrow> out" where
  "out_no f = \<lparr>out_verdict = No, out_findings = [f]\<rparr>"

definition out_unknown :: "finding \<Rightarrow> out" where
  "out_unknown f = \<lparr>out_verdict = Unknown, out_findings = [f]\<rparr>"

definition out_and :: "out \<Rightarrow> out \<Rightarrow> out" where
  "out_and o1 o2 =
     \<lparr>out_verdict = verdict_and (out_verdict o1) (out_verdict o2),
      out_findings = out_findings o1 @ out_findings o2\<rparr>"

text \<open>The loops \<open>out = out.and(...)\<close> over children.\<close>

definition out_all :: "out \<Rightarrow> out list \<Rightarrow> out" where
  "out_all start children = foldl out_and start children"

lemma verdict_and_Yes [simp]:
  "verdict_and a b = Yes \<longleftrightarrow> a = Yes \<and> b = Yes" "verdict_and Yes a = a" "verdict_and a Yes = a"
  by (cases a; cases b; simp) (cases a; simp)+

lemma verdict_and_assoc: "verdict_and (verdict_and a b) c = verdict_and a (verdict_and b c)"
  by (cases a; cases b; cases c) simp_all

lemma verdict_and_commute: "verdict_and a b = verdict_and b a"
  by (cases a; cases b) simp_all

lemma out_simps [simp]:
  "out_verdict out_yes = Yes" "out_verdict (out_no f) = No" "out_verdict (out_unknown f) = Unknown"
  "out_verdict (out_and o1 o2) = verdict_and (out_verdict o1) (out_verdict o2)"
  "out_findings out_yes = []" "out_findings (out_no f) = [f]" "out_findings (out_unknown f) = [f]"
  "out_findings (out_and o1 o2) = out_findings o1 @ out_findings o2"
  by (simp_all add: out_yes_def out_no_def out_unknown_def out_and_def)

lemma out_all_Yes [simp]:
  "out_verdict (out_all start children) = Yes \<longleftrightarrow>
     out_verdict start = Yes \<and> (\<forall>c \<in> set children. out_verdict c = Yes)"
  by (induction children arbitrary: start) (auto simp: out_all_def)

text \<open>The Kleene conjunction of the findings' own verdicts.\<close>

definition findings_verdict :: "finding list \<Rightarrow> sub_verdict" where
  "findings_verdict fs = foldr (\<lambda>f v. verdict_and (fg_verdict f) v) fs Yes"

lemma findings_verdict_simps [simp]:
  "findings_verdict [] = Yes" "findings_verdict (f # fs) = verdict_and (fg_verdict f) (findings_verdict fs)"
  "findings_verdict (fs @ gs) = verdict_and (findings_verdict fs) (findings_verdict gs)"
  by (simp_all add: findings_verdict_def) (induction fs; simp add: verdict_and_assoc)

definition accounted :: "out \<Rightarrow> bool" where
  "accounted r \<longleftrightarrow> out_verdict r = findings_verdict (out_findings r)
     \<and> list_all (\<lambda>f. fg_severity f = severity_of (fg_verdict f)) (out_findings r)"

definition recorded :: "sub_verdict \<Rightarrow> finding \<Rightarrow> bool" where
  "recorded v f \<longleftrightarrow> fg_verdict f = v \<and> fg_severity f = severity_of v"

lemma recorded_findings [simp]:
  "recorded No (wider_values p a b r)" "recorded No (broader_type p a b r)"
  "recorded No (weaker_presence p a b r)" "recorded No (wider_cardinality p a b r)"
  "recorded No (undeclared_member p b)" "recorded Unknown (unreviewable p a b r)"
  "recorded Yes (advisory p a b r)"
  by (simp_all add: recorded_def wider_values_def broader_type_def weaker_presence_def wider_cardinality_def
      undeclared_member_def unreviewable_def advisory_def finding_new_def)

lemma accounted_intros [simp, intro]:
  "accounted out_yes"
  "recorded No f \<Longrightarrow> accounted (out_no f)"
  "recorded Unknown f \<Longrightarrow> accounted (out_unknown f)"
  "accounted o1 \<Longrightarrow> accounted o2 \<Longrightarrow> accounted (out_and o1 o2)"
  by (simp_all add: accounted_def recorded_def)

lemma accounted_all: "accounted start \<Longrightarrow> (\<And>c. c \<in> set children \<Longrightarrow> accounted c) \<Longrightarrow> accounted (out_all start children)"
  by (induction children arbitrary: start) (auto simp: out_all_def)

end
