(* ===== verification/Subsumption.thy ===== *)
theory Subsumption
  imports Findings Plan_Compile Plan_Interpret
begin

text \<open>
  The subsumption walk, engine/kernel/src/subsumption/compare.rs: whether every value the provider's
  shape admits is one the consumer's shape admits, decided node by node. \<open>walk_node\<close> is \<open>Walk::node\<close>;
  the functions it goes through (\<open>value_node\<close>, \<open>operators\<close>, \<open>exact\<close> and the rest) take the walk of a
  child as an argument, and the walk is tied at the end over the joint weight of the two nodes.
\<close>

subsection \<open>Recorded exclusions\<close>

record recorded_exclusion =
  rx_document :: json
  rx_paths :: "string list"

definition dimension_path :: "string \<Rightarrow> string" where
  "dimension_path dim = (case split_once (CHR ''#'') dim of Some (path, _) \<Rightarrow> path | None \<Rightarrow> dim)"

definition exclusion_of :: "json \<Rightarrow> recorded_exclusion option" where
  "exclusion_of entry =
     (case (json_get entry ''when'', Option.bind (json_get entry ''reason'') as_str) of
        (Some (JArray points), Some reason) \<Rightarrow>
          Some \<lparr>rx_document = JObject [(''when'', JArray points), (''reason'', JString reason)],
            rx_paths = map dimension_path
              (List.map_filter (\<lambda>point. Option.bind (json_get point ''dimension'') as_str) points)\<rparr>
      | _ \<Rightarrow> None)"

definition from_selection_report :: "json \<Rightarrow> recorded_exclusion list" where
  "from_selection_report report =
     (case json_get report ''exclusions'' of
        Some (JArray entries) \<Rightarrow> List.map_filter exclusion_of entries
      | _ \<Rightarrow> [])"

subsection \<open>Presence, nullability and the residual value shape\<close>

record presence =
  ps_absent :: bool
  ps_null :: bool
  ps_rest :: "shape option"

definition is_null_example :: "example \<Rightarrow> bool" where
  "is_null_example ex \<longleftrightarrow> ex_encoded ex = None \<and> ex_value ex = JNull"

fun decompose :: "shape \<Rightarrow> presence" where
  "decompose (ShapeNode ex g (Core (Optional s))) = (decompose s)\<lparr>ps_absent := True\<rparr>"
| "decompose (ShapeNode ex g (Core Forbidden)) = \<lparr>ps_absent = True, ps_null = False, ps_rest = None\<rparr>"
| "decompose (ShapeNode ex g (Core (Nullable s))) = (decompose s)\<lparr>ps_null := True\<rparr>"
| "decompose (ShapeNode ex g (Core (Kind VK_Null))) = \<lparr>ps_absent = False, ps_null = True, ps_rest = None\<rparr>"
| "decompose (ShapeNode ex g (Core Equality)) =
     (if (case ex of Some e \<Rightarrow> is_null_example e | None \<Rightarrow> False)
      then \<lparr>ps_absent = False, ps_null = True, ps_rest = None\<rparr>
      else \<lparr>ps_absent = False, ps_null = False, ps_rest = Some (ShapeNode ex g (Core Equality))\<rparr>)"
| "decompose (ShapeNode ex g (Core (AnyOf options))) =
     (if JNull \<in> set options
      then (let rest = filter (\<lambda>x. x \<noteq> JNull) options in
            \<lparr>ps_absent = False, ps_null = True,
             ps_rest = (if rest = [] then None
               else Some (ShapeNode (Option.bind ex (\<lambda>e. if is_null_example e then None else Some e)) None
                 (Core (AnyOf rest))))\<rparr>)
      else \<lparr>ps_absent = False, ps_null = False, ps_rest = Some (ShapeNode ex g (Core (AnyOf options)))\<rparr>)"
| "decompose (ShapeNode ex g (Core Any)) =
     \<lparr>ps_absent = False, ps_null = True, ps_rest = Some (ShapeNode ex g (Core Any))\<rparr>"
| "decompose s = \<lparr>ps_absent = False, ps_null = False, ps_rest = Some s\<rparr>"

subsection \<open>Comparability classes and the small decidable questions\<close>

fun has_children :: "shape \<Rightarrow> bool" where
  "has_children (ShapeNode _ _ (Core c)) =
     (case c of
        Object _ \<Rightarrow> True | ArrayOf _ \<Rightarrow> True | EachLike _ _ _ \<Rightarrow> True | EachEntry _ _ _ _ \<Rightarrow> True
      | OneOf _ _ _ \<Rightarrow> True | Optional _ \<Rightarrow> True | Nullable _ \<Rightarrow> True | _ \<Rightarrow> False)"
| "has_children (ShapeNode _ _ (Component _ _)) = False"

fun is_opaque :: "shape \<Rightarrow> bool" where
  "is_opaque (ShapeNode _ _ (Component _ _)) = True"
| "is_opaque (ShapeNode _ _ (Core c)) = (case c of Contains _ \<Rightarrow> True | _ \<Rightarrow> False)"

definition is_conservative :: "core_shape \<Rightarrow> bool" where
  "is_conservative c =
     (case c of Regex _ \<Rightarrow> True | Temporal _ _ \<Rightarrow> True | Include _ \<Rightarrow> True | ContentType _ \<Rightarrow> True | _ \<Rightarrow> False)"

definition string_valued :: "core_shape \<Rightarrow> bool" where
  "string_valued c = (case c of Regex _ \<Rightarrow> True | Temporal _ _ \<Rightarrow> True | Include _ \<Rightarrow> True | _ \<Rightarrow> False)"

definition conservative_default :: "core_shape \<Rightarrow> core_shape \<Rightarrow> string" where
  "conservative_default pc cc =
     quote1 (core_operator_name pc) @ '' against '' @ quote1 (core_operator_name cc)
       @ '': conservative class, no guessing''"

definition conservative_reason :: "core_shape \<Rightarrow> core_shape \<Rightarrow> string" where
  "conservative_reason pc cc =
     (case (pc, cc) of
        (Regex _, Regex _) \<Rightarrow> ''two different regexes: conservative class, no guessing''
      | (Temporal k _, Temporal k' _) \<Rightarrow>
          if k = k'
          then ''two different '' @ temporal_kind_name k @ '' formats: conservative class, no guessing''
          else conservative_default pc cc
      | _ \<Rightarrow> conservative_default pc cc)"

datatype json_class =
    C_Null | C_Boolean | C_Number | C_String | C_Array | C_Object | C_Bytes

definition class_of_value :: "json \<Rightarrow> json_class" where
  "class_of_value v =
     (case v of
        JNull \<Rightarrow> C_Null | JBool _ \<Rightarrow> C_Boolean | JNumber _ \<Rightarrow> C_Number | JString _ \<Rightarrow> C_String
      | JArray _ \<Rightarrow> C_Array | JObject _ \<Rightarrow> C_Object)"

definition class_of_example :: "example \<Rightarrow> json_class" where
  "class_of_example ex = (if ex_encoded ex \<noteq> None then C_Bytes else class_of_value (ex_value ex))"

fun classes :: "shape \<Rightarrow> json_class list option" where
  "classes (ShapeNode ex g (Component _ _)) = None"
| "classes (ShapeNode ex g (Core c)) =
     (case c of
        Equality \<Rightarrow> map_option (\<lambda>e. [class_of_example e]) ex
      | Type \<Rightarrow> map_option (\<lambda>e. [class_of_example e]) ex
      | Kind k \<Rightarrow> Some [case k of VK_String \<Rightarrow> C_String | VK_Number \<Rightarrow> C_Number | VK_Integer \<Rightarrow> C_Number
                       | VK_Decimal \<Rightarrow> C_Number | VK_Boolean \<Rightarrow> C_Boolean | VK_Null \<Rightarrow> C_Null]
      | Regex _ \<Rightarrow> Some [C_String]
      | Temporal _ _ \<Rightarrow> Some [C_String]
      | Include _ \<Rightarrow> Some [C_String]
      | Semver \<Rightarrow> Some [C_String]
      | ContentType _ \<Rightarrow> Some [C_Bytes]
      | Object _ \<Rightarrow> Some [C_Object]
      | EachEntry _ _ _ _ \<Rightarrow> Some [C_Object]
      | ArrayOf _ \<Rightarrow> Some [C_Array]
      | EachLike _ _ _ \<Rightarrow> Some [C_Array]
      | Contains _ \<Rightarrow> Some [C_Array]
      | AnyOf options \<Rightarrow> Some (map class_of_value options)
      | OneOf _ alternatives _ \<Rightarrow>
          Some (C_Object # (if list_ex (\<lambda>(_, alt). ps_null (decompose alt)) alternatives then [C_Null] else []))
      | _ \<Rightarrow> None)"

definition disjoint_classes :: "shape \<Rightarrow> shape \<Rightarrow> bool" where
  "disjoint_classes p c =
     (case (classes p, classes c) of
        (Some ps, Some cs) \<Rightarrow> list_all (\<lambda>x. x \<notin> set cs) ps
      | _ \<Rightarrow> False)"

definition kind_subset :: "value_kind \<Rightarrow> value_kind \<Rightarrow> bool" where
  "kind_subset p c \<longleftrightarrow> p = c \<or> (p \<in> {VK_Integer, VK_Decimal} \<and> c = VK_Number)"

definition any_node :: shape where
  "any_node = ShapeNode None None (Core Any)"

fun desugar :: "shape \<Rightarrow> shape option" where
  "desugar (ShapeNode (Some e) g (Core Type)) =
     (if ex_encoded e \<noteq> None then None
      else Some (ShapeNode None None (Core
        (case ex_value e of
           JNull \<Rightarrow> Kind VK_Null
         | JBool _ \<Rightarrow> Kind VK_Boolean
         | JNumber _ \<Rightarrow> Kind VK_Number
         | JString _ \<Rightarrow> Kind VK_String
         | JObject _ \<Rightarrow> Object []
         | JArray _ \<Rightarrow> EachLike any_node 0 None))))"
| "desugar _ = None"

definition desugared :: "shape \<Rightarrow> shape" where
  "desugared s = (case desugar s of Some t \<Rightarrow> t | None \<Rightarrow> s)"

definition is_any :: "shape \<Rightarrow> bool" where
  "is_any s \<longleftrightarrow> sn_kind s = Core Any"

definition admits_anything_or_absence :: "shape \<Rightarrow> bool" where
  "admits_anything_or_absence s =
     (let d = decompose s in
      ps_absent d \<and> (case ps_rest d of None \<Rightarrow> False | Some rest \<Rightarrow> is_any rest))"

definition is_empty_json :: "json \<Rightarrow> bool" where
  "is_empty_json v =
     (case v of
        JNull \<Rightarrow> True | JString t \<Rightarrow> t = [] | JArray items \<Rightarrow> items = [] | JObject members \<Rightarrow> members = []
      | _ \<Rightarrow> False)"

definition is_empty_example :: "example \<Rightarrow> bool" where
  "is_empty_example ex =
     (if ex_encoded ex \<noteq> None then as_str (ex_value ex) = Some [] else is_empty_json (ex_value ex))"

fun admits_only_non_empty :: "shape \<Rightarrow> bool option" where
  "admits_only_non_empty (ShapeNode ex g (Component _ _)) = None"
| "admits_only_non_empty (ShapeNode ex g (Core c)) =
     (case c of
        Kind k \<Rightarrow> Some (k \<in> {VK_Number, VK_Integer, VK_Decimal, VK_Boolean})
      | Semver \<Rightarrow> Some True
      | Equality \<Rightarrow> map_option (\<lambda>e. \<not> is_empty_example e) ex
      | AnyOf options \<Rightarrow> Some (list_all (\<lambda>x. \<not> is_empty_json x) options)
      | ArrayOf entries \<Rightarrow> Some (entries \<noteq> [])
      | EachLike _ least _ \<Rightarrow> Some (1 \<le> least)
      | EachEntry _ _ least _ \<Rightarrow> Some (1 \<le> least)
      | Object members \<Rightarrow> Some (list_ex (\<lambda>(_, m). \<not> ps_absent (decompose m)) members)
      | _ \<Rightarrow> None)"

definition plain_example :: "example option \<Rightarrow> json option" where
  "plain_example ex = Option.bind ex (\<lambda>e. if ex_encoded e = None then Some (ex_value e) else None)"

fun enumerated :: "shape \<Rightarrow> json list option" where
  "enumerated (ShapeNode ex g (Component _ _)) = None"
| "enumerated (ShapeNode ex g (Core c)) =
     (case c of
        Kind k \<Rightarrow>
          (case k of
             VK_Null \<Rightarrow> Some [JNull] | VK_Boolean \<Rightarrow> Some [JBool True, JBool False] | _ \<Rightarrow> None)
      | Equality \<Rightarrow> map_option (\<lambda>v. [v]) (plain_example ex)
      | AnyOf options \<Rightarrow> Some options
      | ArrayOf entries \<Rightarrow> if entries = [] then Some [JArray []] else None
      | _ \<Rightarrow> None)"

definition kind_of_literal :: "value_kind \<Rightarrow> json \<Rightarrow> bool" where
  "kind_of_literal k v =
     (case v of
        JString _ \<Rightarrow> k = VK_String
      | JNumber n \<Rightarrow> k = VK_Number \<or> (k = VK_Integer \<and> is_written_integer n)
          \<or> (k = VK_Decimal \<and> \<not> is_written_integer n)
      | JBool _ \<Rightarrow> k = VK_Boolean
      | JNull \<Rightarrow> k = VK_Null
      | _ \<Rightarrow> False)"

fun admits_value :: "lib \<Rightarrow> shape \<Rightarrow> json \<Rightarrow> bool option" where
  "admits_value L (ShapeNode ex g (Core Any)) v = Some True"
| "admits_value L (ShapeNode ex g (Core (Kind k))) v = Some (kind_of_literal k v)"
| "admits_value L (ShapeNode ex g (Core Equality)) v = map_option (\<lambda>e. value_eq e v) (plain_example ex)"
| "admits_value L (ShapeNode ex g (Core (AnyOf options))) v = Some (list_ex (\<lambda>x. value_eq x v) options)"
| "admits_value L (ShapeNode ex g (Core NotEmpty)) v = Some (\<not> is_empty_json v)"
| "admits_value L (ShapeNode ex g (Core Semver)) v =
     Some (case v of JString t \<Rightarrow> semver_parses L t | _ \<Rightarrow> False)"
| "admits_value L (ShapeNode ex g (Core (Optional s))) v = admits_value L s v"
| "admits_value L (ShapeNode ex g (Core (Nullable s))) v = (if v = JNull then Some True else admits_value L s v)"
| "admits_value L (ShapeNode ex g (Core Forbidden)) v = Some False"
| "admits_value L _ v = None"

definition admits_example :: "lib \<Rightarrow> shape \<Rightarrow> example \<Rightarrow> bool option" where
  "admits_example L s ex = (if ex_encoded ex \<noteq> None then None else admits_value L s (ex_value ex))"

text \<open>Membership decided by the engine's own matcher: the node as the only slot of an interaction.\<close>

definition membership_host :: "json \<Rightarrow> host" where
  "membership_host v =
     \<lparr>h_resolve = captured_resolve (capture ''$.subsumption.value'' (rv_from_json v) []),
      h_content = None, h_actions = None\<rparr>"

definition matched_by :: "lib \<Rightarrow> shape \<Rightarrow> json \<Rightarrow> bool" where
  "matched_by L s v =
     (fst (outcome (execute_with L (membership_host v)
        (compile_plan L \<lparr>in_description = ''membership'', in_parts = [(''subsumption'', [(''value'', s)])]\<rparr>
           [] None))) = Matched)"

subsection \<open>Discriminated unions\<close>

definition decomposed_literals :: "shape \<Rightarrow> string \<Rightarrow> json list" where
  "decomposed_literals alternative disc =
     (case ps_rest (decompose alternative) of
        Some (ShapeNode _ _ (Core (Object members))) \<Rightarrow>
          (case map_of members disc of
             Some (ShapeNode ex _ (Core Equality)) \<Rightarrow>
               (case plain_example ex of Some v \<Rightarrow> [v] | None \<Rightarrow> [])
           | Some (ShapeNode _ _ (Core (AnyOf options))) \<Rightarrow> options
           | _ \<Rightarrow> [])
      | _ \<Rightarrow> [])"

definition literal_key :: "lib \<Rightarrow> json \<Rightarrow> string" where
  "literal_key L v =
     (case v of JNumber n \<Rightarrow> ''n:'' @ f64_text (as_f64 n) | other \<Rightarrow> json_text L other)"

definition by_discriminator :: "lib \<Rightarrow> shape smap \<Rightarrow> string \<Rightarrow> (string \<times> shape) smap" where
  "by_discriminator L alternatives disc =
     foldl (\<lambda>m (name, alternative).
         foldl (\<lambda>m v. btree_insert (literal_key L v) (name, alternative) m) m
           (decomposed_literals alternative disc))
       [] alternatives"

text \<open>The one alternative the literals name, when they name one.\<close>

definition matched_names :: "lib \<Rightarrow> (string \<times> shape) smap \<Rightarrow> json list \<Rightarrow> string list" where
  "matched_names L by_literal literals =
     remdups (map fst (List.map_filter (\<lambda>v. map_of by_literal (literal_key L v)) literals))"

definition matched_alternative :: "(string \<times> shape) smap \<Rightarrow> string \<Rightarrow> shape option" where
  "matched_alternative by_literal name =
     map_option snd (List.find (\<lambda>(candidate, _). candidate = name) (map snd by_literal))"

subsection \<open>The identity floor\<close>

text \<open>Identical in everything \<open>admits\<close> depends on: a generator never matters, and an example only to
  \<open>equality\<close> and \<open>type\<close>.\<close>

function (sequential) same_admits :: "shape \<Rightarrow> shape \<Rightarrow> bool" where
  "same_admits (ShapeNode pe pg (Component operator raw)) c =
     (case sn_kind c of
        Component operator' raw' \<Rightarrow> operator = operator' \<and> json_eq (JObject raw) (JObject raw')
      | _ \<Rightarrow> False)"
| "same_admits (ShapeNode pe pg (Core Equality)) c =
     (case (sn_kind c, pe, sn_example c) of
        (Core Equality, Some a, Some b) \<Rightarrow>
          ex_encoded a = ex_encoded b \<and> value_eq (ex_value a) (ex_value b)
      | _ \<Rightarrow> False)"
| "same_admits (ShapeNode pe pg (Core Type)) c =
     (case (sn_kind c, pe, sn_example c) of
        (Core Type, Some a, Some b) \<Rightarrow> class_of_example a = class_of_example b
      | _ \<Rightarrow> False)"
| "same_admits (ShapeNode pe pg (Core (Object ms))) c =
     (case sn_kind c of
        Core (Object ms') \<Rightarrow>
          length ms = length ms'
          \<and> list_all (\<lambda>(name, m). case map_of ms' name of Some m' \<Rightarrow> same_admits m m' | None \<Rightarrow> False) ms
      | _ \<Rightarrow> False)"
| "same_admits (ShapeNode pe pg (Core (ArrayOf es))) c =
     (case sn_kind c of
        Core (ArrayOf es') \<Rightarrow> length es = length es' \<and> list_all (\<lambda>(e, e'). same_admits e e') (zip es es')
      | _ \<Rightarrow> False)"
| "same_admits (ShapeNode pe pg (Core (Contains es))) c =
     (case sn_kind c of
        Core (Contains es') \<Rightarrow> length es = length es' \<and> list_all (\<lambda>(e, e'). same_admits e e') (zip es es')
      | _ \<Rightarrow> False)"
| "same_admits (ShapeNode pe pg (Core (EachLike s least most))) c =
     (case sn_kind c of
        Core (EachLike s' least' most') \<Rightarrow> least = least' \<and> most = most' \<and> same_admits s s'
      | _ \<Rightarrow> False)"
| "same_admits (ShapeNode pe pg (Core (EachEntry ks vs least most))) c =
     (case sn_kind c of
        Core (EachEntry ks' vs' least' most') \<Rightarrow>
          least = least' \<and> most = most'
          \<and> (case ks of
                None \<Rightarrow> ks' = None
              | Some k \<Rightarrow> (case ks' of Some k' \<Rightarrow> same_admits k k' | None \<Rightarrow> False))
          \<and> same_admits vs vs'
      | _ \<Rightarrow> False)"
| "same_admits (ShapeNode pe pg (Core (Optional s))) c =
     (case sn_kind c of Core (Optional s') \<Rightarrow> same_admits s s' | _ \<Rightarrow> False)"
| "same_admits (ShapeNode pe pg (Core (Nullable s))) c =
     (case sn_kind c of Core (Nullable s') \<Rightarrow> same_admits s s' | _ \<Rightarrow> False)"
| "same_admits (ShapeNode pe pg (Core (AnyOf options))) c =
     (case sn_kind c of
        Core (AnyOf options') \<Rightarrow>
          length options = length options' \<and> list_all (\<lambda>x. list_ex (\<lambda>y. value_eq x y) options') options
      | _ \<Rightarrow> False)"
| "same_admits (ShapeNode pe pg (Core (OneOf disc alts dflt))) c =
     (case sn_kind c of
        Core (OneOf disc' alts' _) \<Rightarrow>
          disc = disc' \<and> length alts = length alts'
          \<and> list_all (\<lambda>((name, a), (name', a')). name = name' \<and> same_admits a a') (zip alts alts')
      | _ \<Rightarrow> False)"
| "same_admits (ShapeNode pe pg (Core leaf)) c = (sn_kind c = Core leaf)"
  by pat_completeness auto
termination
  by (relation "measure (\<lambda>(p, c). size p)")
    (auto simp: less_Suc_eq_le intro: size_list_estimation' smap_size_le le_SucI dest!: set_zip_leftD)

end
