(* ===== verification/Sub_Walk.thy ===== *)
theory Sub_Walk
  imports Subsumption
begin

text \<open>
  The walk of engine/kernel/src/subsumption/compare.rs, \<open>Walk\<close>: the arms that compare two operators,
  each given the walk of a pair of children (\<open>node\<close>), and the walk itself.
\<close>

type_synonym node_walk = "shape \<Rightarrow> shape \<Rightarrow> string \<Rightarrow> out"

subsection \<open>The coverage caveat\<close>

definition caveats_under :: "recorded_exclusion list \<Rightarrow> string \<Rightarrow> bool" where
  "caveats_under E at =
     list_ex (\<lambda>x. list_ex (\<lambda>path. length at < length path \<and> starts_with path at) (rx_paths x)) E"

definition floor_stands :: "recorded_exclusion list \<Rightarrow> shape \<Rightarrow> string \<Rightarrow> bool" where
  "floor_stands E s at \<longleftrightarrow> \<not> has_children s \<or> \<not> caveats_under E at"

definition advisory_reason :: string where
  "advisory_reason =
     ''admitted by the consumer'' @ [CHR 0x27] @ ''s shape '' @ [CHR 0xE2, CHR 0x80, CHR 0x94]
       @ '' reported only because an exercised-coverage caveat applies (spec '' @ [CHR 0xC2, CHR 0xA7] @ ''5)''"

definition caveat :: "lib \<Rightarrow> recorded_exclusion list \<Rightarrow> out \<Rightarrow> shape \<Rightarrow> shape \<Rightarrow> string \<Rightarrow> out" where
  "caveat L E r p c at =
     (let documents = map rx_document (filter (\<lambda>x. at \<in> set (rx_paths x)) E) in
      if documents = [] then r
      else if list_ex (\<lambda>f. fg_path f = at) (out_findings r) \<or> out_verdict r \<noteq> Yes
      then r\<lparr>out_findings := map (\<lambda>f. if fg_path f = at then f\<lparr>fg_excluded_by := documents\<rparr> else f) (out_findings r)\<rparr>
      else r\<lparr>out_findings := out_findings r
             @ [(advisory at (describe L p) (describe L c) advisory_reason)\<lparr>fg_excluded_by := documents\<rparr>]\<rparr>)"

subsection \<open>Leaves of the recursion\<close>

definition unreviewed :: "lib \<Rightarrow> shape \<Rightarrow> shape \<Rightarrow> string \<Rightarrow> string \<Rightarrow> out" where
  "unreviewed L p c at reason = out_unknown (unreviewable at (describe L p) (describe L c) reason)"

definition against :: "shape \<Rightarrow> shape \<Rightarrow> string" where
  "against p c = quote1 (shape_operator p) @ '' against '' @ quote1 (shape_operator c)"

definition bound_text :: "nat option \<Rightarrow> string" where
  "bound_text most = (case most of Some m \<Rightarrow> nat_text m | None \<Rightarrow> ''unbounded'')"

definition interval_within :: "nat \<Rightarrow> nat option \<Rightarrow> nat \<Rightarrow> nat option \<Rightarrow> bool" where
  "interval_within p_min p_max c_min c_max \<longleftrightarrow>
     c_min \<le> p_min
     \<and> (case (p_max, c_max) of (_, None) \<Rightarrow> True | (None, Some _) \<Rightarrow> False | (Some p, Some c) \<Rightarrow> p \<le> c)"

definition cardinality_out ::
  "nat \<Rightarrow> nat option \<Rightarrow> nat \<Rightarrow> nat option \<Rightarrow> string \<Rightarrow> string \<Rightarrow> out" where
  "cardinality_out p_min p_max c_min c_max at unit =
     (if interval_within p_min p_max c_min c_max then out_yes
      else
        let phrase = (if unit = ''entries'' then cardinality_entries_phrase else cardinality_phrase);
            reason =
              (if p_min < c_min \<and> p_min = 0
               then ''the empty array is admitted by the provider, not by the consumer''
               else if p_min < c_min
               then ''the provider admits as few as '' @ nat_text p_min @ '' '' @ unit
                 @ ''; the consumer declared at least '' @ nat_text c_min
               else ''the provider'' @ [CHR 0x27] @ ''s upper bound is outside the consumer'' @ [CHR 0x27] @ ''s: ''
                 @ bound_text p_max @ '' vs '' @ bound_text c_max)
        in out_no (wider_cardinality at (phrase p_min p_max) (phrase c_min c_max) reason))"

definition literal_set :: "lib \<Rightarrow> shape \<Rightarrow> shape \<Rightarrow> json list \<Rightarrow> string \<Rightarrow> out" where
  "literal_set L p c options at =
     (case enumerated p of
        Some vs \<Rightarrow>
          if list_all (\<lambda>v. list_ex (\<lambda>x. value_eq x v) options) vs then out_yes
          else out_no (wider_values at (describe L p) (describe L c)
            (''the provider may produce a value outside the consumer'' @ [CHR 0x27] @ ''s option set''))
      | None \<Rightarrow>
          out_no (wider_values at (describe L p) (describe L c)
            (''the provider'' @ [CHR 0x27]
              @ ''s shape admits unboundedly many values; the consumer declared a finite set'')))"

definition not_empty_out :: "lib \<Rightarrow> shape \<Rightarrow> shape \<Rightarrow> string \<Rightarrow> out" where
  "not_empty_out L p c at =
     (case admits_only_non_empty p of
        Some True \<Rightarrow> out_yes
      | Some False \<Rightarrow>
          out_no (wider_cardinality at (describe L p) (describe L c)
            ''the provider may produce an empty value; the consumer tested only non-empty ones'')
      | None \<Rightarrow>
          unreviewed L p c at
            (quote1 (shape_operator p) @ '' against '' @ quote1 ''not-empty''
              @ '': emptiness not decidable here''))"

definition equality_out :: "lib \<Rightarrow> shape \<Rightarrow> shape \<Rightarrow> string \<Rightarrow> out" where
  "equality_out L p c at =
     (case Option.bind (sn_example p) (admits_example L c) of
        Some True \<Rightarrow> out_yes
      | Some False \<Rightarrow>
          out_no (wider_values at (describe L p) (describe L c)
            (''the provider'' @ [CHR 0x27] @ ''s value is not admitted by the consumer'' @ [CHR 0x27] @ ''s shape''))
      | None \<Rightarrow>
          unreviewed L p c at
            (''a literal against '' @ quote1 (shape_operator c) @ '': membership not decidable without matching''))"

definition any_of_out :: "lib \<Rightarrow> shape \<Rightarrow> json list \<Rightarrow> shape \<Rightarrow> string \<Rightarrow> out" where
  "any_of_out L p options c at =
     (let decided = map (admits_value L c) options in
      if Some False \<in> set decided
      then out_no (wider_values at (describe L p) (describe L c)
        (case sn_kind c of
           Core (AnyOf c_options) \<Rightarrow>
             nat_text (length options) @ '' options vs '' @ nat_text (length c_options) @ ''; finite sets, exact''
         | _ \<Rightarrow> ''an option the consumer'' @ [CHR 0x27] @ ''s shape does not admit''))
      else if None \<in> set decided
      then unreviewed L p c at
        (''a literal set against '' @ quote1 (shape_operator c) @ '': membership not decidable without matching'')
      else out_yes)"

definition consumer_equality_out :: "lib \<Rightarrow> shape \<Rightarrow> shape \<Rightarrow> string \<Rightarrow> out" where
  "consumer_equality_out L p c at =
     (case plain_example (sn_example c) of
        None \<Rightarrow>
          unreviewed L p c at
            (''the consumer'' @ [CHR 0x27] @ ''s `equality` carries no comparable example'')
      | Some v \<Rightarrow> literal_set L p c [v] at)"

definition kind_out :: "lib \<Rightarrow> shape \<Rightarrow> value_kind \<Rightarrow> shape \<Rightarrow> value_kind \<Rightarrow> string \<Rightarrow> out" where
  "kind_out L p p_kind c c_kind at =
     (if kind_subset p_kind c_kind then out_yes
      else out_no (broader_type at (describe L p) (describe L c)
        (''kind lattice: '' @ value_kind_name c_kind @ '' subset of '' @ value_kind_name p_kind @ '', exact'')))"

subsection \<open>Composites\<close>

definition object_out :: "node_walk \<Rightarrow> lib \<Rightarrow> shape smap \<Rightarrow> shape smap \<Rightarrow> string \<Rightarrow> out" where
  "object_out f L p_members c_members at =
     out_all out_yes (map (\<lambda>(name, c_member).
         case map_of p_members name of
           Some p_member \<Rightarrow> f p_member c_member (path_member at name)
         | None \<Rightarrow>
             if admits_anything_or_absence c_member then out_yes
             else out_no (undeclared_member (path_member at name) (describe L c_member)))
       (members_by_name c_members))"

definition array_out ::
  "node_walk \<Rightarrow> lib \<Rightarrow> shape \<Rightarrow> shape list \<Rightarrow> shape \<Rightarrow> shape list \<Rightarrow> string \<Rightarrow> out" where
  "array_out f L p p_entries c c_entries at =
     (if length p_entries \<noteq> length c_entries
      then out_no (wider_cardinality at (describe L p) (describe L c)
        (nat_text (length p_entries) @ '' positions vs '' @ nat_text (length c_entries)
          @ ''; positions the shorter side lacks have no comparison to make''))
      else out_all out_yes (map (\<lambda>(index, p_entry, c_entry). f p_entry c_entry (path_array_index at index))
        (List.enumerate 0 (zip p_entries c_entries))))"

definition alternatives_out :: "node_walk \<Rightarrow> shape smap \<Rightarrow> shape \<Rightarrow> string \<Rightarrow> out" where
  "alternatives_out f alternatives c at =
     out_all out_yes (map (\<lambda>(name, alternative). f alternative c (path_alternative at name)) alternatives)"

definition one_of_pair ::
  "node_walk \<Rightarrow> lib \<Rightarrow> shape \<Rightarrow> string \<Rightarrow> shape smap \<Rightarrow> shape \<Rightarrow> string \<Rightarrow> shape smap \<Rightarrow> string \<Rightarrow> out" where
  "one_of_pair f L p p_disc p_alternatives c c_disc c_alternatives at =
     (if p_disc \<noteq> c_disc
      then unreviewed L p c at
        (''the two unions are discriminated on different members ('' @ quote1 p_disc @ '' and '' @ quote1 c_disc @ '')'')
      else
        let by_literal = by_discriminator L c_alternatives c_disc in
        out_all out_yes (map (\<lambda>(p_name, p_alternative).
          let literals = decomposed_literals p_alternative p_disc;
              found = (case matched_names L by_literal literals of
                         [name] \<Rightarrow> map_option (Pair name) (matched_alternative by_literal name)
                       | _ \<Rightarrow> None)
          in case found of
               Some (name, c_alternative) \<Rightarrow> f p_alternative c_alternative (path_alternative at name)
             | None \<Rightarrow>
                 out_no (wider_values (path_alternative at p_name) (describe L p_alternative) (describe L c)
                   (''the provider may produce the '' @ quote1 p_disc @ '' value(s) '' @ literals_phrase L literals
                     @ '' , which the consumer'' @ [CHR 0x27] @ ''s contract names no alternative for'')))
          p_alternatives))"

definition inside_alternative ::
  "node_walk \<Rightarrow> lib \<Rightarrow> shape \<Rightarrow> shape \<Rightarrow> string \<Rightarrow> shape smap \<Rightarrow> string \<Rightarrow> out" where
  "inside_alternative f L p c disc alternatives at =
     (let by_literal = by_discriminator L alternatives disc;
          found = (case matched_names L by_literal (decomposed_literals p disc) of
                     [name] \<Rightarrow> map_option (Pair name) (matched_alternative by_literal name)
                   | _ \<Rightarrow> None)
      in case found of
           Some (name, alternative) \<Rightarrow> f p alternative (path_alternative at name)
         | None \<Rightarrow>
             unreviewed L p c at
               (''the provider'' @ [CHR 0x27] @ ''s shape does not bind '' @ quote1 disc
                 @ '' to one alternative'' @ [CHR 0x27]
                 @ ''s literal, so which alternative it must be inside is not decidable here''))"

subsection \<open>The exact class\<close>

definition any_of_options :: "core_shape \<Rightarrow> json list option" where
  "any_of_options c = (case c of AnyOf options \<Rightarrow> Some options | _ \<Rightarrow> None)"

definition not_empty_reason :: string where
  "not_empty_reason =
     quote1 ''not-empty'' @ '' admits a non-empty value of every kind; the consumer'' @ [CHR 0x27]
       @ ''s shape admits one kind''"

definition semver_reason :: string where
  "semver_reason = ''the provider may produce any string; the consumer tested only semantic versions''"

definition no_containment_reason :: "shape \<Rightarrow> shape \<Rightarrow> string" where
  "no_containment_reason p c = against p c @ '': this checker decides no containment for the pair''"

text \<open>The last arms: two kinds, or \<open>semver\<close> and \<open>string\<close>.\<close>

definition exact_kinds :: "lib \<Rightarrow> shape \<Rightarrow> core_shape \<Rightarrow> shape \<Rightarrow> core_shape \<Rightarrow> string \<Rightarrow> out" where
  "exact_kinds L p pc c cc at =
     (case (pc, cc) of
        (Kind p_kind, Kind c_kind) \<Rightarrow> kind_out L p p_kind c c_kind at
      | (Semver, Kind VK_String) \<Rightarrow> out_yes
      | (Kind VK_String, Semver) \<Rightarrow>
          out_no (broader_type at (describe L p) (describe L c) semver_reason)
      | _ \<Rightarrow> unreviewed L p c at (no_containment_reason p c))"

text \<open>The pairs that compare no children, in the order of the arms.\<close>

definition exact_leaves :: "lib \<Rightarrow> shape \<Rightarrow> core_shape \<Rightarrow> shape \<Rightarrow> core_shape \<Rightarrow> string \<Rightarrow> out" where
  "exact_leaves L p pc c cc at =
     (if cc = NotEmpty then not_empty_out L p c at
      else if pc = NotEmpty
      then out_no (broader_type at (describe L p) (describe L c) not_empty_reason)
      else if pc = Equality then equality_out L p c at
      else case any_of_options pc of
        Some options \<Rightarrow> any_of_out L p options c at
      | None \<Rightarrow>
          if cc = Equality then consumer_equality_out L p c at
          else (case any_of_options cc of
                  Some options \<Rightarrow> literal_set L p c options at
                | None \<Rightarrow> exact_kinds L p pc c cc at))"

definition exact :: "node_walk \<Rightarrow> lib \<Rightarrow> shape \<Rightarrow> core_shape \<Rightarrow> shape \<Rightarrow> core_shape \<Rightarrow> string \<Rightarrow> out" where
  "exact f L p pc c cc at =
     (case (pc, cc) of
        (OneOf p_disc p_alts _, OneOf c_disc c_alts _) \<Rightarrow> one_of_pair f L p p_disc p_alts c c_disc c_alts at
      | (OneOf _ alternatives _, _) \<Rightarrow> alternatives_out f alternatives c at
      | (_, OneOf disc alternatives _) \<Rightarrow> inside_alternative f L p c disc alternatives at
      | (Object p_members, Object c_members) \<Rightarrow> object_out f L p_members c_members at
      | (ArrayOf p_entries, ArrayOf c_entries) \<Rightarrow> array_out f L p p_entries c c_entries at
      | (EachLike p_items p_min p_max, EachLike c_items c_min c_max) \<Rightarrow>
          out_and (cardinality_out p_min p_max c_min c_max at ''elements'')
            (f p_items c_items (each_like_item at))
      | (EachLike items p_min p_max, ArrayOf entries) \<Rightarrow>
          out_all (cardinality_out p_min p_max (length entries) (Some (length entries)) at ''elements'')
            (map (\<lambda>(index, e). f items e (path_array_index at index)) (List.enumerate 0 entries))
      | (ArrayOf entries, EachLike items c_min c_max) \<Rightarrow>
          out_all (cardinality_out (length entries) (Some (length entries)) c_min c_max at ''elements'')
            (map (\<lambda>(index, e). f e items (path_array_index at index)) (List.enumerate 0 entries))
      | (EachEntry p_keys p_vals p_min p_max, EachEntry c_keys c_vals c_min c_max) \<Rightarrow>
          out_and
            (out_and (cardinality_out p_min p_max c_min c_max at ''entries'')
              (f (case p_keys of Some k \<Rightarrow> k | None \<Rightarrow> any_node) (case c_keys of Some k \<Rightarrow> k | None \<Rightarrow> any_node)
                (each_entry_key at)))
            (f p_vals c_vals (each_entry_value at))
      | _ \<Rightarrow> exact_leaves L p pc c cc at)"

subsection \<open>The operator table and the node\<close>

text \<open>The table, for two core operators past the floor.\<close>

definition operator_table ::
  "node_walk \<Rightarrow> lib \<Rightarrow> shape \<Rightarrow> core_shape \<Rightarrow> shape \<Rightarrow> core_shape \<Rightarrow> string \<Rightarrow> out" where
  "operator_table f L p pc c cc at =
    (if cc = Any then out_yes
     else if pc = Any
     then out_no (broader_type at (describe L p) (describe L c)
       (''the provider'' @ [CHR 0x27] @ ''s shape admits every value; the consumer'' @ [CHR 0x27] @ ''s does not''))
     else if disjoint_classes p c
     then out_no (broader_type at (describe L p) (describe L c)
       ''the two shapes admit values of disjoint kinds'')
     else if is_conservative pc \<or> is_conservative cc
     then
       (if is_conservative pc \<and> string_valued pc \<and> cc = Kind VK_String then out_yes
        else case (if string_valued cc then enumerated p else None) of
          Some vs \<Rightarrow>
            let outside = filter (\<lambda>v. \<not> matched_by L c v) vs in
            if outside = [] then out_yes
            else out_no (wider_values at (describe L p) (describe L c)
              (''the consumer'' @ [CHR 0x27] @ ''s '' @ core_operator_name cc @ '' does not admit ''
                @ join_with '', '' (map (json_text L) outside)))
        | None \<Rightarrow> unreviewed L p c at (conservative_reason pc cc))
     else exact f L p pc c cc at)"

definition operators :: "node_walk \<Rightarrow> lib \<Rightarrow> recorded_exclusion list \<Rightarrow> shape \<Rightarrow> shape \<Rightarrow> string \<Rightarrow> out" where
  "operators f L E p c at =
     (if same_admits p c \<and> floor_stands E p at then out_yes
      else if is_opaque p \<or> is_opaque c
      then unreviewed L p c at (against p c @ '': opaque class, no containment procedure'')
      else
        let p = desugared p; c = desugared c in
        if same_admits p c \<and> floor_stands E p at then out_yes
        else case (sn_kind p, sn_kind c) of
          (Core pc, Core cc) \<Rightarrow> operator_table f L p pc c cc at
        | _ \<Rightarrow> unreviewed L p c at ''component operator'')"

definition presence_reason :: "bool \<Rightarrow> bool \<Rightarrow> string" where
  "presence_reason absence nul =
     (if absence \<and> nul
      then ''the provider admits absence and null; the consumer'' @ [CHR 0x27] @ ''s shape admits neither''
      else if absence
      then ''the provider admits absence (optional); the consumer'' @ [CHR 0x27] @ ''s shape does not''
      else ''the provider admits null; the consumer'' @ [CHR 0x27] @ ''s shape does not'')"

definition value_node :: "node_walk \<Rightarrow> lib \<Rightarrow> recorded_exclusion list \<Rightarrow> shape \<Rightarrow> shape \<Rightarrow> string \<Rightarrow> out" where
  "value_node f L E p c at =
     (if same_admits p c \<and> floor_stands E p at then out_yes
      else
        let provider = decompose p; consumer = decompose c;
            widened_absence = (ps_absent provider \<and> \<not> ps_absent consumer);
            widened_null = (ps_null provider \<and> \<not> ps_null consumer);
            presence =
              (if widened_absence \<or> widened_null
               then out_no (weaker_presence at (describe L p)
                 (if widened_absence then describe_present L c else describe L c)
                 (presence_reason widened_absence widened_null))
               else out_yes)
        in case (ps_rest provider, ps_rest consumer) of
             (None, _) \<Rightarrow> presence
           | (Some p_rest, None) \<Rightarrow>
               out_and presence (out_no (weaker_presence at (describe L p_rest) (describe L c)
                 (''the provider may produce a value where the consumer'' @ [CHR 0x27] @ ''s shape admits none'')))
           | (Some p_rest, Some c_rest) \<Rightarrow> out_and presence (operators f L E p_rest c_rest at))"

subsection \<open>The walk\<close>

text \<open>The weight of a node: a \<open>type\<close> weighs more than what it is rewritten to.\<close>

function weight :: "shape \<Rightarrow> nat" where
  "weight s = (if sn_kind s = Core Type then 8 else Suc (sum_list (map weight (shape_children s))))"
  by pat_completeness auto
termination
  by (relation "measure size") (auto simp: shape_children_size)

declare weight.simps [simp del]

lemma weight_child: "c \<in> set (shape_children s) \<Longrightarrow> weight c < weight s"
proof -
  assume c: "c \<in> set (shape_children s)"
  then have "sn_kind s \<noteq> Core Type" by (cases s; cases "sn_kind s") auto
  moreover from c have "weight c \<le> sum_list (map weight (shape_children s))"
    by (intro member_le_sum_list) auto
  ultimately show ?thesis by (simp add: weight.simps [of s])
qed

lemma weight_pos [simp]: "0 < weight s"
  by (simp add: weight.simps [of s])

lemma weight_any [simp]: "weight any_node = 1"
  by (simp add: weight.simps any_node_def)

lemma weight_desugared: "weight (desugared s) \<le> weight s"
proof (cases "desugar s")
  case (Some t)
  then obtain e g where s: "s = ShapeNode (Some e) g (Core Type)" and t: "desugar s = Some t"
    by (auto elim: desugar.elims)
  then have "weight t \<le> 8" by (cases "ex_value e") (auto simp: weight.simps any_node_def split: if_splits)
  then show ?thesis using Some by (simp add: desugared_def s weight.simps)
qed (simp add: desugared_def)

lemma weight_rest: "ps_rest (decompose s) = Some t \<Longrightarrow> weight t \<le> weight s"
proof (induction s arbitrary: t rule: decompose.induct)
  case (1 ex g s)
  then show ?case using weight_child [of s "ShapeNode ex g (Core (Optional s))"] by fastforce
next
  case (3 ex g s)
  then show ?case using weight_child [of s "ShapeNode ex g (Core (Nullable s))"] by fastforce
next
  case (6 ex g options)
  then show ?case by (auto simp: Let_def weight.simps split: if_splits)
qed (auto split: if_splits)

text \<open>Every call of the walk an arm makes is on a lighter pair.\<close>

definition walk_agrees :: "nat \<Rightarrow> node_walk \<Rightarrow> node_walk \<Rightarrow> bool" where
  "walk_agrees n f g \<longleftrightarrow> (\<forall>p c at. weight p + weight c < n \<longrightarrow> f p c at = g p c at)"

lemma walk_agreesD: "walk_agrees n f g \<Longrightarrow> weight p + weight c < n \<Longrightarrow> f p c at = g p c at"
  by (simp add: walk_agrees_def)

lemma weight_member:
  "(n, m) \<in> set ms \<Longrightarrow> weight m < weight (ShapeNode ex g (Core (Object ms)))"
  "e \<in> set es \<Longrightarrow> weight e < weight (ShapeNode ex g (Core (ArrayOf es)))"
  "weight s < weight (ShapeNode ex g (Core (EachLike s least most)))"
  "weight v < weight (ShapeNode ex g (Core (EachEntry k v least most)))"
  "weight (case k of Some x \<Rightarrow> x | None \<Rightarrow> any_node) < weight (ShapeNode ex g (Core (EachEntry k v least most)))"
  "(n, a) \<in> set as \<Longrightarrow> weight a < weight (ShapeNode ex g (Core (OneOf d as df)))"
proof -
  show "weight (case k of Some x \<Rightarrow> x | None \<Rightarrow> any_node) < weight (ShapeNode ex g (Core (EachEntry k v least most)))"
  proof (cases k)
    case None
    have "weight v < weight (ShapeNode ex g (Core (EachEntry k v least most)))"
      by (rule weight_child) (simp add: None)
    then have "1 < weight (ShapeNode ex g (Core (EachEntry k v least most)))" using weight_pos [of v] by linarith
    then show ?thesis by (simp add: None)
  qed (auto intro: weight_child)
qed (rule weight_child, force split: option.splits)+

lemma set_btree_insert: "set (btree_insert k v m) \<subseteq> insert (k, v) (set m)"
  by (induction k v m rule: btree_insert.induct) auto

lemma by_discriminator_member:
  assumes "(key, entry) \<in> set (by_discriminator L alternatives disc)"
  shows "entry \<in> set alternatives"
proof -
  let ?add = "\<lambda>m (name, alternative). foldl (\<lambda>m v. btree_insert (literal_key L v) (name, alternative) m) m
    (decomposed_literals alternative disc)"
  have one: "snd ` set (foldl (\<lambda>m v. btree_insert (literal_key L v) e m) m vs) \<subseteq> insert e (snd ` set m)"
    for e :: "string \<times> shape" and m and vs :: "json list"
  proof (induction vs arbitrary: m)
    case (Cons v vs)
    have "snd ` set (btree_insert (literal_key L v) e m) \<subseteq> insert e (snd ` set m)"
      using set_btree_insert [of "literal_key L v" e m] by auto
    with Cons [of "btree_insert (literal_key L v) e m"] show ?case by auto
  qed auto
  have "snd ` set (foldl ?add m as) \<subseteq> snd ` set m \<union> set as"
    for m :: "(string \<times> shape) smap" and as
  proof (induction as arbitrary: m)
    case (Cons a as)
    obtain name alt where a: "a = (name, alt)" by (cases a)
    have "snd ` set (?add m a) \<subseteq> insert a (snd ` set m)" using one [of "(name, alt)" m] by (simp add: a)
    moreover have "snd ` set (foldl ?add m (a # as)) \<subseteq> snd ` set (?add m a) \<union> set as"
      using Cons [of "?add m a"] by simp
    ultimately show ?case by (simp only: list.set) blast
  qed simp
  from this [of "[]" alternatives] assms show ?thesis by (force simp: by_discriminator_def)
qed

lemma matched_alternative_member:
  "matched_alternative (by_discriminator L alternatives disc) name = Some a \<Longrightarrow> (name, a) \<in> set alternatives"
  by (auto simp: matched_alternative_def dest!: find_SomeD) (metis by_discriminator_member)

lemma found_member:
  assumes "(case names of [name] \<Rightarrow> map_option (Pair name) (matched_alternative (by_discriminator L alternatives disc) name)
      | _ \<Rightarrow> None) = Some (n, a)"
  shows "(n, a) \<in> set alternatives"
  using assms by (auto split: list.splits dest: matched_alternative_member)

lemma out_all_cong: "(\<And>x. x \<in> set xs \<Longrightarrow> h x = k x) \<Longrightarrow> out_all start (map h xs) = out_all start (map k xs)"
  by (simp cong: map_cong)

lemma object_cong:
  assumes "walk_agrees (weight (ShapeNode pe pg (Core (Object pm))) + weight (ShapeNode ce cg (Core (Object cm)))) f g"
  shows "object_out f L pm cm at = object_out g L pm cm at"
  unfolding object_out_def
proof (rule out_all_cong, clarsimp split: option.splits)
  fix name c p
  assume "(name, c) \<in> set (members_by_name cm)" and "map_of pm name = Some p"
  then have "weight c < weight (ShapeNode ce cg (Core (Object cm)))" "weight p < weight (ShapeNode pe pg (Core (Object pm)))"
    by (auto simp: members_by_name_def intro: weight_member dest: map_of_SomeD)
  then show "f p c (path_member at name) = g p c (path_member at name)" by (intro walk_agreesD [OF assms]) simp
qed

lemma array_cong:
  assumes "walk_agrees (weight (ShapeNode pe pg (Core (ArrayOf ps))) + weight (ShapeNode ce cg (Core (ArrayOf cs)))) f g"
  shows "array_out f L p ps c cs at = array_out g L p ps c cs at"
proof -
  have "f a b (path_array_index at i) = g a b (path_array_index at i)"
    if "(i, a, b) \<in> set (List.enumerate 0 (zip ps cs))" for i a b
  proof -
    from that have "a \<in> set ps" "b \<in> set cs" by (auto dest!: enumerate_member dest: set_zip_leftD set_zip_rightD)
    then have "weight a < weight (ShapeNode pe pg (Core (ArrayOf ps)))" "weight b < weight (ShapeNode ce cg (Core (ArrayOf cs)))"
      by (auto intro: weight_member)
    then show ?thesis by (intro walk_agreesD [OF assms]) simp
  qed
  then show ?thesis by (auto simp: array_out_def intro!: out_all_cong)
qed

lemma alternatives_cong:
  assumes "walk_agrees (weight (ShapeNode pe pg (Core (OneOf d as df))) + weight c) f g"
  shows "alternatives_out f as c at = alternatives_out g as c at"
  unfolding alternatives_out_def
  by (rule out_all_cong) (auto intro!: walk_agreesD [OF assms] weight_member)

lemma one_of_pair_cong:
  assumes "walk_agrees (weight (ShapeNode pe pg (Core (OneOf pd ps pf))) + weight (ShapeNode ce cg (Core (OneOf cd cs cf)))) f g"
  shows "one_of_pair f L p pd ps c cd cs at = one_of_pair g L p pd ps c cd cs at"
proof -
  have "f a b at' = g a b at'" if "(n, a) \<in> set ps" "(m, b) \<in> set cs" for n a m b at'
    using weight_member(6) [OF that(1), of pe pg pd pf] weight_member(6) [OF that(2), of ce cg cd cf]
    by (intro walk_agreesD [OF assms]) simp
  then show ?thesis
    by (auto simp: one_of_pair_def Let_def intro!: out_all_cong split: option.splits dest!: found_member)
qed

lemma inside_alternative_cong:
  assumes "walk_agrees (weight p + weight (ShapeNode ce cg (Core (OneOf d as df)))) f g"
  shows "inside_alternative f L p c d as at = inside_alternative g L p c d as at"
proof -
  have "f p a at' = g p a at'" if "(n, a) \<in> set as" for n a at'
    using weight_member(6) [OF that, of ce cg d df] by (intro walk_agreesD [OF assms]) simp
  then show ?thesis by (auto simp: inside_alternative_def Let_def split: option.splits dest!: found_member)
qed

lemma lists_cong:
  assumes "walk_agrees (weight (ShapeNode pe pg (Core (EachLike s mn mx))) + weight (ShapeNode ce cg (Core (ArrayOf es)))) f g"
  shows "out_all start (map (\<lambda>(index, e). f s e (path_array_index at index)) (List.enumerate 0 es)) =
    out_all start (map (\<lambda>(index, e). g s e (path_array_index at index)) (List.enumerate 0 es))"
proof (rule out_all_cong, clarify)
  fix i e assume "(i, e) \<in> set (List.enumerate 0 es)"
  then have "weight e < weight (ShapeNode ce cg (Core (ArrayOf es)))"
    by (auto intro: weight_member dest: enumerate_member)
  with weight_member(3) [of s pe pg mn mx]
  show "f s e (path_array_index at i) = g s e (path_array_index at i)" by (intro walk_agreesD [OF assms]) simp
qed

lemma lists_cong':
  assumes "walk_agrees (weight (ShapeNode pe pg (Core (ArrayOf es))) + weight (ShapeNode ce cg (Core (EachLike s mn mx)))) f g"
  shows "out_all start (map (\<lambda>(index, e). f e s (path_array_index at index)) (List.enumerate 0 es)) =
    out_all start (map (\<lambda>(index, e). g e s (path_array_index at index)) (List.enumerate 0 es))"
proof (rule out_all_cong, clarify)
  fix i e assume "(i, e) \<in> set (List.enumerate 0 es)"
  then have "weight e < weight (ShapeNode pe pg (Core (ArrayOf es)))"
    by (auto intro: weight_member dest: enumerate_member)
  with weight_member(3) [of s ce cg mn mx]
  show "f e s (path_array_index at i) = g e s (path_array_index at i)" by (intro walk_agreesD [OF assms]) simp
qed

lemma each_like_cong:
  assumes "walk_agrees (weight (ShapeNode pe pg (Core (EachLike s mn mx))) + weight (ShapeNode ce cg (Core (EachLike t mn' mx')))) f g"
  shows "f s t at = g s t at"
  using weight_member(3) [of s pe pg mn mx] weight_member(3) [of t ce cg mn' mx']
  by (intro walk_agreesD [OF assms]) simp

lemma each_entry_cong:
  assumes "walk_agrees (weight (ShapeNode pe pg (Core (EachEntry k v mn mx)))
      + weight (ShapeNode ce cg (Core (EachEntry k' v' mn' mx')))) f g"
  shows "f v v' at = g v v' at"
    and "f (case k of Some x \<Rightarrow> x | None \<Rightarrow> any_node) (case k' of Some x \<Rightarrow> x | None \<Rightarrow> any_node) at =
      g (case k of Some x \<Rightarrow> x | None \<Rightarrow> any_node) (case k' of Some x \<Rightarrow> x | None \<Rightarrow> any_node) at"
  using weight_member(4) [of v pe pg k mn mx] weight_member(4) [of v' ce cg k' mn' mx']
    weight_member(5) [of k pe pg v mn mx] weight_member(5) [of k' ce cg v' mn' mx']
  by (intro walk_agreesD [OF assms]; simp)+

lemma exact_cong_aux:
  assumes agrees: "walk_agrees (weight (ShapeNode pe pg (Core pc)) + weight (ShapeNode ce cg (Core cc))) f g"
  shows "exact f L (ShapeNode pe pg (Core pc)) pc (ShapeNode ce cg (Core cc)) cc at =
    exact g L (ShapeNode pe pg (Core pc)) pc (ShapeNode ce cg (Core cc)) cc at"
proof -
  show ?thesis
  proof (cases "\<exists>d as df. cc = OneOf d as df")
    case True
    then obtain d as df where cc: "cc = OneOf d as df" by blast
    show ?thesis using inside_alternative_cong [OF agrees [unfolded cc]] agrees one_of_pair_cong [of pe pg _ _ _ ce cg d as df f g]
      by (cases pc) (simp_all add: exact_def cc)
  next
    case other: False
    show ?thesis
    proof (cases pc)
      case (OneOf d as df)
      show ?thesis using other alternatives_cong [OF agrees [unfolded OneOf]]
        by (cases cc) (simp_all add: exact_def OneOf)
    next
      case (Object ms)
      show ?thesis using other agrees object_cong [of pe pg ms ce cg _ f g]
        by (cases cc) (simp_all add: exact_def Object)
    next
      case (ArrayOf es)
      show ?thesis using other agrees array_cong [of pe pg es ce cg _ f g] lists_cong' [of pe pg es ce cg _ _ _ f g]
        by (cases cc) (simp_all add: exact_def ArrayOf)
    next
      case (EachLike t mn mx)
      show ?thesis using other agrees each_like_cong [of pe pg t mn mx ce cg _ _ _ f g] lists_cong [of pe pg t mn mx ce cg _ f g]
        by (cases cc) (simp_all add: exact_def EachLike)
    next
      case (EachEntry k v mn mx)
      show ?thesis using other agrees each_entry_cong [of pe pg k v mn mx ce cg _ _ _ _ f g]
        by (cases cc) (simp_all add: exact_def EachEntry)
    qed (use other in \<open>cases cc; simp add: exact_def\<close>)+
  qed
qed

lemma walk_agrees_mono: "walk_agrees n f g \<Longrightarrow> m \<le> n \<Longrightarrow> walk_agrees m f g"
  by (auto simp: walk_agrees_def)

lemma exact_cong:
  assumes "sn_kind p = Core pc" and "sn_kind c = Core cc" and "walk_agrees (weight p + weight c) f g"
  shows "exact f L p pc c cc at = exact g L p pc c cc at"
  using assms exact_cong_aux by (cases p; cases c) simp

lemma operators_cong:
  assumes "walk_agrees (weight p + weight c) f g"
  shows "operators f L E p c at = operators g L E p c at"
proof -
  have "walk_agrees (weight (desugared p) + weight (desugared c)) f g"
    using weight_desugared [of p] weight_desugared [of c] by (intro walk_agrees_mono [OF assms]) simp
  from exact_cong [OF _ _ this] show ?thesis
    by (auto simp: operators_def operator_table_def Let_def split: shape_kind.splits option.splits)
qed

lemma value_node_cong [fundef_cong]:
  assumes "\<And>p' c' at'. weight p' + weight c' < weight p + weight c \<Longrightarrow> f p' c' at' = g p' c' at'"
  shows "value_node f L E p c at = value_node g L E p c at"
proof -
  have "walk_agrees (weight pr + weight cr) f g"
    if "ps_rest (decompose p) = Some pr" "ps_rest (decompose c) = Some cr" for pr cr
    using weight_rest [OF that(1)] weight_rest [OF that(2)] assms by (auto simp: walk_agrees_def)
  from operators_cong [OF this] show ?thesis
    by (auto simp: value_node_def Let_def split: option.splits)
qed

function walk_node :: "lib \<Rightarrow> recorded_exclusion list \<Rightarrow> shape \<Rightarrow> shape \<Rightarrow> string \<Rightarrow> out" where
  "walk_node L E p c at = caveat L E (value_node (\<lambda>p' c' at'. walk_node L E p' c' at') L E p c at) p c at"
  by pat_completeness auto
termination
  by (relation "measure (\<lambda>(L, E, p, c, at). weight p + weight c)") auto

declare walk_node.simps [simp del]

definition compare_shapes :: "lib \<Rightarrow> shape \<Rightarrow> shape \<Rightarrow> string \<Rightarrow> sub_verdict \<times> finding list" where
  "compare_shapes L provider consumer at =
     (let r = walk_node L [] provider consumer at in (out_verdict r, out_findings r))"

subsection \<open>Every verdict is recorded\<close>

lemma caveat_verdict [simp]: "out_verdict (caveat L E r p c at) = out_verdict r"
  by (simp add: caveat_def Let_def)

lemma caveat_none [simp]: "caveat L [] r p c at = r"
  by (simp add: caveat_def)

lemma findings_verdict_map:
  "(\<And>f. fg_verdict (h f) = fg_verdict f) \<Longrightarrow> findings_verdict (map h fs) = findings_verdict fs"
  by (induction fs) simp_all

lemma caveat_accounted: "accounted r \<Longrightarrow> accounted (caveat L E r p c at)"
  by (auto simp: caveat_def Let_def accounted_def findings_verdict_map list_all_iff advisory_def finding_new_def)

lemma unreviewed_accounted [simp]: "accounted (unreviewed L p c at reason)"
  by (simp add: unreviewed_def)

lemma leaf_accounted [simp]:
  "accounted (cardinality_out p_min p_max c_min c_max at unit)" "accounted (literal_set L p c options at)"
  "accounted (not_empty_out L p c at)" "accounted (equality_out L p c at)"
  "accounted (any_of_out L p options c at)" "accounted (consumer_equality_out L p c at)"
  "accounted (kind_out L p pk c ck at)"
  by (auto simp: cardinality_out_def literal_set_def not_empty_out_def equality_out_def any_of_out_def
      consumer_equality_out_def kind_out_def Let_def split: option.splits bool.splits)

lemma any_of_options: "any_of_options c = Some options \<longleftrightarrow> c = AnyOf options"
  by (cases c) (auto simp: any_of_options_def)

lemma kinds_kind:
  "(\<exists>k'. cc = Kind k' \<and> exact_kinds L p (Kind k) c cc at = kind_out L p k c k' at)
    \<or> (\<exists>a b r. exact_kinds L p (Kind k) c cc at = out_no (broader_type at a b r))
    \<or> (\<exists>r. exact_kinds L p (Kind k) c cc at = unreviewed L p c at r)"
  unfolding exact_kinds_def by (cases k; cases cc; simp only: prod.case core_shape.case value_kind.case core_shape.inject; blast)

lemma kinds_semver:
  "(cc = Kind VK_String \<and> exact_kinds L p Semver c cc at = out_yes)
    \<or> (\<exists>r. exact_kinds L p Semver c cc at = unreviewed L p c at r)"
proof (cases "\<exists>k. cc = Kind k")
  case True
  then obtain k where k: "cc = Kind k" by blast
  show ?thesis unfolding exact_kinds_def k by (cases k; simp only: prod.case core_shape.case value_kind.case; blast)
next
  case False
  then show ?thesis unfolding exact_kinds_def by (cases cc; simp only: prod.case core_shape.case value_kind.case; blast)
qed
lemma kinds_other:
  "\<nexists>k. pc = Kind k \<Longrightarrow> pc \<noteq> Semver \<Longrightarrow> exact_kinds L p pc c cc at = unreviewed L p c at (no_containment_reason p c)"
  by (cases pc) (simp_all add: exact_kinds_def)

text \<open>Every way the leaf table answers: an arm, or a refusal.\<close>

lemma exact_leaves_cases:
  obtains "cc = NotEmpty" "exact_leaves L p pc c cc at = not_empty_out L p c at"
    | "pc = Equality" "exact_leaves L p pc c cc at = equality_out L p c at"
    | options where "pc = AnyOf options" "exact_leaves L p pc c cc at = any_of_out L p options c at"
    | "cc = Equality" "exact_leaves L p pc c cc at = consumer_equality_out L p c at"
    | options where "cc = AnyOf options" "exact_leaves L p pc c cc at = literal_set L p c options at"
    | k k' where "pc = Kind k" "cc = Kind k'" "exact_leaves L p pc c cc at = kind_out L p k c k' at"
    | "pc = Semver" "cc = Kind VK_String" "exact_leaves L p pc c cc at = out_yes"
    | a b r where "exact_leaves L p pc c cc at = out_no (broader_type at a b r)"
    | r where "exact_leaves L p pc c cc at = unreviewed L p c at r"
proof -
  consider "cc = NotEmpty" | "cc \<noteq> NotEmpty" "pc = NotEmpty" | "cc \<noteq> NotEmpty" "pc = Equality"
    | options where "cc \<noteq> NotEmpty" "pc = AnyOf options"
    | "cc = Equality" "pc \<noteq> NotEmpty" "pc \<noteq> Equality" "\<nexists>options. pc = AnyOf options"
    | options where "cc = AnyOf options" "pc \<noteq> NotEmpty" "pc \<noteq> Equality" "\<nexists>options. pc = AnyOf options"
    | "cc \<noteq> NotEmpty" "pc \<noteq> NotEmpty" "pc \<noteq> Equality" "cc \<noteq> Equality" "\<nexists>options. pc = AnyOf options"
      "\<nexists>options. cc = AnyOf options"
    by blast
  then show thesis
  proof cases
    case 1
    then show ?thesis by (intro that(1)) (simp_all add: exact_leaves_def)
  next
    case 2
    then show ?thesis by (intro that(8)) (simp add: exact_leaves_def)
  next
    case 3
    then show ?thesis by (intro that(2)) (simp_all add: exact_leaves_def)
  next
    case (4 options)
    then show ?thesis by (intro that(3)) (simp_all add: exact_leaves_def any_of_options_def)
  next
    case 5
    then have "any_of_options pc = None" by (metis any_of_options option.exhaust)
    with 5 show ?thesis by (intro that(4)) (simp_all add: exact_leaves_def)
  next
    case (6 options)
    then have "any_of_options pc = None" by (metis any_of_options option.exhaust)
    with 6 show ?thesis by (intro that(5)) (simp_all add: exact_leaves_def any_of_options_def)
  next
    case 7
    then have "any_of_options pc = None" "any_of_options cc = None" by (metis any_of_options option.exhaust)+
    with 7 have e: "exact_leaves L p pc c cc at = exact_kinds L p pc c cc at" by (simp add: exact_leaves_def)
    show ?thesis
    proof (cases "pc = Semver \<or> (\<exists>k. pc = Kind k)")
      case True
      then show ?thesis using that(6-9) kinds_kind [of cc L p _ c at] kinds_semver [of cc L p c at] unfolding e by blast
    next
      case False
      then show ?thesis using that(9) kinds_other [of pc L p c cc at] unfolding e by blast
    qed
  qed
qed

lemma exact_leaves_accounted: "accounted (exact_leaves L p pc c cc at)"
  by (rule exact_leaves_cases [of cc L p pc c at]) simp_all

text \<open>The arms never drop a finding or a verdict: what holds of the walk of every lighter pair holds of
  the pair.\<close>

lemma exact_accounted:
  assumes "\<And>p c at. accounted (f p c at)"
  shows "accounted (exact f L p pc c cc at)"
  by (auto simp: exact_def one_of_pair_def alternatives_out_def inside_alternative_def object_out_def array_out_def
      Let_def assms exact_leaves_accounted intro!: accounted_all split: core_shape.split option.split)

lemma operators_accounted:
  assumes "\<And>p c at. accounted (f p c at)"
  shows "accounted (operators f L E p c at)"
  using exact_accounted [OF assms]
  by (auto simp: operators_def operator_table_def Let_def split: shape_kind.split option.split)

lemma value_node_accounted:
  assumes "\<And>p c at. accounted (f p c at)"
  shows "accounted (value_node f L E p c at)"
  using operators_accounted [OF assms]
  by (auto simp: value_node_def Let_def split: option.split)

end
