(* ===== verification/Admits_Laws.thy ===== *)
theory Admits_Laws
  imports Plan_Theorems
begin

text \<open>
  The shape language's \<open>admits\<close> with no variant point pinned: one equation per operator, which no longer
  mention a path, and what each operator says of absence and \<open>null\<close>.
\<close>

lemma unpinned_facts [simp]:
  "unpinned (dimension_id at f) = None" "size_admits unpinned at least most n = in_region n (least, most)"
  "any_of_admits L unpinned at options v = list_ex (\<lambda>x. runtime_eq (rv_from_json x) v) options"
  by (simp_all add: unpinned_def size_admits_def any_of_admits_def)

lemma admits_unpinned_at: "admits L R unpinned at s v = admits L R unpinned at' s v"
proof (induction s arbitrary: at at' v rule: shape_cases_induct)
  case (leaf ex g c)
  then show ?case
    by (cases c) (simp_all add: any_of_admits_def unpinned_def)
next
  case (object ex g ms)
  have "admits L R unpinned (path_member at n) m x = admits L R unpinned (path_member at' n) m x"
    if "(n, m) \<in> set ms" for n m x by (rule object [OF that])
  then show ?case by (cases v) (auto simp: list_all_iff)
next
  case (array ex g es)
  have "admits L R unpinned (path_array_index at i) e x = admits L R unpinned (path_array_index at' i) e x"
    if "(i, e) \<in> set (List.enumerate 0 es)" for i e x by (rule array [OF enumerate_member [OF that]])
  then show ?case by (cases v) (auto simp: list_all_iff)
next
  case (each_like ex g i mn mx)
  have "admits L R unpinned (each_like_item at) i x = admits L R unpinned (each_like_item at') i x" for x
    by (rule each_like)
  then show ?case by (cases v) (auto simp: list_all_iff)
next
  case (each_entry ex g k vs mn mx)
  have "k = Some k' \<Longrightarrow> admits L R unpinned (each_entry_key at) k' x = admits L R unpinned (each_entry_key at') k' x"
    and "admits L R unpinned (each_entry_value at) vs x = admits L R unpinned (each_entry_value at') vs x" for k' x
    by (rule each_entry(1), assumption, rule each_entry(2))
  then show ?case by (cases v) (auto simp: list_all_iff split: option.splits)
next
  case (contains ex g es)
  have "admits L R unpinned (path_array_index at i) e = admits L R unpinned (path_array_index at' i) e"
    if "(i, e) \<in> set (List.enumerate 0 es)" for i e by (rule ext, rule contains [OF enumerate_member [OF that]])
  then have "map (\<lambda>z. map (admits L R unpinned (path_array_index at (fst z)) (snd z)) items) (List.enumerate 0 es) =
    map (\<lambda>z. map (admits L R unpinned (path_array_index at' (fst z)) (snd z)) items) (List.enumerate 0 es)" for items
    by (intro map_cong refl) (metis prod.collapse)
  then show ?case by (simp only: admits.simps(6) case_prod_unfold)
next
  case (optional ex g s)
  have "admits L R unpinned at s v = admits L R unpinned at' s v" by (rule optional)
  then show ?case by simp
next
  case (nullable ex g s)
  have "admits L R unpinned at s v = admits L R unpinned at' s v" by (rule nullable)
  then show ?case by simp
next
  case (one_of ex g d as df)
  have "admits L R unpinned (path_alternative at n) m v = admits L R unpinned (path_alternative at' n) m v"
    if "(n, m) \<in> set as" for n m by (rule one_of [OF that])
  then show ?case by (auto simp: list_ex_iff)
qed simp

lemma shape_admits_at: "admits L R unpinned at s v = shape_admits L R s v"
  unfolding shape_admits_def by (rule admits_unpinned_at)

lemma shape_admits_at': "admits L R unpinned at s = shape_admits L R s"
  by (rule ext) (rule shape_admits_at)

lemma shape_admits_simps:
  "shape_admits L R (ShapeNode ex g (Component operator raw)) v = jd_component R operator raw v"
  "shape_admits L R (ShapeNode ex g (Core (Object ms))) v =
     (\<exists>fs. v = RObject fs \<and> (\<forall>(n, m) \<in> set ms. shape_admits L R m (or_absent (map_of fs n))))"
  "shape_admits L R (ShapeNode ex g (Core (ArrayOf es))) v =
     (\<exists>xs. v = RArray xs \<and> list_all2 (shape_admits L R) es xs)"
  "shape_admits L R (ShapeNode ex g (Core (EachLike s least most))) v =
     (\<exists>xs. v = RArray xs \<and> in_region (length xs) (least, most) \<and> (\<forall>x \<in> set xs. shape_admits L R s x))"
  "shape_admits L R (ShapeNode ex g (Core (EachEntry ks vs least most))) v =
     (\<exists>fs. v = RObject fs \<and> in_region (length fs) (least, most)
       \<and> (\<forall>(key, x) \<in> set fs. (\<forall>k. ks = Some k \<longrightarrow> shape_admits L R k (RString key)) \<and> shape_admits L R vs x))"
  "shape_admits L R (ShapeNode ex g (Core (Contains es))) v =
     (\<exists>xs. v = RArray xs \<and> jd_contains R (map (\<lambda>e. map (shape_admits L R e) xs) es))"
  "shape_admits L R (ShapeNode ex g (Core (Optional s))) v = (v = RAbsent \<or> shape_admits L R s v)"
  "shape_admits L R (ShapeNode ex g (Core (Nullable s))) v = (v = RNull \<or> shape_admits L R s v)"
  "shape_admits L R (ShapeNode ex g (Core (OneOf d as df))) v = (\<exists>(n, a) \<in> set as. shape_admits L R a v)"
  "shape_admits L R (ShapeNode ex g (Core (AnyOf options))) v = (\<exists>x \<in> set options. runtime_eq (rv_from_json x) v)"
proof -
  have enum: "(\<forall>(i, e) \<in> set (List.enumerate 0 es). P e (xs ! i)) \<longleftrightarrow> (\<forall>i < length es. P (es ! i) (xs ! i))"
    for P and es :: "shape list" and xs :: "rv list" by (auto simp: in_set_enumerate_eq)
  show "shape_admits L R (ShapeNode ex g (Core (ArrayOf es))) v =
     (\<exists>xs. v = RArray xs \<and> list_all2 (shape_admits L R) es xs)"
    unfolding shape_admits_def [of L R "ShapeNode ex g (Core (ArrayOf es))"]
    by (cases v) (auto simp: shape_admits_at list_all_iff enum list_all2_conv_all_nth)
  have rows: "map (\<lambda>(i, e). f e) (List.enumerate n es) = map f es" for f :: "shape \<Rightarrow> bool list" and n
    by (induction es arbitrary: n) simp_all
  have "admits L R unpinned [] (ShapeNode ex g (Core (Contains es))) v =
    (case v of RArray xs \<Rightarrow> jd_contains R (map (\<lambda>(i, e). map (shape_admits L R e) xs) (List.enumerate 0 es))
     | _ \<Rightarrow> False)"
    by (subst admits.simps(6)) (simp only: shape_admits_at')
  then have "shape_admits L R (ShapeNode ex g (Core (Contains es))) v =
    (case v of RArray xs \<Rightarrow> jd_contains R (map (\<lambda>(i, e). map (shape_admits L R e) xs) (List.enumerate 0 es))
     | _ \<Rightarrow> False)"
    by (simp only: shape_admits_def)
  then show "shape_admits L R (ShapeNode ex g (Core (Contains es))) v =
     (\<exists>xs. v = RArray xs \<and> jd_contains R (map (\<lambda>e. map (shape_admits L R e) xs) es))"
    by (cases v) (simp_all add: rows)
  show "shape_admits L R (ShapeNode ex g (Core (EachEntry ks vs least most))) v =
     (\<exists>fs. v = RObject fs \<and> in_region (length fs) (least, most)
       \<and> (\<forall>(key, x) \<in> set fs. (\<forall>k. ks = Some k \<longrightarrow> shape_admits L R k (RString key)) \<and> shape_admits L R vs x))"
    unfolding shape_admits_def [of L R "ShapeNode ex g (Core (EachEntry ks vs least most))"]
    by (cases v) (auto simp: shape_admits_at list_all_iff split: option.splits)
  show "shape_admits L R (ShapeNode ex g (Core (Object ms))) v =
     (\<exists>fs. v = RObject fs \<and> (\<forall>(n, m) \<in> set ms. shape_admits L R m (or_absent (map_of fs n))))"
    unfolding shape_admits_def [of L R "ShapeNode ex g (Core (Object ms))"]
    by (cases v) (auto simp: shape_admits_at list_all_iff)
  show "shape_admits L R (ShapeNode ex g (Core (EachLike s least most))) v =
     (\<exists>xs. v = RArray xs \<and> in_region (length xs) (least, most) \<and> (\<forall>x \<in> set xs. shape_admits L R s x))"
    unfolding shape_admits_def [of L R "ShapeNode ex g (Core (EachLike s least most))"]
    by (cases v) (auto simp: shape_admits_at list_all_iff)
qed (unfold shape_admits_def [of L R "ShapeNode _ _ _"], auto simp: shape_admits_at list_ex_iff)

lemma shape_admits_leaf:
  "leaf_operator c \<Longrightarrow> \<nexists>options. c = AnyOf options \<Longrightarrow>
   shape_admits L R (ShapeNode ex g (Core c)) v = leaf_admits L R ex c v"
  unfolding shape_admits_def by (rule leaf_compiled(2))

lemma shape_admits_leaves:
  "shape_admits L R (ShapeNode ex g (Core Any)) v = (v \<noteq> RAbsent)"
  "shape_admits L R (ShapeNode ex g (Core Equality)) v = runtime_eq v (example_value L ex)"
  "shape_admits L R (ShapeNode ex g (Core Type)) v = (v \<noteq> RAbsent \<and> kind_of v = kind_of (example_value L ex))"
  "shape_admits L R (ShapeNode ex g (Core (Kind k))) v = kind_admits k v"
  "shape_admits L R (ShapeNode ex g (Core NotEmpty)) v = (\<not> is_empty_value v)"
  "shape_admits L R (ShapeNode ex g (Core Forbidden)) v = (v = RAbsent)"
  "shape_admits L R (ShapeNode ex g (Core Semver)) v =
     (case as_text v of Some t \<Rightarrow> semver_parses L t | None \<Rightarrow> False)"
  by (simp_all add: shape_admits_leaf)

end
