(* ===== verification/Sub_Sound.thy ===== *)
theory Sub_Sound
  imports Sub_Walk Admits_Laws
begin

text \<open>
  What a \<open>yes\<close> of the subsumption walk means: every value the provider's shape admits, the consumer's
  shape admits. The hypotheses on the shapes are what the shape parser establishes, and two that it
  does not, without which a \<open>yes\<close> is wrong (\<open>provider_ok\<close>).
\<close>

subsection \<open>What the theorem assumes\<close>

text \<open>The value of a slot: absent, or a document value with nothing absent inside. Bytes that happen to
  be UTF-8 text are left out: the text operators read them as text, \<open>string\<close> does not.\<close>

fun document :: "rv \<Rightarrow> bool" where
  "document (RArray items) = list_all document items"
| "document (RObject members) = (index_map members \<and> list_all (\<lambda>(_, v). document v) members)"
| "document RAbsent = False"
| "document (REntry _ _) = False"
| "document (RBytes bytes) = (from_utf8 bytes = None)"
| "document _ = True"

definition slot_value :: "rv \<Rightarrow> bool" where
  "slot_value v \<longleftrightarrow> v = RAbsent \<or> document v"

text \<open>Documented behaviour of what the kernel calls: an empty string is not a semantic version. A judge answers about a value that is there, from a
  component's members as a map, and reads \<open>contains\<close> as the language does.\<close>

definition sound_lib :: "lib \<Rightarrow> bool" where
  "sound_lib L \<longleftrightarrow> \<not> semver_parses L []"

definition sound_judge :: "judge \<Rightarrow> bool" where
  "sound_judge R \<longleftrightarrow>
     (\<forall>op raw. \<not> jd_component R op raw RAbsent) \<and> (\<forall>t. \<not> jd_content R t RAbsent)
     \<and> (\<forall>op raw raw' v. json_eq (JObject raw) (JObject raw') \<longrightarrow> jd_component R op raw v \<longrightarrow> jd_component R op raw' v)
     \<and> jd_contains R = distinct_matching {}"

text \<open>An example the language gives a value: plain, or base64 text.\<close>

definition example_ok :: "lib \<Rightarrow> example \<Rightarrow> bool" where
  "example_ok L e \<longleftrightarrow> wf_json (ex_value e)
     \<and> (case ex_encoded e of
          None \<Rightarrow> True
        | Some enc \<Rightarrow> enc = ''base64''
            \<and> (case ex_value e of JString t \<Rightarrow> base64_decode L t \<noteq> None | _ \<Rightarrow> False))"

fun consumer_ok :: "lib \<Rightarrow> shape \<Rightarrow> bool" where
  "consumer_ok L (ShapeNode ex g (Core c)) =
     (case c of
        Equality \<Rightarrow> (case ex of Some e \<Rightarrow> example_ok L e | None \<Rightarrow> False)
      | Type \<Rightarrow> (case ex of Some e \<Rightarrow> example_ok L e | None \<Rightarrow> False)
      | AnyOf options \<Rightarrow> list_all wf_json options
      | Object ms \<Rightarrow> index_map ms
      | _ \<Rightarrow> True)"
| "consumer_ok L _ = True"

definition not_number :: "json \<Rightarrow> bool" where
  "not_number v = (case v of JNumber _ \<Rightarrow> False | _ \<Rightarrow> True)"

definition reads_text_only :: "lib \<Rightarrow> string \<Rightarrow> bool" where
  "reads_text_only L pattern \<longleftrightarrow>
     (case regex L pattern of
        Inl _ \<Rightarrow> True
      | Inr is_match \<Rightarrow>
          (\<forall>n. \<not> is_match (plain_text L (RNumber n))) \<and> (\<forall>b. \<not> is_match (plain_text L (RBool b))))"

text \<open>On the provider's side also: no literal is a number (\<open>1\<close> admits \<open>1.0\<close>, which \<open>integer\<close> does not),
  a regex matches the text of no number or boolean (\<open>match:regex\<close> reads those too), and no alternative of
  a union is \<open>optional\<close>.\<close>

fun provider_ok :: "lib \<Rightarrow> shape \<Rightarrow> bool" where
  "provider_ok L (ShapeNode ex g (Core c)) =
     (consumer_ok L (ShapeNode ex g (Core c))
      \<and> (case c of
           Equality \<Rightarrow> (case ex of Some e \<Rightarrow> not_number (ex_value e) | None \<Rightarrow> False)
         | AnyOf options \<Rightarrow> list_all not_number options
         | Regex pattern \<Rightarrow> reads_text_only L pattern
         | OneOf _ as _ \<Rightarrow> list_all (\<lambda>(_, a). \<not> ps_absent (decompose a)) as
         | _ \<Rightarrow> True))"
| "provider_ok L _ = True"

definition sub_sound :: "lib \<Rightarrow> judge \<Rightarrow> shape \<Rightarrow> shape \<Rightarrow> bool" where
  "sub_sound L R p c \<longleftrightarrow>
     (every_shape (provider_ok L) p \<longrightarrow> every_shape (consumer_ok L) c \<longrightarrow>
      (\<forall>v. slot_value v \<longrightarrow> shape_admits L R p v \<longrightarrow> shape_admits L R c v))"

lemma sub_soundD:
  "sub_sound L R p c \<Longrightarrow> every_shape (provider_ok L) p \<Longrightarrow> every_shape (consumer_ok L) c \<Longrightarrow> slot_value v \<Longrightarrow>
   shape_admits L R p v \<Longrightarrow> shape_admits L R c v"
  by (simp add: sub_sound_def)

lemma document_slot [simp]: "document v \<Longrightarrow> slot_value v"
  by (simp add: slot_value_def)

lemma document_wf: "document v \<Longrightarrow> wf_rv v"
proof (induction v)
  case (RObject m)
  then show ?case by (force simp: list_all_iff)
qed (auto simp: list_all_iff)

lemma slot_wf: "slot_value v \<Longrightarrow> wf_rv v"
  by (auto simp: slot_value_def document_wf)

lemma slot_members:
  "slot_value (RObject fs) \<Longrightarrow> slot_value (or_absent (map_of fs n))"
  "slot_value (RObject fs) \<Longrightarrow> (k, x) \<in> set fs \<Longrightarrow> document x"
  "slot_value (RArray xs) \<Longrightarrow> x \<in> set xs \<Longrightarrow> document x"
  by (auto simp: slot_value_def or_absent_def list_all_iff split: option.splits dest: map_of_SomeD)

lemma child_ok:
  "every_shape P (ShapeNode ex g (Core (Object ms))) \<Longrightarrow> (n, m) \<in> set ms \<Longrightarrow> every_shape P m"
  "every_shape P (ShapeNode ex g (Core (ArrayOf es))) \<Longrightarrow> e \<in> set es \<Longrightarrow> every_shape P e"
  "every_shape P (ShapeNode ex g (Core (Contains es))) \<Longrightarrow> e \<in> set es \<Longrightarrow> every_shape P e"
  "every_shape P (ShapeNode ex g (Core (EachLike s mn mx))) \<Longrightarrow> every_shape P s"
  "every_shape P (ShapeNode ex g (Core (EachEntry k v mn mx))) \<Longrightarrow> every_shape P v"
  "every_shape P (ShapeNode ex g (Core (EachEntry (Some k') v mn mx))) \<Longrightarrow> every_shape P k'"
  "every_shape P (ShapeNode ex g (Core (Optional s))) \<Longrightarrow> every_shape P s"
  "every_shape P (ShapeNode ex g (Core (Nullable s))) \<Longrightarrow> every_shape P s"
  "every_shape P (ShapeNode ex g (Core (OneOf d as df))) \<Longrightarrow> (n, a) \<in> set as \<Longrightarrow> every_shape P a"
  by (force intro: every_shape_child split: option.splits)+

subsection \<open>The identity floor\<close>

lemma example_eq:
  assumes "example_ok L a" "example_ok L b" "ex_encoded a = ex_encoded b" "value_eq (ex_value a) (ex_value b)"
  shows "runtime_eq (example_value L (Some a)) (example_value L (Some b))"
proof (cases "ex_encoded a")
  case None
  then show ?thesis using assms(3,4) by (simp add: example_value_def runtime_eq_from_json)
next
  case (Some enc)
  with assms show ?thesis
    by (cases "ex_value a"; cases "ex_value b") (auto simp: example_ok_def example_value_def split: option.splits)
qed

lemma literal_admits:
  assumes "value_eq x y" "wf_json x" "wf_json y" "runtime_eq (rv_from_json x) v" 
  shows "runtime_eq (rv_from_json y) v"
proof -
  have "runtime_eq (rv_from_json y) (rv_from_json x)"
    using value_eq_sym [OF assms(1-3)] by (simp add: runtime_eq_from_json)
  then show ?thesis using assms(4) by (rule runtime_eq_trans)
qed

lemma same_kind:
  assumes "example_ok L a" "example_ok L b" "class_of_example a = class_of_example b"
  shows "kind_of (example_value L (Some a)) = kind_of (example_value L (Some b))"
  using assms
  by (cases "ex_value a"; cases "ex_value b")
    (auto simp: example_ok_def example_value_def class_of_example_def class_of_value_def
      split: option.splits if_splits)

lemma contains_mono:
  assumes "sound_judge R" and "list_all2 (\<lambda>e e'. \<forall>x \<in> set xs. shape_admits L R e x \<longrightarrow> shape_admits L R e' x) es es'"
    and "jd_contains R (map (\<lambda>e. map (shape_admits L R e) xs) es)"
  shows "jd_contains R (map (\<lambda>e. map (shape_admits L R e) xs) es')"
proof -
  have "list_all2 (list_all2 (\<longrightarrow>)) (map (\<lambda>e. map (shape_admits L R e) xs) es) (map (\<lambda>e. map (shape_admits L R e) xs) es')"
    using assms(2) by (auto simp: list_all2_conv_all_nth)
  from distinct_matching_mono [OF this] assms(1,3) show ?thesis by (simp add: sound_judge_def)
qed

lemma list_all2_weaken:
  "list_all2 P xs ys \<Longrightarrow> (\<And>x y. x \<in> set xs \<Longrightarrow> y \<in> set ys \<Longrightarrow> P x y \<Longrightarrow> Q x y) \<Longrightarrow> list_all2 Q xs ys"
  by (simp add: list_all2_conv_all_nth)

lemma zip_pairs:
  "length xs = length ys \<Longrightarrow> list_all (\<lambda>(x, y). Q x y) (zip xs ys) \<Longrightarrow> list_all2 Q xs ys"
  by (auto simp: list_all2_conv_all_nth list_all_length)

lemma same_admits_sound:
  assumes "sound_judge R"
  shows "same_admits p c \<Longrightarrow> sub_sound L R p c"
proof (induction p arbitrary: c rule: shape_cases_induct)
  case (component ex g op raw)
  then show ?case using assms
    by (cases c) (auto simp: sub_sound_def shape_admits_simps sound_judge_def split: shape_kind.splits)
next
  case (leaf ex g pc)
  show ?case
  proof (cases "\<exists>options. pc = AnyOf options")
    case True
    with leaf(2) obtain options options' cx cg where pc: "pc = AnyOf options"
      and c: "c = ShapeNode cx cg (Core (AnyOf options'))"
      and each: "\<And>x. x \<in> set options \<Longrightarrow> \<exists>y \<in> set options'. value_eq x y"
      by (cases c) (auto simp: list_all_iff list_ex_iff split: shape_kind.splits core_shape.splits)
    show ?thesis unfolding sub_sound_def c pc
    proof (intro impI allI)
      fix v
      assume p: "every_shape (provider_ok L) (ShapeNode ex g (Core (AnyOf options)))"
        and ok: "every_shape (consumer_ok L) (ShapeNode cx cg (Core (AnyOf options')))"
        and "shape_admits L R (ShapeNode ex g (Core (AnyOf options))) v"
      then obtain x where x: "x \<in> set options" "runtime_eq (rv_from_json x) v" by (auto simp: shape_admits_simps)
      from each [OF x(1)] obtain y where y: "y \<in> set options'" "value_eq x y" by blast
      have "wf_json x" "wf_json y" using every_shape_here [OF p] every_shape_here [OF ok] x(1) y(1) by (auto simp: list_all_iff)
      from literal_admits [OF y(2) this x(2)] y(1)
      show "shape_admits L R (ShapeNode cx cg (Core (AnyOf options'))) v" by (auto simp: shape_admits_simps)
    qed
  next
    case False
    consider "pc = Equality" | "pc = Type" | "pc \<noteq> Equality" "pc \<noteq> Type" by blast
    then show ?thesis
    proof cases
      case 1
      with leaf(2) obtain a b cg where ex: "ex = Some a" and c: "c = ShapeNode (Some b) cg (Core Equality)"
        and eq: "ex_encoded a = ex_encoded b" "value_eq (ex_value a) (ex_value b)"
        by (cases c) (auto split: shape_kind.splits core_shape.splits option.splits)
      show ?thesis unfolding sub_sound_def 1 ex c
        by (auto simp: shape_admits_leaves dest!: every_shape_here intro: runtime_eq_trans [OF _ example_eq [OF _ _ eq]])
    next
      case 2
      with leaf(2) obtain a b cg where ex: "ex = Some a" and c: "c = ShapeNode (Some b) cg (Core Type)"
        and eq: "class_of_example a = class_of_example b"
        by (cases c) (auto split: shape_kind.splits core_shape.splits option.splits)
      show ?thesis unfolding sub_sound_def 2 ex c
        by (auto simp: shape_admits_leaves dest!: every_shape_here simp: same_kind [OF _ _ eq])
    next
      case 3
      with False leaf obtain cx cg where c: "c = ShapeNode cx cg (Core pc)"
        by (cases c; cases pc) auto
      have "leaf_admits L R ex pc v = leaf_admits L R cx pc v" for v using 3 by (cases pc) simp_all
      then show ?thesis using False leaf(1) by (auto simp: sub_sound_def c shape_admits_leaf)
    qed
  qed
next
  case (object ex g ms)
  then obtain cx cg ms' where c: "c = ShapeNode cx cg (Core (Object ms'))" and len: "length ms = length ms'"
    and each: "\<And>n m. (n, m) \<in> set ms \<Longrightarrow> \<exists>m'. map_of ms' n = Some m' \<and> same_admits m m'"
    by (cases c) (force simp: list_all_iff split: shape_kind.splits core_shape.splits option.splits)
  show ?case unfolding sub_sound_def c
  proof (intro impI allI)
    fix v
    assume p: "every_shape (provider_ok L) (ShapeNode ex g (Core (Object ms)))"
      and ok: "every_shape (consumer_ok L) (ShapeNode cx cg (Core (Object ms')))"
      and v: "slot_value v" and adm: "shape_admits L R (ShapeNode ex g (Core (Object ms))) v"
    from every_shape_here [OF p] every_shape_here [OF ok] have maps: "index_map ms" "index_map ms'" by auto
    have "fst ` set ms \<subseteq> fst ` set ms'" using each by (force dest: map_of_SomeD)
    from same_keys [OF maps len this] have keys: "fst ` set ms' = fst ` set ms" .
    from adm obtain fs where fs: "v = RObject fs" "\<And>n m. (n, m) \<in> set ms \<Longrightarrow> shape_admits L R m (or_absent (map_of fs n))"
      by (auto simp: shape_admits_simps)
    have "shape_admits L R m' (or_absent (map_of fs n))" if m': "(n, m') \<in> set ms'" for n m'
    proof -
      from m' keys obtain m where m: "(n, m) \<in> set ms" by force
      have "map_of ms' n = Some m'" using m' map_of_Some_iff [OF maps(2)] by blast
      with each [OF m] have same: "same_admits m m'" by simp
      show ?thesis
        using sub_soundD [OF object(1) [OF m same] child_ok(1) [OF p m] child_ok(1) [OF ok m'] _ fs(2) [OF m]]
          slot_members(1) v fs(1) by blast
    qed
    with fs(1) show "shape_admits L R (ShapeNode cx cg (Core (Object ms'))) v"
      by (auto simp: shape_admits_simps)
  qed
next
  case (array ex g es)
  then obtain cx cg es' where c: "c = ShapeNode cx cg (Core (ArrayOf es'))" and same: "list_all2 same_admits es es'"
    by (cases c) (auto split: shape_kind.splits core_shape.splits intro: zip_pairs)
  show ?case unfolding sub_sound_def c
  proof (intro impI allI)
    fix v
    assume p: "every_shape (provider_ok L) (ShapeNode ex g (Core (ArrayOf es)))"
      and ok: "every_shape (consumer_ok L) (ShapeNode cx cg (Core (ArrayOf es')))"
      and v: "slot_value v" and "shape_admits L R (ShapeNode ex g (Core (ArrayOf es))) v"
    then obtain xs where xs: "v = RArray xs" "list_all2 (shape_admits L R) es xs"
      by (auto simp: shape_admits_simps)
    have "shape_admits L R (es' ! i) (xs ! i)" if i: "i < length es'" for i
    proof -
      from i same xs(2) have mem: "es ! i \<in> set es" "es' ! i \<in> set es'" "xs ! i \<in> set xs"
        and "same_admits (es ! i) (es' ! i)" "shape_admits L R (es ! i) (xs ! i)"
        by (auto simp: list_all2_conv_all_nth)
      with sub_soundD [OF array(1) [OF mem(1)] child_ok(2) [OF p mem(1)] child_ok(2) [OF ok mem(2)]]
        slot_members(3) [OF v [unfolded xs(1)] mem(3)] show ?thesis by simp
    qed
    with same xs show "shape_admits L R (ShapeNode cx cg (Core (ArrayOf es'))) v"
      by (auto simp: shape_admits_simps list_all2_conv_all_nth)
  qed
next
  case (each_like ex g i mn mx)
  then obtain cx cg i' where c: "c = ShapeNode cx cg (Core (EachLike i' mn mx))" and "same_admits i i'"
    by (cases c) (auto split: shape_kind.splits core_shape.splits)
  with each_like(1) show ?case
    by (auto simp: sub_sound_def shape_admits_simps) (meson child_ok(4) document_slot slot_members(3))
next
  case (each_entry ex g k vs mn mx)
  from each_entry(3) obtain cx cg k' vs' where c: "c = ShapeNode cx cg (Core (EachEntry k' vs' mn mx))"
    and keys: "k' = None \<or> (\<exists>a b. k = Some a \<and> k' = Some b \<and> same_admits a b)" and vals: "same_admits vs vs'"
    by (cases c) (auto split: shape_kind.splits core_shape.splits option.splits)
  show ?case unfolding sub_sound_def c
  proof (intro impI allI)
    fix v
    assume p: "every_shape (provider_ok L) (ShapeNode ex g (Core (EachEntry k vs mn mx)))"
      and ok: "every_shape (consumer_ok L) (ShapeNode cx cg (Core (EachEntry k' vs' mn mx)))"
      and v: "slot_value v" and "shape_admits L R (ShapeNode ex g (Core (EachEntry k vs mn mx))) v"
    then obtain fs where fs: "v = RObject fs" "in_region (length fs) (mn, mx)"
      and adm: "\<And>key x. (key, x) \<in> set fs \<Longrightarrow> shape_admits L R vs x"
        "\<And>key x a. (key, x) \<in> set fs \<Longrightarrow> k = Some a \<Longrightarrow> shape_admits L R a (RString key)"
      by (force simp: shape_admits_simps)
    have "shape_admits L R vs' x" if "(key, x) \<in> set fs" for key x
      using sub_soundD [OF each_entry(2) [OF vals] child_ok(5) [OF p] child_ok(5) [OF ok] _ adm(1) [OF that]]
        slot_members(2) [OF v [unfolded fs(1)] that] by simp
    moreover have "shape_admits L R b (RString key)" if "(key, x) \<in> set fs" "k' = Some b" for key x b
    proof -
      from keys that(2) obtain a where a: "k = Some a" "same_admits a b" by auto
      from sub_soundD [OF each_entry(1) [OF a] child_ok(6) [OF p [unfolded a(1)]] child_ok(6) [OF ok [unfolded that(2)]] _
          adm(2) [OF that(1) a(1)]]
      show ?thesis by simp
    qed
    ultimately show "shape_admits L R (ShapeNode cx cg (Core (EachEntry k' vs' mn mx))) v"
      using fs by (auto simp: shape_admits_simps)
  qed
next
  case (contains ex g es)
  then obtain cx cg es' where c: "c = ShapeNode cx cg (Core (Contains es'))" and same: "list_all2 same_admits es es'"
    by (cases c) (auto split: shape_kind.splits core_shape.splits intro: zip_pairs)
  show ?case unfolding sub_sound_def c
  proof (intro impI allI)
    fix v
    assume p: "every_shape (provider_ok L) (ShapeNode ex g (Core (Contains es)))"
      and ok: "every_shape (consumer_ok L) (ShapeNode cx cg (Core (Contains es')))"
      and v: "slot_value v" and "shape_admits L R (ShapeNode ex g (Core (Contains es))) v"
    then obtain xs where xs: "v = RArray xs" "jd_contains R (map (\<lambda>e. map (shape_admits L R e) xs) es)"
      by (auto simp: shape_admits_simps)
    have "shape_admits L R e' x" if "e \<in> set es" "e' \<in> set es'" "same_admits e e'" "x \<in> set xs" "shape_admits L R e x" for e e' x
      using sub_soundD [OF contains(1) [OF that(1,3)] child_ok(3) [OF p that(1)] child_ok(3) [OF ok that(2)] _ that(5)]
        slot_members(3) [OF v [unfolded xs(1)] that(4)] by simp
    then have "list_all2 (\<lambda>e e'. \<forall>x \<in> set xs. shape_admits L R e x \<longrightarrow> shape_admits L R e' x) es es'"
      by (intro list_all2_weaken [OF same]) blast
    from contains_mono [OF assms this xs(2)] xs(1)
    show "shape_admits L R (ShapeNode cx cg (Core (Contains es'))) v" by (auto simp: shape_admits_simps)
  qed
next
  case (optional ex g s)
  then obtain cx cg s' where "c = ShapeNode cx cg (Core (Optional s'))" and "same_admits s s'"
    by (cases c) (auto split: shape_kind.splits core_shape.splits)
  with optional(1) show ?case by (auto simp: sub_sound_def shape_admits_simps dest: child_ok(7))
next
  case (nullable ex g s)
  then obtain cx cg s' where "c = ShapeNode cx cg (Core (Nullable s'))" and "same_admits s s'"
    by (cases c) (auto split: shape_kind.splits core_shape.splits)
  with nullable(1) show ?case by (auto simp: sub_sound_def shape_admits_simps dest: child_ok(8))
next
  case (one_of ex g d as df)
  then obtain cx cg as' df' where c: "c = ShapeNode cx cg (Core (OneOf d as' df'))"
    and same: "list_all2 (\<lambda>(n, a) (n', a'). n = n' \<and> same_admits a a') as as'"
    by (cases c) (force split: shape_kind.splits core_shape.splits intro!: zip_pairs simp: list_all_iff)
  show ?case unfolding sub_sound_def c
  proof (intro impI allI)
    fix v
    assume p: "every_shape (provider_ok L) (ShapeNode ex g (Core (OneOf d as df)))"
      and ok: "every_shape (consumer_ok L) (ShapeNode cx cg (Core (OneOf d as' df')))"
      and v: "slot_value v" and "shape_admits L R (ShapeNode ex g (Core (OneOf d as df))) v"
    then obtain n a where a: "(n, a) \<in> set as" "shape_admits L R a v" by (auto simp: shape_admits_simps)
    obtain a' where a': "(n, a') \<in> set as'" "same_admits a a'"
      using same a(1) by (force simp: list_all2_conv_all_nth in_set_conv_nth)
    from sub_soundD [OF one_of(1) [OF a(1) a'(2)] child_ok(9) [OF p a(1)] child_ok(9) [OF ok a'(1)] v a(2)] a'(1)
    show "shape_admits L R (ShapeNode cx cg (Core (OneOf d as' df'))) v" by (auto simp: shape_admits_simps)
  qed
qed

subsection \<open>Presence and the residue\<close>

lemma ps_absent_admits: "ps_absent (decompose s) \<Longrightarrow> shape_admits L R s RAbsent"
  by (induction s rule: decompose.induct) (auto simp: shape_admits_simps shape_admits_leaves Let_def split: if_splits)

lemma ps_null_admits:
  "every_shape (consumer_ok L) s \<Longrightarrow> ps_null (decompose s) \<Longrightarrow> shape_admits L R s RNull"
proof (induction s rule: decompose.induct)
  case (5 ex g)
  then show ?case
    by (auto simp: shape_admits_leaves example_value_def is_null_example_def split: if_splits option.splits)
qed (force simp: shape_admits_simps shape_admits_leaves Let_def split: if_splits dest: child_ok(7,8))+

lemma rest_admits:
  "ps_rest (decompose s) = Some r \<Longrightarrow> shape_admits L R r v \<Longrightarrow> shape_admits L R s v"
  by (induction s rule: decompose.induct)
    (auto simp: shape_admits_simps shape_admits_leaves Let_def split: if_splits)

lemma not_absent:
  assumes "sound_judge R"
  shows "every_shape (provider_ok L) s \<Longrightarrow> \<not> ps_absent (decompose s) \<Longrightarrow> \<not> shape_admits L R s RAbsent"
proof (induction s rule: shape_cases_induct)
  case (component ex g op raw)
  then show ?case using assms by (simp add: shape_admits_simps sound_judge_def)
next
  case (leaf ex g c)
  have no: "\<not> runtime_eq (rv_from_json x) RAbsent" for x by (cases x) simp_all
  have ex: "example_ok L e \<Longrightarrow> \<not> runtime_eq RAbsent (example_value L (Some e))" for e
    by (cases "ex_value e") (auto simp: example_ok_def example_value_def split: option.splits)
  have content: "\<not> jd_content R t RAbsent" for t using assms by (simp add: sound_judge_def)
  from every_shape_here [OF leaf(2)] leaf(1,3) no ex content show ?case
    by (cases c) (auto simp: shape_admits_simps shape_admits_leaf as_matchable_text_def as_text_def
      split: option.splits)
next
  case (one_of ex g d as df)
  from every_shape_here [OF one_of(2)] have "\<And>n a. (n, a) \<in> set as \<Longrightarrow> \<not> ps_absent (decompose a)"
    by (auto simp: list_all_iff)
  with one_of show ?case by (auto simp: shape_admits_simps dest: child_ok(9))
next
  case (nullable ex g s)
  then show ?case by (auto simp: shape_admits_simps dest: child_ok(8))
qed (auto simp: shape_admits_simps)

lemma rest_cases:
  assumes "shape_admits L R s v" and "every_shape (provider_ok L) s"
  shows "v = RAbsent \<and> ps_absent (decompose s) \<or> v = RNull \<and> ps_null (decompose s)
    \<or> (\<exists>r. ps_rest (decompose s) = Some r \<and> shape_admits L R r v)"
  using assms
proof (induction s rule: decompose.induct)
  case (1 ex g s)
  then show ?case by (auto simp: shape_admits_simps dest: child_ok(7))
next
  case (3 ex g s)
  then show ?case by (auto simp: shape_admits_simps dest: child_ok(8))
next
  case (4 ex g)
  then show ?case by (cases v) (auto simp: shape_admits_leaves)
next
  case (5 ex g)
  then show ?case
    by (cases v) (auto simp: shape_admits_leaves example_value_def is_null_example_def split: option.splits)
next
  case (6 ex g options)
  then obtain x where "x \<in> set options" "runtime_eq (rv_from_json x) v" by (auto simp: shape_admits_simps)
  then show ?case by (cases "x = JNull"; cases v) (auto simp: shape_admits_simps Let_def filter_empty_conv)
qed (auto simp: shape_admits_leaves)

lemma rest_not_absent: "ps_rest (decompose s) = Some r \<Longrightarrow> \<not> ps_absent (decompose r)"
  by (induction s arbitrary: r rule: decompose.induct) (auto simp: Let_def split: if_splits)

lemma rest_ok_any_of:
  "every_shape (provider_ok L) (ShapeNode ex g (Core (AnyOf options))) \<Longrightarrow> set rest \<subseteq> set options \<Longrightarrow>
     every_shape (provider_ok L) (ShapeNode ex' g' (Core (AnyOf rest)))"
  "every_shape (consumer_ok L) (ShapeNode ex g (Core (AnyOf options))) \<Longrightarrow> set rest \<subseteq> set options \<Longrightarrow>
     every_shape (consumer_ok L) (ShapeNode ex' g' (Core (AnyOf rest)))"
  by (auto simp: every_shape.simps [of _ "ShapeNode _ _ (Core (AnyOf _))"] list_all_iff)

lemma rest_ok:
  assumes any_of: "\<And>ex g options rest ex' g'. every_shape P (ShapeNode ex g (Core (AnyOf options))) \<Longrightarrow>
      set rest \<subseteq> set options \<Longrightarrow> every_shape P (ShapeNode ex' g' (Core (AnyOf rest)))"
  shows "every_shape P s \<Longrightarrow> ps_rest (decompose s) = Some r \<Longrightarrow> every_shape P r"
proof (induction s rule: decompose.induct)
  case (1 ex g s)
  from 1(1) [OF child_ok(7) [OF 1(2)]] 1(3) show ?case by simp
next
  case (3 ex g s)
  from 3(1) [OF child_ok(8) [OF 3(2)]] 3(3) show ?case by simp
next
  case (6 ex g options)
  show ?case
  proof (cases "JNull \<in> set options")
    case True
    with 6(2) obtain ex' where r: "r = ShapeNode ex' None (Core (AnyOf (filter (\<lambda>x. x \<noteq> JNull) options)))"
      by (auto simp: Let_def split: if_splits)
    show ?thesis unfolding r by (rule any_of [OF 6(1)]) auto
  qed (use 6 in simp)
qed (simp_all split: if_splits)

lemma provider_rest_ok:
  "every_shape (provider_ok L) s \<Longrightarrow> ps_rest (decompose s) = Some r \<Longrightarrow> every_shape (provider_ok L) r"
  by (rule rest_ok [where P = "provider_ok L"]) (rule rest_ok_any_of(1))

lemma consumer_rest_ok:
  "every_shape (consumer_ok L) s \<Longrightarrow> ps_rest (decompose s) = Some r \<Longrightarrow> every_shape (consumer_ok L) r"
  by (rule rest_ok [where P = "consumer_ok L"]) (rule rest_ok_any_of(2))

subsection \<open>\<open>type\<close> rewritten\<close>

lemma desugared_admits:
  assumes "consumer_ok L s" and "slot_value v"
  shows "shape_admits L R (desugared s) v = shape_admits L R s v"
proof (cases "desugar s")
  case (Some t)
  then obtain e g where s: "s = ShapeNode (Some e) g (Core Type)" and enc: "ex_encoded e = None"
    by (auto elim!: desugar.elims split: if_splits)
  have any: "v = RArray xs \<Longrightarrow> x \<in> set xs \<Longrightarrow> x \<noteq> RAbsent" for x xs
    using assms(2) slot_members(3) by force
  show ?thesis using assms(2) any
    by (cases "ex_value e"; cases v)
      (auto simp: s desugared_def enc shape_admits_leaves shape_admits_simps example_value_def any_node_def
        in_region_def slot_value_def)
qed (simp add: desugared_def)

lemma desugared_ok:
  "every_shape (provider_ok L) s \<Longrightarrow> every_shape (provider_ok L) (desugared s)"
  "every_shape (consumer_ok L) s \<Longrightarrow> every_shape (consumer_ok L) (desugared s)"
proof -
  have "every_shape P s \<Longrightarrow> (\<And>t. desugar s = Some t \<Longrightarrow> every_shape P t) \<Longrightarrow> every_shape P (desugared s)" for P
    by (simp add: desugared_def split: option.split)
  moreover have "desugar s = Some t \<Longrightarrow> every_shape (provider_ok L) t \<and> every_shape (consumer_ok L) t" for t
    by (erule desugar.elims) (auto simp: every_shape.simps any_node_def index_map_def split: if_splits json.splits)
  ultimately show "every_shape (provider_ok L) s \<Longrightarrow> every_shape (provider_ok L) (desugared s)"
    "every_shape (consumer_ok L) s \<Longrightarrow> every_shape (consumer_ok L) (desugared s)" by blast+
qed

lemma desugared_not_absent: "\<not> ps_absent (decompose s) \<Longrightarrow> \<not> ps_absent (decompose (desugared s))"
  by (cases s rule: desugar.cases) (auto simp: desugared_def any_node_def split: json.split value_kind.split)

end
