(* ===== verification/Sub_Leaves.thy ===== *)
theory Sub_Leaves
  imports Sub_Sound
begin

text \<open>
  The leaves of the subsumption walk are sound: the finite questions (\<open>enumerated\<close>, \<open>admits_value\<close>,
  \<open>matched_by\<close>), the kind lattice, the cardinality intervals, and each leaf arm of the exact class.
\<close>

subsection \<open>Literals\<close>

lemma literal_not_absent: "runtime_eq (rv_from_json x) v \<Longrightarrow> v \<noteq> RAbsent"
  by (cases x) auto

lemma kind_of_literal_sound:
  "kind_of_literal k x \<Longrightarrow> not_number x \<Longrightarrow> runtime_eq (rv_from_json x) v \<Longrightarrow> kind_admits k v"
  by (cases x; cases v) (auto simp: kind_of_literal_def not_number_def)

lemma empty_literal: "runtime_eq (rv_from_json x) v \<Longrightarrow> is_empty_value v = is_empty_json x"
  by (cases x; cases v) (auto simp: is_empty_json_def all2_conv_list_all2 dest: list_all2_lengthD)

lemma plain_example_value:
  "plain_example ex = Some x \<Longrightarrow> example_value L ex = rv_from_json x"
  by (auto simp: plain_example_def example_value_def bind_eq_Some_conv split: if_splits)

text \<open>The values a finite shape enumerates are the values it admits.\<close>

lemma enumerated_sound:
  assumes "enumerated p = Some vs" and "every_shape (provider_ok L) p" and "slot_value v" and "shape_admits L R p v"
  obtains x where "x \<in> set vs" "runtime_eq (rv_from_json x) v" "not_number x" "wf_json x"
proof -
  from assms(1) obtain ex g c where p: "p = ShapeNode ex g (Core c)" by (elim enumerated.elims) auto
  have ok: "provider_ok L p" by (rule every_shape_here [OF assms(2)])
  from assms(1) consider
      (null) "c = Kind VK_Null" "vs = [JNull]" | (bool) "c = Kind VK_Boolean" "vs = [JBool True, JBool False]"
    | (lit) x e where "c = Equality" "vs = [x]" "ex = Some e" "plain_example ex = Some x" | (any_of) "c = AnyOf vs"
    | (array) "c = ArrayOf []" "vs = [JArray []]"
    by (auto simp: p plain_example_def bind_eq_Some_conv split: core_shape.splits value_kind.splits if_splits)
  then show thesis
  proof cases
    case null
    with assms(4) have "v = RNull" by (cases v) (simp_all add: p shape_admits_leaves)
    with null show thesis by (intro that [of JNull]) (simp_all add: not_number_def)
  next
    case bool
    with assms(4) obtain b where "v = RBool b" by (cases v) (simp_all add: p shape_admits_leaves)
    with bool show thesis by (intro that [of "JBool b"]) (cases b; simp add: not_number_def)+
  next
    case lit
    with ok have x: "not_number x" "wf_json x"
      by (auto simp: p plain_example_def example_ok_def bind_eq_Some_conv split: if_splits)
    from assms(4) have "runtime_eq v (rv_from_json x)"
      using plain_example_value [OF lit(4), of L] by (simp add: p lit(1) shape_admits_leaves)
    then have "runtime_eq (rv_from_json x) v"
      using slot_wf [OF assms(3)] wf_rv_from_json [OF x(2)] by (rule runtime_eq_sym)
    with x lit(2) show thesis by (intro that [of x]) auto
  next
    case any_of
    with assms(4) obtain x where "x \<in> set vs" "runtime_eq (rv_from_json x) v" by (auto simp: p shape_admits_simps)
    with ok any_of show thesis by (intro that [of x]) (auto simp: p list_all_iff)
  next
    case array
    with assms(4) have "v = RArray []" by (auto simp: p shape_admits_simps)
    with array show thesis by (intro that [of "JArray []"]) (simp_all add: not_number_def)
  qed
qed

lemma admits_value_sound:
  "admits_value L c x = Some True \<Longrightarrow> not_number x \<Longrightarrow> wf_json x \<Longrightarrow> runtime_eq (rv_from_json x) v \<Longrightarrow> wf_rv v \<Longrightarrow>
   every_shape (consumer_ok L) c \<Longrightarrow> shape_admits L R c v"
proof (induction L c x rule: admits_value.induct)
  case (1 L ex g x)
  then show ?case by (simp add: shape_admits_leaves literal_not_absent)
next
  case (2 L ex g k x)
  then show ?case by (simp add: shape_admits_leaves kind_of_literal_sound)
next
  case (3 L ex g x)
  then obtain e where e: "plain_example ex = Some e" "value_eq e x" by auto
  from every_shape_here [OF 3(6)] e(1) have wf: "wf_json e"
    by (auto simp: plain_example_def example_ok_def bind_eq_Some_conv split: if_splits)
  from e(2) have "runtime_eq (rv_from_json e) (rv_from_json x)" by (simp add: runtime_eq_from_json)
  then have "runtime_eq (rv_from_json e) v" using 3(4) by (rule runtime_eq_trans)
  then have "runtime_eq v (rv_from_json e)" using wf_rv_from_json [OF wf] 3(5) by (rule runtime_eq_sym)
  then show ?case by (simp add: shape_admits_leaves plain_example_value [OF e(1)])
next
  case (4 L ex g options x)
  then obtain y where "y \<in> set options" "value_eq y x" by (auto simp: list_ex_iff)
  then have "runtime_eq (rv_from_json y) (rv_from_json x)" by (simp add: runtime_eq_from_json)
  then have "runtime_eq (rv_from_json y) v" using 4(4) by (rule runtime_eq_trans)
  with \<open>y \<in> set options\<close> show ?case by (auto simp: shape_admits_simps)
next
  case (5 L ex g x)
  then show ?case by (simp add: shape_admits_leaves empty_literal)
next
  case (6 L ex g x)
  then show ?case by (cases x; cases v) (auto simp: shape_admits_leaves as_text_def)
next
  case (7 L ex g s x)
  then show ?case using child_ok(7) by (auto simp: shape_admits_simps)
next
  case (8 L ex g s x)
  show ?case
  proof (cases "x = JNull")
    case True
    with 8(5) show ?thesis by (cases v) (auto simp: shape_admits_simps)
  next
    case False
    with 8 show ?thesis using child_ok(8) by (auto simp: shape_admits_simps)
  qed
qed simp_all

subsection \<open>Emptiness\<close>

lemma admits_only_non_empty_sound:
  assumes "sound_lib L" "sound_judge R" "admits_only_non_empty p = Some True" "every_shape (provider_ok L) p"
    and "slot_value v" "shape_admits L R p v"
  shows "\<not> is_empty_value v"
proof -
  from assms(3) obtain ex g c where p: "p = ShapeNode ex g (Core c)" by (elim admits_only_non_empty.elims) auto
  have ok: "provider_ok L p" by (rule every_shape_here [OF assms(4)])
  show ?thesis
  proof (cases c)
    case Equality
    with ok obtain e where e: "ex = Some e" "example_ok L e" by (auto simp: p split: option.splits)
    with assms(3) Equality have "\<not> is_empty_example e" by (simp add: p)
    moreover from assms(6) have eq: "runtime_eq v (example_value L (Some e))" by (simp add: p Equality e(1) shape_admits_leaves)
    ultimately show ?thesis using assms(5) e(2)
      by (cases "ex_value e"; cases v)
        (auto simp: example_ok_def example_value_def is_empty_example_def is_empty_json_def slot_value_def from_utf8_def
          all2_conv_list_all2 split: option.splits if_splits dest: list_all2_lengthD)
  next
    case (Kind k)
    with assms(3,6) show ?thesis by (cases v) (auto simp: p shape_admits_leaves)
  next
    case (AnyOf options)
    with assms(6) obtain x where "x \<in> set options" "runtime_eq (rv_from_json x) v" by (auto simp: p shape_admits_simps)
    with assms(3) AnyOf show ?thesis by (auto simp: p list_all_iff empty_literal)
  next
    case (Object ms)
    with assms(3) obtain n m where m: "(n, m) \<in> set ms" "\<not> ps_absent (decompose m)" by (auto simp: p list_ex_iff)
    from not_absent [OF assms(2) child_ok(1) [OF assms(4) [unfolded p Object] m(1)] m(2)]
    show ?thesis using assms(6) m(1) by (auto simp: p Object shape_admits_simps or_absent_def)
  qed (use assms(1,3,6) in \<open>cases v; force simp: p shape_admits_simps shape_admits_leaves sound_lib_def as_text_def
      in_region_def from_utf8_def\<close>)+
qed

subsection \<open>Membership decided by the matcher\<close>

lemma capture_reads: "captured_resolve (capture p v []) p = v"
  by (simp add: captured_resolve_def resolve_slot captured_whole_def contains_key_def capture_def)

lemma matched_by_iff:
  assumes "string_valued cc" and "wf_json x"
  shows "matched_by L (ShapeNode ex g (Core cc)) x = shape_admits L R (ShapeNode ex g (Core cc)) (rv_from_json x)"
proof -
  let ?s = "ShapeNode ex g (Core cc)"
  let ?captured = "capture ''$.subsumption.value'' (rv_from_json x) []"
  let ?spec = "\<lparr>in_description = ''membership'', in_parts = [(''subsumption'', [(''value'', ?s)])]\<rparr>"
  have host: "membership_host x = silent_host ?captured" by (simp add: membership_host_def silent_host_def)
  have path: "slot_path ''subsumption'' ''value'' = ''$.subsumption.value''" by (simp add: slot_path_def path_root_def)
  have "every_shape plan_ok ?s" using assms(1) by (cases cc) (auto simp: every_shape.simps string_valued_def)
  then have ready: "all_slots ?spec (slot_ready ?captured)"
    using assms(2) by (simp add: all_slots_def slot_ready_def path capture_reads wf_rv_from_json)
      (simp add: captured_whole_def contains_key_def capture_def)
  have "verdict (execute_with L (membership_host x) (compile_plan L ?spec [] None))
      (all_slots ?spec (\<lambda>part slot s.
         admits L silent_judge (map_of []) (path_root part slot) s (captured_resolve ?captured (slot_path part slot))))"
    unfolding host by (rule plan_verdict [OF silent_agrees _ _ ready]) (simp_all add: silent_judge_def silent_host_def)
  then have "matched_by L ?s x = shape_admits L silent_judge ?s (rv_from_json x)"
    by (simp add: matched_by_def outcome_matched verdict_def all_slots_def path capture_reads
        shape_admits_at [unfolded unpinned_def])
  also have "\<dots> = shape_admits L R ?s (rv_from_json x)"
    using assms(1) by (cases cc) (auto simp: string_valued_def shape_admits_leaf)
  finally show ?thesis .
qed

lemma matched_by_sound:
  assumes "matched_by L (ShapeNode ex g (Core cc)) x" and "string_valued cc" and "not_number x" and "wf_json x"
    and "runtime_eq (rv_from_json x) v"
  shows "shape_admits L R (ShapeNode ex g (Core cc)) v"
proof -
  have adm: "shape_admits L R (ShapeNode ex g (Core cc)) (rv_from_json x)"
    using assms(1) by (simp add: matched_by_iff [OF assms(2,4), of L ex g R])
  with assms(2) have "(\<exists>t. x = JString t) \<or> (\<exists>b. x = JBool b) \<or> (\<exists>n. x = JNumber n)"
    by (cases x; cases cc) (auto simp: string_valued_def shape_admits_leaf as_matchable_text_def as_text_def split: option.splits)
  with assms(3,5) have "v = rv_from_json x" by (cases v) (auto simp: not_number_def)
  with adm show ?thesis by simp
qed

subsection \<open>Kinds and intervals\<close>

lemma kind_subset_sound: "kind_subset k k' \<Longrightarrow> kind_admits k v \<Longrightarrow> kind_admits k' v"
  by (cases v; cases k; cases k') (auto simp: kind_subset_def)

lemma interval_within_sound: "interval_within a b c d \<Longrightarrow> in_region n (a, b) \<Longrightarrow> in_region n (c, d)"
  by (auto simp: interval_within_def in_region_def split: option.splits)

lemma cardinality_yes: "out_verdict (cardinality_out a b c d at unit) = Yes \<longleftrightarrow> interval_within a b c d"
  by (simp add: cardinality_out_def Let_def)

text \<open>The text operators read only text, and \<open>string\<close> admits it.\<close>

lemma text_is_string:
  assumes "string_valued pc" and "provider_ok L (ShapeNode ex g (Core pc))" and "slot_value v"
    and "shape_admits L R (ShapeNode ex g (Core pc)) v"
  shows "\<exists>t. v = RString t"
  using assms
  by (cases pc; cases v)
    (auto simp: string_valued_def shape_admits_leaf as_matchable_text_def as_text_def slot_value_def reads_text_only_def
      split: option.splits sum.splits)

end
