(* ===== verification/Walk_Laws.thy ===== *)
theory Walk_Laws
  imports Sub_Walk
begin

text \<open>
  The contract of the subsumption walk. What holds of every refusal, survives the coverage caveat and
  passes from the walks of the children to one node holds of every node the walk visits. The locale
  states it once; the two properties of the checker, that every verdict is recorded and that a \<open>yes\<close> is
  sound, are its interpretations.
\<close>

locale walk_contract =
  fixes holds :: "lib \<Rightarrow> shape \<Rightarrow> shape \<Rightarrow> out \<Rightarrow> bool"
  assumes refusal: "recorded Unknown x \<Longrightarrow> holds L p c (out_unknown x)"
    and caveated: "holds L p c r \<Longrightarrow> holds L p c (caveat L E r p c at)"
    and one_node: "(\<And>p c at. holds L p c (f p c at)) \<Longrightarrow> holds L p c (value_node f L E p c at)"
begin

lemma walk: "holds L p c (walk_node L E p c at)"
proof (induction L E p c at rule: walk_node.induct)
  case (1 L E p c at)
  define f where "f = (\<lambda>p' c' at'. if weight p' + weight c' < weight p + weight c then walk_node L E p' c' at'
    else out_unknown (unreviewable [] [] [] []))"
  have "holds L p' c' (f p' c' at')" for p' c' at'
    using 1 by (simp add: f_def refusal)
  then have "holds L p c (value_node f L E p c at)" by (rule one_node)
  also have "value_node f L E p c at = value_node (\<lambda>p' c' at'. walk_node L E p' c' at') L E p c at"
    by (rule value_node_cong) (simp add: f_def)
  finally show ?case by (subst walk_node.simps) (rule caveated)
qed

end

interpretation recording: walk_contract "\<lambda>L p c r. accounted r"
  by unfold_locales (auto intro: caveat_accounted value_node_accounted)

end
