(* ===== verification/Sub_Refine.thy ===== *)
theory Sub_Refine
  imports Sub_Leaves Walk_Laws
begin

text \<open>
  A \<open>yes\<close> of the subsumption walk is sound: each arm of the operator table, given that a \<open>yes\<close> of the
  walk of two children is, and then the walk, through the contract of theory \<open>Walk_Laws\<close>.
\<close>

definition passes :: "lib \<Rightarrow> judge \<Rightarrow> node_walk \<Rightarrow> bool" where
  "passes L R f \<longleftrightarrow> (\<forall>p c at. out_verdict (f p c at) = Yes \<longrightarrow> sub_sound L R p c)"

lemma passesD:
  "passes L R f \<Longrightarrow> out_verdict (f p c at) = Yes \<Longrightarrow> every_shape (provider_ok L) p \<Longrightarrow> every_shape (consumer_ok L) c \<Longrightarrow>
   slot_value v \<Longrightarrow> shape_admits L R p v \<Longrightarrow> shape_admits L R c v"
  by (auto simp: passes_def sub_sound_def)

lemma any_node_ok [simp]: "every_shape (provider_ok L) any_node" "every_shape (consumer_ok L) any_node"
  by (simp_all add: any_node_def every_shape.simps)

lemma any_node_admits [simp]: "shape_admits L R any_node v = (v \<noteq> RAbsent)"
  by (simp add: any_node_def shape_admits_leaves)

subsection \<open>Composites\<close>

lemma by_name_members: "set (members_by_name ms) = set ms"
  by (simp add: members_by_name_def)

lemma anything_or_absence_admits: "admits_anything_or_absence c \<Longrightarrow> shape_admits L R c v"
proof -
  assume c: "admits_anything_or_absence c"
  then obtain rest where rest: "ps_absent (decompose c)" "ps_rest (decompose c) = Some rest" "is_any rest"
    by (auto simp: admits_anything_or_absence_def Let_def split: option.splits)
  show ?thesis
  proof (cases "v = RAbsent")
    case True
    with rest(1) show ?thesis by (simp add: ps_absent_admits)
  next
    case False
    with rest(3) have "shape_admits L R rest v" by (cases rest) (simp add: is_any_def shape_admits_leaves)
    with rest(2) show ?thesis by (rule rest_admits)
  qed
qed


lemma object_sound:
  assumes f: "passes L R f" and yes: "out_verdict (object_out f L pm cm at) = Yes"
  shows "sub_sound L R (ShapeNode pe pg (Core (Object pm))) (ShapeNode ce cg (Core (Object cm)))"
  unfolding sub_sound_def
proof (intro impI allI)
  fix v
  assume p: "every_shape (provider_ok L) (ShapeNode pe pg (Core (Object pm)))"
    and c: "every_shape (consumer_ok L) (ShapeNode ce cg (Core (Object cm)))"
    and v: "slot_value v" and "shape_admits L R (ShapeNode pe pg (Core (Object pm))) v"
  then obtain fs where fs: "v = RObject fs" "\<And>n m. (n, m) \<in> set pm \<Longrightarrow> shape_admits L R m (or_absent (map_of fs n))"
    by (auto simp: shape_admits_simps)
  have "shape_admits L R m (or_absent (map_of fs n))" if m: "(n, m) \<in> set cm" for n m
  proof (cases "map_of pm n")
    case None
    with yes m have "admits_anything_or_absence m"
      by (auto simp: object_out_def by_name_members split: if_splits)
    then show ?thesis by (rule anything_or_absence_admits)
  next
    case (Some m')
    then have m': "(n, m') \<in> set pm" by (rule map_of_SomeD)
    from yes m Some have "out_verdict (f m' m (path_member at n)) = Yes"
      by (auto simp: object_out_def by_name_members)
    from passesD [OF f this child_ok(1) [OF p m'] child_ok(1) [OF c m] _ fs(2) [OF m']]
      slot_members(1) [OF v [unfolded fs(1)]] show ?thesis by simp
  qed
  with fs(1) show "shape_admits L R (ShapeNode ce cg (Core (Object cm))) v" by (auto simp: shape_admits_simps)
qed

text \<open>The three pairs of arrays: whichever entry stands at a position on either side.\<close>

lemma array_sound:
  assumes f: "passes L R f" and yes: "out_verdict (array_out f L p ps c cs at) = Yes"
  shows "sub_sound L R (ShapeNode pe pg (Core (ArrayOf ps))) (ShapeNode ce cg (Core (ArrayOf cs)))"
  unfolding sub_sound_def
proof (intro impI allI)
  fix v
  assume p: "every_shape (provider_ok L) (ShapeNode pe pg (Core (ArrayOf ps)))"
    and c: "every_shape (consumer_ok L) (ShapeNode ce cg (Core (ArrayOf cs)))"
    and v: "slot_value v" and "shape_admits L R (ShapeNode pe pg (Core (ArrayOf ps))) v"
  then obtain xs where xs: "v = RArray xs" "list_all2 (shape_admits L R) ps xs" by (auto simp: shape_admits_simps)
  from yes have len: "length ps = length cs" by (simp add: array_out_def split: if_splits)
  have "shape_admits L R (cs ! i) (xs ! i)" if i: "i < length cs" for i
  proof -
    from i len have "(i, ps ! i, cs ! i) \<in> set (List.enumerate 0 (zip ps cs))" by (simp add: in_set_enumerate_eq)
    with yes have y: "out_verdict (f (ps ! i) (cs ! i) (path_array_index at i)) = Yes"
      by (force simp: array_out_def split: if_splits)
    from i len xs(2) have mem: "ps ! i \<in> set ps" "cs ! i \<in> set cs" "xs ! i \<in> set xs" "shape_admits L R (ps ! i) (xs ! i)"
      by (auto simp: list_all2_conv_all_nth)
    from passesD [OF f y child_ok(2) [OF p mem(1)] child_ok(2) [OF c mem(2)] _ mem(4)]
      slot_members(3) [OF v [unfolded xs(1)] mem(3)] show ?thesis by simp
  qed
  with len xs show "shape_admits L R (ShapeNode ce cg (Core (ArrayOf cs))) v"
    by (auto simp: shape_admits_simps list_all2_conv_all_nth)
qed

lemma each_like_sound:
  assumes f: "passes L R f" and yes: "out_verdict (f s t at) = Yes" and within: "interval_within a b a' b'"
  shows "sub_sound L R (ShapeNode pe pg (Core (EachLike s a b))) (ShapeNode ce cg (Core (EachLike t a' b')))"
  unfolding sub_sound_def
proof (intro impI allI)
  fix v
  assume p: "every_shape (provider_ok L) (ShapeNode pe pg (Core (EachLike s a b)))"
    and c: "every_shape (consumer_ok L) (ShapeNode ce cg (Core (EachLike t a' b')))"
    and v: "slot_value v" and "shape_admits L R (ShapeNode pe pg (Core (EachLike s a b))) v"
  then obtain xs where xs: "v = RArray xs" "in_region (length xs) (a, b)" "\<And>x. x \<in> set xs \<Longrightarrow> shape_admits L R s x"
    by (auto simp: shape_admits_simps)
  have "shape_admits L R t x" if x: "x \<in> set xs" for x
    using passesD [OF f yes child_ok(4) [OF p] child_ok(4) [OF c] _ xs(3) [OF x]]
      slot_members(3) [OF v [unfolded xs(1)] x] by simp
  with xs within show "shape_admits L R (ShapeNode ce cg (Core (EachLike t a' b'))) v"
    by (auto simp: shape_admits_simps intro: interval_within_sound)
qed

lemma exactly_region: "in_region n (m, Some m) \<longleftrightarrow> n = m"
  by (auto simp: in_region_def)

lemma items_entries_sound:
  assumes f: "passes L R f" and within: "interval_within a b (length es) (Some (length es))"
    and yes: "\<And>i. i < length es \<Longrightarrow> out_verdict (f s (es ! i) (path_array_index at i)) = Yes"
  shows "sub_sound L R (ShapeNode pe pg (Core (EachLike s a b))) (ShapeNode ce cg (Core (ArrayOf es)))"
  unfolding sub_sound_def
proof (intro impI allI)
  fix v
  assume p: "every_shape (provider_ok L) (ShapeNode pe pg (Core (EachLike s a b)))"
    and c: "every_shape (consumer_ok L) (ShapeNode ce cg (Core (ArrayOf es)))"
    and v: "slot_value v" and "shape_admits L R (ShapeNode pe pg (Core (EachLike s a b))) v"
  then obtain xs where xs: "v = RArray xs" "in_region (length xs) (a, b)" "\<And>x. x \<in> set xs \<Longrightarrow> shape_admits L R s x"
    by (auto simp: shape_admits_simps)
  from interval_within_sound [OF within xs(2)] have len: "length xs = length es" by (simp add: exactly_region)
  have "shape_admits L R (es ! i) (xs ! i)" if i: "i < length es" for i
  proof -
    from i len have mem: "es ! i \<in> set es" "xs ! i \<in> set xs" by simp_all
    from passesD [OF f yes [OF i] child_ok(4) [OF p] child_ok(2) [OF c mem(1)] _ xs(3) [OF mem(2)]]
      slot_members(3) [OF v [unfolded xs(1)] mem(2)] show ?thesis by simp
  qed
  with xs(1) len show "shape_admits L R (ShapeNode ce cg (Core (ArrayOf es))) v"
    by (auto simp: shape_admits_simps list_all2_conv_all_nth)
qed

lemma entries_items_sound:
  assumes f: "passes L R f" and within: "interval_within (length es) (Some (length es)) a b"
    and yes: "\<And>i. i < length es \<Longrightarrow> out_verdict (f (es ! i) s (path_array_index at i)) = Yes"
  shows "sub_sound L R (ShapeNode pe pg (Core (ArrayOf es))) (ShapeNode ce cg (Core (EachLike s a b)))"
  unfolding sub_sound_def
proof (intro impI allI)
  fix v
  assume p: "every_shape (provider_ok L) (ShapeNode pe pg (Core (ArrayOf es)))"
    and c: "every_shape (consumer_ok L) (ShapeNode ce cg (Core (EachLike s a b)))"
    and v: "slot_value v" and "shape_admits L R (ShapeNode pe pg (Core (ArrayOf es))) v"
  then obtain xs where xs: "v = RArray xs" "list_all2 (shape_admits L R) es xs" by (auto simp: shape_admits_simps)
  then have len: "length xs = length es" by (simp add: list_all2_conv_all_nth)
  have "shape_admits L R s x" if "x \<in> set xs" for x
  proof -
    from that len obtain i where i: "i < length es" "x = xs ! i" by (auto simp: in_set_conv_nth)
    with xs(2) have mem: "es ! i \<in> set es" "shape_admits L R (es ! i) x" by (auto simp: list_all2_conv_all_nth)
    from passesD [OF f yes [OF i(1)] child_ok(2) [OF p mem(1)] child_ok(4) [OF c] _ mem(2)]
      slot_members(3) [OF v [unfolded xs(1)] that] show ?thesis by simp
  qed
  moreover have "in_region (length xs) (a, b)" using interval_within_sound [OF within] by (simp add: len exactly_region)
  ultimately show "shape_admits L R (ShapeNode ce cg (Core (EachLike s a b))) v"
    using xs(1) by (auto simp: shape_admits_simps)
qed

lemma each_entry_sound:
  assumes f: "passes L R f" and within: "interval_within a b a' b'"
    and keys: "out_verdict (f (case k of Some x \<Rightarrow> x | None \<Rightarrow> any_node) (case k' of Some x \<Rightarrow> x | None \<Rightarrow> any_node) at) = Yes"
    and vals: "out_verdict (f s t at') = Yes"
  shows "sub_sound L R (ShapeNode pe pg (Core (EachEntry k s a b))) (ShapeNode ce cg (Core (EachEntry k' t a' b')))"
  unfolding sub_sound_def
proof (intro impI allI)
  fix v
  assume p: "every_shape (provider_ok L) (ShapeNode pe pg (Core (EachEntry k s a b)))"
    and c: "every_shape (consumer_ok L) (ShapeNode ce cg (Core (EachEntry k' t a' b')))"
    and v: "slot_value v" and "shape_admits L R (ShapeNode pe pg (Core (EachEntry k s a b))) v"
  then obtain fs where fs: "v = RObject fs" "in_region (length fs) (a, b)"
    and adm: "\<And>key x. (key, x) \<in> set fs \<Longrightarrow> shape_admits L R s x"
      "\<And>key x m. (key, x) \<in> set fs \<Longrightarrow> k = Some m \<Longrightarrow> shape_admits L R m (RString key)"
    by (force simp: shape_admits_simps)
  have "shape_admits L R t x" if "(key, x) \<in> set fs" for key x
    using passesD [OF f vals child_ok(5) [OF p] child_ok(5) [OF c] _ adm(1) [OF that]]
      slot_members(2) [OF v [unfolded fs(1)] that] by simp
  moreover have "shape_admits L R m (RString key)" if "(key, x) \<in> set fs" "k' = Some m" for key x m
  proof -
    have "every_shape (provider_ok L) (case k of Some x \<Rightarrow> x | None \<Rightarrow> any_node)"
      using p child_ok(6) by (auto split: option.splits)
    moreover have "every_shape (consumer_ok L) m" using c child_ok(6) that(2) by blast
    moreover have "shape_admits L R (case k of Some x \<Rightarrow> x | None \<Rightarrow> any_node) (RString key)"
      using adm(2) [OF that(1)] by (auto split: option.splits)
    ultimately show ?thesis using passesD [OF f keys] that(2) by simp
  qed
  ultimately show "shape_admits L R (ShapeNode ce cg (Core (EachEntry k' t a' b'))) v"
    using fs within by (auto simp: shape_admits_simps intro: interval_within_sound)
qed

lemma alternatives_sound:
  assumes "\<And>n a. (n, a) \<in> set as \<Longrightarrow> sub_sound L R a c"
  shows "sub_sound L R (ShapeNode pe pg (Core (OneOf d as df))) c"
  using assms by (fastforce simp: sub_sound_def shape_admits_simps dest: child_ok(9))

lemma alternative_sound:
  assumes "sub_sound L R p a" and "(n, a) \<in> set as"
  shows "sub_sound L R p (ShapeNode ce cg (Core (OneOf d as df)))"
  using assms by (fastforce simp: sub_sound_def shape_admits_simps dest: child_ok(9))

lemma one_of_pair_sound:
  assumes f: "passes L R f" and yes: "out_verdict (one_of_pair f L p pd ps c cd cs at) = Yes"
  shows "sub_sound L R (ShapeNode pe pg (Core (OneOf pd ps pf))) (ShapeNode ce cg (Core (OneOf cd cs cf)))"
proof (rule alternatives_sound)
  fix n a
  assume a: "(n, a) \<in> set ps"
  from yes have "pd = cd" by (auto simp: one_of_pair_def unreviewed_def split: if_splits)
  with yes a obtain m b where "(m, b) \<in> set cs" "out_verdict (f a b (path_alternative at m)) = Yes"
    by (fastforce simp: one_of_pair_def Let_def split: option.splits dest: found_member)
  with f show "sub_sound L R a (ShapeNode ce cg (Core (OneOf cd cs cf)))"
    by (intro alternative_sound) (auto simp: passes_def)
qed

lemma alternatives_out_sound:
  assumes "passes L R f" and "out_verdict (alternatives_out f as c at) = Yes"
  shows "sub_sound L R (ShapeNode pe pg (Core (OneOf d as df))) c"
  using assms by (intro alternatives_sound) (force simp: alternatives_out_def passes_def)

lemma inside_alternative_sound:
  assumes "passes L R f" and "out_verdict (inside_alternative f L p c d as at) = Yes"
  shows "sub_sound L R p (ShapeNode ce cg (Core (OneOf d as df)))"
proof -
  from assms(2) obtain n a where "(n, a) \<in> set as" "out_verdict (f p a (path_alternative at n)) = Yes"
    by (auto simp: inside_alternative_def unreviewed_def Let_def split: option.splits dest: found_member)
  with assms(1) show ?thesis by (auto simp: passes_def intro: alternative_sound)
qed

subsection \<open>Leaf arms\<close>

lemma refused [simp]:
  "out_verdict (unreviewed L p c at reason) = Unknown" "out_verdict (if b then out_yes else out_no x) = Yes \<longleftrightarrow> b"
  by (simp_all add: unreviewed_def)

lemma not_empty_sound:
  assumes "sound_lib L" "sound_judge R" and "out_verdict (not_empty_out L p c at) = Yes"
  shows "sub_sound L R p (ShapeNode ce cg (Core NotEmpty))"
proof -
  from assms(3) have "admits_only_non_empty p = Some True"
    by (auto simp: not_empty_out_def split: option.splits bool.splits)
  from admits_only_non_empty_sound [OF assms(1,2) this] show ?thesis
    by (simp add: sub_sound_def shape_admits_leaves)
qed

lemma equality_sound:
  assumes "out_verdict (equality_out L (ShapeNode pe pg (Core Equality)) c at) = Yes"
  shows "sub_sound L R (ShapeNode pe pg (Core Equality)) c"
  unfolding sub_sound_def
proof (intro impI allI)
  fix v
  let ?p = "ShapeNode pe pg (Core Equality)"
  assume p: "every_shape (provider_ok L) ?p" and c: "every_shape (consumer_ok L) c"
    and v: "slot_value v" "shape_admits L R ?p v"
  from assms obtain e where e: "pe = Some e" "ex_encoded e = None" "admits_value L c (ex_value e) = Some True"
    by (auto simp: equality_out_def admits_example_def bind_eq_Some_conv split: option.splits bool.splits if_splits)
  have "enumerated ?p = Some [ex_value e]" by (simp add: plain_example_def e(1,2))
  from enumerated_sound [OF this p v] have x: "runtime_eq (rv_from_json (ex_value e)) v" "not_number (ex_value e)"
    "wf_json (ex_value e)" by auto
  from admits_value_sound [OF e(3) x(2,3,1) slot_wf [OF v(1)] c] show "shape_admits L R c v" .
qed

lemma any_of_sound:
  assumes "out_verdict (any_of_out L p options c at) = Yes"
  shows "sub_sound L R (ShapeNode pe pg (Core (AnyOf options))) c"
  unfolding sub_sound_def
proof (intro impI allI)
  fix v
  let ?p = "ShapeNode pe pg (Core (AnyOf options))"
  assume p: "every_shape (provider_ok L) ?p" and c: "every_shape (consumer_ok L) c"
    and v: "slot_value v" "shape_admits L R ?p v"
  have "enumerated ?p = Some options" by simp
  from enumerated_sound [OF this p v] obtain x where x: "x \<in> set options" "runtime_eq (rv_from_json x) v"
    "not_number x" "wf_json x" .
  from assms have "Some False \<notin> set (map (admits_value L c) options)" "None \<notin> set (map (admits_value L c) options)"
    by (auto simp: any_of_out_def Let_def split: if_splits)
  with x(1) have "admits_value L c x = Some True" by (cases "admits_value L c x") (auto simp: image_iff)
  from admits_value_sound [OF this x(3,4,2) slot_wf [OF v(1)] c] show "shape_admits L R c v" .
qed

lemma literal_set_sound:
  assumes "out_verdict (literal_set L p c options at) = Yes" and "every_shape (provider_ok L) p"
    and "slot_value v" and "shape_admits L R p v"
  shows "\<exists>y \<in> set options. runtime_eq (rv_from_json y) v"
proof -
  from assms(1) obtain vs where vs: "enumerated p = Some vs" "\<And>x. x \<in> set vs \<Longrightarrow> \<exists>y \<in> set options. value_eq y x"
    by (auto simp: literal_set_def list_all_iff list_ex_iff split: option.splits if_splits)
  from enumerated_sound [OF vs(1) assms(2-4)] obtain x where x: "x \<in> set vs" "runtime_eq (rv_from_json x) v" .
  from vs(2) [OF x(1)] obtain y where y: "y \<in> set options" "value_eq y x" by blast
  from y(2) have "runtime_eq (rv_from_json y) (rv_from_json x)" by (simp add: runtime_eq_from_json)
  from runtime_eq_trans [OF this x(2)] y(1) show ?thesis by blast
qed

lemma consumer_any_of_sound:
  "out_verdict (literal_set L p c options at) = Yes \<Longrightarrow> sub_sound L R p (ShapeNode ce cg (Core (AnyOf options)))"
  using literal_set_sound by (auto simp: sub_sound_def shape_admits_simps)

lemma consumer_equality_sound:
  assumes "out_verdict (consumer_equality_out L p (ShapeNode ce cg (Core Equality)) at) = Yes"
  shows "sub_sound L R p (ShapeNode ce cg (Core Equality))"
  unfolding sub_sound_def
proof (intro impI allI)
  fix v
  assume p: "every_shape (provider_ok L) p" and c: "every_shape (consumer_ok L) (ShapeNode ce cg (Core Equality))"
    and v: "slot_value v" "shape_admits L R p v"
  from assms obtain x where x: "plain_example ce = Some x" "out_verdict (literal_set L p (ShapeNode ce cg (Core Equality)) [x] at) = Yes"
    by (auto simp: consumer_equality_out_def split: option.splits)
  from literal_set_sound [OF x(2) p v] have eq: "runtime_eq (rv_from_json x) v" by simp
  from every_shape_here [OF c] x(1) have "wf_json x"
    by (auto simp: plain_example_def example_ok_def bind_eq_Some_conv split: if_splits)
  from runtime_eq_sym [OF eq wf_rv_from_json [OF this] slot_wf [OF v(1)]]
  show "shape_admits L R (ShapeNode ce cg (Core Equality)) v"
    by (simp add: shape_admits_leaves plain_example_value [OF x(1)])
qed

lemma kind_sound:
  "out_verdict (kind_out L p k c k' at) = Yes \<Longrightarrow> sub_sound L R (ShapeNode pe pg (Core (Kind k))) (ShapeNode ce cg (Core (Kind k')))"
  by (auto simp: kind_out_def sub_sound_def shape_admits_leaves intro: kind_subset_sound)

lemma semver_is_string: "sub_sound L R (ShapeNode pe pg (Core Semver)) (ShapeNode ce cg (Core (Kind VK_String)))"
proof -
  have "slot_value v \<Longrightarrow> as_text v = Some t \<Longrightarrow> v = RString t" for v t
    by (cases v) (auto simp: slot_value_def as_text_def)
  then show ?thesis by (fastforce simp: sub_sound_def shape_admits_leaves split: option.splits)
qed

lemma exact_leaves_sound:
  assumes "sound_lib L" "sound_judge R"
    and yes: "out_verdict (exact_leaves L (ShapeNode pe pg (Core pc)) pc (ShapeNode ce cg (Core cc)) cc at) = Yes"
  shows "sub_sound L R (ShapeNode pe pg (Core pc)) (ShapeNode ce cg (Core cc))"
  by (rule exact_leaves_cases [of cc L "ShapeNode pe pg (Core pc)" pc "ShapeNode ce cg (Core cc)" at])
    (use yes in \<open>simp_all add: not_empty_sound [OF assms(1,2)] equality_sound any_of_sound consumer_equality_sound
      consumer_any_of_sound kind_sound semver_is_string\<close>)

end
