(* ===== verification/Sub_Total.thy ===== *)
theory Sub_Total
  imports Sub_Refine
begin

text \<open>
  The soundness of the whole walk: the exact class, the operator table, one node, and every node.
\<close>

lemma enumerate_yes:
  assumes "\<forall>r \<in> set (map (\<lambda>(index, e). h index e) (List.enumerate 0 es)). out_verdict r = Yes" and "i < length es"
  shows "out_verdict (h i (es ! i)) = Yes"
proof -
  have "(i, es ! i) \<in> set (List.enumerate 0 es)" using assms(2) by (simp add: in_set_enumerate_eq)
  with assms(1) show ?thesis by force
qed

lemma exact_sound:
  assumes lib: "sound_lib L" "sound_judge R" and f: "passes L R f"
    and yes: "out_verdict (exact f L (ShapeNode pe pg (Core pc)) pc (ShapeNode ce cg (Core cc)) cc at) = Yes"
  shows "sub_sound L R (ShapeNode pe pg (Core pc)) (ShapeNode ce cg (Core cc))"
proof (cases "\<exists>d as df. cc = OneOf d as df")
  case True
  then obtain d as df where cc: "cc = OneOf d as df" by blast
  show ?thesis using yes one_of_pair_sound [OF f] inside_alternative_sound [OF f]
    by (cases pc) (simp_all add: exact_def cc)
next
  case other: False
  show ?thesis
  proof (cases pc)
    case (OneOf d as df)
    then show ?thesis using other yes alternatives_out_sound [OF f] by (cases cc) (simp_all add: exact_def)
  next
    case (Object ms)
    then show ?thesis using other yes object_sound [OF f] exact_leaves_sound [OF lib]
      by (cases cc) (simp_all add: exact_def)
  next
    case ps: (ArrayOf ps)
    show ?thesis
    proof (cases "\<exists>s a b. cc = EachLike s a b")
      case True
      then obtain s a b where cc: "cc = EachLike s a b" by blast
      with ps yes have "interval_within (length ps) (Some (length ps)) a b"
        and "\<forall>r \<in> set (map (\<lambda>(index, e). f e s (path_array_index at index)) (List.enumerate 0 ps)). out_verdict r = Yes"
        by (auto simp: exact_def cardinality_yes)
      from entries_items_sound [OF f this(1) enumerate_yes [OF this(2)]] ps cc show ?thesis by simp
    next
      case False
      with ps other yes array_sound [OF f] exact_leaves_sound [OF lib] show ?thesis
        by (cases cc) (simp_all add: exact_def)
    qed
  next
    case s: (EachLike s a b)
    show ?thesis
    proof (cases "\<exists>es. cc = ArrayOf es")
      case True
      then obtain es where cc: "cc = ArrayOf es" by blast
      with s yes have "interval_within a b (length es) (Some (length es))"
        and "\<forall>r \<in> set (map (\<lambda>(index, e). f s e (path_array_index at index)) (List.enumerate 0 es)). out_verdict r = Yes"
        by (auto simp: exact_def cardinality_yes)
      from items_entries_sound [OF f this(1) enumerate_yes [OF this(2)]] s cc show ?thesis by simp
    next
      case False
      with s other yes exact_leaves_sound [OF lib] show ?thesis
        by (cases cc) (auto simp: exact_def cardinality_yes intro: each_like_sound [OF f])
    qed
  next
    case (EachEntry k s a b)
    with other yes exact_leaves_sound [OF lib] show ?thesis
      by (cases cc) (auto simp: exact_def cardinality_yes intro: each_entry_sound [OF f])
  qed (use other yes exact_leaves_sound [OF lib] in \<open>cases cc; simp add: exact_def\<close>)+
qed

lemma text_operand:
  assumes "string_valued cc" and "enumerated p = Some vs" and "\<forall>x \<in> set vs. matched_by L (ShapeNode ce cg (Core cc)) x"
  shows "sub_sound L R p (ShapeNode ce cg (Core cc))"
  unfolding sub_sound_def
proof (intro impI allI)
  fix v
  assume "every_shape (provider_ok L) p" "slot_value v" "shape_admits L R p v"
  from enumerated_sound [OF assms(2) this] obtain x
    where x: "x \<in> set vs" "runtime_eq (rv_from_json x) v" "not_number x" "wf_json x" .
  with assms(3) have "matched_by L (ShapeNode ce cg (Core cc)) x" by blast
  from matched_by_sound [OF this assms(1) x(3,4,2)] show "shape_admits L R (ShapeNode ce cg (Core cc)) v" .
qed

text \<open>The table after the floor and the rewriting of \<open>type\<close>.\<close>

lemma table_sound:
  assumes lib: "sound_lib L" "sound_judge R" and f: "passes L R f"
    and p: "p = ShapeNode pe pg (Core pc)" and c: "c = ShapeNode ce cg (Core cc)" and "\<not> ps_absent (decompose p)"
    and yes: "out_verdict (operator_table f L p pc c cc at) = Yes"
  shows "sub_sound L R p c"
proof -
  consider "cc = Any" | "string_valued pc" "cc = Kind VK_String"
    | vs where "string_valued cc" "enumerated p = Some vs" "\<forall>x \<in> set vs. matched_by L c x"
    | "out_verdict (exact f L p pc c cc at) = Yes"
    using yes by (auto simp: operator_table_def Let_def filter_empty_conv split: if_splits option.splits)
  then show ?thesis
  proof cases
    case 1
    then show ?thesis using not_absent [OF lib(2)] assms(6)
      by (auto simp: sub_sound_def c shape_admits_leaves)
  next
    case 2
    have "shape_admits L R c v" if "provider_ok L p" "slot_value v" "shape_admits L R p v" for v
      using text_is_string [OF 2(1) that [unfolded p]] 2(2) by (auto simp: c shape_admits_leaves)
    then show ?thesis by (auto simp: sub_sound_def dest: every_shape_here)
  next
    case 3
    then show ?thesis by (simp add: c text_operand)
  next
    case 4
    then show ?thesis by (simp add: p c exact_sound [OF lib f])
  qed
qed

lemma desugared_sound:
  assumes "sub_sound L R (desugared p) (desugared c)"
  shows "sub_sound L R p c"
proof -
  have ok: "provider_ok L s \<Longrightarrow> consumer_ok L s" for s by (cases "(L, s)" rule: provider_ok.cases) auto
  show ?thesis unfolding sub_sound_def
  proof (intro impI allI)
    fix v
    assume v: "every_shape (provider_ok L) p" "every_shape (consumer_ok L) c" "slot_value v" "shape_admits L R p v"
    from ok [OF every_shape_here [OF v(1)]] v(3,4) have "shape_admits L R (desugared p) v" by (simp add: desugared_admits)
    from sub_soundD [OF assms desugared_ok(1) [OF v(1)] desugared_ok(2) [OF v(2)] v(3) this]
      every_shape_here [OF v(2)] v(3) show "shape_admits L R c v" by (simp add: desugared_admits)
  qed
qed

lemma operators_sound:
  assumes lib: "sound_lib L" "sound_judge R" and f: "passes L R f" and present: "\<not> ps_absent (decompose p)"
    and yes: "out_verdict (operators f L E p c at) = Yes"
  shows "sub_sound L R p c"
proof -
  obtain pe pg pk ce cg ck where d: "desugared p = ShapeNode pe pg pk" "desugared c = ShapeNode ce cg ck"
    by (metis shape.exhaust)
  have "\<exists>pc cc. pk = Core pc \<and> ck = Core cc \<and> out_verdict (operator_table f L (desugared p) pc (desugared c) cc at) = Yes"
    if "\<not> same_admits p c" "\<not> same_admits (desugared p) (desugared c)"
  proof (cases "is_opaque p \<or> is_opaque c")
    case True
    with yes that show ?thesis unfolding operators_def by (simp only: simp_thms if_True if_False refused sub_verdict.distinct)
  next
    case False
    have "operators f L E p c at = (case (pk, ck) of
        (Core pc, Core cc) \<Rightarrow> operator_table f L (desugared p) pc (desugared c) cc at
      | _ \<Rightarrow> unreviewed L (desugared p) (desugared c) at ''component operator'')"
      using that False unfolding operators_def Let_def by (simp only: d shape.sel simp_thms if_False)
    with yes show ?thesis by (cases pk; cases ck) (simp_all only: prod.case shape_kind.case refused sub_verdict.distinct, blast)
  qed
  then consider "same_admits p c" | "same_admits (desugared p) (desugared c)"
    | pc cc where "desugared p = ShapeNode pe pg (Core pc)" "desugared c = ShapeNode ce cg (Core cc)"
      "out_verdict (operator_table f L (desugared p) pc (desugared c) cc at) = Yes"
    using d by blast
  then show ?thesis
  proof cases
    case 1
    then show ?thesis by (rule same_admits_sound [OF lib(2)])
  next
    case 2
    then have "sub_sound L R (desugared p) (desugared c)" by (rule same_admits_sound [OF lib(2)])
    then show ?thesis by (rule desugared_sound)
  next
    case 3
    have "sub_sound L R (desugared p) (desugared c)"
      by (rule table_sound [OF lib f 3(1,2) desugared_not_absent [OF present] 3(3)])
    then show ?thesis by (rule desugared_sound)
  qed
qed

lemma value_node_sound:
  assumes lib: "sound_lib L" "sound_judge R" and f: "passes L R f"
    and yes: "out_verdict (value_node f L E p c at) = Yes"
  shows "sub_sound L R p c"
proof (cases "same_admits p c \<and> floor_stands E p at")
  case True
  then show ?thesis using same_admits_sound [OF lib(2)] by simp
next
  case False
  with yes have pres: "ps_absent (decompose p) \<longrightarrow> ps_absent (decompose c)" "ps_null (decompose p) \<longrightarrow> ps_null (decompose c)"
    and rest: "\<And>r. ps_rest (decompose p) = Some r \<Longrightarrow>
      \<exists>r'. ps_rest (decompose c) = Some r' \<and> out_verdict (operators f L E r r' at) = Yes"
    by (auto simp: value_node_def Let_def split: if_splits option.splits)
  show ?thesis unfolding sub_sound_def
  proof (intro impI allI)
    fix v
    assume p: "every_shape (provider_ok L) p" and c: "every_shape (consumer_ok L) c"
      and v: "slot_value v" "shape_admits L R p v"
    from rest_cases [OF v(2) p] consider "v = RAbsent" "ps_absent (decompose p)" | "v = RNull" "ps_null (decompose p)"
      | r where "ps_rest (decompose p) = Some r" "shape_admits L R r v" by blast
    then show "shape_admits L R c v"
    proof cases
      case 1
      with pres(1) show ?thesis by (simp add: ps_absent_admits)
    next
      case 2
      with pres(2) show ?thesis by (simp add: ps_null_admits [OF c])
    next
      case 3
      from rest [OF 3(1)] obtain r' where r': "ps_rest (decompose c) = Some r'" "out_verdict (operators f L E r r' at) = Yes"
        by blast
      from sub_soundD [OF operators_sound [OF lib f rest_not_absent [OF 3(1)] r'(2)] provider_rest_ok [OF p 3(1)]
          consumer_rest_ok [OF c r'(1)] v(1) 3(2)]
      show ?thesis by (rule rest_admits [OF r'(1)])
    qed
  qed
qed

subsection \<open>The walk\<close>

definition yes_is_sound :: "lib \<Rightarrow> shape \<Rightarrow> shape \<Rightarrow> out \<Rightarrow> bool" where
  "yes_is_sound L p c r \<longleftrightarrow>
     (sound_lib L \<longrightarrow> out_verdict r = Yes \<longrightarrow> (\<forall>R. sound_judge R \<longrightarrow> sub_sound L R p c))"

interpretation subsuming: walk_contract yes_is_sound
proof unfold_locales
  fix L E p c at and f :: node_walk
  assume "\<And>p c at. yes_is_sound L p c (f p c at)"
  then have pass: "passes L R f" if "sound_lib L" "sound_judge R" for R
    using that by (auto simp: yes_is_sound_def passes_def)
  show "yes_is_sound L p c (value_node f L E p c at)"
    unfolding yes_is_sound_def using value_node_sound pass by blast
qed (auto simp: yes_is_sound_def)

end
