(* ===== verification/Sub_Theorems.thy ===== *)
theory Sub_Theorems
  imports Sub_Total
begin

text \<open>
  What the subsumption checker promises, and where it does not keep it.
\<close>


definition integers_1_3 :: shape where
  "integers_1_3 = ShapeNode None None (Core (EachLike (ShapeNode None None (Core (Kind VK_Integer))) 1 (Some 3)))"

definition numbers_0 :: shape where
  "numbers_0 = ShapeNode None None (Core (EachLike (ShapeNode None None (Core (Kind VK_Number))) 0 None))"

definition language_silence :: judge where
  "language_silence = language_judge silent_judge"

lemma language_silence_sound: "sound_judge language_silence"
  by (simp add: sound_judge_def language_silence_def language_judge_def silent_judge_def)

lemma integers_in_numbers: "out_verdict (walk_node L [] integers_1_3 numbers_0 at) = Yes"
proof -
  have kind: "walk_node L [] (ShapeNode None None (Core (Kind VK_Integer))) (ShapeNode None None (Core (Kind VK_Number))) at' = out_yes"
    for at'
    by (simp add: walk_node.simps value_node_def operators_def operator_table_def desugared_def disjoint_classes_def
        is_conservative_def exact_def exact_leaves_def any_of_options_def exact_kinds_def kind_out_def kind_subset_def
        out_and_def out_yes_def caveat_def)
  show ?thesis
    by (subst walk_node.simps) (simp add: value_node_def operators_def operator_table_def desugared_def disjoint_classes_def
        is_conservative_def exact_def kind cardinality_yes interval_within_def integers_1_3_def numbers_0_def)
qed


text \<open>C17: every verdict of the walk is recorded. The verdict is the Kleene conjunction of its findings' own
  verdicts, so a \<open>no\<close> and an \<open>unknown\<close> always have the finding that says why, and each finding carries the
  severity its verdict calls for, which is all the policy reads. It holds of every pair of shapes and every
  list of recorded exclusions.\<close>

theorem walk_verdict_recorded:
  "let r = walk_node L E p c at in
     out_verdict r = findings_verdict (out_findings r)
     \<and> list_all (\<lambda>f. fg_severity f = severity_of (fg_verdict f)) (out_findings r)"
  using recording.walk [of L E p c at] by (simp add: accounted_def Let_def)

subsection \<open>The identity floor\<close>

text \<open>What the parser establishes of one document.\<close>

fun self_comparable :: "shape \<Rightarrow> bool" where
  "self_comparable (ShapeNode ex g (Component operator raw)) = wf_json (JObject raw)"
| "self_comparable (ShapeNode ex g (Core c)) =
     (case c of
        Equality \<Rightarrow> (case ex of Some e \<Rightarrow> wf_json (ex_value e) | None \<Rightarrow> False)
      | Type \<Rightarrow> ex \<noteq> None
      | AnyOf options \<Rightarrow> list_all wf_json options
      | Object ms \<Rightarrow> index_map ms
      | _ \<Rightarrow> True)"

lemma number_eq_refl [simp]: "number_eq n n"
  by (cases n) auto

lemma json_eq_refl: "wf_json v \<Longrightarrow> json_eq v v"
proof (induction v)
  case (JArray xs)
  then show ?case by (auto simp: all2_conv_list_all2 list_all2_conv_all_nth list_all_iff)
next
  case (JObject m)
  then show ?case by (auto simp: index_map_def list_all_iff)
qed auto

lemma value_eq_refl: "wf_json v \<Longrightarrow> value_eq v v"
  using runtime_eq_refl [OF wf_rv_from_json no_entry_from_json, of v] by (simp add: runtime_eq_from_json)

lemma same_admits_refl: "every_shape self_comparable p \<Longrightarrow> same_admits p p"
proof (induction p rule: shape_cases_induct)
  case (component ex g op raw)
  then show ?case using json_eq_refl [of "JObject raw"] every_shape_here by fastforce
next
  case (leaf ex g c)
  from every_shape_here [OF leaf(2)] leaf(1) show ?case
    by (cases c) (auto simp: list_all_iff list_ex_iff intro: value_eq_refl split: option.splits)
next
  case (object ex g ms)
  then have "index_map ms" using every_shape_here by force
  then have "map_of ms n = Some m" if "(n, m) \<in> set ms" for n m using that by (simp add: index_map_def)
  moreover have "same_admits m m" if "(n, m) \<in> set ms" for n m by (rule object(1) [OF that child_ok(1) [OF object(2) that]])
  ultimately show ?case by (auto simp: list_all_iff)
next
  case (array ex g es)
  have "same_admits e e" if "e \<in> set es" for e by (rule array(1) [OF that child_ok(2) [OF array(2) that]])
  then show ?case by (auto simp: list_all_iff zip_same_conv_map)
next
  case (contains ex g es)
  have "same_admits e e" if "e \<in> set es" for e by (rule contains(1) [OF that child_ok(3) [OF contains(2) that]])
  then show ?case by (auto simp: list_all_iff zip_same_conv_map)
next
  case (one_of ex g d as df)
  have "same_admits a a" if "(n, a) \<in> set as" for n a by (rule one_of(1) [OF that child_ok(9) [OF one_of(2) that]])
  then show ?case by (auto simp: list_all_iff zip_same_conv_map)
next
  case (each_entry ex g k v mn mx)
  have "same_admits v v" by (rule each_entry(2) [OF child_ok(5) [OF each_entry(3)]])
  moreover have "same_admits k' k'" if k: "k = Some k'" for k'
    by (rule each_entry(1) [OF k child_ok(6) [OF each_entry(3) [unfolded k]]])
  ultimately show ?case by (cases k) simp_all
next
  case (each_like ex g s mn mx)
  then show ?case by (auto dest: child_ok(4))
next
  case (optional ex g s)
  then show ?case by (auto dest: child_ok(7))
next
  case (nullable ex g s)
  then show ?case by (auto dest: child_ok(8))
qed

text \<open>Comparing a shape with itself finds nothing. With no exclusion recorded, the walk of a
  well-formed shape against itself answers \<open>yes\<close> with no finding, whatever its operators: the opaque ones
  (\<open>contains\<close>, a component's) and the conservative ones included.\<close>

theorem walk_reflexive:
  assumes "every_shape self_comparable p"
  shows "compare_shapes L p p at = (Yes, [])"
  using same_admits_refl [OF assms]
  by (simp add: compare_shapes_def Let_def walk_node.simps value_node_def floor_stands_def caveats_under_def)

theorem walk_reflexive_witness:
  "compare_shapes example_lib (ShapeNode None None (Core (Contains [ShapeNode None None (Core (Regex ''x''))])))
     (ShapeNode None None (Core (Contains [ShapeNode None None (Core (Regex ''x''))]))) ''$'' = (Yes, [])"
  by (rule walk_reflexive) (simp add: every_shape.simps)

subsection \<open>Where a verdict is not what it should be\<close>

definition encoded_text :: "string \<Rightarrow> shape" where
  "encoded_text t = ShapeNode (Some \<lparr>ex_value = JString t, ex_encoded = Some ''base64''\<rparr>) None (Core Equality)"

definition encoded_union :: shape where
  "encoded_union = ShapeNode None None (Core (OneOf ''t''
     [(''a'', ShapeNode None None (Core (Object [(''t'', encoded_text ''YQ=='')]))),
      (''b'', ShapeNode None None (Core (Object [(''t'', encoded_text ''Yg=='')])))] None))"

text \<open>C35: a recorded exclusion can turn a \<open>yes\<close> into a \<open>no\<close>. It only suppresses the identity floor, and
  two identical subtrees are expected to compare \<open>yes\<close> node by node; but a union whose discriminator
  examples are encoded names no literal the walk can look up, so once an exclusion lies under it the same
  two shapes, \<open>yes\<close> without it, compare \<open>no\<close>.\<close>

theorem exclusion_turns_yes_into_no:
  "out_verdict (walk_node L [] encoded_union encoded_union ''$.a'') = Yes
   \<and> out_verdict (walk_node L [\<lparr>rx_document = JNull, rx_paths = [''$.a.t'']\<rparr>] encoded_union encoded_union ''$.a'') = No"
proof
  have "every_shape self_comparable encoded_union"
    by (simp add: encoded_union_def encoded_text_def every_shape.simps index_map_def)
  from same_admits_refl [OF this] show "out_verdict (walk_node L [] encoded_union encoded_union ''$.a'') = Yes"
    by (simp add: walk_node.simps value_node_def floor_stands_def caveats_under_def)
  have "out_verdict (one_of_pair f L p ''t'' as c ''t'' as at) = No"
    if "as = [(''a'', ShapeNode None None (Core (Object [(''t'', encoded_text ''YQ=='')]))),
      (''b'', ShapeNode None None (Core (Object [(''t'', encoded_text ''Yg=='')])))]" for f p c as at
    unfolding that by (simp add: one_of_pair_def Let_def decomposed_literals_def encoded_text_def plain_example_def
        matched_names_def out_all_def)
  then show "out_verdict (walk_node L [\<lparr>rx_document = JNull, rx_paths = [''$.a.t'']\<rparr>] encoded_union encoded_union ''$.a'') = No"
    by (subst walk_node.simps) (simp add: value_node_def operators_def operator_table_def desugared_def disjoint_classes_def
        is_conservative_def exact_def floor_stands_def caveats_under_def starts_with_def encoded_union_def Let_def)
qed

text \<open>C36: a regex is not inside \<open>string\<close>. The walk answers \<open>yes\<close>, but \<open>match:regex\<close> reads a number or a
  boolean as its text, so where the pattern matches \<open>true\<close> the provider's shape admits a boolean.\<close>

theorem regex_inside_string_unsound:
  assumes "regex L pattern = Inr is_match" and "is_match ''true''"
  shows "out_verdict (walk_node L [] (ShapeNode None None (Core (Regex pattern))) (ShapeNode None None (Core (Kind VK_String))) at) = Yes
    \<and> shape_admits L R (ShapeNode None None (Core (Regex pattern))) (RBool True)
    \<and> \<not> shape_admits L R (ShapeNode None None (Core (Kind VK_String))) (RBool True)"
proof -
  have "out_verdict (walk_node L [] (ShapeNode None None (Core (Regex pattern))) (ShapeNode None None (Core (Kind VK_String))) at) = Yes"
    by (simp add: walk_node.simps value_node_def operators_def operator_table_def desugared_def disjoint_classes_def
        is_conservative_def string_valued_def)
  then show ?thesis using assms by (simp add: shape_admits_leaf as_matchable_text_def plain_text_def bool_text_def)
qed

theorem regex_inside_string_unsound_witness:
  "out_verdict (walk_node example_lib [] (ShapeNode None None (Core (Regex ''ru''))) (ShapeNode None None (Core (Kind VK_String))) ''$'') = Yes"
proof -
  have "regex example_lib ''ru'' = Inr (\<lambda>s. contains_text s ''ru'')" by (simp add: example_lib_def)
  moreover have "contains_text ''true'' ''ru''" by code_simp
  ultimately show ?thesis using regex_inside_string_unsound [of example_lib "''ru''"] by blast
qed

text \<open>A whole-number literal is not inside \<open>integer\<close>. Equality is by value and \<open>integer\<close> by how the
  number is written, so the literal \<open>n\<close> admits \<open>n\<close> written as a decimal, which \<open>integer\<close> does not, and the
  walk answers \<open>yes\<close>.\<close>

theorem literal_inside_integer_unsound:
  "let p = ShapeNode (Some \<lparr>ex_value = JNumber (PosInt n), ex_encoded = None\<rparr>) None (Core Equality);
       c = ShapeNode None None (Core (Kind VK_Integer)); v = RNumber (Float (f64_of_nat n))
   in out_verdict (walk_node L [] p c at) = Yes \<and> shape_admits L R p v \<and> \<not> shape_admits L R c v"
  by (simp add: Let_def walk_node.simps value_node_def operators_def operator_table_def desugared_def disjoint_classes_def
      is_conservative_def exact_def exact_leaves_def equality_out_def admits_example_def kind_of_literal_def
      is_written_integer_def shape_admits_leaves example_value_def is_null_example_def class_of_example_def class_of_value_def)

end
