(* ===== verification/Problem.thy ===== *)
theory Problem
  imports Prelude
begin

text \<open>
  Positions in documents, engine/kernel/src/error.rs: a problem is a JSON pointer and a message.
\<close>

record problem =
  pr_pointer :: string
  pr_message :: string

definition pointer_escape :: "string \<Rightarrow> string" where
  "pointer_escape s = replace_char (CHR ''/'') ''~1'' (replace_char (CHR 0x7E) ''~0'' s)"

text \<open>A segment of \<open>serde_path_to_error::Path\<close>.\<close>

datatype document_segment = Seg_Index nat | Seg_Key string | Seg_Variant string | Seg_Unknown

definition document_segment_text :: "document_segment \<Rightarrow> string" where
  "document_segment_text s =
     (case s of Seg_Index i \<Rightarrow> nat_text i | Seg_Key k \<Rightarrow> k | Seg_Variant v \<Rightarrow> v | Seg_Unknown \<Rightarrow> ''?'')"

definition json_pointer :: "document_segment list \<Rightarrow> string" where
  "json_pointer path = concat (map (\<lambda>s. CHR ''/'' # pointer_escape (document_segment_text s)) path)"

definition push_pointer_segment :: "string \<Rightarrow> string \<Rightarrow> string" where
  "push_pointer_segment pointer segment = pointer @ CHR ''/'' # pointer_escape segment"

fun last_occurrence :: "string \<Rightarrow> string \<Rightarrow> nat option" where
  "last_occurrence pattern [] = (if pattern = [] then Some 0 else None)"
| "last_occurrence pattern (c # s) =
     (case last_occurrence pattern s of
        Some n \<Rightarrow> Some (n + 1)
      | None \<Rightarrow> if take (length pattern) (c # s) = pattern then Some 0 else None)"

definition without_os_error :: "string \<Rightarrow> string" where
  "without_os_error text =
     (case last_occurrence '' (os error '' text of
        Some at \<Rightarrow> if ends_with text '')'' then take at text else text
      | None \<Rightarrow> text)"

text \<open>Reading a pointer as RFC 6901 does: the tokens between slashes, each unescaped.\<close>

fun pointer_unescape :: "string \<Rightarrow> string" where
  "pointer_unescape (c # d # s) =
     (if c = CHR 0x7E \<and> d = CHR ''1'' then CHR ''/'' # pointer_unescape s
      else if c = CHR 0x7E \<and> d = CHR ''0'' then CHR 0x7E # pointer_unescape s
      else c # pointer_unescape (d # s))"
| "pointer_unescape s = s"

function pointer_tokens :: "string \<Rightarrow> string list" where
  "pointer_tokens [] = []"
| "pointer_tokens (c # s) =
     (if c = CHR ''/'' then pointer_unescape (takeWhile (\<lambda>x. x \<noteq> CHR ''/'') s) # pointer_tokens (dropWhile (\<lambda>x. x \<noteq> CHR ''/'') s)
      else [])"
  by pat_completeness auto
termination
  by (relation "measure length") (auto simp: less_Suc_eq_le length_dropWhile_le)

lemma pointer_escape_simps [simp]:
  "pointer_escape [] = []"
  "pointer_escape (c # s) =
     (if c = CHR 0x7E then ''~0'' else if c = CHR ''/'' then ''~1'' else [c]) @ pointer_escape s"
  by (simp_all add: pointer_escape_def)

lemma unescape_plain: "c \<noteq> CHR 0x7E \<Longrightarrow> pointer_unescape (c # s) = c # pointer_unescape s"
  by (cases s) simp_all

lemma unescape_escape [simp]: "pointer_unescape (pointer_escape s) = s"
  by (induction s) (simp_all add: unescape_plain)

lemma escape_no_slash: "CHR ''/'' \<notin> set (pointer_escape s)"
  by (induction s) auto

lemma tokens_step:
  assumes "r = [] \<or> hd r = CHR ''/''"
  shows "pointer_tokens (CHR ''/'' # pointer_escape s @ r) = s # pointer_tokens r"
proof -
  have "takeWhile (\<lambda>x. x \<noteq> CHR ''/'') (pointer_escape s @ r) = pointer_escape s"
    "dropWhile (\<lambda>x. x \<noteq> CHR ''/'') (pointer_escape s @ r) = r"
    using assms escape_no_slash [of s] by (cases r; auto simp: takeWhile_append dropWhile_append)+
  then show ?thesis by simp
qed

text \<open>A pointer names one position. Whatever characters the keys on the way hold, reading the pointer
  the kernel writes for a path, as RFC 6901 reads it, gives the path's segments back; and pushing a
  segment adds exactly that token.\<close>

theorem json_pointer_tokens:
  "pointer_tokens (json_pointer path) = map document_segment_text path
   \<and> pointer_tokens (push_pointer_segment (json_pointer path) name) = map document_segment_text path @ [name]"
proof -
  have "pointer_tokens (json_pointer path @ r) = map document_segment_text path @ pointer_tokens r"
    if "r = [] \<or> hd r = CHR ''/''" for r
  proof (induction path)
    case (Cons p path)
    have "json_pointer path @ r = [] \<or> hd (json_pointer path @ r) = CHR ''/''"
      using that by (cases path) (auto simp: json_pointer_def)
    from tokens_step [OF this, of "document_segment_text p"] Cons show ?case by (simp add: json_pointer_def)
  qed (simp add: json_pointer_def)
  from this [of "[]"] this [of "CHR ''/'' # pointer_escape name"] tokens_step [of "[]" name] show ?thesis
    by (simp add: push_pointer_segment_def)
qed

end
