(* ===== verification/Policy.thy ===== *)
theory Policy
  imports Problem Findings "HOL-Library.Multiset"
begin

text \<open>
  The subsumption policy, engine/kernel/src/subsumption/policy.rs: what a severity does to a run, and
  which findings a team has accepted. Reading a layer's JSON is \<open>serde\<close>'s derived deserializer, the
  parameter \<open>read\<close>: a patch, or the path to the member it could not read and its message.
\<close>

datatype policy_action = Warn | Block

definition action_text :: "policy_action \<Rightarrow> string" where
  "action_text a = (case a of Warn \<Rightarrow> ''warn'' | Block \<Rightarrow> ''block'')"

record interaction_ref =
  ir_description :: string
  ir_states :: "string list option"

record exemption =
  em_consumer :: "string option"
  em_interaction :: "interaction_ref option"
  em_path :: "string option"
  em_reason :: string
  em_expires :: "string option"

definition exemption_matches :: "exemption \<Rightarrow> string \<Rightarrow> string \<Rightarrow> string list \<Rightarrow> string \<Rightarrow> bool" where
  "exemption_matches e consumer description states path =
     (if (case em_consumer e of Some name \<Rightarrow> name \<noteq> consumer | None \<Rightarrow> False) then False
      else if (case em_interaction e of
                 None \<Rightarrow> False
               | Some i \<Rightarrow>
                   if ir_description i \<noteq> description then True
                   else (case ir_states i of None \<Rightarrow> False | Some selected \<Rightarrow> sort selected \<noteq> sort states))
      then False
      else if (case em_path e of Some selected \<Rightarrow> selected \<noteq> path | None \<Rightarrow> False) then False
      else True)"

definition lapsed :: "exemption \<Rightarrow> string option \<Rightarrow> bool" where
  "lapsed e as_of =
     (case (em_expires e, as_of) of (Some expires, Some today) \<Rightarrow> expires < today | _ \<Rightarrow> False)"

record policy_patch =
  pp_on_finding :: "policy_action option"
  pp_on_review :: "policy_action option"
  pp_exemptions :: "exemption list"

record sub_policy =
  sp_on_finding :: policy_action
  sp_on_review :: policy_action
  sp_exemptions :: "exemption list"

definition default_policy :: sub_policy where
  "default_policy = \<lparr>sp_on_finding = Warn, sp_on_review = Warn, sp_exemptions = []\<rparr>"

definition apply_patch :: "policy_patch \<Rightarrow> sub_policy \<Rightarrow> sub_policy" where
  "apply_patch patch policy =
     \<lparr>sp_on_finding = (case pp_on_finding patch of Some a \<Rightarrow> a | None \<Rightarrow> sp_on_finding policy),
      sp_on_review = (case pp_on_review patch of Some a \<Rightarrow> a | None \<Rightarrow> sp_on_review policy),
      sp_exemptions = sp_exemptions policy @ pp_exemptions patch\<rparr>"

type_synonym patch_reader = "json \<Rightarrow> (document_segment list \<times> string) + policy_patch"

fun resolve_layers :: "patch_reader \<Rightarrow> nat \<Rightarrow> json option list \<Rightarrow> sub_policy \<Rightarrow> problem + sub_policy" where
  "resolve_layers read index [] policy = Inr policy"
| "resolve_layers read index (None # layers) policy = resolve_layers read (index + 1) layers policy"
| "resolve_layers read index (Some layer # layers) policy =
     (case read layer of
        Inl (path, message) \<Rightarrow>
          Inl \<lparr>pr_pointer = ''/policy/'' @ nat_text index @ json_pointer path, pr_message = message\<rparr>
      | Inr patch \<Rightarrow> resolve_layers read (index + 1) layers (apply_patch patch policy))"

definition resolve_policy :: "patch_reader \<Rightarrow> json option list \<Rightarrow> problem + sub_policy" where
  "resolve_policy read layers = resolve_layers read 0 layers default_policy"

definition action_for :: "sub_policy \<Rightarrow> severity \<Rightarrow> policy_action option" where
  "action_for policy s =
     (case s of
        S_Finding \<Rightarrow> Some (sp_on_finding policy)
      | S_Review \<Rightarrow> Some (sp_on_review policy)
      | S_Advisory \<Rightarrow> None)"

subsection \<open>Layers\<close>

text \<open>The last layer that sets a scalar.\<close>

definition last_set :: "('a \<Rightarrow> 'b option) \<Rightarrow> 'b \<Rightarrow> 'a list \<Rightarrow> 'b" where
  "last_set f d xs = foldl (\<lambda>acc x. case f x of Some b \<Rightarrow> b | None \<Rightarrow> acc) d xs"

lemma resolve_layers_ok:
  assumes "\<And>v. Some v \<in> set layers \<Longrightarrow> read v = Inr (patch v)"
  shows "resolve_layers read i layers policy =
    Inr \<lparr>sp_on_finding = last_set pp_on_finding (sp_on_finding policy) (map patch (List.map_filter id layers)),
      sp_on_review = last_set pp_on_review (sp_on_review policy) (map patch (List.map_filter id layers)),
      sp_exemptions = sp_exemptions policy @ concat (map (pp_exemptions \<circ> patch) (List.map_filter id layers))\<rparr>"
  using assms
  by (induction read i layers policy rule: resolve_layers.induct)
    (simp_all add: last_set_def List.map_filter_def apply_patch_def)

text \<open>Policy layers override and accumulate. When every layer can be read, the resolved policy has
  each action as the last layer that sets it has it, the specification's \<open>warn\<close> where none does, and the
  exemptions of every layer, in order: setting an action never discards an exemption an earlier layer
  accepted, and an advisory has no action whatever the layers say.\<close>

theorem policy_layers_accumulate:
  assumes "\<And>v. Some v \<in> set layers \<Longrightarrow> read v = Inr (patch v)"
  shows "resolve_policy read layers =
    Inr \<lparr>sp_on_finding = last_set pp_on_finding Warn (map patch (List.map_filter id layers)),
      sp_on_review = last_set pp_on_review Warn (map patch (List.map_filter id layers)),
      sp_exemptions = concat (map (pp_exemptions \<circ> patch) (List.map_filter id layers))\<rparr>
    \<and> (\<forall>p. action_for p S_Advisory = None)"
  by (simp add: resolve_policy_def resolve_layers_ok [OF assms] default_policy_def action_for_def)

definition accepted :: exemption where
  "accepted = \<lparr>em_consumer = None, em_interaction = None, em_path = None, em_reason = ''known'', em_expires = None\<rparr>"

definition example_patch :: "json \<Rightarrow> policy_patch" where
  "example_patch v =
     (if v = JNull then \<lparr>pp_on_finding = None, pp_on_review = None, pp_exemptions = [accepted]\<rparr>
      else \<lparr>pp_on_finding = Some Block, pp_on_review = None, pp_exemptions = []\<rparr>)"

theorem policy_layers_accumulate_witness:
  "resolve_policy (\<lambda>v. Inr (example_patch v)) [Some JNull, None, Some (JBool True)] =
     Inr \<lparr>sp_on_finding = Block, sp_on_review = Warn, sp_exemptions = [accepted]\<rparr>"
  using policy_layers_accumulate [of "[Some JNull, None, Some (JBool True)]" "\<lambda>v. Inr (example_patch v)" example_patch]
  by (simp add: last_set_def List.map_filter_def example_patch_def)

subsection \<open>Selectors\<close>

text \<open>An exemption matches exactly when every selector it sets does. A consumer, a description and a
  path match themselves, a state list matches the same states in any order, each as often; an exemption
  that sets nothing matches every finding.\<close>

theorem exemption_matches_iff:
  "exemption_matches e consumer description states path \<longleftrightarrow>
     (\<forall>name. em_consumer e = Some name \<longrightarrow> name = consumer)
     \<and> (\<forall>i. em_interaction e = Some i \<longrightarrow>
          ir_description i = description \<and> (\<forall>selected. ir_states i = Some selected \<longrightarrow> mset selected = mset states))
     \<and> (\<forall>selected. em_path e = Some selected \<longrightarrow> selected = path)"
proof -
  have "sort xs = sort ys \<longleftrightarrow> mset xs = mset ys" for xs ys :: "string list"
    by (metis mset_sort properties_for_sort sorted_sort)
  then show ?thesis by (auto simp: exemption_matches_def split: option.splits)
qed

theorem exemption_matches_iff_witness:
  "exemption_matches (accepted\<lparr>em_interaction := Some \<lparr>ir_description = ''d'', ir_states = Some [''a'', ''b'']\<rparr>\<rparr>)
     ''web'' ''d'' [''b'', ''a''] ''$''"
  by (rule exemption_matches_iff [THEN iffD2]) (simp add: accepted_def)

text \<open>Repeated states do tell two lists apart, although a state list is said to be compared as a set.\<close>

lemma repeated_states_differ:
  "\<not> exemption_matches (accepted\<lparr>em_interaction := Some \<lparr>ir_description = ''d'', ir_states = Some [''a'', ''a'']\<rparr>\<rparr>)
     ''web'' ''d'' [''a''] ''$''"
  by (simp add: exemption_matches_def accepted_def)

subsection \<open>Dates\<close>

text \<open>An RFC 3339 full-date.\<close>

definition date_text :: "nat \<Rightarrow> nat \<Rightarrow> nat \<Rightarrow> string" where
  "date_text y m d =
     [digit_char (y div 1000), digit_char (y div 100 mod 10), digit_char (y div 10 mod 10), digit_char (y mod 10), CHR ''-'',
      digit_char (m div 10), digit_char (m mod 10), CHR ''-'', digit_char (d div 10), digit_char (d mod 10)]"

definition date_ok :: "nat \<Rightarrow> nat \<Rightarrow> nat \<Rightarrow> bool" where
  "date_ok y m d \<longleftrightarrow> y < 10000 \<and> m < 100 \<and> d < 100"

lemma digit_char_less: "a < 10 \<Longrightarrow> b < 10 \<Longrightarrow> digit_char a < digit_char b \<longleftrightarrow> a < b"
  by (simp add: digit_char_def less_char_def)

lemma digit_char_eq: "a < 10 \<Longrightarrow> b < 10 \<Longrightarrow> digit_char a = digit_char b \<longleftrightarrow> a = b"
  by (metis digit_char_less nat_neq_iff)

lemma less_by_digits:
  assumes "0 < n"
  shows "(a::nat) < b \<longleftrightarrow> a div n < b div n \<or> (a div n = b div n \<and> a mod n < b mod n)"
proof -
  have "a div n < b div n \<Longrightarrow> a < b" using div_le_mono [of b a n] by linarith
  moreover have "a < b \<Longrightarrow> a div n \<le> b div n" by (simp add: div_le_mono)
  moreover have "a div n = b div n \<Longrightarrow> a < b \<longleftrightarrow> a mod n < b mod n"
    using div_mult_mod_eq [of a n] div_mult_mod_eq [of b n] by (metis add_less_cancel_left)
  ultimately show ?thesis by linarith
qed

lemma eq_by_digits: "(a::nat) = b \<longleftrightarrow> a div n = b div n \<and> a mod n = b mod n"
  by (metis div_mult_mod_eq)

lemma pair_order:
  assumes "a < 100" and "b < 100"
  shows "[digit_char (a div 10), digit_char (a mod 10)] @ x < [digit_char (b div 10), digit_char (b mod 10)] @ y \<longleftrightarrow>
    a < b \<or> (a = b \<and> x < y)"
  using assms less_by_digits [of 10 a b] eq_by_digits [of a b 10] less_mult_imp_div_less [of a 10 10] less_mult_imp_div_less [of b 10 10]
  by (auto simp: digit_char_less digit_char_eq)

lemma date_text_pairs:
  "date_text y m d =
     [digit_char (y div 100 div 10), digit_char (y div 100 mod 10)] @
     [digit_char (y mod 100 div 10), digit_char (y mod 100 mod 10)] @ CHR ''-'' #
     ([digit_char (m div 10), digit_char (m mod 10)] @ CHR ''-'' # ([digit_char (d div 10), digit_char (d mod 10)] @ []))"
proof -
  have "y div 100 div 10 = y div 1000" "y mod 100 div 10 = y div 10 mod 10" "y mod 100 mod 10 = y mod 10"
    using mod_mult2_eq [of y 10 10] by (simp_all add: div_mult2_eq [symmetric] mod_mod_cancel)
  then show ?thesis by (simp add: date_text_def)
qed

text \<open>Comparing dates as text is comparing them as dates. For two full dates (four digits, two, two), an
  exemption has lapsed exactly when the day asked about comes after the day it expires: it still applies
  on that day. Without an expiry, or without a day to judge against, it never lapses.\<close>

theorem lapsed_chronological:
  assumes "date_ok y m d" and "date_ok y' m' d'" and "em_expires e = Some (date_text y m d)"
  shows "(lapsed e (Some (date_text y' m' d')) \<longleftrightarrow> y < y' \<or> (y = y' \<and> (m < m' \<or> (m = m' \<and> d < d')))) \<and> \<not> lapsed e None"
proof -
  have y: "y div 100 < 100" "y mod 100 < 100" "y' div 100 < 100" "y' mod 100 < 100"
    using assms(1,2) by (simp_all add: date_ok_def less_mult_imp_div_less)
  have year: "y < y' \<longleftrightarrow> y div 100 < y' div 100 \<or> (y div 100 = y' div 100 \<and> y mod 100 < y' mod 100)"
    "y = y' \<longleftrightarrow> y div 100 = y' div 100 \<and> y mod 100 = y' mod 100"
    using less_by_digits [of 100 y y'] eq_by_digits [of y y' 100] by simp_all
  have "date_text y m d < date_text y' m' d' \<longleftrightarrow> y < y' \<or> (y = y' \<and> (m < m' \<or> (m = m' \<and> d < d')))"
    unfolding date_text_pairs year using assms(1,2)
    by (subst pair_order [OF y(1,3)], subst pair_order [OF y(2,4)]) (use pair_order [of d d' "[]" "[]"] in \<open>auto simp: date_ok_def pair_order simp del: append_Cons append_Nil2\<close>)
  then show ?thesis by (simp add: lapsed_def assms(3))
qed

theorem lapsed_chronological_witness:
  "lapsed (accepted\<lparr>em_expires := Some (date_text 2025 9 30)\<rparr>) (Some (date_text 2025 10 1))"
  using lapsed_chronological [of 2025 9 30 2025 10 1 "accepted\<lparr>em_expires := Some (date_text 2025 9 30)\<rparr>"]
  by (simp add: date_ok_def)

end
