(* ===== verification/Shape_Parse.thy ===== *)
theory Shape_Parse
  imports Problem Plan_Model Plan_Actions
begin

text \<open>
  The shape parser, engine/kernel/src/shape/parse.rs: a JSON document into a shape, or every rule of
  well-formedness it breaks. \<open>parse_child\<close> is the recursive function of that name; the functions it goes
  through take the parser of a child (\<open>f\<close>) as an argument, and the recursion is tied at the end over the
  size of the document. The budget and the list of problems, which the code passes as \<open>&mut\<close>, are one
  state threaded through every call in the code's order.
\<close>

datatype slot_position = ObjectMember | NotASlot

record parse_state =
  bd_nodes :: nat
  bd_limited :: bool
  bd_problems :: "problem list"

definition max_depth :: nat where "max_depth = 64"
definition max_nodes :: nat where "max_nodes = 20000"

type_synonym child_parser =
  "json \<Rightarrow> slot_position \<Rightarrow> string \<Rightarrow> nat \<Rightarrow> parse_state \<Rightarrow> shape option \<times> parse_state"

definition spec_ref :: "string \<Rightarrow> string" where
  "spec_ref s = ''(spec '' @ [CHR 0xC2, CHR 0xA7] @ s @ '')''"

definition report :: "string \<Rightarrow> string \<Rightarrow> parse_state \<Rightarrow> parse_state" where
  "report pointer message st =
     st\<lparr>bd_problems := bd_problems st @ [\<lparr>pr_pointer = pointer, pr_message = message\<rparr>]\<rparr>"

text \<open>The \<open>?\<close> of an \<open>Option\<close>.\<close>

definition and_then :: "'a option \<times> parse_state \<Rightarrow> ('a \<Rightarrow> parse_state \<Rightarrow> 'b option \<times> parse_state) \<Rightarrow> 'b option \<times> parse_state" where
  "and_then r k = (case r of (None, st) \<Rightarrow> (None, st) | (Some x, st) \<Rightarrow> k x st)"

subsection \<open>The budget\<close>

definition limit_message :: string where
  "limit_message =
     ''shape tree exceeds this engine'' @ [CHR 0x27] @ ''s limits (depth <= '' @ nat_text max_depth
       @ '', nodes <= '' @ nat_text max_nodes @ '')''"

definition budget_enter :: "nat \<Rightarrow> string \<Rightarrow> parse_state \<Rightarrow> bool \<times> parse_state" where
  "budget_enter depth path st =
     (if bd_limited st then (False, st)
      else
        let st = st\<lparr>bd_nodes := bd_nodes st + 1\<rparr> in
        if max_depth < depth \<or> max_nodes < bd_nodes st
        then (False, report path limit_message (st\<lparr>bd_limited := True\<rparr>))
        else (True, st))"

subsection \<open>Members\<close>

definition require_member :: "json smap \<Rightarrow> string \<Rightarrow> string \<Rightarrow> string \<Rightarrow> parse_state \<Rightarrow> json option \<times> parse_state" where
  "require_member obj member operator path st =
     (case map_of obj member of
        Some v \<Rightarrow> (Some v, st)
      | None \<Rightarrow> (None, report path (quote1 operator @ '' requires '' @ quote1 member) st))"

definition require_string :: "json smap \<Rightarrow> string \<Rightarrow> string \<Rightarrow> string \<Rightarrow> parse_state \<Rightarrow> string option \<times> parse_state" where
  "require_string obj member operator path st =
     and_then (require_member obj member operator path st) (\<lambda>v st.
       case v of
         JString s \<Rightarrow> (Some s, st)
       | _ \<Rightarrow> (None, report (path @ ''/'' @ member) (quote1 member @ '' must be a string'') st))"

definition require_example :: "string \<Rightarrow> example option \<Rightarrow> string \<Rightarrow> parse_state \<Rightarrow> parse_state" where
  "require_example operator ex path st =
     (case ex of None \<Rightarrow> report path (quote1 operator @ '' requires '' @ quote1 ''example'') st | Some _ \<Rightarrow> st)"

definition parse_example :: "json smap \<Rightarrow> string \<Rightarrow> parse_state \<Rightarrow> example option \<times> parse_state" where
  "parse_example obj path st =
     (case map_of obj ''example'' of
        None \<Rightarrow> (None, st)
      | Some v \<Rightarrow>
          (case map_of obj ''encoded'' of
             None \<Rightarrow> (Some \<lparr>ex_value = v, ex_encoded = None\<rparr>, st)
           | Some (JString tag) \<Rightarrow> (Some \<lparr>ex_value = v, ex_encoded = Some tag\<rparr>, st)
           | Some _ \<Rightarrow> (None, report (path @ ''/encoded'') (quote1 ''encoded'' @ '' must be a string'') st)))"

definition value_u64 :: "json \<Rightarrow> nat option" where
  "value_u64 v = (case v of JNumber n \<Rightarrow> as_u64 n | _ \<Rightarrow> None)"

definition parse_bound :: "json smap \<Rightarrow> string \<Rightarrow> nat option \<Rightarrow> string \<Rightarrow> parse_state \<Rightarrow> nat option option \<times> parse_state" where
  "parse_bound obj member dflt path st =
     (case map_of obj member of
        None \<Rightarrow> (Some dflt, st)
      | Some v \<Rightarrow>
          (case value_u64 v of
             Some n \<Rightarrow> (Some (Some n), st)
           | None \<Rightarrow>
               (None, report (path @ ''/'' @ member) (quote1 member @ '' must be a non-negative integer'') st)))"

definition cardinality_message :: "nat \<Rightarrow> nat \<Rightarrow> string" where
  "cardinality_message least m =
     quote1 ''min'' @ '' ('' @ nat_text least @ '') must not be greater than ''
       @ quote1 ''max'' @ '' ('' @ nat_text m @ '') '' @ spec_ref ''5.5''"

definition parse_cardinality :: "json smap \<Rightarrow> string \<Rightarrow> parse_state \<Rightarrow> (nat \<times> nat option) option \<times> parse_state" where
  "parse_cardinality obj path st =
     and_then (parse_bound obj ''min'' (Some 1) path st) (\<lambda>least st.
     and_then (parse_bound obj ''max'' None path st) (\<lambda>most st.
       case most of
         Some m \<Rightarrow>
           if m < the least then (None, report path (cardinality_message (the least) m) st)
           else (Some (the least, Some m), st)
       | None \<Rightarrow> (Some (the least, None), st)))"

subsection \<open>Children\<close>

fun parse_members :: "child_parser \<Rightarrow> string \<Rightarrow> nat \<Rightarrow> json smap \<Rightarrow> shape smap \<Rightarrow> parse_state \<Rightarrow> shape smap \<times> parse_state" where
  "parse_members f path depth [] members st = (members, st)"
| "parse_members f path depth ((name, v) # rest) members st =
     (case f v ObjectMember (push_pointer_segment (path @ ''/members'') name) (depth + 1) st of
        (Some node, st) \<Rightarrow> parse_members f path depth rest (index_insert name node members) st
      | (None, st) \<Rightarrow> parse_members f path depth rest members st)"

fun parse_entry_list :: "child_parser \<Rightarrow> string \<Rightarrow> nat \<Rightarrow> nat \<Rightarrow> json list \<Rightarrow> shape list \<Rightarrow> parse_state \<Rightarrow> shape list \<times> parse_state" where
  "parse_entry_list f path depth index [] entries st = (entries, st)"
| "parse_entry_list f path depth index (v # rest) entries st =
     (case f v NotASlot (path @ ''/entries/'' @ nat_text index) (depth + 1) st of
        (Some node, st) \<Rightarrow> parse_entry_list f path depth (index + 1) rest (entries @ [node]) st
      | (None, st) \<Rightarrow> parse_entry_list f path depth (index + 1) rest entries st)"

definition parse_entries :: "child_parser \<Rightarrow> json smap \<Rightarrow> string \<Rightarrow> string \<Rightarrow> nat \<Rightarrow> parse_state \<Rightarrow> shape list option \<times> parse_state" where
  "parse_entries f obj operator path depth st =
     and_then (require_member obj ''entries'' operator path st) (\<lambda>v st.
       case v of
         JArray vs \<Rightarrow> (case parse_entry_list f path depth 0 vs [] st of (entries, st) \<Rightarrow> (Some entries, st))
       | _ \<Rightarrow> (None, report (path @ ''/entries'') (quote1 ''entries'' @ '' must be an array'') st))"

text \<open>A child under a fixed member name.\<close>

definition parse_under :: "child_parser \<Rightarrow> json smap \<Rightarrow> string \<Rightarrow> string \<Rightarrow> string \<Rightarrow> nat \<Rightarrow> parse_state \<Rightarrow> shape option \<times> parse_state" where
  "parse_under f obj member operator path depth st =
     and_then (require_member obj member operator path st)
       (\<lambda>v st. f v NotASlot (path @ ''/'' @ member) (depth + 1) st)"

subsection \<open>Literal sets\<close>

definition repeated_option :: "json list \<Rightarrow> nat \<Rightarrow> bool" where
  "repeated_option options index = list_ex (value_eq (options ! index)) (take index options)"

definition report_repeated :: "string \<Rightarrow> json list \<Rightarrow> nat \<Rightarrow> parse_state \<Rightarrow> parse_state" where
  "report_repeated path options index st =
     (if repeated_option options index
      then report (path @ ''/options/'' @ nat_text index) (quote1 ''options'' @ '' must be distinct '' @ spec_ref ''5.3'') st
      else st)"

definition report_outside :: "string \<Rightarrow> json list \<Rightarrow> example option \<Rightarrow> parse_state \<Rightarrow> parse_state" where
  "report_outside path options ex st =
     (case ex of
        Some e \<Rightarrow>
          if list_ex (\<lambda>x. value_eq x (ex_value e)) options then st
          else report (path @ ''/example'')
            (quote1 ''example'' @ '' is not among '' @ quote1 ''options'' @ '' '' @ spec_ref ''5.3'') st
      | None \<Rightarrow> st)"

definition parse_any_of :: "json smap \<Rightarrow> example option \<Rightarrow> string \<Rightarrow> parse_state \<Rightarrow> core_shape option \<times> parse_state" where
  "parse_any_of obj ex path st =
     and_then (require_member obj ''options'' ''any-of'' path st) (\<lambda>v st.
       case v of
         JArray options \<Rightarrow>
           if options = []
           then (None, report (path @ ''/options'') (quote1 ''options'' @ '' must be non-empty '' @ spec_ref ''5.3'') st)
           else (Some (AnyOf options),
                 report_outside path options ex (fold (report_repeated path options) [0..<length options] st))
       | _ \<Rightarrow> (None, report (path @ ''/options'') (quote1 ''options'' @ '' must be an array'') st))"

subsection \<open>Discriminated unions\<close>

fun unwrap_object_members :: "shape \<Rightarrow> shape smap option" where
  "unwrap_object_members (ShapeNode _ _ (Core (Object members))) = Some members"
| "unwrap_object_members (ShapeNode _ _ (Core (Nullable (ShapeNode _ _ (Core (Object members)))))) = Some members"
| "unwrap_object_members _ = None"

definition discriminator_message :: "string \<Rightarrow> shape \<Rightarrow> string" where
  "discriminator_message alt_name other =
     ''the discriminator member of alternative '' @ quote1 alt_name @ '' must be '' @ quote1 ''equality''
       @ '' or '' @ quote1 ''any-of'' @ '', not '' @ quote1 (shape_operator other) @ '' '' @ spec_ref ''5.4''"

definition discriminator_options ::
  "shape \<Rightarrow> string \<Rightarrow> string \<Rightarrow> string \<Rightarrow> parse_state \<Rightarrow> json list option \<times> parse_state" where
  "discriminator_options node disc alt_path alt_name st =
     (case unwrap_object_members node of
        None \<Rightarrow>
          (None, report alt_path (''alternative '' @ quote1 alt_name @ '' must be an '' @ quote1 ''object''
             @ '' shape, optionally wrapped in '' @ quote1 ''nullable'' @ '' '' @ spec_ref ''5.4'') st)
      | Some members \<Rightarrow>
          (case map_of members disc of
             None \<Rightarrow>
               (None, report alt_path (''alternative '' @ quote1 alt_name
                  @ '' does not declare the discriminator member '' @ quote1 disc @ '' '' @ spec_ref ''5.4'') st)
           | Some node \<Rightarrow>
               (case sn_kind node of
                  Core Equality \<Rightarrow> (map_option (\<lambda>e. [ex_value e]) (sn_example node), st)
                | Core (AnyOf options) \<Rightarrow> (Some options, st)
                | _ \<Rightarrow>
                    (None, report (push_pointer_segment (alt_path @ ''/members'') disc)
                       (discriminator_message alt_name node) st))))"

fun parse_alternatives ::
  "child_parser \<Rightarrow> string \<Rightarrow> string \<Rightarrow> nat \<Rightarrow> json smap \<Rightarrow> shape smap \<Rightarrow> (string \<times> json list) list \<Rightarrow> parse_state
     \<Rightarrow> (shape smap \<times> (string \<times> json list) list) \<times> parse_state" where
  "parse_alternatives f disc path depth [] alternatives sets st = ((alternatives, sets), st)"
| "parse_alternatives f disc path depth ((name, v) # rest) alternatives sets st =
     (let alt_path = push_pointer_segment (path @ ''/alternatives'') name in
      case f v NotASlot alt_path (depth + 1) st of
        (None, st) \<Rightarrow> parse_alternatives f disc path depth rest alternatives sets st
      | (Some node, st) \<Rightarrow>
          (case discriminator_options node disc alt_path name st of
             (found, st) \<Rightarrow>
               parse_alternatives f disc path depth rest (btree_insert name node alternatives)
                 (case found of Some options \<Rightarrow> sets @ [(name, options)] | None \<Rightarrow> sets) st))"

definition overlapping :: "json list \<Rightarrow> json list \<Rightarrow> bool" where
  "overlapping options others = list_ex (\<lambda>a. list_ex (value_eq a) others) options"

definition overlap_message :: "string \<Rightarrow> string \<Rightarrow> string" where
  "overlap_message name other =
     ''alternatives '' @ quote1 other @ '' and '' @ quote1 name @ '' do not have disjoint discriminator values ''
       @ spec_ref ''5.4''"

definition report_overlap :: "string \<Rightarrow> (string \<times> json list) list \<Rightarrow> nat \<Rightarrow> nat \<Rightarrow> parse_state \<Rightarrow> parse_state" where
  "report_overlap path sets i j st =
     (if overlapping (snd (sets ! i)) (snd (sets ! j))
      then report (path @ ''/alternatives'') (overlap_message (fst (sets ! i)) (fst (sets ! j))) st
      else st)"

definition report_overlaps :: "string \<Rightarrow> (string \<times> json list) list \<Rightarrow> parse_state \<Rightarrow> parse_state" where
  "report_overlaps path sets st =
     fold (\<lambda>i. fold (report_overlap path sets i) [0..<i]) [1..<length sets] st"

definition parse_default :: "json smap \<Rightarrow> shape smap \<Rightarrow> string \<Rightarrow> parse_state \<Rightarrow> string option \<times> parse_state" where
  "parse_default obj alternatives path st =
     (case map_of obj ''default'' of
        None \<Rightarrow> (None, st)
      | Some (JString name) \<Rightarrow>
          (Some name,
           if contains_key alternatives name then st
           else report (path @ ''/default'')
             (quote1 ''default'' @ '' names an alternative that does not exist: '' @ quote1 name) st)
      | Some _ \<Rightarrow> (None, report (path @ ''/default'') (quote1 ''default'' @ '' must be a string'') st))"

definition report_too_few :: "string \<Rightarrow> json smap \<Rightarrow> parse_state \<Rightarrow> parse_state" where
  "report_too_few path alts st =
     (if length alts < 2
      then report (path @ ''/alternatives'') (quote1 ''one-of'' @ '' requires at least two alternatives '' @ spec_ref ''5.4'') st
      else st)"

definition parse_one_of :: "child_parser \<Rightarrow> json smap \<Rightarrow> string \<Rightarrow> nat \<Rightarrow> parse_state \<Rightarrow> core_shape option \<times> parse_state" where
  "parse_one_of f obj path depth st =
     and_then (require_string obj ''discriminator'' ''one-of'' path st) (\<lambda>disc st.
     and_then (require_member obj ''alternatives'' ''one-of'' path st) (\<lambda>v st.
       case v of
         JObject alts \<Rightarrow>
           (case parse_alternatives f disc path depth alts [] [] (report_too_few path alts st) of
              ((alternatives, sets), st) \<Rightarrow>
                (case parse_default obj alternatives path (report_overlaps path sets st) of
                   (dflt, st) \<Rightarrow> (Some (OneOf disc alternatives dflt), st)))
       | _ \<Rightarrow> (None, report (path @ ''/alternatives'') (quote1 ''alternatives'' @ '' must be an object'') st)))"

subsection \<open>The node\<close>

definition parse_temporal :: "temporal_kind \<Rightarrow> json smap \<Rightarrow> string \<Rightarrow> parse_state \<Rightarrow> core_shape option \<times> parse_state" where
  "parse_temporal kind obj path st =
     (case map_of obj ''format'' of
        None \<Rightarrow> (Some (Temporal kind None), st)
      | Some (JString format) \<Rightarrow> (Some (Temporal kind (Some format)), st)
      | Some _ \<Rightarrow>
          (Some (Temporal kind None), report (path @ ''/format'') (quote1 ''format'' @ '' must be a string'') st))"

definition parse_object :: "child_parser \<Rightarrow> json smap \<Rightarrow> string \<Rightarrow> string \<Rightarrow> nat \<Rightarrow> parse_state \<Rightarrow> core_shape option \<times> parse_state" where
  "parse_object f obj operator path depth st =
     and_then (require_member obj ''members'' operator path st) (\<lambda>v st.
       case v of
         JObject ms \<Rightarrow>
           (case parse_members f path depth ms [] st of (members, st) \<Rightarrow> (Some (Object members), st))
       | _ \<Rightarrow> (None, report (path @ ''/members'') (quote1 ''members'' @ '' must be an object'') st))"

definition parse_each_like :: "child_parser \<Rightarrow> json smap \<Rightarrow> string \<Rightarrow> string \<Rightarrow> nat \<Rightarrow> parse_state \<Rightarrow> core_shape option \<times> parse_state" where
  "parse_each_like f obj operator path depth st =
     and_then (parse_under f obj ''items'' operator path depth st) (\<lambda>items st.
     and_then (parse_cardinality obj path st) (\<lambda>(least, most) st.
       (Some (EachLike items least most), st)))"

definition parse_each_entry :: "child_parser \<Rightarrow> json smap \<Rightarrow> string \<Rightarrow> string \<Rightarrow> nat \<Rightarrow> parse_state \<Rightarrow> core_shape option \<times> parse_state" where
  "parse_each_entry f obj operator path depth st =
     and_then (parse_under f obj ''values'' operator path depth st) (\<lambda>vals st.
       case (case map_of obj ''keys'' of
               None \<Rightarrow> (None, st)
             | Some v \<Rightarrow> f v NotASlot (path @ ''/keys'') (depth + 1) st) of
         (ks, st) \<Rightarrow>
           and_then (parse_cardinality obj path st) (\<lambda>(least, most) st.
             (Some (EachEntry ks vals least most), st)))"

definition parse_nullable :: "child_parser \<Rightarrow> json smap \<Rightarrow> string \<Rightarrow> string \<Rightarrow> nat \<Rightarrow> parse_state \<Rightarrow> core_shape option \<times> parse_state" where
  "parse_nullable f obj operator path depth st =
     and_then (parse_under f obj ''of'' operator path depth st) (\<lambda>s st.
       (Some (Nullable s),
        case sn_kind s of
          Core (Nullable _) \<Rightarrow>
            report (path @ ''/of'') (quote1 ''nullable'' @ '' must not wrap '' @ quote1 ''nullable'' @ '' '' @ spec_ref ''5.2'') st
        | _ \<Rightarrow> st))"

definition parse_core ::
  "child_parser \<Rightarrow> string \<Rightarrow> json smap \<Rightarrow> example option \<Rightarrow> string \<Rightarrow> nat \<Rightarrow> parse_state \<Rightarrow> core_shape option \<times> parse_state" where
  "parse_core f operator obj ex path depth st =
     (if operator = ''any'' then (Some Any, st)
      else if operator = ''equality'' then (Some Equality, require_example operator ex path st)
      else if operator = ''type'' then (Some Type, require_example operator ex path st)
      else if operator = ''string'' then (Some (Kind VK_String), st)
      else if operator = ''number'' then (Some (Kind VK_Number), st)
      else if operator = ''integer'' then (Some (Kind VK_Integer), st)
      else if operator = ''decimal'' then (Some (Kind VK_Decimal), st)
      else if operator = ''boolean'' then (Some (Kind VK_Boolean), st)
      else if operator = ''null'' then (Some (Kind VK_Null), st)
      else if operator = ''not-empty'' then (Some NotEmpty, st)
      else if operator = ''regex''
      then and_then (require_string obj ''pattern'' operator path st) (\<lambda>s st. (Some (Regex s), st))
      else if operator = ''datetime'' then parse_temporal TK_DateTime obj path st
      else if operator = ''date'' then parse_temporal TK_Date obj path st
      else if operator = ''time'' then parse_temporal TK_Time obj path st
      else if operator = ''include''
      then and_then (require_string obj ''substring'' operator path st) (\<lambda>s st. (Some (Include s), st))
      else if operator = ''content-type''
      then and_then (require_string obj ''content-type'' operator path st) (\<lambda>s st. (Some (ContentType s), st))
      else if operator = ''semver'' then (Some Semver, st)
      else if operator = ''object'' then parse_object f obj operator path depth st
      else if operator = ''array''
      then and_then (parse_entries f obj operator path depth st) (\<lambda>es st. (Some (ArrayOf es), st))
      else if operator = ''contains''
      then and_then (parse_entries f obj operator path depth st) (\<lambda>es st. (Some (Contains es), st))
      else if operator = ''each-like'' then parse_each_like f obj operator path depth st
      else if operator = ''each-entry'' then parse_each_entry f obj operator path depth st
      else if operator = ''optional''
      then and_then (parse_under f obj ''of'' operator path depth st) (\<lambda>s st. (Some (Optional s), st))
      else if operator = ''forbidden'' then (Some Forbidden, st)
      else if operator = ''nullable'' then parse_nullable f obj operator path depth st
      else if operator = ''any-of'' then parse_any_of obj ex path st
      else parse_one_of f obj path depth st)"

definition reserved_message :: "string \<Rightarrow> string \<Rightarrow> string" where
  "reserved_message operator component =
     quote1 operator @ '' is not an operator: '' @ quote1 component
       @ '' is a namespace reserved for core plan actions, which no component can contribute '' @ spec_ref ''3.7''"

definition parse_operator ::
  "child_parser \<Rightarrow> string \<Rightarrow> json smap \<Rightarrow> example option \<Rightarrow> string \<Rightarrow> nat \<Rightarrow> parse_state \<Rightarrow> shape option \<times> parse_state" where
  "parse_operator f operator obj ex path depth st =
     (case split_once (CHR '':'') operator of
        Some (component, name) \<Rightarrow>
          if component = [] \<or> name = []
          then (None, report path (quote1 operator @ '' is not a valid namespaced operator '' @ spec_ref ''3.5'') st)
          else if component \<in> set reserved_namespaces
          then (None, report path (reserved_message operator component) st)
          else (Some (ShapeNode ex (map_of obj ''generator'') (Component operator
                 (filter (\<lambda>(key, _). key \<notin> {''shape'', ''example'', ''encoded'', ''generator''}) obj))), st)
      | None \<Rightarrow>
          if operator \<notin> set core_operators
          then (None, report path (''unknown operator '' @ quote1 operator @ '' '' @ spec_ref ''3.7'') st)
          else and_then (parse_core f operator obj ex path depth st) (\<lambda>core st.
            (Some (ShapeNode ex (map_of obj ''generator'') (Core core)), st)))"

definition parse_node :: "child_parser \<Rightarrow> json \<Rightarrow> string \<Rightarrow> nat \<Rightarrow> parse_state \<Rightarrow> shape option \<times> parse_state" where
  "parse_node f v path depth st =
     (case v of
        JObject obj \<Rightarrow>
          (case map_of obj ''shape'' of
             None \<Rightarrow>
               (None, report path (''a shape node requires a '' @ quote1 ''shape'' @ '' member naming its operator'') st)
           | Some (JString operator) \<Rightarrow>
               (case parse_example obj path st of (ex, st) \<Rightarrow> parse_operator f operator obj ex path depth st)
           | Some _ \<Rightarrow> (None, report path (quote1 ''shape'' @ '' must be a string naming the operator'') st))
      | _ \<Rightarrow> (None, report path ''a shape node must be a JSON object'' st))"

definition absence_message :: "shape \<Rightarrow> string" where
  "absence_message node =
     quote1 (shape_operator node) @ '' admits absence, which may only appear as an object member '' @ spec_ref ''5.1''"

definition child_step :: "child_parser \<Rightarrow> child_parser" where
  "child_step f v pos path depth st =
     (case budget_enter depth path st of
        (False, st) \<Rightarrow> (None, st)
      | (True, st) \<Rightarrow>
          and_then (parse_node f v path depth st) (\<lambda>node st.
            (Some node,
             if pos = NotASlot \<and> admits_absent node then report path (absence_message node) st else st)))"

subsection \<open>The recursion\<close>

text \<open>Two parsers that agree on every document below a given size give the same node.\<close>

definition parse_agrees :: "nat \<Rightarrow> child_parser \<Rightarrow> child_parser \<Rightarrow> bool" where
  "parse_agrees n f g \<longleftrightarrow> (\<forall>v pos path depth st. size v < n \<longrightarrow> f v pos path depth st = g v pos path depth st)"

lemma parse_agreesD: "parse_agrees n f g \<Longrightarrow> size v < n \<Longrightarrow> f v pos path depth st = g v pos path depth st"
  by (simp add: parse_agrees_def)

lemma and_then_cong:
  "r = r' \<Longrightarrow> (\<And>x st. r' = (Some x, st) \<Longrightarrow> k x st = k' x st) \<Longrightarrow> and_then r k = and_then r' k'"
  by (auto simp: and_then_def split: prod.split option.split)

lemma member_size: "map_of obj k = Some v \<Longrightarrow> size v < size (JObject obj)"
  by (auto dest!: map_of_SomeD intro: less_SucI smap_size)

lemma required:
  "require_member obj member operator path st = (Some v, st') \<longleftrightarrow> map_of obj member = Some v \<and> st' = st"
  by (auto simp: require_member_def split: option.splits)

lemma parse_members_cong:
  assumes agrees: "parse_agrees n f g"
  shows "(\<And>k v. (k, v) \<in> set ms \<Longrightarrow> size v < n) \<Longrightarrow>
    parse_members f path depth ms acc st = parse_members g path depth ms acc st"
proof (induction ms arbitrary: acc st)
  case (Cons m ms)
  obtain k v where m: "m = (k, v)" by (cases m)
  have "size v < n" by (rule Cons(2) [of k]) (simp add: m)
  then have f: "f v pos q d st = g v pos q d st" for pos q d st by (rule parse_agreesD [OF agrees])
  have rest: "parse_members f path depth ms acc st = parse_members g path depth ms acc st" for acc st
    by (rule Cons(1)) (metis Cons(2) list.set_intros(2))
  show ?case by (simp only: m parse_members.simps f rest)
qed simp

lemma parse_entry_list_cong:
  assumes agrees: "parse_agrees n f g"
  shows "(\<And>v. v \<in> set vs \<Longrightarrow> size v < n) \<Longrightarrow>
    parse_entry_list f path depth i vs acc st = parse_entry_list g path depth i vs acc st"
proof (induction vs arbitrary: i acc st)
  case (Cons v vs)
  from Cons(2) have f: "f v pos q d st = g v pos q d st" for pos q d st using parse_agreesD [OF agrees] by simp
  have rest: "parse_entry_list f path depth i vs acc st = parse_entry_list g path depth i vs acc st" for i acc st
    by (rule Cons(1)) (rule Cons(2), simp)
  show ?case by (simp only: parse_entry_list.simps f rest)
qed simp

lemma parse_alternatives_cong:
  assumes agrees: "parse_agrees n f g"
  shows "(\<And>k v. (k, v) \<in> set ms \<Longrightarrow> size v < n) \<Longrightarrow>
    parse_alternatives f disc path depth ms acc sets st = parse_alternatives g disc path depth ms acc sets st"
proof (induction ms arbitrary: acc sets st)
  case (Cons m ms)
  obtain k v where m: "m = (k, v)" by (cases m)
  have "size v < n" by (rule Cons(2) [of k]) (simp add: m)
  then have f: "f v pos q d st = g v pos q d st" for pos q d st by (rule parse_agreesD [OF agrees])
  have rest: "parse_alternatives f disc path depth ms acc sets st = parse_alternatives g disc path depth ms acc sets st" for acc sets st
    by (rule Cons(1)) (metis Cons(2) list.set_intros(2))
  let ?at = "push_pointer_segment (path @ ''/alternatives'') k"
  obtain r st1 where r: "g v NotASlot ?at (depth + 1) st = (r, st1)" by fastforce
  show ?case
  proof (cases r)
    case None
    show ?thesis by (simp only: m parse_alternatives.simps f Let_def r None rest prod.case option.case)
  next
    case (Some node)
    obtain found st2 where d: "discriminator_options node disc ?at k st1 = (found, st2)" by fastforce
    show ?thesis by (simp only: m parse_alternatives.simps f Let_def r Some d rest prod.case option.case)
  qed
qed simp

lemma object_member_size: "map_of obj k = Some (JObject ms) \<Longrightarrow> (n, v) \<in> set ms \<Longrightarrow> size v < size (JObject obj)"
proof -
  assume "map_of obj k = Some (JObject ms)" and v: "(n, v) \<in> set ms"
  from v have "size v < size (JObject ms)" by (auto intro: less_SucI smap_size)
  also have "\<dots> < size (JObject obj)" by (rule member_size) fact
  finally show ?thesis .
qed

lemma array_entry_size: "map_of obj k = Some (JArray vs) \<Longrightarrow> v \<in> set vs \<Longrightarrow> size v < size (JObject obj)"
  using member_size [of obj k "JArray vs"] size_list_elem [of v vs size] by simp

lemma parse_under_cong:
  "parse_agrees (size (JObject obj)) f g \<Longrightarrow> parse_under f obj m operator path depth st = parse_under g obj m operator path depth st"
  unfolding parse_under_def by (rule and_then_cong) (auto simp: required dest!: member_size intro: parse_agreesD)

lemma parse_entries_cong:
  "parse_agrees (size (JObject obj)) f g \<Longrightarrow> parse_entries f obj operator path depth st = parse_entries g obj operator path depth st"
  unfolding parse_entries_def
  by (rule and_then_cong)
    (auto simp: required split: json.split dest: array_entry_size intro!: arg_cong [where f = "\<lambda>r. case r of (es, st) \<Rightarrow> (Some es, st)"]
      parse_entry_list_cong)

lemma parse_core_cong:
  assumes agrees: "parse_agrees (size (JObject obj)) f g"
  shows "parse_core f operator obj ex path depth st = parse_core g operator obj ex path depth st"
proof -
  have "parse_object f obj operator path depth st = parse_object g obj operator path depth st"
    unfolding parse_object_def
    by (rule and_then_cong)
      (auto simp: required split: json.split dest: object_member_size
        intro!: arg_cong [where f = "\<lambda>r. case r of (ms, st) \<Rightarrow> (Some (Object ms), st)"] parse_members_cong [OF agrees])
  moreover have "parse_alternatives f disc path depth alts [] [] st = parse_alternatives g disc path depth alts [] [] st"
    if "map_of obj ''alternatives'' = Some (JObject alts)" for disc alts st
    by (rule parse_alternatives_cong [OF agrees]) (rule object_member_size [OF that])
  then have "parse_one_of f obj path depth st = parse_one_of g obj path depth st"
    unfolding parse_one_of_def by (intro and_then_cong refl) (auto simp: required Let_def split: json.split)
  moreover have "(case map_of obj ''keys'' of None \<Rightarrow> (None, st) | Some v \<Rightarrow> f v NotASlot (path @ ''/keys'') (depth + 1) st) =
    (case map_of obj ''keys'' of None \<Rightarrow> (None, st) | Some v \<Rightarrow> g v NotASlot (path @ ''/keys'') (depth + 1) st)" for st
    using parse_agreesD [OF agrees member_size] by (simp split: option.split)
  ultimately show ?thesis
    by (simp only: parse_core_def parse_each_like_def parse_each_entry_def parse_nullable_def
        parse_under_cong [OF agrees] parse_entries_cong [OF agrees])
qed

lemma child_step_cong [fundef_cong]:
  assumes "\<And>v' pos' path' depth' st'. size v' < size v \<Longrightarrow> f v' pos' path' depth' st' = g v' pos' path' depth' st'"
  shows "child_step f v pos path depth st = child_step g v pos path depth st"
proof -
  have "parse_node f v path depth st' = parse_node g v path depth st'" for st'
  proof (cases v)
    case (JObject obj)
    then have "parse_agrees (size (JObject obj)) f g" using assms by (simp add: parse_agrees_def)
    from parse_core_cong [OF this] show ?thesis by (simp only: JObject parse_node_def parse_operator_def json.case)
  qed (simp_all add: parse_node_def)
  then show ?thesis by (simp only: child_step_def)
qed

function parse_child :: "json \<Rightarrow> slot_position \<Rightarrow> string \<Rightarrow> nat \<Rightarrow> parse_state \<Rightarrow> shape option \<times> parse_state" where
  "parse_child v pos path depth st =
     child_step (\<lambda>v' pos' path' depth' st'. parse_child v' pos' path' depth' st') v pos path depth st"
  by pat_completeness auto
termination
  by (relation "measure (\<lambda>(v, _). size v)") auto

declare parse_child.simps [simp del]

definition parse_start :: parse_state where
  "parse_start = \<lparr>bd_nodes = 0, bd_limited = False, bd_problems = []\<rparr>"

definition shape_parse :: "json \<Rightarrow> string \<Rightarrow> problem list + shape" where
  "shape_parse v path =
     (case parse_child v NotASlot path 0 parse_start of
        (Some node, st) \<Rightarrow> if bd_problems st = [] then Inr node else Inl (bd_problems st)
      | (None, st) \<Rightarrow> Inl (bd_problems st))"

end
