(* ===== verification/Parse_Laws.thy ===== *)
theory Parse_Laws
  imports Shape_Parse Value_Equality Plan_Compile
begin

text \<open>
  What the shape parser establishes. Every function of the parser reports under the path it is given,
  answers \<open>None\<close> only with a problem recorded, and, when it records none, answers what its rule promises:
  one judgement (\<open>yields\<close>), with a rule per construct, and the contract of a child's parser as a locale.
\<close>

subsection \<open>The judgement\<close>

definition state_ok :: "parse_state \<Rightarrow> bool" where
  "state_ok st \<longleftrightarrow> (bd_limited st \<longrightarrow> bd_problems st \<noteq> []) \<and> (\<not> bd_limited st \<longrightarrow> bd_nodes st \<le> max_nodes)"

text \<open>What a call may do to the state: add problems under its path, and enter nodes.\<close>

definition reports_under :: "string \<Rightarrow> parse_state \<Rightarrow> parse_state \<Rightarrow> bool" where
  "reports_under path st st' \<longleftrightarrow>
     state_ok st' \<and> bd_nodes st \<le> bd_nodes st'
     \<and> (\<exists>new. bd_problems st' = bd_problems st @ new \<and> (\<forall>p \<in> set new. prefix path (pr_pointer p)))"

definition yields :: "string \<Rightarrow> ('a \<Rightarrow> parse_state \<Rightarrow> bool) \<Rightarrow> parse_state \<Rightarrow> 'a option \<times> parse_state \<Rightarrow> bool" where
  "yields path Q st r \<longleftrightarrow>
     (state_ok st \<longrightarrow>
      reports_under path st (snd r)
      \<and> (case fst r of None \<Rightarrow> bd_problems (snd r) \<noteq> [] | Some x \<Rightarrow> bd_problems (snd r) = [] \<longrightarrow> Q x (snd r)))"

lemma reports_refl [intro]: "state_ok st \<Longrightarrow> reports_under path st st"
  by (simp add: reports_under_def)

lemma reports_trans: "reports_under path st st' \<Longrightarrow> reports_under path st' st'' \<Longrightarrow> reports_under path st st''"
  by (fastforce simp: reports_under_def)

lemma reports_shorter: "reports_under (path @ s) st st' \<Longrightarrow> reports_under path st st'"
  by (auto simp: reports_under_def dest: append_prefixD)

lemma reports_ok: "reports_under path st st' \<Longrightarrow> state_ok st'"
  by (simp add: reports_under_def)

lemma reports_clean: "reports_under path st st' \<Longrightarrow> bd_problems st' = [] \<Longrightarrow> bd_problems st = []"
  by (auto simp: reports_under_def)

lemma reports_nodes: "reports_under path st st' \<Longrightarrow> bd_nodes st \<le> bd_nodes st'"
  by (simp add: reports_under_def)

lemma report_simps [simp]:
  "bd_problems (report q m st) = bd_problems st @ [\<lparr>pr_pointer = q, pr_message = m\<rparr>]"
  "bd_nodes (report q m st) = bd_nodes st" "bd_limited (report q m st) = bd_limited st"
  by (simp_all add: report_def)

lemma report_under [intro]: "state_ok st \<Longrightarrow> prefix path q \<Longrightarrow> reports_under path st (report q m st)"
  by (auto simp: reports_under_def state_ok_def)

lemma yields_report [intro]: "prefix path q \<Longrightarrow> yields path Q st (None, report q m st)"
  by (auto simp: yields_def)

lemma yields_some [intro]: "(state_ok st \<Longrightarrow> bd_problems st = [] \<Longrightarrow> Q x st) \<Longrightarrow> yields path Q st (Some x, st)"
  by (auto simp: yields_def)

lemma yields_report_some: "prefix path q \<Longrightarrow> yields path Q st (Some x, report q m st)"
  by (auto simp: yields_def)

lemma yields_mono:
  "yields path Q st r \<Longrightarrow> (\<And>x st'. reports_under path st st' \<Longrightarrow> bd_problems st' = [] \<Longrightarrow> Q x st' \<Longrightarrow> Q' x st') \<Longrightarrow> yields path Q' st r"
  by (auto simp: yields_def split: option.splits)

lemma yields_shorter: "yields (path @ s) Q st r \<Longrightarrow> yields path Q st r"
  by (auto simp: yields_def intro: reports_shorter)

lemma yields_after:
  "yields path Q st' r \<Longrightarrow> reports_under path st st' \<Longrightarrow> yields path Q st r"
  by (auto simp: yields_def dest: reports_ok intro: reports_trans)

lemma yields_and_then:
  assumes "yields path P st r"
    and "\<And>x st'. reports_under path st st' \<Longrightarrow> (bd_problems st' = [] \<Longrightarrow> P x st') \<Longrightarrow> yields path Q st' (k x st')"
  shows "yields path Q st (and_then r k)"
proof (cases "fst r")
  case None
  with assms(1) show ?thesis by (auto simp: and_then_def yields_def split: prod.splits)
next
  case (Some x)
  show ?thesis
  proof (cases "state_ok st")
    case True
    with assms(1) Some have "reports_under path st (snd r)" "bd_problems (snd r) = [] \<Longrightarrow> P x (snd r)"
      by (auto simp: yields_def)
    from yields_after [OF assms(2) [OF this] this(1)] Some show ?thesis
      by (simp add: and_then_def case_prod_beta)
  qed (simp add: yields_def)
qed

lemma yields_require [intro]:
  "yields path (\<lambda>v st'. map_of obj m = Some v \<and> st' = st) st (require_member obj m operator path st)"
  by (auto simp: require_member_def split: option.split)

lemma yields_require_string [intro]:
  "yields path (\<lambda>_ st'. st' = st) st (require_string obj m operator path st)"
  unfolding require_string_def
  by (rule yields_and_then [OF yields_require]) (auto simp: yields_def split: json.split)

text \<open>A loop of checks that only report.\<close>

lemma fold_reports:
  assumes "\<And>i st. state_ok st \<Longrightarrow> reports_under path st (step i st)"
    and "\<And>i st. bd_problems (step i st) = [] \<Longrightarrow> R i" and "state_ok st"
  shows "reports_under path st (fold step xs st) \<and> (bd_problems (fold step xs st) = [] \<longrightarrow> (\<forall>i \<in> set xs. R i))"
  using assms(3)
proof (induction xs arbitrary: st)
  case (Cons x xs)
  from assms(1) [OF Cons(2)] have r: "reports_under path st (step x st)" .
  from Cons(1) [OF reports_ok [OF r]] r assms(2) [of x st]
  show ?case by (auto intro: reports_trans dest: reports_clean)
qed auto

subsection \<open>What a parsed shape is\<close>

text \<open>An alternative binds the discriminator to a literal set (\<open>discriminator_literals\<close>).\<close>

definition binds :: "string \<Rightarrow> shape \<Rightarrow> bool" where
  "binds disc a \<longleftrightarrow>
     (\<exists>ms m. object_members a = Some ms \<and> map_of ms disc = Some m
       \<and> (\<exists>ex g. m = ShapeNode (Some ex) g (Core Equality) \<or> (\<exists>ex options. m = ShapeNode ex g (Core (AnyOf options)))))"

fun is_nullable :: "shape \<Rightarrow> bool" where
  "is_nullable (ShapeNode _ _ (Core (Nullable _))) = True"
| "is_nullable _ = False"

definition bounds_parsed :: "nat \<Rightarrow> nat option \<Rightarrow> bool" where
  "bounds_parsed least most \<longleftrightarrow>
     least < 2 ^ 64 \<and> (case most of Some m \<Rightarrow> least \<le> m \<and> m < 2 ^ 64 | None \<Rightarrow> True)"

fun parsed_core :: "example option \<Rightarrow> core_shape \<Rightarrow> bool" where
  "parsed_core ex Equality = (ex \<noteq> None)"
| "parsed_core ex Type = (ex \<noteq> None)"
| "parsed_core ex (Object ms) = index_map ms"
| "parsed_core ex (ArrayOf es) = list_all (\<lambda>e. \<not> admits_absent e) es"
| "parsed_core ex (Contains es) = list_all (\<lambda>e. \<not> admits_absent e) es"
| "parsed_core ex (EachLike s least most) = (\<not> admits_absent s \<and> bounds_parsed least most)"
| "parsed_core ex (EachEntry ks vs least most) =
     ((case ks of Some k \<Rightarrow> \<not> admits_absent k | None \<Rightarrow> True) \<and> \<not> admits_absent vs \<and> bounds_parsed least most)"
| "parsed_core ex (Optional s) = (\<not> admits_absent s)"
| "parsed_core ex (Nullable s) = (\<not> admits_absent s \<and> \<not> is_nullable s)"
| "parsed_core ex (AnyOf options) =
     (options \<noteq> [] \<and> list_all wf_json options \<and> (\<forall>i < length options. \<not> repeated_option options i)
      \<and> (case ex of Some e \<Rightarrow> list_ex (\<lambda>x. value_eq x (ex_value e)) options | None \<Rightarrow> True))"
| "parsed_core ex (OneOf disc as dflt) =
     (2 \<le> length as \<and> btree_map as \<and> list_all (\<lambda>(_, a). \<not> admits_absent a \<and> binds disc a) as
      \<and> (\<forall>(n, a) \<in> set as. \<forall>(m, b) \<in> set as. n \<noteq> m \<longrightarrow>
           \<not> overlapping (discriminator_literals a disc) (discriminator_literals b disc))
      \<and> (case dflt of Some n \<Rightarrow> contains_key as n | None \<Rightarrow> True))"
| "parsed_core ex _ = True"

fun parsed :: "shape \<Rightarrow> bool" where
  "parsed (ShapeNode ex g (Component operator raw)) =
     (is_component_action operator \<and> wf_json (JObject raw) \<and> (case ex of Some e \<Rightarrow> wf_json (ex_value e) | None \<Rightarrow> True))"
| "parsed (ShapeNode ex g (Core c)) =
     (parsed_core ex c \<and> (case ex of Some e \<Rightarrow> wf_json (ex_value e) | None \<Rightarrow> True))"

text \<open>Nodes and height of a shape.\<close>

function shape_nodes :: "shape \<Rightarrow> nat" where
  "shape_nodes s = Suc (sum_list (map shape_nodes (shape_children s)))"
  by pat_completeness auto
termination
  by (relation "measure size") (auto simp: shape_children_size)

function shape_height :: "shape \<Rightarrow> nat" where
  "shape_height s = fold max (map (\<lambda>c. Suc (shape_height c)) (shape_children s)) 0"
  by pat_completeness auto
termination
  by (relation "measure size") (auto simp: shape_children_size)

declare shape_nodes.simps [simp del] shape_height.simps [simp del]

definition nodes_of :: "shape list \<Rightarrow> nat" where
  "nodes_of ss = sum_list (map shape_nodes ss)"

lemma fold_max_le: "fold max xs (a::nat) \<le> n \<longleftrightarrow> a \<le> n \<and> (\<forall>x \<in> set xs. x \<le> n)"
  by (induction xs arbitrary: a) auto

lemma height_le: "shape_height s \<le> n \<longleftrightarrow> (\<forall>c \<in> set (shape_children s). Suc (shape_height c) \<le> n)"
  by (subst shape_height.simps) (simp add: fold_max_le)

subsection \<open>Children\<close>

text \<open>What a child's parser answers at a position.\<close>

definition child_post :: "slot_position \<Rightarrow> nat \<Rightarrow> parse_state \<Rightarrow> shape \<Rightarrow> parse_state \<Rightarrow> bool" where
  "child_post pos d st s st' \<longleftrightarrow>
     every_shape parsed s \<and> (pos = NotASlot \<longrightarrow> \<not> admits_absent s)
     \<and> bd_nodes st + shape_nodes s \<le> bd_nodes st' \<and> d + shape_height s \<le> max_depth"

definition child_yields :: "child_parser \<Rightarrow> bool" where
  "child_yields f \<longleftrightarrow> (\<forall>v pos q d st. wf_json v \<longrightarrow> yields q (child_post pos d st) st (f v pos q d st))"

lemma child_yieldsD: "child_yields f \<Longrightarrow> wf_json v \<Longrightarrow> yields q (child_post pos d st) st (f v pos q d st)"
  by (simp add: child_yields_def)

text \<open>The children gathered so far, and what more were gathered between two states.\<close>

definition gathered :: "slot_position \<Rightarrow> nat \<Rightarrow> parse_state \<Rightarrow> shape list \<Rightarrow> shape list \<Rightarrow> parse_state \<Rightarrow> bool" where
  "gathered pos d st acc cs st' \<longleftrightarrow>
     (\<forall>s \<in> set cs. s \<in> set acc \<or> (every_shape parsed s \<and> (pos = NotASlot \<longrightarrow> \<not> admits_absent s) \<and> d + Suc (shape_height s) \<le> max_depth))
     \<and> bd_nodes st + nodes_of cs \<le> bd_nodes st' + nodes_of acc"

lemma gathered_refl [intro]: "bd_nodes st \<le> bd_nodes st' \<Longrightarrow> gathered pos d st acc acc st'"
  by (simp add: gathered_def)

lemma gathered_trans: "gathered pos d st acc acc' st1 \<Longrightarrow> gathered pos d st1 acc' cs st' \<Longrightarrow> gathered pos d st acc cs st'"
  by (fastforce simp: gathered_def)

lemma gathered_one:
  "child_post pos (d + 1) st s st' \<Longrightarrow> set cs \<subseteq> insert s (set acc) \<Longrightarrow> nodes_of cs \<le> shape_nodes s + nodes_of acc \<Longrightarrow>
   gathered pos d st acc cs st'"
  by (auto simp: gathered_def child_post_def)

lemma nodes_of_simps [simp]:
  "nodes_of [] = 0" "nodes_of (s # ss) = shape_nodes s + nodes_of ss" "nodes_of (ss @ ts) = nodes_of ss + nodes_of ts"
  by (simp_all add: nodes_of_def)

lemma index_inserted:
  "snd ` set (index_insert n s ms) \<subseteq> insert s (snd ` set ms)"
  "nodes_of (map snd (index_insert n s ms)) \<le> shape_nodes s + nodes_of (map snd ms)"
  by (induction n s ms rule: index_insert.induct) auto

lemma btree_inserted:
  "snd ` set (btree_insert n s ms) \<subseteq> insert s (snd ` set ms)"
  "nodes_of (map snd (btree_insert n s ms)) \<le> shape_nodes s + nodes_of (map snd ms)"
  by (induction n s ms rule: btree_insert.induct) auto

lemma push_prefix [simp]: "prefix path (push_pointer_segment (path @ s) n)"
  by (simp add: push_pointer_segment_def)

lemma push_split: "push_pointer_segment (path @ s) n = path @ s @ CHR ''/'' # pointer_escape n"
  by (simp add: push_pointer_segment_def)

text \<open>A child's parser called, and what it leaves for the rest of a loop.\<close>

lemma child_called:
  assumes f: "child_yields f" and "wf_json v" and "state_ok st" and q: "prefix path q"
  shows "reports_under path st (snd (f v pos q d st))"
    and "fst (f v pos q d st) = None \<Longrightarrow> bd_problems (snd (f v pos q d st)) \<noteq> []"
    and "fst (f v pos q d st) = Some s \<Longrightarrow> bd_problems (snd (f v pos q d st)) = [] \<Longrightarrow>
      child_post pos d st s (snd (f v pos q d st))"
proof -
  from q obtain z where z: "q = path @ z" by (auto elim: prefixE)
  from child_yieldsD [OF f assms(2), of q pos d st] assms(3)
  have r: "reports_under q st (snd (f v pos q d st))"
    "case fst (f v pos q d st) of None \<Rightarrow> bd_problems (snd (f v pos q d st)) \<noteq> []
      | Some x \<Rightarrow> bd_problems (snd (f v pos q d st)) = [] \<longrightarrow> child_post pos d st x (snd (f v pos q d st))"
    by (simp_all add: yields_def)
  from r(1) show "reports_under path st (snd (f v pos q d st))" unfolding z by (rule reports_shorter)
  from r(2) show "fst (f v pos q d st) = None \<Longrightarrow> bd_problems (snd (f v pos q d st)) \<noteq> []" by simp
  from r(2) show "fst (f v pos q d st) = Some s \<Longrightarrow> bd_problems (snd (f v pos q d st)) = [] \<Longrightarrow>
      child_post pos d st s (snd (f v pos q d st))" by simp
qed

lemma members_yield:
  assumes f: "child_yields f"
  shows "list_all (\<lambda>(_, v). wf_json v) ms \<Longrightarrow> index_map acc \<Longrightarrow> state_ok st \<Longrightarrow>
    case parse_members f path d ms acc st of (ms', st') \<Rightarrow>
      reports_under path st st' \<and> index_map ms'
      \<and> (bd_problems st' = [] \<longrightarrow> gathered ObjectMember d st (map snd acc) (map snd ms') st')"
proof (induction ms arbitrary: acc st)
  case Nil
  then show ?case by auto
next
  case (Cons m ms)
  obtain n v where m: "m = (n, v)" by (cases m)
  let ?q = "push_pointer_segment (path @ ''/members'') n"
  obtain r st1 where r: "f v ObjectMember ?q (d + 1) st = (r, st1)" by fastforce
  have called: "reports_under path st st1" "r = None \<Longrightarrow> bd_problems st1 \<noteq> []"
    "\<And>s. r = Some s \<Longrightarrow> bd_problems st1 = [] \<Longrightarrow> child_post ObjectMember (d + 1) st s st1"
    using child_called [OF f _ Cons(4), where path = path and q = ?q and v = v and pos = ObjectMember and d = "d + 1"] Cons(2)
    unfolding m r by auto
  show ?case
  proof (cases r)
    case None
    have eq: "parse_members f path d (m # ms) acc st = parse_members f path d ms acc st1"
      by (simp only: m parse_members.simps r None prod.case option.case)
    from Cons(1) [where acc = acc and st = st1] Cons(2,3) reports_ok [OF called(1)] called(1,2) None
    show ?thesis unfolding eq by (auto intro: reports_trans dest: reports_clean)
  next
    case (Some s)
    have eq: "parse_members f path d (m # ms) acc st = parse_members f path d ms (index_insert n s acc) st1"
      by (simp only: m parse_members.simps r Some prod.case option.case)
    have "gathered ObjectMember d st (map snd acc) (map snd (index_insert n s acc)) st1" if "bd_problems st1 = []"
      by (rule gathered_one [OF called(3) [OF Some that]]) (use index_inserted [of n s acc] in simp_all)
    moreover from Cons(1) [where acc = "index_insert n s acc" and st = st1] Cons(2,3) reports_ok [OF called(1)]
    have "case parse_members f path d ms (index_insert n s acc) st1 of (ms', st') \<Rightarrow>
      reports_under path st1 st' \<and> index_map ms'
      \<and> (bd_problems st' = [] \<longrightarrow> gathered ObjectMember d st1 (map snd (index_insert n s acc)) (map snd ms') st')"
      by (simp add: index_map_insert)
    ultimately show ?thesis unfolding eq using called(1)
      by clarsimp (metis gathered_trans reports_clean reports_trans)
  qed
qed

lemma entries_yield:
  assumes f: "child_yields f"
  shows "list_all wf_json vs \<Longrightarrow> state_ok st \<Longrightarrow>
    case parse_entry_list f path d i vs acc st of (es, st') \<Rightarrow>
      reports_under path st st' \<and> (bd_problems st' = [] \<longrightarrow> gathered NotASlot d st acc es st')"
proof (induction vs arbitrary: i acc st)
  case Nil
  then show ?case by auto
next
  case (Cons v vs)
  let ?q = "path @ ''/entries/'' @ nat_text i"
  obtain r st1 where r: "f v NotASlot ?q (d + 1) st = (r, st1)" by fastforce
  have called: "reports_under path st st1" "r = None \<Longrightarrow> bd_problems st1 \<noteq> []"
    "\<And>s. r = Some s \<Longrightarrow> bd_problems st1 = [] \<Longrightarrow> child_post NotASlot (d + 1) st s st1"
    using child_called [OF f _ Cons(3), where path = path and q = ?q and v = v and pos = NotASlot and d = "d + 1"] Cons(2)
    unfolding r by auto
  show ?case
  proof (cases r)
    case None
    have eq: "parse_entry_list f path d i (v # vs) acc st = parse_entry_list f path d (i + 1) vs acc st1"
      by (simp only: parse_entry_list.simps r None prod.case option.case)
    from Cons(1) [where st = st1 and i = "i + 1" and acc = acc] Cons(2) reports_ok [OF called(1)] called(1,2) None
    show ?thesis unfolding eq by (auto intro: reports_trans dest: reports_clean)
  next
    case (Some s)
    have eq: "parse_entry_list f path d i (v # vs) acc st = parse_entry_list f path d (i + 1) vs (acc @ [s]) st1"
      by (simp only: parse_entry_list.simps r Some prod.case option.case)
    have "gathered NotASlot d st acc (acc @ [s]) st1" if "bd_problems st1 = []"
      by (rule gathered_one [OF called(3) [OF Some that]]) simp_all
    with Cons(1) [where st = st1 and i = "i + 1" and acc = "acc @ [s]"] Cons(2) reports_ok [OF called(1)] called(1)
    show ?thesis unfolding eq by clarsimp (metis gathered_trans reports_clean reports_trans)
  qed
qed

text \<open>The literal set of one alternative, and the alternatives gathered with theirs.\<close>

lemma no_literal_set:
  assumes "k \<noteq> Core Equality" and "\<nexists>options. k = Core (AnyOf options)"
  shows "(case k of Core Equality \<Rightarrow> a | Core (AnyOf options) \<Rightarrow> b options | _ \<Rightarrow> c) = c"
proof (cases k)
  case (Core x)
  with assms show ?thesis by (cases x) simp_all
qed simp

lemma unwrap_members: "unwrap_object_members node = object_members node"
  by (cases node rule: unwrap_object_members.cases) simp_all

lemma object_members_cases:
  assumes "object_members node = Some ms"
  obtains ex g where "node = ShapeNode ex g (Core (Object ms))"
    | ex g ex' g' where "node = ShapeNode ex g (Core (Nullable (ShapeNode ex' g' (Core (Object ms)))))"
  using assms by (cases node rule: object_members.cases) simp_all

lemma every_shape_member:
  assumes all: "every_shape P node" and "object_members node = Some ms" and "map_of ms disc = Some m"
  shows "every_shape P m"
proof -
  have m: "m \<in> set (map snd ms)" using assms(3) by (force dest: map_of_SomeD)
  from assms(2) show ?thesis
  proof (cases rule: object_members_cases)
    case (1 ex g)
    from all m show ?thesis unfolding 1 by (intro every_shape_child [of P "ShapeNode ex g (Core (Object ms))" m]) auto
  next
    case (2 ex g ex' g')
    from every_shape_child [OF all [unfolded 2], of "ShapeNode ex' g' (Core (Object ms))"]
    have "every_shape P (ShapeNode ex' g' (Core (Object ms)))" by simp
    from every_shape_child [OF this, of m] m show ?thesis by auto
  qed
qed

lemma options_yield:
  assumes parsed: "bd_problems st = [] \<Longrightarrow> every_shape parsed node"
  shows "yields at (\<lambda>options st'. st' = st \<and> binds disc node \<and> options = discriminator_literals node disc) st
    (discriminator_options node disc at n st)"
proof (cases "object_members node")
  case None
  then show ?thesis by (simp add: discriminator_options_def unwrap_members yields_report)
next
  case (Some ms)
  show ?thesis
  proof (cases "map_of ms disc")
    case None
    with Some show ?thesis by (simp add: discriminator_options_def unwrap_members yields_report)
  next
    case m: (Some m)
    obtain ex g k where k: "m = ShapeNode ex g k" by (cases m)
    have opts: "discriminator_options node disc at n st =
      (case k of Core Equality \<Rightarrow> (map_option (\<lambda>e. [ex_value e]) ex, st)
       | Core (AnyOf options) \<Rightarrow> (Some options, st)
       | _ \<Rightarrow> (None, report (push_pointer_segment (at @ ''/members'') disc) (discriminator_message n m) st))"
      by (simp only: discriminator_options_def unwrap_members Some m option.case k shape.sel)
    have lits: "discriminator_literals node disc = literals_of m" using Some m by (simp add: discriminator_literals_def)
    consider "k = Core Equality" | options where "k = Core (AnyOf options)"
      | "k \<noteq> Core Equality" "\<nexists>options. k = Core (AnyOf options)" by blast
    then show ?thesis
    proof cases
      case 1
      then have eq: "discriminator_options node disc at n st = (map_option (\<lambda>e. [ex_value e]) ex, st)"
        by (simp only: opts shape_kind.case core_shape.case)
      show ?thesis
      proof (cases ex)
        case None
        have "bd_problems st \<noteq> []"
        proof
          assume "bd_problems st = []"
          from every_shape_here [OF every_shape_member [OF parsed [OF this] Some m]] show False by (simp add: k 1 None)
        qed
        then show ?thesis unfolding eq None by (auto simp: yields_def)
      next
        case e: (Some e)
        have "binds disc node" using Some m by (auto simp: binds_def k 1 e)
        then show ?thesis unfolding eq e by (auto simp: yields_def lits k 1 e)
      qed
    next
      case 2
      then have eq: "discriminator_options node disc at n st = (Some options, st)"
        by (simp only: opts shape_kind.case core_shape.case)
      have "binds disc node" using Some m by (auto simp: binds_def k 2)
      then show ?thesis unfolding eq by (auto simp: yields_def lits k 2)
    next
      case 3
      then show ?thesis unfolding opts by (simp add: no_literal_set yields_report)
    qed
  qed
qed

definition alternatives_match :: "string \<Rightarrow> shape smap \<Rightarrow> (string \<times> json list) list \<Rightarrow> bool" where
  "alternatives_match disc as sets \<longleftrightarrow>
     btree_map as \<and> set sets = (\<lambda>(n, a). (n, discriminator_literals a disc)) ` set as
     \<and> (\<forall>(n, a) \<in> set as. binds disc a)"

lemma btree_insert_new:
  "n \<notin> fst ` set as \<Longrightarrow> set (btree_insert n a as) = insert (n, a) (set as) \<and> length (btree_insert n a as) = Suc (length as)"
  by (induction n a as rule: btree_insert.induct) auto

lemma alternatives_match_insert:
  "alternatives_match disc as sets \<Longrightarrow> n \<notin> fst ` set as \<Longrightarrow> binds disc a \<Longrightarrow>
   alternatives_match disc (btree_insert n a as) (sets @ [(n, discriminator_literals a disc)])"
  by (auto simp: alternatives_match_def btree_insert_new btree_map_insert)

lemma alternatives_yield:
  assumes f: "child_yields f"
  shows "list_all (\<lambda>(_, v). wf_json v) ms \<Longrightarrow> distinct (map fst ms) \<Longrightarrow> state_ok st \<Longrightarrow>
    (bd_problems st = [] \<Longrightarrow> alternatives_match disc acc sets \<and> fst ` set ms \<inter> fst ` set acc = {}) \<Longrightarrow>
    case parse_alternatives f disc path d ms acc sets st of ((as, sets'), st') \<Rightarrow>
      reports_under path st st'
      \<and> (bd_problems st' = [] \<longrightarrow>
          gathered NotASlot d st (map snd acc) (map snd as) st' \<and> alternatives_match disc as sets'
          \<and> length as = length acc + length ms)"
proof (induction ms arbitrary: acc sets st)
  case Nil
  then show ?case by auto
next
  case (Cons m ms)
  obtain n v where m: "m = (n, v)" by (cases m)
  let ?q = "push_pointer_segment (path @ ''/alternatives'') n"
  obtain r st1 where r: "f v NotASlot ?q (d + 1) st = (r, st1)" by fastforce
  have called: "reports_under path st st1" "r = None \<Longrightarrow> bd_problems st1 \<noteq> []"
    "\<And>s. r = Some s \<Longrightarrow> bd_problems st1 = [] \<Longrightarrow> child_post NotASlot (d + 1) st s st1"
    using child_called [OF f _ Cons(4), where path = path and q = ?q and v = v and pos = NotASlot and d = "d + 1"] Cons(2)
    unfolding m r by auto
  show ?case
  proof (cases r)
    case None
    have eq: "parse_alternatives f disc path d (m # ms) acc sets st = parse_alternatives f disc path d ms acc sets st1"
      by (simp only: m parse_alternatives.simps Let_def r None prod.case option.case)
    from Cons(1) [where acc = acc and sets = sets and st = st1] Cons(2,3) reports_ok [OF called(1)] called(1,2) None
    show ?thesis unfolding eq by (auto intro: reports_trans dest: reports_clean)
  next
    case (Some s)
    obtain found st2 where o: "discriminator_options s disc ?q n st1 = (found, st2)" by fastforce
    let ?sets = "case found of Some options \<Rightarrow> sets @ [(n, options)] | None \<Rightarrow> sets"
    have eq: "parse_alternatives f disc path d (m # ms) acc sets st =
      parse_alternatives f disc path d ms (btree_insert n s acc) ?sets st2"
      by (simp only: m parse_alternatives.simps Let_def r Some o prod.case option.case)
    have "every_shape parsed s" if "bd_problems st1 = []" using called(3) [OF Some that] by (simp add: child_post_def)
    from options_yield [OF this, where st = st1 and at = ?q and disc = disc and n = n] reports_ok [OF called(1)] o
    have o': "reports_under ?q st1 st2" "found = None \<Longrightarrow> bd_problems st2 \<noteq> []"
      "\<And>os. found = Some os \<Longrightarrow> bd_problems st2 = [] \<Longrightarrow> st2 = st1 \<and> binds disc s \<and> os = discriminator_literals s disc"
      by (auto simp: yields_def)
    have here: "reports_under path st st2"
      using called(1) reports_shorter [OF o'(1) [unfolded push_split]] by (rule reports_trans)
    have clean: "alternatives_match disc (btree_insert n s acc) ?sets \<and> fst ` set ms \<inter> fst ` set (btree_insert n s acc) = {}
        \<and> gathered NotASlot d st (map snd acc) (map snd (btree_insert n s acc)) st2 \<and> length (btree_insert n s acc) = Suc (length acc)"
      if "bd_problems st2 = []"
    proof -
      from o'(2) that obtain os where found: "found = Some os" by (cases found) simp_all
      from o'(3) [OF found that] have os: "st2 = st1" "binds disc s" "os = discriminator_literals s disc" by simp_all
      from Cons(5) [OF reports_clean [OF here that]] Cons(3)
      have acc: "alternatives_match disc acc sets" "n \<notin> fst ` set acc" "fst ` set ms \<inter> fst ` set acc = {}" "n \<notin> fst ` set ms"
        by (auto simp: m)
      have "gathered NotASlot d st (map snd acc) (map snd (btree_insert n s acc)) st2"
        unfolding os(1) by (rule gathered_one [OF called(3) [OF Some that [unfolded os(1)]]]) (use btree_inserted [of n s acc] in simp_all)
      with found os acc alternatives_match_insert [OF acc(1,2) os(2)] btree_insert_new [OF acc(2), of s] show ?thesis by auto
    qed
    have "list_all (\<lambda>(_, v). wf_json v) ms" "distinct (map fst ms)" using Cons(2,3) by simp_all
    note IH = Cons(1) [OF this reports_ok [OF here], where acc = "btree_insert n s acc" and sets = ?sets]
    obtain as sets' st' where res: "parse_alternatives f disc path d ms (btree_insert n s acc) ?sets st2 = ((as, sets'), st')"
      by (metis prod.exhaust)
    have "bd_problems st2 = [] \<Longrightarrow>
        alternatives_match disc (btree_insert n s acc) ?sets \<and> fst ` set ms \<inter> fst ` set (btree_insert n s acc) = {}"
      by (drule clean) (elim conjE, intro conjI)
    from IH [OF this] have rest: "reports_under path st2 st'"
      "bd_problems st' = [] \<Longrightarrow> gathered NotASlot d st2 (map snd (btree_insert n s acc)) (map snd as) st'
        \<and> alternatives_match disc as sets' \<and> length as = length (btree_insert n s acc) + length ms"
      unfolding res by simp_all
    have "gathered NotASlot d st (map snd acc) (map snd as) st' \<and> alternatives_match disc as sets'
        \<and> length as = length acc + length (m # ms)" if none: "bd_problems st' = []"
      using clean [OF reports_clean [OF rest(1) none]] rest(2) [OF none] gathered_trans by auto
    with reports_trans [OF here rest(1)] show ?thesis unfolding eq res by simp
  qed
qed

subsection \<open>Literal sets and bounds\<close>

lemma literals_wf: "every_shape parsed a \<Longrightarrow> list_all wf_json (discriminator_literals a disc)"
proof (cases "object_members a")
  case (Some ms)
  assume a: "every_shape parsed a"
  have "list_all wf_json (literals_of m)" if "map_of ms disc = Some m" for m
    using every_shape_here [OF every_shape_member [OF a Some that]] by (cases m rule: literals_of.cases) simp_all
  then show ?thesis by (simp add: discriminator_literals_def Some split: option.split)
qed (simp add: discriminator_literals_def)

lemma overlapping_sym:
  "list_all wf_json xs \<Longrightarrow> list_all wf_json ys \<Longrightarrow> overlapping xs ys \<Longrightarrow> overlapping ys xs"
  unfolding overlapping_def list_ex_iff list_all_iff by (meson value_eq_sym)

lemma overlap_reported:
  "state_ok st \<Longrightarrow> reports_under path st (report_overlap path sets i j st)"
  "bd_problems (report_overlap path sets i j st) = [] \<Longrightarrow>
    bd_problems st = [] \<and> \<not> overlapping (snd (sets ! i)) (snd (sets ! j))"
  by (simp_all add: report_overlap_def reports_refl report_under split: if_splits)

lemma fold_clean:
  assumes "\<And>x st. bd_problems (step x st) = [] \<Longrightarrow> bd_problems st = [] \<and> R x"
  shows "bd_problems (fold step xs st) = [] \<Longrightarrow> bd_problems st = [] \<and> (\<forall>x \<in> set xs. R x)"
proof (induction xs arbitrary: st)
  case (Cons x xs)
  from Cons(2) have "bd_problems (fold step xs (step x st)) = []" by simp
  from Cons(1) [OF this] assms [of x st] show ?case by simp
qed simp

lemma fold_under:
  assumes "\<And>x st. state_ok st \<Longrightarrow> reports_under path st (step x st)"
  shows "state_ok st \<Longrightarrow> reports_under path st (fold step xs st)"
  using fold_reports [of path step "\<lambda>_. True" st xs] assms by blast

lemma overlaps_yield:
  assumes "state_ok st"
  shows "reports_under path st (report_overlaps path sets st)"
    and "bd_problems (report_overlaps path sets st) = [] \<Longrightarrow>
      \<forall>i < length sets. \<forall>j < i. \<not> overlapping (snd (sets ! i)) (snd (sets ! j))"
proof -
  show "reports_under path st (report_overlaps path sets st)"
    unfolding report_overlaps_def by (intro fold_under overlap_reported assms)
  let ?R = "\<lambda>i. \<forall>j \<in> set [0..<i]. \<not> overlapping (snd (sets ! i)) (snd (sets ! j))"
  have "bd_problems (fold (report_overlap path sets i) [0..<i] st) = [] \<Longrightarrow> bd_problems st = [] \<and> ?R i" for i st
    by (rule fold_clean [where R = "\<lambda>j. \<not> overlapping (snd (sets ! i)) (snd (sets ! j))"]) (rule overlap_reported)
  then have "bd_problems (fold (\<lambda>i. fold (report_overlap path sets i) [0..<i]) [1..<length sets] st) = [] \<Longrightarrow>
      bd_problems st = [] \<and> (\<forall>i \<in> set [1..<length sets]. ?R i)"
    by (rule fold_clean [where R = ?R])
  then have "bd_problems (report_overlaps path sets st) = [] \<Longrightarrow> \<forall>i \<in> set [1..<length sets]. ?R i"
    unfolding report_overlaps_def by blast
  then show "bd_problems (report_overlaps path sets st) = [] \<Longrightarrow>
      \<forall>i < length sets. \<forall>j < i. \<not> overlapping (snd (sets ! i)) (snd (sets ! j))" by auto
qed

lemma sets_disjoint:
  assumes match: "alternatives_match disc as sets" and all: "\<forall>a \<in> snd ` set as. every_shape parsed a"
    and disjoint: "\<forall>i < length sets. \<forall>j < i. \<not> overlapping (snd (sets ! i)) (snd (sets ! j))"
    and a: "(n, a) \<in> set as" and b: "(m, b) \<in> set as" and "n \<noteq> m"
  shows "\<not> overlapping (discriminator_literals a disc) (discriminator_literals b disc)"
proof -
  have "(n, discriminator_literals a disc) \<in> set sets" "(m, discriminator_literals b disc) \<in> set sets"
    using match a b by (auto simp: alternatives_match_def)
  then obtain i j where i: "i < length sets" "sets ! i = (n, discriminator_literals a disc)"
    and j: "j < length sets" "sets ! j = (m, discriminator_literals b disc)" by (auto simp: in_set_conv_nth)
  have wf: "list_all wf_json (discriminator_literals a disc)" "list_all wf_json (discriminator_literals b disc)"
    using all a b by (force intro: literals_wf)+
  from i(2) j(2) \<open>n \<noteq> m\<close> have "i \<noteq> j" by auto
  then consider "j < i" | "i < j" by linarith
  then show ?thesis
  proof cases
    case 1
    with disjoint i(1) have "\<not> overlapping (snd (sets ! i)) (snd (sets ! j))" by blast
    then show ?thesis by (simp add: i(2) j(2))
  next
    case 2
    with disjoint j(1) have "\<not> overlapping (snd (sets ! j)) (snd (sets ! i))" by blast
    then show ?thesis using overlapping_sym [OF wf] by (auto simp: i(2) j(2))
  qed
qed

lemma bound_yields:
  assumes "list_all (\<lambda>(_, v). wf_json v) obj" and "pred_option (\<lambda>n. n < 2 ^ 64) dflt"
  shows "yields path (\<lambda>b st'. st' = st \<and> pred_option (\<lambda>n. n < 2 ^ 64) b \<and> (dflt \<noteq> None \<longrightarrow> b \<noteq> None)) st (parse_bound obj m dflt path st)"
proof (cases "map_of obj m")
  case (Some v)
  then have v: "wf_json v" using assms(1) by (auto simp: list_all_iff dest: map_of_SomeD)
  show ?thesis
  proof (cases "value_u64 v")
    case None
    with Some show ?thesis by (auto simp: parse_bound_def)
  next
    case n: (Some n)
    then have "n < 2 ^ 64" using v by (auto simp: value_u64_def split: json.splits elim!: as_u64.elims)
    with Some n show ?thesis by (auto simp: parse_bound_def)
  qed
qed (use assms in \<open>auto simp: parse_bound_def\<close>)

lemma cardinality_yields:
  assumes "list_all (\<lambda>(_, v). wf_json v) obj"
  shows "yields path (\<lambda>(least, most) st'. st' = st \<and> bounds_parsed least most) st (parse_cardinality obj path st)"
  unfolding parse_cardinality_def
proof (rule yields_and_then [OF bound_yields [OF assms, of "Some 1"]], goal_cases)
  case (2 b st1)
  show ?case
  proof (rule yields_and_then [OF bound_yields [OF assms, of None]], goal_cases)
    case (2 most st2)
    have "bounds_parsed (the b) most \<and> st2 = st" if "bd_problems st2 = []" "\<forall>m. most = Some m \<longrightarrow> the b \<le> m"
      using 2(2) [OF that(1)] \<open>bd_problems st1 = [] \<Longrightarrow> _\<close> that by (auto simp: bounds_parsed_def split: option.split)
    then show ?case by (cases most) auto
  qed simp
qed simp

subsection \<open>The operators\<close>

definition core_post :: "example option \<Rightarrow> nat \<Rightarrow> parse_state \<Rightarrow> core_shape \<Rightarrow> parse_state \<Rightarrow> bool" where
  "core_post ex d st c st' \<longleftrightarrow> parsed_core ex c \<and> gathered ObjectMember d st [] (core_children c) st'"

definition wf_members :: "json smap \<Rightarrow> bool" where
  "wf_members obj \<longleftrightarrow> index_map obj \<and> list_all (\<lambda>(_, v). wf_json v) obj"

lemma wf_members_get: "wf_members obj \<Longrightarrow> map_of obj m = Some v \<Longrightarrow> wf_json v"
  by (auto simp: wf_members_def list_all_iff dest: map_of_SomeD)

lemma yields_require_then:
  assumes "\<And>v. map_of obj m = Some v \<Longrightarrow> yields path Q st (k v st)"
  shows "yields path Q st (and_then (require_member obj m operator path st) k)"
  using assms by (cases "map_of obj m") (simp_all add: require_member_def and_then_def yields_report)

lemma gathered_weaken: "gathered NotASlot d st acc cs st' \<Longrightarrow> gathered ObjectMember d st acc cs st'"
  by (auto simp: gathered_def)

lemma gathered_from: "gathered pos d st1 acc cs st' \<Longrightarrow> reports_under path st st1 \<Longrightarrow> gathered pos d st acc cs st'"
  by (auto simp: gathered_def reports_under_def)

lemma gathered_child: "child_post NotASlot (d + 1) st s st' \<Longrightarrow> gathered NotASlot d st [] [s] st'"
  by (rule gathered_one) auto

lemma core_leaf:
  "core_children c = [] \<Longrightarrow> parsed_core ex c \<Longrightarrow> yields path (core_post ex d st) st (Some c, st)"
  by (rule yields_some) (simp add: core_post_def gathered_refl)

lemma core_example:
  "core_children c = [] \<Longrightarrow> parsed_core ex c = (ex \<noteq> None) \<Longrightarrow>
   yields path (core_post ex d st) st (Some c, require_example operator ex path st)"
  by (cases ex) (auto simp: require_example_def yields_report_some core_leaf)

lemma core_string:
  "(\<And>s. core_children (c s) = [] \<and> parsed_core ex (c s)) \<Longrightarrow>
   yields path (core_post ex d st) st (and_then (require_string obj m operator path st) (\<lambda>s st. (Some (c s), st)))"
  by (rule yields_and_then [OF yields_require_string], rule yields_some)
    (simp add: core_post_def reports_nodes gathered_refl)

lemma core_temporal: "yields path (core_post ex d st) st (parse_temporal kind obj path st)"
  unfolding parse_temporal_def
  by (auto split: option.split json.split intro!: core_leaf yields_report_some)

lemma under_yields:
  assumes "child_yields f" and "wf_members obj"
  shows "yields path (child_post NotASlot (d + 1) st) st (parse_under f obj m operator path d st)"
  unfolding parse_under_def
  by (rule yields_require_then, rule yields_shorter, rule child_yieldsD [OF assms(1)], rule wf_members_get [OF assms(2)])

lemma entries_then:
  assumes f: "child_yields f" and obj: "wf_members obj" and c: "\<And>es. core_children (c es) = es"
    "\<And>es. parsed_core ex (c es) \<longleftrightarrow> list_all (\<lambda>e. \<not> admits_absent e) es"
  shows "yields path (core_post ex d st) st
    (and_then (parse_entries f obj operator path d st) (\<lambda>es st. (Some (c es), st)))"
proof (rule yields_and_then [where P = "\<lambda>es st'. gathered NotASlot d st [] es st'"])
  show "yields path (\<lambda>es st'. gathered NotASlot d st [] es st') st (parse_entries f obj operator path d st)"
    unfolding parse_entries_def
  proof (rule yields_require_then)
    fix v assume v: "map_of obj ''entries'' = Some v"
    show "yields path (\<lambda>es st'. gathered NotASlot d st [] es st') st (case v of
         JArray vs \<Rightarrow> (case parse_entry_list f path d 0 vs [] st of (entries, st) \<Rightarrow> (Some entries, st))
       | _ \<Rightarrow> (None, report (path @ ''/entries'') (quote1 ''entries'' @ '' must be an array'') st))"
    proof (cases v)
      case (JArray vs)
      have "list_all wf_json vs" using wf_members_get [OF obj v] by (simp add: JArray)
      from entries_yield [OF f this, where st = st and path = path and d = d and i = 0 and acc = "[]"] show ?thesis
        by (auto simp: JArray yields_def split: prod.split)
    qed (auto intro: yields_report)
  qed
  fix es st1 assume "reports_under path st st1" "bd_problems st1 = [] \<Longrightarrow> gathered NotASlot d st [] es st1"
  then show "yields path (core_post ex d st) st1 (Some (c es), st1)"
    by (auto simp: core_post_def c gathered_def list_all_iff)
qed

lemma core_object:
  assumes f: "child_yields f" and obj: "wf_members obj"
  shows "yields path (core_post ex d st) st (parse_object f obj operator path d st)"
  unfolding parse_object_def
proof (rule yields_require_then)
  fix v assume v: "map_of obj ''members'' = Some v"
  show "yields path (core_post ex d st) st (case v of
         JObject ms \<Rightarrow> (case parse_members f path d ms [] st of (members, st) \<Rightarrow> (Some (Object members), st))
       | _ \<Rightarrow> (None, report (path @ ''/members'') (quote1 ''members'' @ '' must be an object'') st))"
  proof (cases v)
    case (JObject ms)
    have "list_all (\<lambda>(_, v). wf_json v) ms" using wf_members_get [OF obj v] by (simp add: JObject)
    from members_yield [OF f this, where acc = "[]" and st = st and path = path and d = d] show ?thesis
      by (auto simp: JObject yields_def core_post_def index_map_def split: prod.split)
  qed (auto intro: yields_report)
qed

lemma wf_members_all: "wf_members obj \<Longrightarrow> list_all (\<lambda>(_, v). wf_json v) obj"
  by (simp add: wf_members_def)

lemma core_each_like:
  assumes f: "child_yields f" and obj: "wf_members obj"
  shows "yields path (core_post ex d st) st (parse_each_like f obj operator path d st)"
  unfolding parse_each_like_def
proof (rule yields_and_then [OF under_yields [OF f obj]], rule yields_and_then [OF cardinality_yields [OF wf_members_all [OF obj]]], goal_cases)
  case (1 s st1 b st2)
  obtain least most where p: "b = (least, most)" by fastforce
  show ?case
    unfolding p prod.case
  proof (rule yields_some)
    assume none: "bd_problems st2 = []"
    from 1(4) [OF none] have "st2 = st1" "bounds_parsed least most" by (simp_all add: p)
    moreover from this none have s: "child_post NotASlot (d + 1) st s st1" using 1(2) by simp
    ultimately show "core_post ex d st (EachLike s least most) st2"
      using gathered_weaken [OF gathered_child [OF s]] by (simp add: core_post_def child_post_def)
  qed
qed

lemma keys_yield:
  assumes f: "child_yields f" and obj: "wf_members obj" and "state_ok st"
    and "(case map_of obj ''keys'' of None \<Rightarrow> (None, st) | Some v \<Rightarrow> f v NotASlot (path @ ''/keys'') (d + 1) st) = (ks, st')"
  shows "reports_under path st st'"
    and "bd_problems st' = [] \<Longrightarrow> gathered NotASlot d st [] (case ks of None \<Rightarrow> [] | Some k \<Rightarrow> [k]) st'"
proof -
  have "reports_under path st st' \<and> (bd_problems st' = [] \<longrightarrow> gathered NotASlot d st [] (case ks of None \<Rightarrow> [] | Some k \<Rightarrow> [k]) st')"
  proof (cases "map_of obj ''keys''")
    case None
    with assms(3,4) show ?thesis by auto
  next
    case (Some v)
    have q: "prefix path (path @ ''/keys'')" by simp
    note called = child_called [OF f wf_members_get [OF obj Some] assms(3) q, where pos = NotASlot and d = "d + 1"]
    from assms(4) Some have eq: "f v NotASlot (path @ ''/keys'') (d + 1) st = (ks, st')" by simp
    note called' = called [unfolded eq fst_conv snd_conv]
    show ?thesis
    proof (cases ks)
      case None
      with called'(1,2) show ?thesis by simp
    next
      case s: (Some s)
      with called'(1) gathered_child [OF called'(3) [OF s]] show ?thesis by simp
    qed
  qed
  then show "reports_under path st st'"
    and "bd_problems st' = [] \<Longrightarrow> gathered NotASlot d st [] (case ks of None \<Rightarrow> [] | Some k \<Rightarrow> [k]) st'" by blast+
qed

lemma gathered_append:
  "gathered pos d st [] cs st1 \<Longrightarrow> gathered pos d st1 [] cs' st' \<Longrightarrow> gathered pos d st [] (cs' @ cs) st'"
  by (auto simp: gathered_def)

lemma core_each_entry:
  assumes f: "child_yields f" and obj: "wf_members obj"
  shows "yields path (core_post ex d st) st (parse_each_entry f obj operator path d st)"
  unfolding parse_each_entry_def
proof (rule yields_and_then [OF under_yields [OF f obj]], goal_cases)
  case (1 s st1)
  obtain ks st2 where keys: "(case map_of obj ''keys'' of None \<Rightarrow> (None, st1) | Some v \<Rightarrow> f v NotASlot (path @ ''/keys'') (d + 1) st1) = (ks, st2)"
    by (metis prod.exhaust)
  note keys' = keys_yield [OF f obj reports_ok [OF 1(1)] keys]
  show ?case
    unfolding keys prod.case
  proof (rule yields_after [OF _ keys'(1)], rule yields_and_then [OF cardinality_yields [OF wf_members_all [OF obj]]], goal_cases)
    case (1 b st3)
    obtain least most where p: "b = (least, most)" by fastforce
    show ?case
      unfolding p prod.case
    proof (rule yields_some)
      assume none: "bd_problems st3 = []"
      from 1(2) [OF none] have b: "st3 = st2" "bounds_parsed least most" by (simp_all add: p)
      with none have "bd_problems st2 = []" by simp
      note k = keys'(2) [OF this] and s = \<open>bd_problems st1 = [] \<Longrightarrow> _\<close> [OF reports_clean [OF keys'(1) this]]
      have "core_children (EachEntry ks s least most) = (case ks of None \<Rightarrow> [] | Some k \<Rightarrow> [k]) @ [s]" by (simp split: option.split)
      with gathered_weaken [OF gathered_append [OF gathered_child [OF s] k]] b k s
      show "core_post ex d st (EachEntry ks s least most) st3"
        by (auto simp: core_post_def child_post_def gathered_def split: option.splits)
    qed
  qed
qed

lemma core_optional:
  assumes f: "child_yields f" and obj: "wf_members obj"
  shows "yields path (core_post ex d st) st (and_then (parse_under f obj ''of'' operator path d st) (\<lambda>s st. (Some (Optional s), st)))"
proof (rule yields_and_then [OF under_yields [OF f obj]], rule yields_some, goal_cases)
  case (1 s st1)
  then have s: "child_post NotASlot (d + 1) st s st1" by simp
  then show ?case using gathered_weaken [OF gathered_child [OF s]] by (simp add: core_post_def child_post_def)
qed

lemma is_nullable_kind: "is_nullable s \<longleftrightarrow> (\<exists>n. sn_kind s = Core (Nullable n))"
  by (cases s rule: is_nullable.cases) simp_all

lemma nullable_case:
  "(case k of Core (Nullable n) \<Rightarrow> a | _ \<Rightarrow> b) = (if \<exists>n. k = Core (Nullable n) then a else b)"
proof (cases k)
  case (Core c)
  then show ?thesis by (cases c) simp_all
qed simp

lemma core_nullable:
  assumes f: "child_yields f" and obj: "wf_members obj"
  shows "yields path (core_post ex d st) st (parse_nullable f obj operator path d st)"
  unfolding parse_nullable_def
proof (rule yields_and_then [OF under_yields [OF f obj]], goal_cases)
  case (1 s st1)
  show ?case
  proof (cases "is_nullable s")
    case True
    then show ?thesis unfolding nullable_case by (simp add: is_nullable_kind yields_report_some)
  next
    case False
    have "yields path (core_post ex d st) st1 (Some (Nullable s), st1)"
    proof (rule yields_some)
      assume "bd_problems st1 = []"
      note s = 1(2) [OF this]
      from s False gathered_weaken [OF gathered_child [OF s]] show "core_post ex d st (Nullable s) st1"
        by (simp add: core_post_def child_post_def)
    qed
    then show ?thesis using False unfolding nullable_case by (simp add: is_nullable_kind)
  qed
qed

lemma repeated_reported:
  "state_ok st \<Longrightarrow> reports_under path st (report_repeated path options i st)"
  "bd_problems (report_repeated path options i st) = [] \<Longrightarrow> bd_problems st = [] \<and> \<not> repeated_option options i"
  by (simp_all add: report_repeated_def reports_refl report_under split: if_splits)

lemma outside_reported:
  "state_ok st \<Longrightarrow> reports_under path st (report_outside path options ex st)"
  "bd_problems (report_outside path options ex st) = [] \<Longrightarrow>
     bd_problems st = [] \<and> (case ex of Some e \<Rightarrow> list_ex (\<lambda>x. value_eq x (ex_value e)) options | None \<Rightarrow> True)"
  by (simp_all add: report_outside_def reports_refl report_under split: if_splits option.splits)

lemma core_any_of:
  assumes obj: "wf_members obj"
  shows "yields path (core_post ex d st) st (parse_any_of obj ex path st)"
  unfolding parse_any_of_def
proof (rule yields_require_then)
  fix v assume v: "map_of obj ''options'' = Some v"
  show "yields path (core_post ex d st) st (case v of
         JArray options \<Rightarrow>
           if options = []
           then (None, report (path @ ''/options'') (quote1 ''options'' @ '' must be non-empty '' @ spec_ref ''5.3'') st)
           else (Some (AnyOf options),
                 report_outside path options ex (fold (report_repeated path options) [0..<length options] st))
       | _ \<Rightarrow> (None, report (path @ ''/options'') (quote1 ''options'' @ '' must be an array'') st))"
  proof (cases v)
    case (JArray options)
    have wf: "list_all wf_json options" using wf_members_get [OF obj v] by (simp add: JArray)
    let ?st1 = "fold (report_repeated path options) [0..<length options] st"
    let ?st2 = "report_outside path options ex ?st1"
    have "yields path (core_post ex d st) st (Some (AnyOf options), ?st2)" if "options \<noteq> []"
      unfolding yields_def fst_conv snd_conv option.case
    proof (intro impI conjI)
      assume ok: "state_ok st"
      have r1: "reports_under path st ?st1" by (intro fold_under repeated_reported ok)
      with outside_reported(1) [OF reports_ok [OF r1]] show r: "reports_under path st ?st2" by (blast intro: reports_trans)
      assume none: "bd_problems ?st2 = []"
      note o = outside_reported(2) [OF none]
      then have "bd_problems ?st1 = []" by blast
      then have "bd_problems st = [] \<and> (\<forall>i \<in> set [0..<length options]. \<not> repeated_option options i)"
        by (rule fold_clean [rotated]) (rule repeated_reported)
      then have "\<forall>i \<in> set [0..<length options]. \<not> repeated_option options i" by blast
      with o that wf reports_nodes [OF r] show "core_post ex d st (AnyOf options) ?st2"
        by (auto simp: core_post_def)
    qed
    then show ?thesis by (simp add: JArray yields_report)
  qed (auto intro: yields_report)
qed

lemma too_few_reported:
  "state_ok st \<Longrightarrow> reports_under path st (report_too_few path alts st)"
  "bd_problems (report_too_few path alts st) = [] \<Longrightarrow> bd_problems st = [] \<and> 2 \<le> length alts"
  by (simp_all add: report_too_few_def reports_refl report_under split: if_splits)

lemma default_reported:
  assumes "parse_default obj as path st = (dflt, st')" and "state_ok st"
  shows "reports_under path st st'"
    and "bd_problems st' = [] \<Longrightarrow> case dflt of Some n \<Rightarrow> contains_key as n | None \<Rightarrow> True"
  using assms
  by (auto simp: parse_default_def reports_refl report_under split: option.splits json.splits if_splits)

lemma core_one_of:
  assumes f: "child_yields f" and obj: "wf_members obj"
  shows "yields path (core_post ex d st) st (parse_one_of f obj path d st)"
  unfolding parse_one_of_def
proof (rule yields_and_then [OF yields_require_string], rule yields_require_then)
  fix disc st0 v assume st0: "reports_under path st st0" and v: "map_of obj ''alternatives'' = Some v"
  show "yields path (core_post ex d st) st0 (case v of
         JObject alts \<Rightarrow>
           (case parse_alternatives f disc path d alts [] [] (report_too_few path alts st0) of
              ((alternatives, sets), st) \<Rightarrow>
                (case parse_default obj alternatives path (report_overlaps path sets st) of
                   (dflt, st) \<Rightarrow> (Some (OneOf disc alternatives dflt), st)))
       | _ \<Rightarrow> (None, report (path @ ''/alternatives'') (quote1 ''alternatives'' @ '' must be an object'') st0))"
  proof (cases v)
    case (JObject alts)
    have wf: "list_all (\<lambda>(_, v). wf_json v) alts" "distinct (map fst alts)"
      using wf_members_get [OF obj v] by (simp_all add: JObject index_map_def)
    note few = too_few_reported [where st = st0 and path = path and alts = alts]
    obtain as sets st1 where alts: "parse_alternatives f disc path d alts [] [] (report_too_few path alts st0) = ((as, sets), st1)"
      by (metis prod.exhaust)
    obtain dflt st2 where dflt: "parse_default obj as path (report_overlaps path sets st1) = (dflt, st2)" by fastforce
    have "yields path (core_post ex d st) st0 (Some (OneOf disc as dflt), st2)"
      unfolding yields_def fst_conv snd_conv option.case
    proof (intro impI conjI)
      assume ok: "state_ok st0"
      have "alternatives_match disc [] []" by (simp add: alternatives_match_def btree_map_def)
      with alternatives_yield [OF f wf reports_ok [OF few(1) [OF ok]], where disc = disc and acc = "[]" and sets = "[]" and path = path and d = d]
      have a: "reports_under path (report_too_few path alts st0) st1"
        "bd_problems st1 = [] \<Longrightarrow> gathered NotASlot d (report_too_few path alts st0) [] (map snd as) st1
          \<and> alternatives_match disc as sets \<and> length as = length alts"
        unfolding alts by simp_all
      note over = overlaps_yield [OF reports_ok [OF a(1)], of path sets]
      note def = default_reported [OF dflt reports_ok [OF over(1)]]
      have r1: "reports_under path st0 st1" using few(1) [OF ok] a(1) by (rule reports_trans)
      show r2: "reports_under path st0 st2" using r1 over(1) def(1) by (blast intro: reports_trans)
      assume none: "bd_problems st2 = []"
      have none1: "bd_problems (report_overlaps path sets st1) = []" using def(1) none by (rule reports_clean)
      have none2: "bd_problems st1 = []" using over(1) none1 by (rule reports_clean)
      have none3: "bd_problems (report_too_few path alts st0) = []" using a(1) none2 by (rule reports_clean)
      note got = a(2) [OF none2]
      then have g: "gathered NotASlot d (report_too_few path alts st0) [] (map snd as) st1"
        and m: "alternatives_match disc as sets" and l: "length as = length alts" by simp_all
      have each: "\<forall>a \<in> snd ` set as. every_shape parsed a \<and> \<not> admits_absent a" using g by (auto simp: gathered_def)
      have "\<forall>(n, a) \<in> set as. \<forall>(m, b) \<in> set as. n \<noteq> m \<longrightarrow>
           \<not> overlapping (discriminator_literals a disc) (discriminator_literals b disc)"
        using sets_disjoint [OF m _ over(2) [OF none1]] each by blast
      moreover have "list_all (\<lambda>(_, a). \<not> admits_absent a \<and> binds disc a) as"
        using each m by (auto simp: list_all_iff alternatives_match_def)
      ultimately have "parsed_core ex (OneOf disc as dflt)"
        using m def(2) [OF none] too_few_reported(2) [OF none3] l by (simp add: alternatives_match_def)
      moreover have "gathered ObjectMember d st [] (map snd as) st2"
      proof -
        have "bd_nodes st \<le> bd_nodes (report_too_few path alts st0)"
          using reports_nodes [OF st0] by (simp add: report_too_few_def)
        moreover have "bd_nodes st1 \<le> bd_nodes st2" using reports_nodes [OF over(1)] reports_nodes [OF def(1)] by simp
        ultimately show ?thesis using gathered_weaken [OF g] by (auto simp: gathered_def)
      qed
      ultimately show "core_post ex d st (OneOf disc as dflt) st2" by (simp add: core_post_def)
    qed
    then show ?thesis by (simp add: JObject alts dflt)
  qed (auto intro: yields_report)
qed

lemma yields_if: "yields path Q st a \<Longrightarrow> yields path Q st b \<Longrightarrow> yields path Q st (if c then a else b)"
  by simp

lemma core_yields:
  assumes f: "child_yields f" and obj: "wf_members obj"
  shows "yields path (core_post ex d st) st (parse_core f operator obj ex path d st)"
  unfolding parse_core_def
  by (intro yields_if core_leaf core_example core_string core_temporal core_object core_each_like core_each_entry
      core_optional core_nullable core_any_of core_one_of entries_then f obj conjI) simp_all

subsection \<open>The node\<close>

lemma example_read:
  assumes "parse_example obj path st = (ex, st')" and "state_ok st" and "wf_members obj"
  shows "reports_under path st st'"
    and "bd_problems st' = [] \<Longrightarrow> case ex of Some e \<Rightarrow> wf_json (ex_value e) | None \<Rightarrow> True"
  using assms
  by (auto simp: parse_example_def reports_refl report_under split: option.splits json.splits dest: wf_members_get)

definition node_post :: "nat \<Rightarrow> parse_state \<Rightarrow> shape \<Rightarrow> parse_state \<Rightarrow> bool" where
  "node_post d st s st' \<longleftrightarrow>
     every_shape parsed s \<and> bd_nodes st + nodes_of (shape_children s) \<le> bd_nodes st' \<and> d + shape_height s \<le> max_depth"

lemma node_post_core:
  assumes "core_post ex d st c st'" and "case ex of Some e \<Rightarrow> wf_json (ex_value e) | None \<Rightarrow> True" and "d \<le> max_depth"
  shows "node_post d st (ShapeNode ex g (Core c)) st'"
proof -
  have "shape_height (ShapeNode ex g (Core c)) \<le> max_depth - d"
    unfolding height_le using assms(1,3) by (auto simp: core_post_def gathered_def)
  then show ?thesis
    using assms by (auto simp: node_post_def core_post_def gathered_def every_shape.simps [of parsed "ShapeNode ex g (Core c)"] list_all_iff)
qed

lemma wf_members_filter: "wf_members obj \<Longrightarrow> wf_members (filter p obj)"
  by (auto simp: wf_members_def index_map_def distinct_map_filter list_all_iff)

lemma operator_yields:
  assumes f: "child_yields f" and obj: "wf_members obj" and d: "d \<le> max_depth"
    and ex: "bd_problems st = [] \<Longrightarrow> case ex of Some e \<Rightarrow> wf_json (ex_value e) | None \<Rightarrow> True"
  shows "yields path (node_post d st) st (parse_operator f operator obj ex path d st)"
proof (cases "split_once (CHR '':'') operator")
  case None
  have "yields path (node_post d st) st (and_then (parse_core f operator obj ex path d st)
      (\<lambda>core st. (Some (ShapeNode ex (map_of obj ''generator'') (Core core)), st)))"
  proof (rule yields_and_then [OF core_yields [OF f obj]], rule yields_some, goal_cases)
    case (1 c st1)
    then show ?case by (blast intro: node_post_core ex reports_clean d)
  qed
  then show ?thesis by (simp add: parse_operator_def None yields_report)
next
  case (Some p)
  obtain component name where p: "p = (component, name)" by fastforce
  let ?raw = "filter (\<lambda>(key, _). key \<notin> {''shape'', ''example'', ''encoded'', ''generator''}) obj"
  have "node_post d st (ShapeNode ex g (Component operator ?raw)) st"
    if "bd_problems st = []" "component \<notin> set reserved_namespaces" for g
  proof -
    have "shape_height (ShapeNode ex g (Component operator ?raw)) \<le> 0" unfolding height_le by simp
    moreover have "is_component_action operator" using that(2) Some p by (simp add: is_component_action_def)
    moreover have "wf_members ?raw" using obj by (rule wf_members_filter)
    ultimately show ?thesis
      using d ex [OF that(1)] by (simp add: node_post_def every_shape.simps wf_members_def)
  qed
  then show ?thesis by (auto simp: parse_operator_def Some p yields_report intro!: yields_if yields_some)
qed

lemma node_yields:
  assumes f: "child_yields f" and v: "wf_json v" and d: "d \<le> max_depth"
  shows "yields path (node_post d st) st (parse_node f v path d st)"
proof (cases v)
  case (JObject obj)
  have obj: "wf_members obj" using v by (simp add: JObject wf_members_def)
  show ?thesis
  proof (cases "map_of obj ''shape''")
    case (Some w)
    show ?thesis
    proof (cases w)
      case (JString operator)
      obtain ex st1 where ex: "parse_example obj path st = (ex, st1)" by fastforce
      have eq: "parse_node f v path d st = parse_operator f operator obj ex path d st1"
        by (simp only: parse_node_def JObject Some JString ex json.case option.case prod.case)
      show ?thesis
      proof (cases "state_ok st")
        case True
        note read = example_read [OF ex True obj]
        have "yields path (node_post d st) st1 (parse_operator f operator obj ex path d st1)"
        proof (rule yields_mono [OF operator_yields [OF f obj d read(2)]])
          fix s st2 assume "node_post d st1 s st2"
          with reports_nodes [OF read(1)] show "node_post d st s st2" by (simp add: node_post_def)
        qed
        from yields_after [OF this read(1)] show ?thesis unfolding eq .
      qed (simp add: yields_def)
    qed (auto simp: JObject Some parse_node_def intro: yields_report)
  qed (auto simp: JObject parse_node_def intro: yields_report)
qed (auto simp: parse_node_def intro: yields_report)

lemma step_yields:
  assumes f: "child_yields f" and v: "wf_json v"
  shows "yields path (child_post pos d st) st (child_step f v pos path d st)"
proof (cases "state_ok st")
  case ok: True
  let ?st1 = "st\<lparr>bd_nodes := bd_nodes st + 1\<rparr>"
  show ?thesis
  proof (cases "bd_limited st")
    case True
    with ok have "bd_problems st \<noteq> []" by (simp add: state_ok_def)
    with True ok show ?thesis by (auto simp: child_step_def budget_enter_def yields_def)
  next
    case False
    show ?thesis
    proof (cases "max_depth < d \<or> max_nodes < bd_nodes st + 1")
      case True
      then have "child_step f v pos path d st = (None, report path limit_message (?st1\<lparr>bd_limited := True\<rparr>))"
        using False by (auto simp: child_step_def budget_enter_def)
      moreover have "reports_under path st (report path limit_message (?st1\<lparr>bd_limited := True\<rparr>))"
        by (auto simp: reports_under_def state_ok_def)
      ultimately show ?thesis by (simp add: yields_def)
    next
      case within: False
      have eq: "child_step f v pos path d st = and_then (parse_node f v path d ?st1) (\<lambda>node st.
          (Some node, if pos = NotASlot \<and> admits_absent node then report path (absence_message node) st else st))"
        using False within by (simp add: child_step_def budget_enter_def)
      have r: "reports_under path st ?st1" using False within ok by (auto simp: reports_under_def state_ok_def)
      have d: "d \<le> max_depth" using within by simp
      show ?thesis unfolding eq
      proof (rule yields_after [OF _ r], rule yields_and_then [OF node_yields [OF f v d]], goal_cases)
        case (1 s st2)
        show ?case
        proof (cases "pos = NotASlot \<and> admits_absent s")
          case True
          then show ?thesis by (simp add: yields_report_some)
        next
          case False
          have "child_post pos d st s st2" if "bd_problems st2 = []"
            using 1(2) [OF that] False by (auto simp: node_post_def child_post_def shape_nodes.simps [of s] nodes_of_def)
          with False show ?thesis by (auto intro: yields_some)
        qed
      qed
    qed
  qed
qed (simp add: yields_def)

subsection \<open>The parser\<close>

lemma child_parsed: "wf_json v \<Longrightarrow> yields path (child_post pos d st) st (parse_child v pos path d st)"
proof (induction v arbitrary: pos path d st rule: measure_induct_rule [where f = size])
  case (less v)
  define g where "g v' pos' path' d' st' =
    (if size v' < size v then parse_child v' pos' path' d' st' else (None, report path' [] st'))" for v' pos' path' d' st'
  have "child_yields g"
    unfolding child_yields_def g_def by (auto intro: less.IH yields_report)
  from step_yields [OF this less.prems]
  have "yields path (child_post pos d st) st (child_step g v pos path d st)" .
  also have "child_step g v pos path d st = parse_child v pos path d st"
    by (subst parse_child.simps, rule child_step_cong) (simp add: g_def)
  finally show ?case .
qed

lemma parse_outcome:
  assumes "wf_json v"
  shows "case shape_parse v path of
      Inl ps \<Rightarrow> ps \<noteq> [] \<and> (\<forall>p \<in> set ps. prefix path (pr_pointer p))
    | Inr s \<Rightarrow> every_shape parsed s \<and> \<not> admits_absent s \<and> shape_nodes s \<le> max_nodes \<and> shape_height s \<le> max_depth"
proof -
  obtain r st where r: "parse_child v NotASlot path 0 parse_start = (r, st)" by fastforce
  have "state_ok parse_start" by (simp add: state_ok_def parse_start_def)
  with child_parsed [OF assms, of path NotASlot 0 parse_start] have
    under: "reports_under path parse_start st" and none: "r = None \<Longrightarrow> bd_problems st \<noteq> []"
    and some: "\<And>s. r = Some s \<Longrightarrow> bd_problems st = [] \<Longrightarrow> child_post NotASlot 0 parse_start s st"
    by (auto simp: yields_def r)
  have nodes: "bd_nodes st \<le> max_nodes" if "bd_problems st = []"
    using reports_ok [OF under] that by (auto simp: state_ok_def)
  have located: "\<forall>p \<in> set (bd_problems st). prefix path (pr_pointer p)"
    using under by (auto simp: reports_under_def parse_start_def)
  have parsed: "shape_parse v path =
      (case r of Some node \<Rightarrow> if bd_problems st = [] then Inr node else Inl (bd_problems st) | None \<Rightarrow> Inl (bd_problems st))"
    by (simp only: shape_parse_def r prod.case)
  show ?thesis
  proof (cases r)
    case None
    with none located show ?thesis by (simp add: parsed)
  next
    case (Some s)
    show ?thesis
    proof (cases "bd_problems st = []")
      case True
      from some [OF Some True] nodes [OF True] True show ?thesis
        by (simp add: parsed Some child_post_def parse_start_def)
    next
      case False
      with located show ?thesis by (simp add: parsed Some)
    qed
  qed
qed

end
