(* ===== verification/Interaction_Parse.thy ===== *)
theory Interaction_Parse
  imports Shape_Parse Plan_Compile
begin

text \<open>
  The interaction specification, engine/kernel/src/interaction_spec and common.rs: the document a test
  submits, its parts' shapes parsed and every violation collected. The members \<open>serde\<close>'s derived
  deserializers read (the transport, the states, the requirements, the content types) go through the
  record \<open>field_readers\<close>: a value, or the path to the member that could not be read and its message.
\<close>

record transport =
  tr_kind :: string
  tr_mode :: "string option"

record provider_state =
  ps_name :: string
  ps_params :: "json smap option"
  ps_variant_params :: "json list option"

record requirement =
  rq_component :: string
  rq_min_version :: "nat option"

type_synonym content_types = "string smap smap"

definition declared_type :: "content_types option \<Rightarrow> string \<Rightarrow> string \<Rightarrow> string option" where
  "declared_type content_types part slot =
     Option.bind content_types (\<lambda>types. Option.bind (map_of types part) (\<lambda>slots. map_of slots slot))"

record interaction_spec = interaction +
  is_transport :: "transport option"
  is_states :: "provider_state list option"
  is_content_types :: "content_types option"
  is_requires :: "requirement list option"

type_synonym 'a reader = "json \<Rightarrow> (document_segment list \<times> string) + 'a"

record field_readers =
  fr_transport :: "transport reader"
  fr_states :: "provider_state list reader"
  fr_requires :: "requirement list reader"
  fr_content_types :: "content_types reader"

definition parse_description :: "json smap \<Rightarrow> problem list \<Rightarrow> string option \<times> problem list" where
  "parse_description obj problems =
     (case map_of obj ''description'' of
        None \<Rightarrow>
          (None, problems @ [\<lparr>pr_pointer = ''/description'', pr_message = quote1 ''description'' @ '' is required''\<rparr>])
      | Some (JString description) \<Rightarrow>
          if description \<noteq> [] then (Some description, problems)
          else (None, problems @ [\<lparr>pr_pointer = ''/description'', pr_message = quote1 ''description'' @ '' must not be empty''\<rparr>])
      | Some _ \<Rightarrow>
          (None, problems @ [\<lparr>pr_pointer = ''/description'', pr_message = quote1 ''description'' @ '' must be a string''\<rparr>]))"

definition parse_field :: "'a reader \<Rightarrow> json smap \<Rightarrow> string \<Rightarrow> problem list \<Rightarrow> 'a option \<times> problem list" where
  "parse_field read obj field problems =
     (case map_of obj field of
        None \<Rightarrow> (None, problems)
      | Some v \<Rightarrow>
          (case read v of
             Inr parsed \<Rightarrow> (Some parsed, problems)
           | Inl (path, message) \<Rightarrow>
               (None, problems @
                  [\<lparr>pr_pointer = push_pointer_segment [] field @ json_pointer path, pr_message = message\<rparr>])))"

definition content_type_problem :: "shape smap smap \<Rightarrow> string \<Rightarrow> string \<Rightarrow> string \<Rightarrow> problem list" where
  "content_type_problem parts part slot media_type =
     (let pointer = push_pointer_segment (push_pointer_segment ''/content-types'' part) slot in
      if \<not> (case map_of parts part of Some slots \<Rightarrow> contains_key slots slot | None \<Rightarrow> False)
      then [\<lparr>pr_pointer = pointer,
             pr_message = ''declares a content type for '' @ quote1 (part @ ''.'' @ slot) @ '', which ''
               @ quote1 ''parts'' @ '' gives no shape''\<rparr>]
      else if trim media_type = []
      then [\<lparr>pr_pointer = pointer, pr_message = ''a declared content type must not be empty''\<rparr>]
      else [])"

definition check_content_types :: "content_types \<Rightarrow> shape smap smap \<Rightarrow> problem list \<Rightarrow> problem list" where
  "check_content_types types parts problems =
     problems @ concat (map (\<lambda>(part, slots).
       concat (map (\<lambda>(slot, media_type). content_type_problem parts part slot media_type) slots)) types)"

fun parse_slots :: "string \<Rightarrow> json smap \<Rightarrow> shape smap \<Rightarrow> problem list \<Rightarrow> shape smap \<times> problem list" where
  "parse_slots part_path [] slots problems = (slots, problems)"
| "parse_slots part_path ((name, v) # rest) slots problems =
     (case shape_parse v (push_pointer_segment part_path name) of
        Inr node \<Rightarrow> parse_slots part_path rest (btree_insert name node slots) problems
      | Inl found \<Rightarrow> parse_slots part_path rest slots (problems @ found))"

fun parse_part_list :: "json smap \<Rightarrow> shape smap smap \<Rightarrow> problem list \<Rightarrow> shape smap smap \<times> problem list" where
  "parse_part_list [] parts problems = (parts, problems)"
| "parse_part_list ((name, v) # rest) parts problems =
     (let part_path = push_pointer_segment ''/parts'' name in
      case v of
        JObject slots \<Rightarrow>
          (case parse_slots part_path slots [] problems of
             (slots, problems) \<Rightarrow> parse_part_list rest (btree_insert name slots parts) problems)
      | _ \<Rightarrow>
          parse_part_list rest parts (problems @
            [\<lparr>pr_pointer = part_path, pr_message = ''part '' @ quote1 name @ '' must be an object of slot name -> shape''\<rparr>]))"

definition parse_parts :: "json smap \<Rightarrow> problem list \<Rightarrow> shape smap smap option \<times> problem list" where
  "parse_parts obj problems =
     (case map_of obj ''parts'' of
        None \<Rightarrow> (None, problems @ [\<lparr>pr_pointer = ''/parts'', pr_message = quote1 ''parts'' @ '' is required''\<rparr>])
      | Some (JObject parts) \<Rightarrow>
          (case parse_part_list parts [] problems of (parts, problems) \<Rightarrow> (Some parts, problems))
      | Some _ \<Rightarrow>
          (None, problems @ [\<lparr>pr_pointer = ''/parts'', pr_message = quote1 ''parts'' @ '' must be an object''\<rparr>]))"

definition interaction_parse :: "field_readers \<Rightarrow> json \<Rightarrow> problem list + interaction_spec" where
  "interaction_parse R v =
     (case v of
        JObject obj \<Rightarrow>
          (case parse_description obj [] of (description, problems) \<Rightarrow>
           case parse_field (fr_transport R) obj ''transport'' problems of (transport, problems) \<Rightarrow>
           case parse_field (fr_states R) obj ''states'' problems of (states, problems) \<Rightarrow>
           case parse_field (fr_requires R) obj ''requires'' problems of (requires, problems) \<Rightarrow>
           case parse_parts obj problems of (parts, problems) \<Rightarrow>
           case parse_field (fr_content_types R) obj ''content-types'' problems of (types, problems) \<Rightarrow>
           let problems = (case (types, parts) of
                 (Some types, Some parts) \<Rightarrow> check_content_types types parts problems
               | _ \<Rightarrow> problems)
           in case (description, parts) of
                (Some description, Some parts) \<Rightarrow>
                  if problems = []
                  then Inr \<lparr>in_description = description, in_parts = parts, is_transport = transport, is_states = states,
                    is_content_types = types, is_requires = requires\<rparr>
                  else Inl problems
              | _ \<Rightarrow> Inl problems)
      | _ \<Rightarrow> Inl [\<lparr>pr_pointer = [], pr_message = ''an interaction specification must be an object''\<rparr>])"

definition interaction_error_code :: string where
  "interaction_error_code = ''interaction-invalid''"

end
