(* ===== verification/Parse_Theorems.thy ===== *)
theory Parse_Theorems
  imports Parse_Laws Interaction_Parse Plan_Theorems Sub_Theorems
begin

text \<open>
  What the shape parser promises the rest of the kernel: the trees it accepts are the ones the compiler
  and the checker assume, and what it refuses it locates.
\<close>

subsection \<open>One shape\<close>

definition well_formed_shape :: "shape \<Rightarrow> bool" where
  "well_formed_shape s \<longleftrightarrow>
     every_shape parsed s \<and> \<not> admits_absent s \<and> shape_nodes s \<le> max_nodes \<and> shape_height s \<le> max_depth"

lemma parse_well_formed:
  assumes "wf_json v" and "shape_parse v path = Inr s"
  shows "well_formed_shape s"
  using parse_outcome [OF assms(1), of path] by (simp add: assms(2) well_formed_shape_def)

text \<open>C37: a shape the parser accepts is well-formed, at every node. An \<open>equality\<close> and a \<open>type\<close> have an
  example; absence is admitted only by an object's members; a \<open>nullable\<close> wraps no \<open>nullable\<close>; the options
  of an \<open>any-of\<close> are not empty, pairwise distinct, and have the example among them; a \<open>one-of\<close> has two
  alternatives or more, each an object that binds the discriminator to a literal set, the sets disjoint
  under the language's equality, the default one of them; the bounds of a list are ordered and fit \<open>u64\<close>.
  The tree has at most 20000 nodes and is at most 64 deep.\<close>

theorem shape_parse_well_formed:
  assumes "wf_json v" and "shape_parse v path = Inr s"
  shows "every_shape parsed s \<and> \<not> admits_absent s \<and> shape_nodes s \<le> 20000 \<and> shape_height s \<le> 64"
  using parse_outcome [OF assms(1), of path] by (simp add: assms(2) max_nodes_def max_depth_def)

definition list_document :: json where
  "list_document = JObject [(''shape'', JString ''each-like''), (''items'', JObject [(''shape'', JString ''integer'')]),
     (''max'', JNumber (PosInt 3))]"

lemma list_document_parsed:
  "shape_parse list_document path =
     Inr (ShapeNode None None (Core (EachLike (ShapeNode None None (Core (Kind VK_Integer))) 1 (Some 3))))"
proof -
  have plain: "split_once (CHR '':'') ''each-like'' = None" "split_once (CHR '':'') ''integer'' = None"
    "''each-like'' \<in> set core_operators" "''integer'' \<in> set core_operators" by (code_simp)+
  show ?thesis
    by (simp add: shape_parse_def parse_child.simps child_step_def budget_enter_def parse_start_def max_depth_def max_nodes_def
        list_document_def parse_node_def parse_example_def parse_operator_def plain parse_core_def parse_each_like_def
        parse_under_def require_member_def and_then_def parse_cardinality_def parse_bound_def value_u64_def)
qed

theorem shape_parse_well_formed_witness:
  "every_shape parsed (ShapeNode None None (Core (EachLike (ShapeNode None None (Core (Kind VK_Integer))) 1 (Some 3))))"
  using shape_parse_well_formed [OF _ list_document_parsed] by (simp add: list_document_def index_map_def)

text \<open>C38: what the parser refuses it explains, and says where. A refused document has at least one problem,
  and every problem's pointer lies under the path the document was parsed at, so the problems of one slot
  never point into another.\<close>

theorem shape_parse_problems_located:
  assumes "wf_json v" and "shape_parse v path = Inl ps"
  shows "ps \<noteq> [] \<and> (\<forall>p \<in> set ps. prefix path (pr_pointer p))"
  using parse_outcome [OF assms(1), of path] by (simp add: assms(2))

lemma null_refused: "shape_parse JNull ''/parts'' = Inl [\<lparr>pr_pointer = ''/parts'', pr_message = ''a shape node must be a JSON object''\<rparr>]"
  by (simp add: shape_parse_def parse_child.simps child_step_def budget_enter_def parse_start_def max_depth_def max_nodes_def
      parse_node_def and_then_def report_def)

theorem shape_parse_problems_located_witness:
  "prefix ''/parts'' (pr_pointer \<lparr>pr_pointer = ''/parts'', pr_message = ''a shape node must be a JSON object''\<rparr>)"
  using shape_parse_problems_located [OF _ null_refused] by simp

subsection \<open>What the checker and the compiler assume\<close>

lemma every_shape_mono:
  assumes "every_shape P s" and "\<And>s. P s \<Longrightarrow> Q s"
  shows "every_shape Q s"
  using assms(1)
proof (induction s rule: shape_tree_induct)
  case (node s)
  with assms(2) show ?case by (simp add: every_shape.simps [of Q s] every_shape.simps [of P s] list_all_iff)
qed

lemma parsed_comparable: "parsed s \<Longrightarrow> self_comparable s"
proof (cases s rule: self_comparable.cases)
  case (2 ex g c)
  then show "parsed s \<Longrightarrow> self_comparable s" by (cases c) (simp_all split: option.splits)
qed simp

lemma parsed_reflexive:
  assumes "wf_json v" and "shape_parse v path = Inr s"
  shows "compare_shapes L s s at = (Yes, [])"
proof -
  have "every_shape self_comparable s"
    using parse_well_formed [OF assms] by (auto simp: well_formed_shape_def intro: every_shape_mono parsed_comparable)
  from same_admits_refl [OF this] show ?thesis
    by (simp add: compare_shapes_def Let_def walk_node.simps value_node_def floor_stands_def caveats_under_def)
qed

text \<open>What the compiled chain of a \<open>one-of\<close> needs beyond what is parsed: no alternative is \<open>nullable\<close>, and no
  discriminator literal is encoded.\<close>

definition plain_alternative :: "string \<Rightarrow> shape \<Rightarrow> bool" where
  "plain_alternative disc a \<longleftrightarrow>
     \<not> is_nullable a
     \<and> (\<forall>ms m. object_members a = Some ms \<longrightarrow> map_of ms disc = Some m \<longrightarrow>
          (case sn_example m of Some e \<Rightarrow> ex_encoded e = None | None \<Rightarrow> True))"

fun plain_union :: "shape \<Rightarrow> bool" where
  "plain_union (ShapeNode _ _ (Core (OneOf disc as _))) = list_all (\<lambda>(_, a). plain_alternative disc a) as"
| "plain_union _ = True"

lemma parsed_alternative:
  assumes "every_shape parsed a" and "binds disc a" and "plain_alternative disc a"
  shows "alternative_ok disc a"
proof -
  from assms(2) obtain ms m where ms: "object_members a = Some ms" "map_of ms disc = Some m"
    and m: "(\<exists>ex g. m = ShapeNode (Some ex) g (Core Equality)) \<or> (\<exists>ex g options. m = ShapeNode ex g (Core (AnyOf options)))"
    by (auto simp: binds_def)
  have here: "parsed m" using every_shape_here [OF every_shape_member [OF assms(1) ms]] .
  have lit: "literal_member m"
    using m here assms(3) ms by (auto simp: plain_alternative_def)
  from ms(1) show ?thesis
  proof (cases rule: object_members_cases)
    case (1 ex g)
    with every_shape_here [OF assms(1)] ms(2) lit show ?thesis by simp
  next
    case (2 ex g ex' g')
    with assms(3) show ?thesis by (simp add: plain_alternative_def)
  qed
qed

lemma disjoint_by_name:
  assumes "distinct (map fst as)"
    and "\<forall>(n, a) \<in> set as. \<forall>(m, b) \<in> set as. n \<noteq> m \<longrightarrow> \<not> overlapping (f a) (f b)"
  shows "disjoint_literals (map (\<lambda>(n, a). f a) as)"
  using assms
proof (induction as)
  case (Cons x as)
  obtain n a where x: "x = (n, a)" by (cases x)
  have "\<not> overlapping (f a) (f b)" if "(m, b) \<in> set as" for m b
  proof -
    have "n \<noteq> m" using Cons(2) that by (force simp: x)
    with Cons(3) that show ?thesis by (force simp: x)
  qed
  then have "list_all (\<lambda>l. list_all (\<lambda>ms. list_all (\<lambda>m. \<not> value_eq l m) ms) (map (\<lambda>(n, a). f a) as)) (f a)"
    by (fastforce simp: overlapping_def list_all_iff list_ex_iff)
  moreover have "disjoint_literals (map (\<lambda>(n, a). f a) as)"
  proof (rule Cons(1))
    show "distinct (map fst as)" using Cons(2) by simp
    show "\<forall>(n, a) \<in> set as. \<forall>(m, b) \<in> set as. n \<noteq> m \<longrightarrow> \<not> overlapping (f a) (f b)"
      using Cons(3) by (fastforce simp: x)
  qed
  ultimately show ?case by (simp add: x)
qed simp

lemma nodes_length: "length (shape_children s) < shape_nodes s"
proof -
  have "length xs \<le> sum_list (map shape_nodes xs)" for xs
    by (induction xs) (auto simp: shape_nodes.simps)
  from this [of "shape_children s"] show ?thesis by (simp add: shape_nodes.simps [of s])
qed

lemma nodes_child: "c \<in> set (shape_children s) \<Longrightarrow> shape_nodes c < shape_nodes s"
  using member_le_sum_list [of "shape_nodes c" "map shape_nodes (shape_children s)"] by (simp add: shape_nodes.simps [of s])

lemma parsed_plan_ok:
  assumes "every_shape parsed s" and "every_shape plain_union s" and "shape_nodes s \<le> 2 ^ 64"
  shows "every_shape plan_ok s"
  using assms
proof (induction s rule: shape_tree_induct)
  case (node s)
  have "every_shape plan_ok c" if "c \<in> set (shape_children s)" for c
    using node(1) [OF that every_shape_child [OF node(2) that] every_shape_child [OF node(3) that]] nodes_child [OF that] node(4)
    by simp
  moreover have "plan_ok s"
    using every_shape_here [OF node(2)] every_shape_here [OF node(3)]
  proof (cases s rule: plan_ok.cases)
    case (2 ex g es)
    with nodes_length [of s] node(4) show ?thesis by simp
  next
    case (3 ex g disc as dflt)
    have p: "parsed_core ex (OneOf disc as dflt)" using every_shape_here [OF node(2)] by (simp add: 3)
    have all: "every_shape parsed a" if "(n, a) \<in> set as" for n a
      using every_shape_child [OF node(2), of a] that by (force simp: 3)
    have "list_all (\<lambda>(_, a). alternative_ok disc a) as"
      using p every_shape_here [OF node(3)] all by (auto simp: 3 list_all_iff intro!: parsed_alternative)
    moreover have "index_map as" using p by (simp add: btree_map_index_map)
    ultimately show ?thesis using p disjoint_by_name [of as "\<lambda>a. discriminator_literals a disc"]
      by (simp add: 3 index_map_def)
  qed simp_all
  ultimately show ?case by (simp add: every_shape.simps [of plan_ok s] list_all_iff)
qed

subsection \<open>An interaction\<close>

text \<open>Slots of a part that were each parsed from a document at the slot's own position.\<close>

definition parsed_slots :: "string \<Rightarrow> shape smap \<Rightarrow> bool" where
  "parsed_slots part_path slots \<longleftrightarrow>
     btree_map slots
     \<and> (\<forall>(slot, s) \<in> set slots. \<exists>v. wf_json v \<and> shape_parse v (push_pointer_segment part_path slot) = Inr s)"

lemma parsed_slots_insert:
  assumes "parsed_slots q slots" and "wf_json v" and "shape_parse v (push_pointer_segment q name) = Inr s"
  shows "parsed_slots q (btree_insert name s slots)"
  using assms set_btree_insert [of name s slots]
  by (force simp: parsed_slots_def btree_map_insert)

lemma slots_clean: "snd (parse_slots q vs slots problems) = [] \<Longrightarrow> problems = []"
  by (induction q vs slots problems rule: parse_slots.induct) (auto split: sum.splits)

lemma slots_parsed:
  "parse_slots q vs slots problems = (slots', []) \<Longrightarrow> list_all (\<lambda>(_, v). wf_json v) vs \<Longrightarrow> parsed_slots q slots \<Longrightarrow>
   parsed_slots q slots'"
proof (induction q vs slots problems rule: parse_slots.induct)
  case (2 q name v vs slots problems)
  show ?case
  proof (cases "shape_parse v (push_pointer_segment q name)")
    case (Inl ps)
    with 2(3) slots_clean [of q vs slots "problems @ ps"] have "ps = []" by simp
    moreover have "ps \<noteq> []" using parse_outcome [of v "push_pointer_segment q name"] 2(4) by (simp add: Inl)
    ultimately show ?thesis by simp
  next
    case (Inr s)
    have "parsed_slots q (btree_insert name s slots)" using parsed_slots_insert [OF 2(5) _ Inr] 2(4) by simp
    with 2(2) [OF Inr] 2(3,4) show ?thesis by (simp add: Inr)
  qed
qed simp

definition parsed_parts :: "shape smap smap \<Rightarrow> bool" where
  "parsed_parts parts \<longleftrightarrow>
     btree_map parts \<and> (\<forall>(part, slots) \<in> set parts. parsed_slots (push_pointer_segment ''/parts'' part) slots)"

lemma part_cases:
  obtains slots where "v = JObject slots"
  | p where "\<And>rest parts problems.
      parse_part_list ((name, v) # rest) parts problems = parse_part_list rest parts (problems @ [p])"
  by (cases v) (auto simp: Let_def)

lemma parts_clean: "snd (parse_part_list vs parts problems) = [] \<Longrightarrow> problems = []"
proof (induction vs arbitrary: parts problems)
  case (Cons x vs)
  obtain name v where x: "x = (name, v)" by (cases x)
  show ?case
  proof (rule part_cases [where v = v and name = name])
    fix slots assume 1: "v = JObject slots"
    obtain slots' problems' where s: "parse_slots (push_pointer_segment ''/parts'' name) slots [] problems = (slots', problems')"
      by fastforce
    with Cons(1) [of "btree_insert name slots' parts" problems'] Cons(2) have "problems' = []" by (simp add: x 1)
    with slots_clean s show ?thesis by (metis snd_conv)
  next
    fix p assume 2: "\<And>rest parts problems.
      parse_part_list ((name, v) # rest) parts problems = parse_part_list rest parts (problems @ [p])"
    with Cons(1) [of parts "problems @ [p]"] Cons(2) show ?thesis by (simp add: x)
  qed
qed simp

lemma parts_parsed:
  "parse_part_list vs parts problems = (parts', []) \<Longrightarrow> list_all (\<lambda>(_, v). wf_json v) vs \<Longrightarrow> parsed_parts parts \<Longrightarrow>
   parsed_parts parts'"
proof (induction vs arbitrary: parts problems)
  case (Cons x vs)
  obtain name v where x: "x = (name, v)" by (cases x)
  show ?case
  proof (rule part_cases [where v = v and name = name])
    fix slots assume 1: "v = JObject slots"
    let ?q = "push_pointer_segment ''/parts'' name"
    obtain slots' problems' where s: "parse_slots ?q slots [] problems = (slots', problems')" by fastforce
    have rest: "parse_part_list vs (btree_insert name slots' parts) problems' = (parts', [])"
      using Cons(2) by (simp add: x 1 s)
    then have "problems' = []" using parts_clean [of vs "btree_insert name slots' parts" problems'] by simp
    with s have "parsed_slots ?q slots'"
      using slots_parsed [of ?q slots "[]" problems slots'] Cons(3) by (simp add: x 1 parsed_slots_def btree_map_def)
    then have "parsed_parts (btree_insert name slots' parts)"
      using Cons(4) set_btree_insert [of name slots' parts] by (force simp: parsed_parts_def btree_map_insert)
    from Cons(1) [OF rest _ this] Cons(3) show ?thesis by simp
  next
    fix p assume "\<And>rest parts problems.
      parse_part_list ((name, v) # rest) parts problems = parse_part_list rest parts (problems @ [p])"
    then have "parse_part_list vs parts (problems @ [p]) = (parts', [])" using Cons(2) by (simp add: x)
    with parts_clean [of vs parts "problems @ [p]"] show ?thesis by simp
  qed
qed simp

text \<open>The content types an accepted interaction declares each name a slot, and a media type.\<close>

definition types_declared :: "content_types \<Rightarrow> shape smap smap \<Rightarrow> bool" where
  "types_declared types parts \<longleftrightarrow>
     (\<forall>(part, slots) \<in> set types. \<forall>(slot, media_type) \<in> set slots.
        (case map_of parts part of Some ss \<Rightarrow> contains_key ss slot | None \<Rightarrow> False) \<and> trim media_type \<noteq> [])"

lemma types_checked: "check_content_types types parts problems = [] \<Longrightarrow> problems = [] \<and> types_declared types parts"
  by (fastforce simp: check_content_types_def types_declared_def content_type_problem_def Let_def split: if_splits)

lemma field_clean: "parse_field read obj field problems = (x, []) \<Longrightarrow> problems = []"
  by (auto simp: parse_field_def split: option.splits sum.splits prod.splits)

lemma interaction_parsed:
  assumes v: "wf_json v" and parsed: "interaction_parse R v = Inr spec"
  shows "in_description spec \<noteq> [] \<and> parsed_parts (in_parts spec)
    \<and> (case is_content_types spec of Some types \<Rightarrow> types_declared types (in_parts spec) | None \<Rightarrow> True)"
proof -
  obtain obj where obj: "v = JObject obj" using parsed by (cases v) (simp_all add: interaction_parse_def)
  obtain description p1 where d: "parse_description obj [] = (description, p1)" by fastforce
  obtain tr p2 where tr: "parse_field (fr_transport R) obj ''transport'' p1 = (tr, p2)" by fastforce
  obtain sts p3 where sts: "parse_field (fr_states R) obj ''states'' p2 = (sts, p3)" by fastforce
  obtain req p4 where req: "parse_field (fr_requires R) obj ''requires'' p3 = (req, p4)" by fastforce
  obtain parts p5 where parts: "parse_parts obj p4 = (parts, p5)" by fastforce
  obtain types p6 where types: "parse_field (fr_content_types R) obj ''content-types'' p5 = (types, p6)" by fastforce
  let ?p = "case (types, parts) of (Some types, Some parts) \<Rightarrow> check_content_types types parts p6 | _ \<Rightarrow> p6"
  have "(case (description, parts) of
        (Some description, Some parts) \<Rightarrow>
          if ?p = []
          then Inr \<lparr>in_description = description, in_parts = parts, is_transport = tr, is_states = sts,
            is_content_types = types, is_requires = req\<rparr>
          else Inl ?p
      | _ \<Rightarrow> Inl ?p) = Inr spec"
    using parsed unfolding interaction_parse_def obj json.case d prod.case tr sts req parts types Let_def .
  then obtain desc ps where some: "description = Some desc" "parts = Some ps" and none: "?p = []"
    and spec: "spec = \<lparr>in_description = desc, in_parts = ps, is_transport = tr, is_states = sts,
            is_content_types = types, is_requires = req\<rparr>"
    by (auto split: option.splits if_splits)
  have p6: "p6 = [] \<and> (case types of Some types \<Rightarrow> types_declared types ps | None \<Rightarrow> True)"
    using none some(2) types_checked by (cases types) auto
  then have p5: "p5 = []" using field_clean [of "fr_content_types R" obj "''content-types''" p5 types] types by simp
  have desc: "desc \<noteq> []" using d some(1) by (auto simp: parse_description_def split: option.splits json.splits if_splits)
  obtain vs where vs: "map_of obj ''parts'' = Some (JObject vs)" "parse_part_list vs [] p4 = (ps, [])"
    using parts some(2) p5 by (auto simp: parse_parts_def split: option.splits json.splits prod.splits)
  have "wf_json (JObject vs)" using v map_of_SomeD [OF vs(1)] by (force simp: obj list_all_iff)
  then have "list_all (\<lambda>(_, v). wf_json v) vs" by simp
  from parts_parsed [OF vs(2) this] have "parsed_parts ps" by (simp add: parsed_parts_def btree_map_def)
  with desc p6 show ?thesis by (cases types) (simp_all add: spec)
qed

lemma parsed_slot:
  assumes "parsed_parts parts" and "(part, slots) \<in> set parts" and "(slot, s) \<in> set slots"
  shows "well_formed_shape s"
  using assms parse_well_formed by (fastforce simp: parsed_parts_def parsed_slots_def)

text \<open>C39: an interaction the parser accepts is ready to be compiled. It has a description; its parts, and
  the slots of a part, have distinct names in order; every slot's shape is well-formed; and every declared
  content type names a slot that has a shape, and a media type that is not blank.\<close>

theorem interaction_parse_accepts:
  assumes "wf_json v" and "interaction_parse R v = Inr spec"
  shows "in_description spec \<noteq> [] \<and> btree_map (in_parts spec)
    \<and> (\<forall>(part, slots) \<in> set (in_parts spec). btree_map slots \<and> (\<forall>(slot, s) \<in> set slots. well_formed_shape s))
    \<and> (case is_content_types spec of
         Some types \<Rightarrow> \<forall>(part, slots) \<in> set types. \<forall>(slot, media_type) \<in> set slots.
           (case map_of (in_parts spec) part of Some ss \<Rightarrow> contains_key ss slot | None \<Rightarrow> False) \<and> trim media_type \<noteq> []
       | None \<Rightarrow> True)"
proof -
  note p = interaction_parsed [OF assms]
  then have parts: "parsed_parts (in_parts spec)" by simp
  have "\<forall>(part, slots) \<in> set (in_parts spec). btree_map slots \<and> (\<forall>(slot, s) \<in> set slots. well_formed_shape s)"
    using parts parsed_slot [OF parts] by (fastforce simp: parsed_parts_def parsed_slots_def)
  with p show ?thesis by (cases "is_content_types spec") (simp_all add: parsed_parts_def types_declared_def)
qed

definition no_readers :: field_readers where
  "no_readers = \<lparr>fr_transport = (\<lambda>_. Inl ([], [])), fr_states = (\<lambda>_. Inl ([], [])),
     fr_requires = (\<lambda>_. Inl ([], [])), fr_content_types = (\<lambda>_. Inr [(''response'', [(''body'', ''a/b'')])])\<rparr>"

definition interaction_document :: json where
  "interaction_document = JObject [(''description'', JString ''d''),
     (''parts'', JObject [(''response'', JObject [(''body'', list_document)])]), (''content-types'', JNull)]"

definition list_shape :: shape where
  "list_shape = ShapeNode None None (Core (EachLike (ShapeNode None None (Core (Kind VK_Integer))) 1 (Some 3)))"

definition list_spec :: interaction_spec where
  "list_spec = \<lparr>in_description = ''d'', in_parts = [(''response'', [(''body'', list_shape)])],
     is_transport = None, is_states = None, is_content_types = Some [(''response'', [(''body'', ''a/b'')])], is_requires = None\<rparr>"

lemma interaction_document_parsed: "interaction_parse no_readers interaction_document = Inr list_spec"
proof -
  have "trim ''a/b'' \<noteq> []"
    by (simp add: trim_def trim_start.simps trim_rev.simps whitespace_at_def whitespace_before_def)
  then show ?thesis
    by (simp add: interaction_parse_def interaction_document_def parse_description_def parse_field_def parse_parts_def
        list_document_parsed no_readers_def check_content_types_def content_type_problem_def contains_key_def list_spec_def
        list_shape_def)
qed

theorem interaction_parse_accepts_witness: "well_formed_shape list_shape"
  using interaction_parse_accepts [OF _ interaction_document_parsed]
  by (simp add: interaction_document_def list_document_def index_map_def list_spec_def)

subsection \<open>From a document to a verdict\<close>



end
