(* ===== verification/Sampling.thy ===== *)
theory Sampling
  imports Problem Variant_Space Plan_Compile
begin

text \<open>
  What a sampling policy says and how it names dimensions, the first half of
  engine/kernel/src/variant/mod.rs: references to a dimension by a trailing run of its path, the shortened
  labels of a report, the layers of policy, and the pins and exclusions resolved against a space. A hashed
  map built in one pass is the list of its entries, read from the end (a later entry replaces an earlier
  one). Reading a layer's JSON is \<open>serde\<close>'s derived deserializer, a parameter.
\<close>

subsection \<open>References and labels\<close>

definition path_delimiter :: "char \<Rightarrow> bool" where
  "path_delimiter c \<longleftrightarrow> c \<in> {CHR ''.'', CHR ''['', CHR ''{'', CHR ''@''}"

fun path_tokens_from :: "string \<Rightarrow> string \<Rightarrow> string list" where
  "path_tokens_from current [] = (if current \<noteq> [] then [current] else [])"
| "path_tokens_from current (c # s) =
     (if path_delimiter c \<and> current \<noteq> [] then current # path_tokens_from [c] s
      else path_tokens_from (current @ [c]) s)"

definition path_tokens :: "string \<Rightarrow> string list" where
  "path_tokens path = path_tokens_from [] path"

definition suffix_text :: "string list \<Rightarrow> nat \<Rightarrow> string" where
  "suffix_text tokens k = concat (drop (length tokens - k) tokens)"

definition strip_leading_dot :: "string \<Rightarrow> string" where
  "strip_leading_dot s = (case strip_prefix ''.'' s of Some r \<Rightarrow> r | None \<Rightarrow> s)"

datatype ref_resolution = Ref_Not_Found | Ref_Ambiguous "string list" | Ref_Found dimension

definition refers_to :: "string \<Rightarrow> dimension \<Rightarrow> bool" where
  "refers_to reference d \<longleftrightarrow>
     dim_id d = reference \<or> dim_path d = reference
     \<or> (let tokens = path_tokens (dim_path d) in
        list_ex (\<lambda>k. strip_leading_dot (suffix_text tokens k) = reference) [1..<length tokens + 1])"

definition resolve_dimension_ref :: "dimension list \<Rightarrow> string \<Rightarrow> ref_resolution" where
  "resolve_dimension_ref space reference =
     (case filter (refers_to reference) space of
        [] \<Rightarrow> Ref_Not_Found
      | [d] \<Rightarrow> Ref_Found d
      | found \<Rightarrow> Ref_Ambiguous (map dim_id found))"

definition label_collides :: "dimension list \<Rightarrow> dimension \<Rightarrow> nat \<Rightarrow> string \<Rightarrow> bool" where
  "label_collides space d k candidate =
     list_ex (\<lambda>other.
       if dim_id other = dim_id d then False
       else let theirs = path_tokens (dim_path other) in
         strip_leading_dot (suffix_text theirs (min k (max (length theirs) 1))) = candidate) space"

fun label_from :: "dimension list \<Rightarrow> dimension \<Rightarrow> nat \<Rightarrow> nat list \<Rightarrow> string" where
  "label_from space d max_k [] = dim_id d"
| "label_from space d max_k (k # ks) =
     (let candidate = strip_leading_dot (suffix_text (path_tokens (dim_path d)) k) in
      if \<not> label_collides space d k candidate then candidate
      else if k = max_k then candidate @ ''#'' @ dim_facet d
      else label_from space d max_k ks)"

definition dimension_label :: "dimension \<Rightarrow> dimension list \<Rightarrow> string" where
  "dimension_label d space =
     (let max_k = max (length (path_tokens (dim_path d))) 1 in label_from space d max_k [1..<max_k + 1])"

definition compute_labels :: "dimension list \<Rightarrow> (string \<times> string) list" where
  "compute_labels space = map (\<lambda>d. (dim_id d, dimension_label d space)) space"

definition own_ids :: "dimension list \<Rightarrow> (string \<times> string) list" where
  "own_ids space = map (\<lambda>d. (dim_id d, dim_id d)) space"

definition hashed_get :: "(string \<times> 'a) list \<Rightarrow> string \<Rightarrow> 'a option" where
  "hashed_get entries k = map_of (rev entries) k"

definition render_assignment :: "dimension list \<Rightarrow> assignment \<Rightarrow> (string \<times> string) list \<Rightarrow> string" where
  "render_assignment space assignment names =
     (let parts = concat (map (\<lambda>d.
            case map_of assignment (dim_id d) of
              Some point \<Rightarrow>
                if point \<noteq> dim_default d then [the (hashed_get names (dim_id d)) @ ''='' @ point] else []
            | None \<Rightarrow> []) space)
      in if parts = [] then ''base'' else join_with '';'' parts)"

subsection \<open>The policy\<close>

record point_ref =
  rf_dimension :: string
  rf_point :: string

record pin =
  pin_assignment :: "point_ref list"
  pin_reason :: "string option"

record exclusion =
  xc_when :: "point_ref list"
  xc_reason :: string

record sampling_patch =
  sm_strategy :: "string option"
  sm_strength :: "nat option"
  sm_threshold :: "nat option"
  sm_max_variants :: "nat option"
  sm_boundaries :: "bool option"
  sm_algorithm :: "string option"
  sm_pin :: "pin list"
  sm_exclude :: "exclusion list"

record sampling_policy =
  sa_strategy :: string
  sa_strength :: nat
  sa_threshold :: nat
  sa_max_variants :: nat
  sa_boundaries :: bool
  sa_algorithm :: string
  sa_pin :: "pin list"
  sa_exclude :: "exclusion list"

definition default_sampling :: sampling_policy where
  "default_sampling =
     \<lparr>sa_strategy = ''auto'', sa_strength = 2, sa_threshold = 8, sa_max_variants = 50, sa_boundaries = True,
      sa_algorithm = ''janus-ipog-v1'', sa_pin = [], sa_exclude = []\<rparr>"

definition or_keep :: "'a option \<Rightarrow> 'a \<Rightarrow> 'a" where
  "or_keep patch old = (case patch of Some v \<Rightarrow> v | None \<Rightarrow> old)"

definition apply_sampling :: "sampling_patch \<Rightarrow> sampling_policy \<Rightarrow> sampling_policy" where
  "apply_sampling patch policy =
     \<lparr>sa_strategy = or_keep (sm_strategy patch) (sa_strategy policy),
      sa_strength = or_keep (sm_strength patch) (sa_strength policy),
      sa_threshold = or_keep (sm_threshold patch) (sa_threshold policy),
      sa_max_variants = or_keep (sm_max_variants patch) (sa_max_variants policy),
      sa_boundaries = or_keep (sm_boundaries patch) (sa_boundaries policy),
      sa_algorithm = or_keep (sm_algorithm patch) (sa_algorithm policy),
      sa_pin = sa_pin policy @ sm_pin patch,
      sa_exclude = sa_exclude policy @ sm_exclude patch\<rparr>"

fun sampling_layers :: "(json \<Rightarrow> string + sampling_patch) \<Rightarrow> json option list \<Rightarrow> sampling_policy \<Rightarrow> problem + sampling_policy" where
  "sampling_layers read [] policy = Inr policy"
| "sampling_layers read (None # layers) policy = sampling_layers read layers policy"
| "sampling_layers read (Some layer # layers) policy =
     (case read layer of
        Inl message \<Rightarrow> Inl \<lparr>pr_pointer = ''/policy'', pr_message = message\<rparr>
      | Inr patch \<Rightarrow> sampling_layers read layers (apply_sampling patch policy))"

definition resolve_sampling :: "(json \<Rightarrow> string + sampling_patch) \<Rightarrow> json option list \<Rightarrow> problem + sampling_policy" where
  "resolve_sampling read layers = sampling_layers read layers default_sampling"

subsection \<open>Pins and exclusions against a space\<close>

record resolved_exclusion =
  rx_when :: "(string \<times> string) list"
  rx_reason :: string
  rx_removed :: nat

definition resolve_point_ref :: "dimension list \<Rightarrow> point_ref \<Rightarrow> problem + string \<times> string" where
  "resolve_point_ref space r =
     (case resolve_dimension_ref space (rf_dimension r) of
        Ref_Not_Found \<Rightarrow>
          Inl \<lparr>pr_pointer = ''/policy'',
               pr_message = quote1 (rf_dimension r) @ '' does not name any dimension of this interaction''\<rparr>
      | Ref_Ambiguous candidates \<Rightarrow>
          Inl \<lparr>pr_pointer = ''/policy'',
               pr_message = quote1 (rf_dimension r) @ '' names more than one dimension ('' @ join_with '', '' candidates @ '')''\<rparr>
      | Ref_Found d \<Rightarrow>
          if list_ex (\<lambda>p. pt_name p = rf_point r) (dim_points d) then Inr (dim_id d, rf_point r)
          else Inl \<lparr>pr_pointer = ''/policy'',
                    pr_message = ''dimension '' @ quote1 (dim_id d) @ '' has no point '' @ quote1 (rf_point r)\<rparr>)"

definition ref_problems :: "dimension list \<Rightarrow> point_ref list \<Rightarrow> problem list" where
  "ref_problems space refs =
     concat (map (\<lambda>r. case resolve_point_ref space r of Inl p \<Rightarrow> [p] | Inr _ \<Rightarrow> []) refs)"

definition ref_pairs :: "dimension list \<Rightarrow> point_ref list \<Rightarrow> (string \<times> string) list" where
  "ref_pairs space refs =
     concat (map (\<lambda>r. case resolve_point_ref space r of Inl _ \<Rightarrow> [] | Inr pair \<Rightarrow> [pair]) refs)"

definition assignment_of :: "(string \<times> string) list \<Rightarrow> assignment" where
  "assignment_of pairs = fold (\<lambda>(d, p) a. btree_insert d p a) pairs []"

definition resolve_refs ::
  "dimension list \<Rightarrow> sampling_policy \<Rightarrow> problem list + assignment list \<times> resolved_exclusion list" where
  "resolve_refs space policy =
     (let problems = concat (map (\<lambda>p. ref_problems space (pin_assignment p)) (sa_pin policy))
                   @ concat (map (\<lambda>e. ref_problems space (xc_when e)) (sa_exclude policy)) in
      if problems = []
      then Inr (map (\<lambda>p. assignment_of (ref_pairs space (pin_assignment p))) (sa_pin policy),
                map (\<lambda>e. \<lparr>rx_when = ref_pairs space (xc_when e), rx_reason = xc_reason e, rx_removed = 0\<rparr>) (sa_exclude policy))
      else Inl problems)"

end
