(* ===== verification/Sampler.thy ===== *)
theory Sampler
  imports Sampling
begin

text \<open>
  The sampler of a variant space, the second half of engine/kernel/src/variant/mod.rs: completing an
  assignment, counting the space, the boundary variants, the covering algorithm \<open>janus-ipog-v1\<close> and the
  selection with its report. A map that is extended on the way into a recursive call and cut back after it
  is passed extended. A state a loop updates is threaded. What would panic, or not return, is \<open>None\<close>: the
  two recursions over the forest of gates have the number of dimensions as fuel.
\<close>

subsection \<open>Assignments\<close>

definition gate_holds :: "assignment \<Rightarrow> gate \<Rightarrow> bool" where
  "gate_holds a g \<longleftrightarrow> map_of a (gate_dimension g) = Some (gate_point g)"

definition is_active :: "assignment \<Rightarrow> dimension \<Rightarrow> bool" where
  "is_active a d \<longleftrightarrow> list_all (gate_holds a) (dim_gates d)"

fun complete_from :: "assignment \<Rightarrow> dimension list \<Rightarrow> assignment \<Rightarrow> assignment" where
  "complete_from partial [] result = result"
| "complete_from partial (d # ds) result =
     (if \<not> is_active result d then complete_from partial ds result
      else complete_from partial ds
        (btree_insert (dim_id d) (case map_of partial (dim_id d) of Some p \<Rightarrow> p | None \<Rightarrow> dim_default d) result))"

definition complete_assignment :: "dimension list \<Rightarrow> assignment \<Rightarrow> assignment" where
  "complete_assignment space partial = complete_from partial space []"

definition has_pairs :: "assignment \<Rightarrow> (string \<times> string) list \<Rightarrow> bool" where
  "has_pairs a pairs \<longleftrightarrow> list_all (\<lambda>(d, p). map_of a d = Some p) pairs"

definition matching_exclusion :: "assignment \<Rightarrow> resolved_exclusion list \<Rightarrow> bool" where
  "matching_exclusion a exclusions \<longleftrightarrow> list_ex (\<lambda>e. has_pairs a (rx_when e)) exclusions"

subsection \<open>Counting the space\<close>

definition last_gate :: "dimension \<Rightarrow> (string \<times> string) option" where
  "last_gate d =
     (if dim_gates d = [] then None
      else Some (gate_dimension (last (dim_gates d)), gate_point (last (dim_gates d))))"

definition children_by_gate :: "dimension list \<Rightarrow> string \<Rightarrow> string \<Rightarrow> dimension list" where
  "children_by_gate space d p = filter (\<lambda>k. last_gate k = Some (d, p)) space"

definition by_id :: "dimension list \<Rightarrow> string \<Rightarrow> dimension option" where
  "by_id space d = hashed_get (map (\<lambda>x. (dim_id x, x)) space) d"

text \<open>A \<open>u64\<close> that saturates, and whether everything so far was exact.\<close>

definition saturating :: "nat \<Rightarrow> bool \<Rightarrow> nat \<times> bool" where
  "saturating n exact = (if n < 2 ^ 64 then (n, exact) else (u64_max, False))"

fun weight :: "dimension list \<Rightarrow> nat \<Rightarrow> string \<Rightarrow> (nat \<times> bool) option" where
  "weight space 0 d = None"
| "weight space (Suc fuel) d =
     (case by_id space d of
        None \<Rightarrow> None
      | Some dim \<Rightarrow>
          fold (\<lambda>point acc.
            case acc of
              None \<Rightarrow> None
            | Some (sz, exact) \<Rightarrow>
                (case fold (\<lambda>kid acc.
                    case acc of
                      None \<Rightarrow> None
                    | Some (product, exact) \<Rightarrow>
                        (case weight space fuel (dim_id kid) of
                           None \<Rightarrow> None
                         | Some (w, kid_exact) \<Rightarrow> Some (saturating (product * w) (exact \<and> kid_exact))))
                    (children_by_gate space d (pt_name point)) (Some (1, exact)) of
                  None \<Rightarrow> None
                | Some (product, exact) \<Rightarrow> Some (saturating (sz + product) exact)))
            (dim_points dim) (Some (0, True)))"

definition space_size :: "dimension list \<Rightarrow> (nat \<times> bool) option" where
  "space_size space =
     fold (\<lambda>d acc.
       case acc of
         None \<Rightarrow> None
       | Some (sz, exact) \<Rightarrow>
           if dim_gates d \<noteq> [] then acc
           else (case weight space (length space + 1) (dim_id d) of
                   None \<Rightarrow> None
                 | Some (w, dim_exact) \<Rightarrow> Some (saturating (sz * w) (exact \<and> dim_exact))))
       space (Some (1, True))"

subsection \<open>The boundary variants\<close>

fun sum_options :: "nat option list \<Rightarrow> nat option" where
  "sum_options [] = Some 0"
| "sum_options (x # xs) =
     (case x of None \<Rightarrow> None | Some n \<Rightarrow> map_option (\<lambda>m. n + m) (sum_options xs))"

fun descendant_count :: "dimension list \<Rightarrow> nat \<Rightarrow> string \<Rightarrow> string \<Rightarrow> nat option" where
  "descendant_count space 0 d point = None"
| "descendant_count space (Suc fuel) d point =
     sum_options (map (\<lambda>kid.
       map_option (\<lambda>n. 1 + n)
         (sum_options (map (\<lambda>p. descendant_count space fuel (dim_id kid) (pt_name p)) (dim_points kid))))
       (children_by_gate space d point))"

definition first_extreme :: "(nat \<times> string) list \<Rightarrow> bool \<Rightarrow> string option" where
  "first_extreme items minimal =
     map_option snd (fold (\<lambda>(key, name) best.
       case best of
         None \<Rightarrow> Some (key, name)
       | Some (bk, bn) \<Rightarrow> if (minimal \<and> key < bk) \<or> (\<not> minimal \<and> bk < key) then Some (key, name) else best) items None)"

fun all_some :: "'a option list \<Rightarrow> 'a list option" where
  "all_some [] = Some []"
| "all_some (x # xs) = (case x of None \<Rightarrow> None | Some y \<Rightarrow> map_option (\<lambda>ys. y # ys) (all_some xs))"

definition boundary_point :: "dimension list \<Rightarrow> bool \<Rightarrow> dimension \<Rightarrow> string option" where
  "boundary_point space minimal d =
     (if dim_facet d = ''presence'' then Some (if minimal then ''absent'' else ''present'')
      else if dim_facet d = ''nullability'' then Some (if minimal then ''null'' else ''non-null'')
      else if dim_facet d = ''cardinality''
      then Some (case first_extreme (map (\<lambda>p. (case pt_size p of Some n \<Rightarrow> n | None \<Rightarrow> 0, pt_name p)) (dim_points d)) minimal of
             Some name \<Rightarrow> name | None \<Rightarrow> dim_default d)
      else if dim_facet d = ''alternative''
      then map_option (\<lambda>counts. case first_extreme (zip counts (map pt_name (dim_points d))) minimal of
             Some name \<Rightarrow> name | None \<Rightarrow> dim_default d)
             (all_some (map (\<lambda>p. descendant_count space (length space + 1) (dim_id d) (pt_name p)) (dim_points d)))
      else Some (dim_default d))"

fun boundary_from :: "dimension list \<Rightarrow> bool \<Rightarrow> dimension list \<Rightarrow> assignment \<Rightarrow> assignment option" where
  "boundary_from space minimal [] result = Some result"
| "boundary_from space minimal (d # ds) result =
     (if \<not> is_active result d then boundary_from space minimal ds result
      else case boundary_point space minimal d of
             None \<Rightarrow> None
           | Some point \<Rightarrow> boundary_from space minimal ds (btree_insert (dim_id d) point result))"

definition boundary_partial :: "dimension list \<Rightarrow> bool \<Rightarrow> assignment option" where
  "boundary_partial space minimal = boundary_from space minimal space []"

subsection \<open>Targets\<close>

type_synonym target = assignment

fun require_pair :: "string \<Rightarrow> string \<Rightarrow> assignment \<Rightarrow> assignment option" where
  "require_pair d p reqs =
     (case map_of reqs d of
        Some existing \<Rightarrow> if existing \<noteq> p then None else Some (btree_insert d p reqs)
      | None \<Rightarrow> Some (btree_insert d p reqs))"

fun require_gates :: "gate list \<Rightarrow> assignment \<Rightarrow> assignment option" where
  "require_gates [] reqs = Some reqs"
| "require_gates (g # gs) reqs = Option.bind (require_pair (gate_dimension g) (gate_point g) reqs) (require_gates gs)"

fun requirements_from :: "dimension list \<Rightarrow> target \<Rightarrow> assignment \<Rightarrow> assignment option" where
  "requirements_from space [] reqs = Some reqs"
| "requirements_from space ((d, p) # pairs) reqs =
     Option.bind (require_pair d p reqs) (\<lambda>reqs.
     Option.bind (by_id space d) (\<lambda>dim.
     Option.bind (require_gates (dim_gates dim) reqs) (requirements_from space pairs)))"

definition target_requirements :: "dimension list \<Rightarrow> target \<Rightarrow> assignment option" where
  "target_requirements space target = requirements_from space target []"

fun combinations :: "nat \<Rightarrow> nat \<Rightarrow> nat \<Rightarrow> nat list list" where
  "combinations n 0 start = [[]]"
| "combinations n (Suc t) start = concat (map (\<lambda>i. map (\<lambda>is. i # is) (combinations n t (i + 1))) [start..<n])"

fun cartesian_points :: "dimension list \<Rightarrow> target \<Rightarrow> target list" where
  "cartesian_points [] current = [current]"
| "cartesian_points (d # ds) current =
     concat (map (\<lambda>p. cartesian_points ds (btree_insert (dim_id d) (pt_name p) current)) (dim_points d))"

fun count_exclusion :: "target \<Rightarrow> resolved_exclusion list \<Rightarrow> resolved_exclusion list option" where
  "count_exclusion target [] = None"
| "count_exclusion target (e # es) =
     (if has_pairs target (rx_when e) then Some (e\<lparr>rx_removed := rx_removed e + 1\<rparr> # es)
      else map_option (\<lambda>es. e # es) (count_exclusion target es))"

definition set_insert :: "'a \<Rightarrow> 'a list \<Rightarrow> 'a list" where
  "set_insert x xs = (if x \<in> set xs then xs else xs @ [x])"

fun add_target ::
  "dimension list \<Rightarrow> target \<Rightarrow> target list \<times> resolved_exclusion list \<Rightarrow> target list \<times> resolved_exclusion list" where
  "add_target space target (targets, exclusions) =
     (case target_requirements space target of
        None \<Rightarrow> (targets, exclusions)
      | Some _ \<Rightarrow>
          (case count_exclusion target exclusions of
             Some exclusions \<Rightarrow> (targets, exclusions)
           | None \<Rightarrow> (set_insert target targets, exclusions)))"

definition enumerate_targets ::
  "dimension list \<Rightarrow> nat \<Rightarrow> resolved_exclusion list \<Rightarrow> target list \<times> resolved_exclusion list" where
  "enumerate_targets space t exclusions =
     fold (add_target space)
       (concat (map (\<lambda>is. cartesian_points (map (\<lambda>i. space ! i) is) []) (combinations (length space) t 0)))
       ([], exclusions)"

subsection \<open>The covering algorithm\<close>

definition gates_placed :: "dimension list \<Rightarrow> nat list \<Rightarrow> dimension \<Rightarrow> bool" where
  "gates_placed space order d =
     list_all (\<lambda>g. case hashed_get (map (\<lambda>(i, x). (dim_id x, i)) (List.enumerate 0 space)) (gate_dimension g) of
       Some i \<Rightarrow> i \<in> set order | None \<Rightarrow> False) (dim_gates d)"

definition best_ready :: "dimension list \<Rightarrow> nat list \<Rightarrow> nat option" where
  "best_ready space order =
     fold (\<lambda>i best.
       if i \<in> set order \<or> \<not> gates_placed space order (space ! i) then best
       else (case best of
               None \<Rightarrow> Some i
             | Some b \<Rightarrow> if length (dim_points (space ! b)) < length (dim_points (space ! i)) then Some i else best))
       [0..<length space] None"

fun place_from :: "dimension list \<Rightarrow> nat \<Rightarrow> nat list \<Rightarrow> nat list option" where
  "place_from space 0 order = Some order"
| "place_from space (Suc n) order =
     (case best_ready space order of None \<Rightarrow> None | Some chosen \<Rightarrow> place_from space n (order @ [chosen]))"

definition processing_order :: "dimension list \<Rightarrow> nat list option" where
  "processing_order space = place_from space (length space) []"

definition is_covered :: "target \<Rightarrow> assignment \<Rightarrow> bool" where
  "is_covered target a \<longleftrightarrow> has_pairs a target"

definition covers_partial :: "assignment \<Rightarrow> assignment \<Rightarrow> bool" where
  "covers_partial partial full \<longleftrightarrow> has_pairs full partial"

definition is_compatible :: "assignment \<Rightarrow> target \<Rightarrow> bool" where
  "is_compatible tau target \<longleftrightarrow>
     list_all (\<lambda>(d, p). case map_of tau d of None \<Rightarrow> True | Some tp \<Rightarrow> tp = p) target"

fun build_initial_block :: "resolved_exclusion list \<Rightarrow> dimension list \<Rightarrow> assignment \<Rightarrow> assignment list" where
  "build_initial_block exclusions [] current = (if matching_exclusion current exclusions then [] else [current])"
| "build_initial_block exclusions (d # ds) current =
     (if \<not> is_active current d then build_initial_block exclusions ds current
      else concat (map (\<lambda>p. build_initial_block exclusions ds (btree_insert (dim_id d) (pt_name p) current)) (dim_points d)))"

definition best_point ::
  "dimension \<Rightarrow> resolved_exclusion list \<Rightarrow> assignment \<Rightarrow> target list \<Rightarrow> string option" where
  "best_point d exclusions tau targets =
     fst (fold (\<lambda>p (best, best_count).
       let candidate = btree_insert (dim_id d) (pt_name p) tau in
       if matching_exclusion candidate exclusions then (best, best_count)
       else let count = length (filter (\<lambda>t. contains_key t (dim_id d) \<and> is_covered t candidate) targets) in
         if best = None \<or> best_count < count then (Some (pt_name p), count) else (best, best_count))
       (dim_points d) (None, 0))"

fun grow_rows ::
  "dimension \<Rightarrow> resolved_exclusion list \<Rightarrow> assignment list \<Rightarrow> target list \<Rightarrow> assignment list \<times> target list" where
  "grow_rows d exclusions [] targets = ([], targets)"
| "grow_rows d exclusions (tau # ts) targets =
     (let (tau, targets) =
        (if \<not> is_active tau d then (tau, targets)
         else case best_point d exclusions tau targets of
                None \<Rightarrow> (tau, targets)
              | Some p \<Rightarrow>
                  let tau = btree_insert (dim_id d) p tau in (tau, filter (\<lambda>t. \<not> is_covered t tau) targets));
        (ts, targets) = grow_rows d exclusions ts targets
      in (tau # ts, targets))"

definition or_insert_all :: "assignment \<Rightarrow> assignment \<Rightarrow> assignment" where
  "or_insert_all reqs tau = fold (\<lambda>(d, p) tau. if contains_key tau d then tau else btree_insert d p tau) reqs tau"

fun cover_target ::
  "dimension list \<Rightarrow> target \<Rightarrow> assignment list \<times> target list \<Rightarrow> assignment list \<times> target list" where
  "cover_target space target (ts, targets) =
     (if target \<notin> set targets then (ts, targets)
      else
        let ts = (case position (\<lambda>tau. is_compatible tau target) ts of
                Some i \<Rightarrow>
                  (case target_requirements space target of
                     Some reqs \<Rightarrow> ts[i := or_insert_all reqs (ts ! i)]
                   | None \<Rightarrow> ts)
              | None \<Rightarrow>
                  (case target_requirements space target of Some reqs \<Rightarrow> ts @ [reqs] | None \<Rightarrow> ts))
        in (ts, filter (\<lambda>t. \<not> (ts \<noteq> [] \<and> is_covered t (last ts)) \<and> \<not> list_ex (is_covered t) ts) targets))"

definition grow_dimension ::
  "dimension list \<Rightarrow> resolved_exclusion list \<Rightarrow> string list \<Rightarrow> dimension \<Rightarrow> assignment list \<times> target list
     \<Rightarrow> assignment list \<times> target list" where
  "grow_dimension space exclusions processed d state =
     (case state of (ts, targets) \<Rightarrow>
      case grow_rows d exclusions ts targets of (ts, targets) \<Rightarrow>
        fold (cover_target space)
          (filter (\<lambda>t. contains_key t (dim_id d) \<and> list_all (\<lambda>k. k \<in> set processed) (map fst t)) targets)
          (ts, targets))"

fun grow_all ::
  "dimension list \<Rightarrow> resolved_exclusion list \<Rightarrow> string list \<Rightarrow> dimension list \<Rightarrow> assignment list \<times> target list
     \<Rightarrow> assignment list \<times> target list" where
  "grow_all space exclusions processed [] state = state"
| "grow_all space exclusions processed (d # ds) state =
     grow_all space exclusions (dim_id d # processed) ds (grow_dimension space exclusions (dim_id d # processed) d state)"

definition substitutions :: "dimension list \<Rightarrow> assignment \<Rightarrow> assignment \<Rightarrow> dimension \<Rightarrow> assignment list" where
  "substitutions space partial full d =
     (if contains_key partial (dim_id d) then []
      else (case map_of full (dim_id d) of
              None \<Rightarrow> []
            | Some current \<Rightarrow>
                map (\<lambda>p. complete_assignment space (btree_insert (dim_id d) (pt_name p) partial))
                  (filter (\<lambda>p. pt_name p \<noteq> current) (dim_points d))))"

definition complete_avoiding :: "dimension list \<Rightarrow> assignment \<Rightarrow> resolved_exclusion list \<Rightarrow> assignment option" where
  "complete_avoiding space partial exclusions =
     (let full = complete_assignment space partial in
      if \<not> matching_exclusion full exclusions then Some full
      else List.find (\<lambda>candidate. \<not> matching_exclusion candidate exclusions)
        (concat (map (substitutions space partial full) space)))"

definition ipog ::
  "dimension list \<Rightarrow> nat \<Rightarrow> assignment list \<Rightarrow> target list \<Rightarrow> resolved_exclusion list \<Rightarrow> (assignment list \<times> nat) option" where
  "ipog space t seeds targets exclusions =
     (let targets = filter (\<lambda>target. \<not> list_ex (is_covered target) seeds) targets in
      if targets = [] \<or> space = [] then Some ([], 0)
      else (case processing_order space of
              None \<Rightarrow> None
            | Some order \<Rightarrow>
                let t = max (min t (length order)) 1;
                    dims = map (\<lambda>i. space ! i) order;
                    ts = filter (\<lambda>tau. \<not> list_ex (covers_partial tau) seeds)
                      (build_initial_block exclusions (take t dims) []);
                    (ts, targets) = grow_all space exclusions (map dim_id (take t dims)) (drop t dims) (ts, targets);
                    completed = map (\<lambda>tau. complete_avoiding space tau exclusions) ts
                in Some (List.map_filter id completed, length (filter (\<lambda>c. c = None) completed))))"

subsection \<open>The selection\<close>

datatype origin = Base | Boundary | Pinned | Covering

record variant =
  vr_id :: string
  vr_label :: string
  vr_origin :: origin
  vr_assignment :: assignment

definition assignment_json :: "dimension list \<Rightarrow> assignment \<Rightarrow> json list" where
  "assignment_json space a =
     concat (map (\<lambda>d. case map_of a (dim_id d) of
         Some point \<Rightarrow> [JObject [(''dimension'', JString (dim_id d)), (''point'', JString point)]]
       | None \<Rightarrow> []) space)"

definition origin_text :: "origin \<Rightarrow> string" where
  "origin_text x = (case x of Base \<Rightarrow> ''base'' | Boundary \<Rightarrow> ''boundary'' | Pinned \<Rightarrow> ''pinned'' | Covering \<Rightarrow> ''covering'')"

definition variant_json :: "dimension list \<Rightarrow> variant \<Rightarrow> json" where
  "variant_json space v =
     JObject [(''id'', JString (vr_id v)), (''label'', JString (vr_label v)), (''origin'', JString (origin_text (vr_origin v))),
       (''assignment'', JArray (assignment_json space (vr_assignment v)))]"

record coverage =
  cv_targets :: nat
  cv_covered :: nat
  cv_removed :: nat
  cv_dropped :: nat

record applied_exclusion =
  ae_when :: "json list"
  ae_reason :: string
  ae_removed :: nat

record selection_report =
  se_size :: nat
  se_exact :: bool
  se_dimensions :: nat
  se_strategy :: string
  se_strength :: "nat option"
  se_algorithm :: string
  se_selected :: nat
  se_coverage :: coverage
  se_threshold :: nat
  se_max_variants :: nat
  se_boundaries :: bool
  se_exclusions :: "applied_exclusion list"

record selected =
  sl_variants :: "variant list"
  sl_report :: selection_report

datatype variant_error = Invalid_Policy "problem list" | Budget_Exceeded nat nat nat "string list"

definition push_variant :: "dimension list \<Rightarrow> origin \<Rightarrow> assignment \<Rightarrow> variant list \<Rightarrow> variant list" where
  "push_variant space from a variants =
     (if a \<in> set (map vr_assignment variants) then variants
      else variants @ [\<lparr>vr_id = render_assignment space a (own_ids space),
        vr_label = render_assignment space a (compute_labels space), vr_origin = from, vr_assignment = a\<rparr>])"

fun enumerate_all :: "resolved_exclusion list \<Rightarrow> dimension list \<Rightarrow> assignment \<Rightarrow> assignment list" where
  "enumerate_all exclusions [] current = (if matching_exclusion current exclusions then [] else [current])"
| "enumerate_all exclusions (d # ds) current =
     (if \<not> is_active current d then enumerate_all exclusions ds current
      else concat (map (\<lambda>p. enumerate_all exclusions ds (btree_insert (dim_id d) (pt_name p) current)) (dim_points d)))"

definition chosen_strategy :: "sampling_policy \<Rightarrow> nat \<Rightarrow> bool \<Rightarrow> string option" where
  "chosen_strategy policy sz exact =
     (if sa_strategy policy = ''auto''
      then Some (if exact \<and> sz \<le> sa_threshold policy then ''exhaustive'' else ''t-wise'')
      else if sa_strategy policy \<in> {''exhaustive'', ''t-wise'', ''base-only''} then Some (sa_strategy policy)
      else None)"

text \<open>Step 0: the base, the boundaries unless they are turned off, the pins.\<close>

definition seed_variants ::
  "dimension list \<Rightarrow> sampling_policy \<Rightarrow> string \<Rightarrow> assignment list \<Rightarrow> variant list option" where
  "seed_variants space policy strategy pins =
     (let base = push_variant space Base (complete_assignment space []) [] in
      map_option (\<lambda>variants.
          fold (\<lambda>pin variants. push_variant space Pinned (complete_assignment space pin) variants) pins variants)
        (if sa_boundaries policy \<and> strategy \<noteq> ''base-only''
         then Option.bind (boundary_partial space True) (\<lambda>least.
              map_option (\<lambda>most.
                  push_variant space Boundary (complete_assignment space most)
                    (push_variant space Boundary (complete_assignment space least) base))
                (boundary_partial space False))
         else Some base))"

definition applied_exclusions :: "resolved_exclusion list \<Rightarrow> applied_exclusion list" where
  "applied_exclusions exclusions =
     map (\<lambda>e. \<lparr>ae_when = map (\<lambda>(d, p). JObject [(''dimension'', JString d), (''point'', JString p)]) (rx_when e),
             ae_reason = rx_reason e, ae_removed = rx_removed e\<rparr>)
       (filter (\<lambda>e. 0 < rx_removed e) exclusions)"

definition finish_selection ::
  "dimension list \<Rightarrow> sampling_policy \<Rightarrow> nat \<Rightarrow> bool \<Rightarrow> string \<Rightarrow> variant list \<Rightarrow> resolved_exclusion list \<Rightarrow> nat \<Rightarrow> nat
     \<Rightarrow> variant_error + selected" where
  "finish_selection space policy sz exact strategy variants exclusions targets dropped =
     (if sa_max_variants policy < length variants
      then Inl (Budget_Exceeded sz (length variants) (sa_max_variants policy)
        (map dim_id (take 3 (sort_key (\<lambda>d. - int (length (dim_points d))) space))))
      else Inr \<lparr>sl_variants = variants,
        sl_report = \<lparr>se_size = sz, se_exact = exact, se_dimensions = length space, se_strategy = strategy,
          se_strength = (if strategy = ''t-wise'' then Some (sa_strength policy) else None),
          se_algorithm = sa_algorithm policy, se_selected = length variants,
          se_coverage = \<lparr>cv_targets = targets, cv_covered = (if strategy = ''t-wise'' then targets - dropped else 0),
            cv_removed = sum_list (map rx_removed exclusions), cv_dropped = dropped\<rparr>,
          se_threshold = sa_threshold policy, se_max_variants = sa_max_variants policy, se_boundaries = sa_boundaries policy,
          se_exclusions = applied_exclusions exclusions\<rparr>\<rparr>)"

definition cover_seeds ::
  "dimension list \<Rightarrow> sampling_policy \<Rightarrow> string \<Rightarrow> variant list \<Rightarrow> resolved_exclusion list
     \<Rightarrow> (variant list \<times> resolved_exclusion list \<times> nat \<times> nat) option" where
  "cover_seeds space policy strategy variants exclusions =
     (let seeds = map vr_assignment variants in
      if strategy = ''base-only'' then Some (variants, exclusions, 0, 0)
      else if strategy = ''exhaustive''
      then Some (fold (\<lambda>a variants. if a \<in> set seeds then variants else push_variant space Covering a variants)
             (enumerate_all exclusions space []) variants, exclusions, 0, 0)
      else
        (case enumerate_targets space (max (sa_strength policy) 1) exclusions of
           (targets, exclusions) \<Rightarrow>
             map_option (\<lambda>(covering, dropped).
                 (fold (push_variant space Covering) covering variants, exclusions, length targets, dropped))
               (ipog space (max (sa_strength policy) 1) seeds targets exclusions)))"

definition select_variants :: "dimension list \<Rightarrow> sampling_policy \<Rightarrow> (variant_error + selected) option" where
  "select_variants space policy =
     (case resolve_refs space policy of
        Inl problems \<Rightarrow> Some (Inl (Invalid_Policy problems))
      | Inr (pins, exclusions) \<Rightarrow>
          Option.bind (space_size space) (\<lambda>(sz, exact).
          case chosen_strategy policy sz exact of
            None \<Rightarrow> Some (Inl (Invalid_Policy
              [\<lparr>pr_pointer = ''/policy/strategy'', pr_message = ''unknown sampling strategy '' @ quote1 (sa_strategy policy)\<rparr>]))
          | Some strategy \<Rightarrow>
              Option.bind (seed_variants space policy strategy pins) (\<lambda>variants.
              map_option (\<lambda>(variants, exclusions, targets, dropped).
                  finish_selection space policy sz exact strategy variants exclusions targets dropped)
                (cover_seeds space policy strategy variants exclusions))))"

end
