(* ===== verification/Sampler_Laws.thy ===== *)
theory Sampler_Laws
  imports Sampler
begin

text \<open>
  The laws of the sampler. An assignment \<open>settles\<close> a space when it is built along it, one point for every
  dimension that is active when its turn comes; over a space whose gates come first that is exactly an
  assignment that gives a point to the active dimensions and to nothing else.
\<close>

subsection \<open>Spaces and assignments\<close>

definition space_ok :: "dimension list \<Rightarrow> bool" where
  "space_ok space \<longleftrightarrow> distinct (map dim_id space) \<and> parents_first {} space \<and> list_all dimension_ok space"

definition points_of :: "dimension \<Rightarrow> string set" where
  "points_of d = pt_name ` set (dim_points d)"

definition valid_assignment :: "dimension list \<Rightarrow> assignment \<Rightarrow> bool" where
  "valid_assignment space a \<longleftrightarrow>
     btree_map a \<and> fst ` set a \<subseteq> dim_id ` set space
     \<and> (\<forall>d \<in> set space. (map_of a (dim_id d) \<noteq> None) = is_active a d)
     \<and> (\<forall>d \<in> set space. \<forall>p. map_of a (dim_id d) = Some p \<longrightarrow> p \<in> points_of d)"

text \<open>Pairs of a dimension of the space and one of its points.\<close>

definition known_pair :: "dimension list \<Rightarrow> string \<times> string \<Rightarrow> bool" where
  "known_pair space pair \<longleftrightarrow> (\<exists>d \<in> set space. dim_id d = fst pair \<and> snd pair \<in> points_of d)"

definition known_pairs :: "dimension list \<Rightarrow> assignment \<Rightarrow> bool" where
  "known_pairs space a \<longleftrightarrow> btree_map a \<and> list_all (known_pair space) a"

inductive settles :: "dimension list \<Rightarrow> assignment \<Rightarrow> assignment \<Rightarrow> bool" where
  stop: "settles [] a a"
| skipped: "\<not> is_active a d \<Longrightarrow> settles ds a b \<Longrightarrow> settles (d # ds) a b"
| chosen: "is_active a d \<Longrightarrow> p \<in> points_of d \<Longrightarrow> settles ds (btree_insert (dim_id d) p a) b \<Longrightarrow> settles (d # ds) a b"

inductive_simps settles_simps: "settles [] a b" "settles (d # ds) a b"

lemma settles_later:
  "settles ds a b \<Longrightarrow> btree_map a \<Longrightarrow> k \<notin> dim_id ` set ds \<Longrightarrow> map_of b k = map_of a k"
  by (induction rule: settles.induct) (auto simp: btree_map_insert map_of_btree_insert)

lemma settles_btree: "settles ds a b \<Longrightarrow> btree_map a \<Longrightarrow> btree_map b"
  by (induction rule: settles.induct) (auto simp: btree_map_insert)

lemma settles_keys: "settles ds a b \<Longrightarrow> fst ` set b \<subseteq> fst ` set a \<union> dim_id ` set ds"
  by (induction rule: settles.induct) (auto simp: fst_btree_insert)

lemma active_cong: "(\<And>g. g \<in> set (dim_gates d) \<Longrightarrow> map_of a (gate_dimension g) = map_of b (gate_dimension g)) \<Longrightarrow>
  is_active a d = is_active b d"
  by (auto simp: is_active_def gate_holds_def list_all_iff)

lemma settles_valid:
  assumes "settles ds a b" and "btree_map a" and "parents_first K ds" and "distinct (map dim_id ds)"
    and "gate_dimension ` K \<inter> dim_id ` set ds = {}" and "fst ` set a \<inter> dim_id ` set ds = {}"
  shows "\<forall>d \<in> set ds. (map_of b (dim_id d) \<noteq> None) = is_active b d
    \<and> (\<forall>p. map_of b (dim_id d) = Some p \<longrightarrow> p \<in> points_of d)"
  using assms
proof (induction arbitrary: K rule: settles.induct)
  case (skipped a d ds b)
  have gates: "gate_dimension ` (K \<union> dim_gates_of d) \<inter> dim_id ` set ds = {}"
    using skipped.prems by (auto simp: dim_gates_of_def)
  have rest: "\<forall>d \<in> set ds. (map_of b (dim_id d) \<noteq> None) = is_active b d \<and> (\<forall>p. map_of b (dim_id d) = Some p \<longrightarrow> p \<in> points_of d)"
    by (rule skipped.IH [OF skipped.prems(1) _ _ gates]) (use skipped.prems in auto)
  have later: "map_of b k = map_of a k" if "k \<notin> dim_id ` set ds" for k
    using settles_later [OF skipped.hyps(2) skipped.prems(1) that] .
  have "map_of b (dim_id d) = None"
    using later [of "dim_id d"] skipped.prems by (auto simp: map_of_eq_None_iff)
  moreover have "is_active b d = is_active a d"
  proof (rule active_cong)
    fix g assume "g \<in> set (dim_gates d)"
    then have "gate_dimension g \<in> gate_dimension ` K" using skipped.prems(2) by auto
    then show "map_of b (gate_dimension g) = map_of a (gate_dimension g)" using skipped.prems(4) by (intro later) auto
  qed
  ultimately show ?case using rest skipped.hyps(1) by simp
next
  case (chosen a d p ds b)
  let ?a = "btree_insert (dim_id d) p a"
  have gates: "gate_dimension ` (K \<union> dim_gates_of d) \<inter> dim_id ` set ds = {}"
    using chosen.prems by (auto simp: dim_gates_of_def)
  have btree: "btree_map ?a" using chosen.prems(1) by (rule btree_map_insert)
  have rest: "\<forall>d \<in> set ds. (map_of b (dim_id d) \<noteq> None) = is_active b d \<and> (\<forall>p. map_of b (dim_id d) = Some p \<longrightarrow> p \<in> points_of d)"
    by (rule chosen.IH [OF btree _ _ gates]) (use chosen.prems in \<open>auto simp: fst_btree_insert\<close>)
  have later: "map_of b k = map_of ?a k" if "k \<notin> dim_id ` set ds" for k
    using settles_later [OF chosen.hyps(3) btree that] .
  have here: "map_of b (dim_id d) = Some p"
    using later [of "dim_id d"] chosen.prems by (auto simp: map_of_btree_insert)
  moreover have "is_active b d = is_active a d"
  proof (rule active_cong)
    fix g assume g: "g \<in> set (dim_gates d)"
    then have "gate_dimension g \<in> gate_dimension ` K" using chosen.prems(2) by auto
    with chosen.prems(4) have "gate_dimension g \<notin> dim_id ` set ds" "gate_dimension g \<noteq> dim_id d" by auto
    with later [of "gate_dimension g"] show "map_of b (gate_dimension g) = map_of a (gate_dimension g)"
      using chosen.prems(1) by (simp add: map_of_btree_insert)
  qed
  ultimately show ?case using rest chosen.hyps(1,2) by simp
qed simp

lemma settled_valid:
  assumes "space_ok space" and "settles space [] a"
  shows "valid_assignment space a"
  using settles_valid [OF assms(2), of "{}"] settles_btree [OF assms(2)] settles_keys [OF assms(2)] assms(1)
  by (auto simp: space_ok_def valid_assignment_def btree_map_def)

lemma btree_map_eq: "btree_map a \<Longrightarrow> btree_map b \<Longrightarrow> map_of a = map_of b \<Longrightarrow> a = b"
proof -
  assume a: "btree_map a" and b: "btree_map b" and eq: "map_of a = map_of b"
  then have d: "distinct (map fst a)" "distinct (map fst b)" by (simp_all add: btree_map_index_map [unfolded index_map_def])
  have "set a = set b" using eq d by (metis map_of_inject_set)
  moreover have "sorted (map fst a)" "sorted (map fst b)" using a b by (simp_all add: btree_map_def strict_sorted_iff)
  ultimately show ?thesis using d map_sorted_distinct_set_unique [of fst a b] by (auto simp: distinct_map)
qed

lemma parents_gates:
  "parents_first K (xs @ d # ds) \<Longrightarrow> g \<in> set (dim_gates d) \<Longrightarrow> g \<in> K \<union> (\<Union>x \<in> set xs. dim_gates_of x)"
proof (induction xs arbitrary: K)
  case (Cons x xs)
  then have "parents_first (K \<union> dim_gates_of x) (xs @ d # ds)" by simp
  from Cons.IH [OF this Cons.prems(2)] show ?case by auto
qed auto

lemma valid_settles:
  assumes "valid_assignment space b" and "space_ok space" and "space = before @ ds" and "btree_map a"
    and "map_of a = map_of b |` (dim_id ` set before)"
  shows "settles ds a b"
  using assms(3-)
proof (induction ds arbitrary: before a)
  case Nil
  have "map_of b k = None" if "k \<notin> dim_id ` set before" for k
    using assms(1) Nil(1) that by (auto simp: valid_assignment_def map_of_eq_None_iff)
  then have "map_of a = map_of b" using Nil(3) by (auto simp: restrict_map_def fun_eq_iff)
  then have "a = b" using Nil(2) assms(1) by (metis btree_map_eq valid_assignment_def)
  then show ?case by (simp add: settles.stop)
next
  case (Cons d ds)
  have d: "d \<in> set space" and new: "dim_id d \<notin> dim_id ` set before"
    using Cons.prems(1) assms(2) by (auto simp: space_ok_def)
  have gates: "gate_dimension g \<in> dim_id ` set before" if "g \<in> set (dim_gates d)" for g
    using parents_gates [of "{}" before d ds g] that assms(2) Cons.prems(1) by (auto simp: space_ok_def dim_gates_of_def)
  have active: "is_active a d = is_active b d"
    by (rule active_cong) (simp add: Cons.prems(3) gates)
  show ?case
  proof (cases "map_of b (dim_id d)")
    case None
    with assms(1) d have "\<not> is_active b d" by (auto simp: valid_assignment_def)
    moreover have "map_of a = map_of b |` (dim_id ` set (before @ [d]))"
      using None by (auto simp: Cons.prems(3) restrict_map_def fun_eq_iff)
    ultimately show ?thesis
      using Cons.IH [of "before @ [d]" a] Cons.prems active by (auto intro: settles.skipped)
  next
    case (Some p)
    with assms(1) d have p: "is_active b d" "p \<in> points_of d" by (auto simp: valid_assignment_def)
    have "map_of (btree_insert (dim_id d) p a) = map_of b |` (dim_id ` set (before @ [d]))"
      using Some by (auto simp: map_of_btree_insert [OF Cons.prems(2)] Cons.prems(3) restrict_map_def fun_eq_iff)
    with Cons.IH [of "before @ [d]" "btree_insert (dim_id d) p a"] Cons.prems active p
    show ?thesis by (auto intro: settles.chosen btree_map_insert)
  qed
qed

lemma valid_iff_settles: "space_ok space \<Longrightarrow> valid_assignment space a \<longleftrightarrow> settles space [] a"
  using settled_valid valid_settles [of space a "[]" space "[]"] by (auto simp: btree_map_def)

subsection \<open>Completing\<close>

definition point_known :: "dimension list \<Rightarrow> assignment \<Rightarrow> bool" where
  "point_known ds a \<longleftrightarrow> (\<forall>d \<in> set ds. \<forall>p. map_of a (dim_id d) = Some p \<longrightarrow> p \<in> points_of d)"

lemma complete_from_settles:
  "point_known ds partial \<Longrightarrow> list_all dimension_ok ds \<Longrightarrow> settles ds a (complete_from partial ds a)"
  by (induction partial ds a rule: complete_from.induct)
    (auto simp: settles_simps point_known_def dimension_ok_def points_of_def split: option.split)

lemma complete_valid:
  assumes "space_ok space" and "point_known space partial"
  shows "valid_assignment space (complete_assignment space partial)"
  using settled_valid [OF assms(1)] complete_from_settles [OF assms(2)] assms(1)
  by (simp add: complete_assignment_def space_ok_def)

lemma known_pair_point:
  "distinct (map dim_id space) \<Longrightarrow> known_pair space (dim_id d, p) \<Longrightarrow> d \<in> set space \<Longrightarrow> p \<in> points_of d"
  by (auto simp: known_pair_def distinct_map dest: inj_onD)

lemma known_pairs_point:
  assumes "distinct (map dim_id space)" and "known_pairs space a"
  shows "point_known space a"
  unfolding point_known_def
proof (intro ballI allI impI)
  fix d p assume "d \<in> set space" and "map_of a (dim_id d) = Some p"
  with assms show "p \<in> points_of d"
    by (auto simp: known_pairs_def list_all_iff intro!: known_pair_point [OF assms(1)] dest!: map_of_SomeD)
qed

lemma known_pairs_complete: "space_ok space \<Longrightarrow> known_pairs space a \<Longrightarrow> valid_assignment space (complete_assignment space a)"
  by (rule complete_valid) (auto simp: space_ok_def intro: known_pairs_point)

lemma set_btree_insert_old: "set (btree_insert k v m) \<subseteq> insert (k, v) (set m)"
  by (induction k v m rule: btree_insert.induct) auto

lemma known_pairs_Nil [simp]: "known_pairs space []"
  by (simp add: known_pairs_def btree_map_def)

lemma known_pairs_insert:
  "known_pairs space a \<Longrightarrow> known_pair space (d, p) \<Longrightarrow> known_pairs space (btree_insert d p a)"
  using set_btree_insert_old [of d p a] by (auto simp: known_pairs_def btree_map_insert list_all_iff)

lemma known_pair_dim: "d \<in> set space \<Longrightarrow> p \<in> set (dim_points d) \<Longrightarrow> known_pair space (dim_id d, pt_name p)"
  by (auto simp: known_pair_def points_of_def)

lemma valid_known: "valid_assignment space a \<Longrightarrow> known_pairs space a"
proof -
  assume a: "valid_assignment space a"
  have "known_pair space (k, p)" if "(k, p) \<in> set a" for k p
  proof -
    from a that obtain d where d: "d \<in> set space" "k = dim_id d" by (force simp: valid_assignment_def)
    have "map_of a k = Some p" using a that by (auto simp: valid_assignment_def dest!: btree_map_index_map simp: index_map_def)
    with a d show ?thesis by (auto simp: known_pair_def valid_assignment_def)
  qed
  with a show ?thesis by (auto simp: known_pairs_def valid_assignment_def list_all_iff)
qed

subsection \<open>Enumerating\<close>

lemma enumerate_settles:
  "set (enumerate_all exclusions ds a) = {b. settles ds a b \<and> \<not> matching_exclusion b exclusions}"
proof (induction ds arbitrary: a)
  case (Cons d ds)
  show ?case
  proof (cases "is_active a d")
    case True
    have "set (enumerate_all exclusions (d # ds) a) =
      (\<Union>p \<in> set (dim_points d). {b. settles ds (btree_insert (dim_id d) (pt_name p) a) b \<and> \<not> matching_exclusion b exclusions})"
      using True by (simp add: Cons)
    also have "\<dots> = {b. settles (d # ds) a b \<and> \<not> matching_exclusion b exclusions}"
      using True by (auto simp: settles_simps points_of_def)
    finally show ?thesis .
  qed (simp add: Cons settles_simps)
qed (auto simp: settles_simps)

lemma enumerated_valid:
  "space_ok space \<Longrightarrow>
   set (enumerate_all exclusions space []) = {a. valid_assignment space a \<and> \<not> matching_exclusion a exclusions}"
  by (simp add: enumerate_settles valid_iff_settles)

subsection \<open>The boundaries\<close>

definition facet_ok :: "dimension \<Rightarrow> bool" where
  "facet_ok d \<longleftrightarrow>
     (dim_facet d = ''presence'' \<longrightarrow> {''present'', ''absent''} \<subseteq> points_of d)
     \<and> (dim_facet d = ''nullability'' \<longrightarrow> {''non-null'', ''null''} \<subseteq> points_of d)"

lemma fold_member:
  assumes "\<And>x best r. step x best = Some r \<Longrightarrow> r = x \<or> best = Some r"
  shows "fold step items best = Some r \<Longrightarrow> r \<in> set items \<or> best = Some r"
proof (induction items arbitrary: best)
  case (Cons x items)
  from Cons.IH [of "step x best"] Cons.prems assms [of x best r] show ?case by auto
qed simp

lemma first_extreme_member: "first_extreme items minimal = Some name \<Longrightarrow> name \<in> snd ` set items"
proof -
  assume "first_extreme items minimal = Some name"
  then obtain key where "fold (\<lambda>(key, name) best.
       case best of
         None \<Rightarrow> Some (key, name)
       | Some (bk, bn) \<Rightarrow> if (minimal \<and> key < bk) \<or> (\<not> minimal \<and> bk < key) then Some (key, name) else best) items None
      = Some (key, name)" by (auto simp: first_extreme_def)
  then have "(key, name) \<in> set items \<or> None = Some (key, name)"
    by (rule fold_member [rotated]) (auto split: prod.splits option.splits if_splits)
  then show ?thesis by force
qed

lemma boundary_point_known:
  assumes "boundary_point space minimal d = Some p" and "facet_ok d" and "dimension_ok d"
  shows "p \<in> points_of d"
proof -
  have dflt: "dim_default d \<in> points_of d" using assms(3) by (simp add: dimension_ok_def points_of_def)
  have sized: "p \<in> points_of d" if "first_extreme (map (\<lambda>p. (f p, pt_name p)) (dim_points d)) minimal = Some p" for f
    using first_extreme_member [OF that] by (auto simp: points_of_def)
  have counted: "p \<in> points_of d" if "first_extreme (zip counts (map pt_name (dim_points d))) minimal = Some p" for counts
    using first_extreme_member [OF that] by (auto simp: points_of_def dest: set_zip_rightD)
  note point = assms(1) [unfolded boundary_point_def]
  show ?thesis
  proof (cases "dim_facet d = ''presence''")
    case True
    from point have "p = (if minimal then ''absent'' else ''present'')" unfolding if_P [OF True] by simp
    with assms(2) True show ?thesis by (simp add: facet_ok_def)
  next
    case not_presence: False
    show ?thesis
    proof (cases "dim_facet d = ''nullability''")
      case True
      from point have "p = (if minimal then ''null'' else ''non-null'')" unfolding if_not_P [OF not_presence] if_P [OF True] by simp
      with assms(2) True show ?thesis by (simp add: facet_ok_def)
    next
      case False
      note point' = point [unfolded if_not_P [OF not_presence] if_not_P [OF False]]
      show ?thesis
      proof (cases "dim_facet d = ''cardinality''")
        case True
        show ?thesis using point' [unfolded if_P [OF True]] dflt sized by (auto split: option.splits)
      next
        case False
        show ?thesis
        proof (cases "dim_facet d = ''alternative''")
          case True
          show ?thesis using point' [unfolded if_not_P [OF False] if_P [OF True]] dflt counted by (auto split: option.splits)
        next
          case not_alternative: False
          show ?thesis using point' [unfolded if_not_P [OF False] if_not_P [OF not_alternative]] dflt by simp
        qed
      qed
    qed
  qed
qed

lemma boundary_settles:
  "boundary_from space minimal ds a = Some b \<Longrightarrow> list_all facet_ok ds \<Longrightarrow> list_all dimension_ok ds \<Longrightarrow> settles ds a b"
  by (induction space minimal ds a rule: boundary_from.induct)
    (auto simp: settles_simps split: if_splits option.splits intro: boundary_point_known)

lemma boundary_valid:
  assumes "boundary_partial space minimal = Some a" and "space_ok space" and "list_all facet_ok space"
  shows "valid_assignment space a"
  using settled_valid [OF assms(2)] boundary_settles [of space minimal space "[]" a] assms
  by (simp add: boundary_partial_def space_ok_def)

end
