(* ===== verification/Sampler_Cover.thy ===== *)
theory Sampler_Cover
  imports Sampler_Laws
begin

text \<open>
  The covering algorithm: the processing order always exists, every row names dimensions of the space at
  points of theirs, and over a space without gates every target ends up in a row.
\<close>

subsection \<open>The processing order\<close>

lemma index_of_id:
  assumes "distinct (map dim_id space)" and "i < length space"
  shows "hashed_get (map (\<lambda>(i, x). (dim_id x, i)) (List.enumerate 0 space)) (dim_id (space ! i)) = Some i"
proof -
  let ?es = "map (\<lambda>(i, x). (dim_id x, i)) (List.enumerate 0 space)"
  have keys: "map fst ?es = map dim_id space"
    by (rule nth_equalityI) (auto simp: nth_enumerate_eq)
  have "(dim_id (space ! i), i) \<in> set (rev ?es)"
    using assms(2) by (force simp: in_set_conv_nth nth_enumerate_eq)
  moreover have "distinct (map fst (rev ?es))" using assms(1) keys by (simp add: rev_map [symmetric])
  ultimately show ?thesis by (simp add: hashed_get_def)
qed

lemma fold_best:
  assumes "\<And>i best. P i \<Longrightarrow> step i best = Some i \<or> (best \<noteq> None \<and> step i best = best)"
    and "\<And>i best. \<not> P i \<Longrightarrow> step i best = best"
  shows "(case fold step xs best of None \<Rightarrow> best = None \<and> (\<forall>i \<in> set xs. \<not> P i)
    | Some b \<Rightarrow> best = Some b \<or> (b \<in> set xs \<and> P b))"
proof (induction xs arbitrary: best)
  case (Cons x xs)
  show ?case
  proof (cases "P x")
    case True
    with Cons [of "step x best"] assms(1) [OF True, of best] show ?thesis by (auto split: option.splits)
  next
    case False
    with Cons [of "step x best"] assms(2) [OF False, of best] show ?thesis by (auto split: option.splits)
  qed
qed (simp split: option.split)

lemma best_ready_cases:
  "case best_ready space order of
     None \<Rightarrow> \<forall>i < length space. i \<in> set order \<or> \<not> gates_placed space order (space ! i)
   | Some b \<Rightarrow> b < length space \<and> b \<notin> set order \<and> gates_placed space order (space ! b)"
proof -
  let ?P = "\<lambda>i. \<not> (i \<in> set order \<or> \<not> gates_placed space order (space ! i))"
  have "case best_ready space order of None \<Rightarrow> (None :: nat option) = None \<and> (\<forall>i \<in> set [0..<length space]. \<not> ?P i)
    | Some b \<Rightarrow> (None :: nat option) = Some b \<or> (b \<in> set [0..<length space] \<and> ?P b)"
    unfolding best_ready_def by (rule fold_best [where P = ?P]) (auto split: option.split)
  then show ?thesis by (auto split: option.splits)
qed

lemma gates_earlier:
  assumes "parents_first {} space" and "i < length space" and "g \<in> set (dim_gates (space ! i))"
  shows "\<exists>j < i. g \<in> dim_gates_of (space ! j)"
proof -
  have "space = take i space @ space ! i # drop (Suc i) space" using assms(2) by (simp add: id_take_nth_drop)
  with parents_gates [of "{}" "take i space" "space ! i" "drop (Suc i) space" g] assms
  have "g \<in> (\<Union>x \<in> set (take i space). dim_gates_of x)" by simp
  then obtain x where x: "x \<in> set (take i space)" "g \<in> dim_gates_of x" by blast
  then obtain j where "j < i" "x = space ! j" by (auto simp: in_set_conv_nth)
  with x(2) show ?thesis by blast
qed

definition gates_before :: "dimension list \<Rightarrow> nat list \<Rightarrow> bool" where
  "gates_before space order \<longleftrightarrow>
     (\<forall>k < length order. \<forall>g \<in> set (dim_gates (space ! (order ! k))). \<exists>j < k. dim_id (space ! (order ! j)) = gate_dimension g)"

lemma gates_placed_dims:
  assumes "gates_placed space order d" and "g \<in> set (dim_gates d)"
  shows "\<exists>i \<in> set order. i < length space \<and> dim_id (space ! i) = gate_dimension g"
proof -
  from assms obtain i where i: "hashed_get (map (\<lambda>(i, x). (dim_id x, i)) (List.enumerate 0 space)) (gate_dimension g) = Some i" "i \<in> set order"
    by (auto simp: gates_placed_def list_all_iff split: option.splits)
  from i(1) have "(gate_dimension g, i) \<in> (\<lambda>(i, x). (dim_id x, i)) ` set (List.enumerate 0 space)"
    unfolding hashed_get_def by (force dest: map_of_SomeD)
  then obtain x where "(i, x) \<in> set (List.enumerate 0 space)" "dim_id x = gate_dimension g" by auto
  with i(2) show ?thesis by (auto simp: in_set_enumerate_eq)
qed

lemma placed_step:
  assumes space: "parents_first {} space" "distinct (map dim_id space)"
    and order: "distinct order" "set order \<subseteq> {..<length space}" "gates_before space order" "length order < length space"
  shows "\<exists>b. best_ready space order = Some b \<and> distinct (order @ [b]) \<and> set (order @ [b]) \<subseteq> {..<length space}
    \<and> gates_before space (order @ [b])"
proof (cases "best_ready space order")
  case None
  have "\<exists>i. i < length space \<and> i \<notin> set order"
  proof (rule ccontr)
    assume "\<not> ?thesis"
    then have "{..<length space} \<subseteq> set order" by auto
    from card_mono [OF _ this] have "length space \<le> length order" using distinct_card [OF order(1)] by simp
    with order(4) show False by simp
  qed
  then obtain i where i: "i < length space" "i \<notin> set order" "\<And>j. j < i \<Longrightarrow> j \<in> set order"
  proof -
    let ?Q = "\<lambda>i. i < length space \<and> i \<notin> set order"
    assume hyp: "\<And>i. i < length space \<Longrightarrow> i \<notin> set order \<Longrightarrow> (\<And>j. j < i \<Longrightarrow> j \<in> set order) \<Longrightarrow> thesis"
    from \<open>\<exists>i. ?Q i\<close> obtain i where "?Q i" "\<forall>j < i. \<not> ?Q j" using exists_least_iff [of ?Q] by blast
    then show thesis by (intro hyp [of i]) auto
  qed
  have "gates_placed space order (space ! i)"
    unfolding gates_placed_def list_all_iff
  proof
    fix g assume "g \<in> set (dim_gates (space ! i))"
    from gates_earlier [OF space(1) i(1) this] obtain j where j: "j < i" "gate_dimension g = dim_id (space ! j)"
      by (auto simp: dim_gates_of_def)
    have "hashed_get (map (\<lambda>(i, x). (dim_id x, i)) (List.enumerate 0 space)) (gate_dimension g) = Some j"
      unfolding j(2) by (rule index_of_id [OF space(2)]) (use j(1) i(1) in simp)
    with i(3) [OF j(1)] show "case hashed_get (map (\<lambda>(i, x). (dim_id x, i)) (List.enumerate 0 space)) (gate_dimension g) of
        None \<Rightarrow> False | Some i \<Rightarrow> i \<in> set order" by simp
  qed
  moreover from best_ready_cases [of space order, unfolded None option.case] i(1,2)
  have "\<not> gates_placed space order (space ! i)" by blast
  ultimately show ?thesis by simp
next
  case (Some b)
  with best_ready_cases [of space order] have b: "b < length space" "b \<notin> set order" "gates_placed space order (space ! b)" by simp_all
  have "gates_before space (order @ [b])"
    unfolding gates_before_def
  proof (intro allI impI ballI)
    fix k g assume k: "k < length (order @ [b])" and g: "g \<in> set (dim_gates (space ! ((order @ [b]) ! k)))"
    show "\<exists>j < k. dim_id (space ! ((order @ [b]) ! j)) = gate_dimension g"
    proof (cases "k = length order")
      case True
      with g have "g \<in> set (dim_gates (space ! b))" by simp
      from gates_placed_dims [OF b(3) this] obtain i where i: "i \<in> set order" "dim_id (space ! i) = gate_dimension g" by blast
      from i(1) obtain j where "j < length order" "order ! j = i" by (auto simp: in_set_conv_nth)
      with i(2) show ?thesis unfolding True by (intro exI [of _ j]) (simp add: nth_append)
    next
      case False
      with k have k': "k < length order" by simp
      then have "g \<in> set (dim_gates (space ! (order ! k)))" using g by (simp add: nth_append)
      with order(3) k' obtain j where "j < k" "dim_id (space ! (order ! j)) = gate_dimension g"
        unfolding gates_before_def by blast
      with k' show ?thesis by (intro exI [of _ j]) (simp add: nth_append)
    qed
  qed
  with Some b order show ?thesis by auto
qed

lemma placed:
  assumes "parents_first {} space" "distinct (map dim_id space)"
  shows "distinct order \<Longrightarrow> set order \<subseteq> {..<length space} \<Longrightarrow> gates_before space order \<Longrightarrow> n + length order = length space \<Longrightarrow>
    \<exists>full. place_from space n order = Some full \<and> distinct full \<and> set full \<subseteq> {..<length space} \<and> length full = length space
      \<and> gates_before space full"
proof (induction n arbitrary: order)
  case (Suc n)
  then have "length order < length space" by simp
  from placed_step [OF assms Suc.prems(1-3) this] obtain b where b: "best_ready space order = Some b"
    "distinct (order @ [b])" "set (order @ [b]) \<subseteq> {..<length space}" "gates_before space (order @ [b])" by blast
  from Suc.IH [OF b(2-4)] Suc.prems(4) b(1) show ?case by simp
qed auto

lemma processing_order_ok:
  assumes "space_ok space"
  shows "\<exists>order. processing_order space = Some order \<and> distinct order \<and> set order = {..<length space} \<and> gates_before space order"
proof -
  from placed [of space "[]" "length space"] assms obtain full where full: "processing_order space = Some full" "distinct full"
    "set full \<subseteq> {..<length space}" "length full = length space" "gates_before space full"
    by (auto simp: space_ok_def processing_order_def gates_before_def)
  then have "set full = {..<length space}" by (metis card_subset_eq card_lessThan distinct_card finite_lessThan)
  with full show ?thesis by blast
qed

subsection \<open>Rows name points\<close>

lemma gate_known:
  assumes "space_ok space" and "d \<in> set space" and "g \<in> set (dim_gates d)"
  shows "known_pair space (gate_dimension g, gate_point g)"
proof -
  from assms(2) obtain i where "i < length space" "space ! i = d" by (auto simp: in_set_conv_nth)
  with gates_earlier [of space i g] assms(1,3) obtain j where "j < i" "g \<in> dim_gates_of (space ! j)"
    by (auto simp: space_ok_def)
  moreover from this(1) have "j < length space" using \<open>i < length space\<close> by simp
  ultimately have "j < length space" "g \<in> dim_gates_of (space ! j)" by simp_all
  then show ?thesis by (auto simp: dim_gates_of_def known_pair_def points_of_def)
qed

lemma by_id_member: "by_id space k = Some d \<Longrightarrow> d \<in> set space \<and> dim_id d = k"
  by (auto simp: by_id_def hashed_get_def dest!: map_of_SomeD)

lemma by_id_of: "distinct (map dim_id space) \<Longrightarrow> d \<in> set space \<Longrightarrow> by_id space (dim_id d) = Some d"
  unfolding by_id_def hashed_get_def
  by (rule map_of_is_SomeI) (auto simp: rev_map [symmetric] comp_def)

lemma require_pair_known:
  "require_pair d p reqs = Some r \<Longrightarrow> known_pairs space reqs \<Longrightarrow> known_pair space (d, p) \<Longrightarrow> known_pairs space r"
  by (auto split: option.splits if_splits intro: known_pairs_insert)

lemma require_gates_known:
  "require_gates gs reqs = Some r \<Longrightarrow> known_pairs space reqs \<Longrightarrow>
   (\<And>g. g \<in> set gs \<Longrightarrow> known_pair space (gate_dimension g, gate_point g)) \<Longrightarrow> known_pairs space r"
proof (induction gs arbitrary: reqs)
  case (Cons g gs)
  from Cons.prems(1) obtain r' where r': "require_pair (gate_dimension g) (gate_point g) reqs = Some r'" "require_gates gs r' = Some r"
    by (auto simp del: require_pair.simps split: bind_splits)
  have "known_pairs space r'" by (rule require_pair_known [OF r'(1) Cons.prems(2)]) (rule Cons.prems(3), simp)
  from Cons.IH [OF r'(2) this] Cons.prems(3) show ?case by simp
qed simp

lemma requirements_known:
  assumes "space_ok space"
  shows "requirements_from space pairs reqs = Some r \<Longrightarrow> known_pairs space reqs \<Longrightarrow> list_all (known_pair space) pairs \<Longrightarrow>
    known_pairs space r"
proof (induction pairs arbitrary: reqs)
  case (Cons x pairs)
  obtain d p where x: "x = (d, p)" by (cases x)
  from Cons.prems(1) obtain r1 dim r2 where r: "require_pair d p reqs = Some r1" "by_id space d = Some dim"
    "require_gates (dim_gates dim) r1 = Some r2" "requirements_from space pairs r2 = Some r"
    by (auto simp: x simp del: require_pair.simps split: bind_splits)
  have r1: "known_pairs space r1" using require_pair_known [OF r(1) Cons.prems(2)] Cons.prems(3) by (simp add: x)
  have "known_pairs space r2"
    by (rule require_gates_known [OF r(3) r1]) (use gate_known [OF assms] by_id_member [OF r(2)] in blast)
  from Cons.IH [OF r(4) this] Cons.prems(3) show ?case by simp
qed simp

lemma target_requirements_known:
  "space_ok space \<Longrightarrow> target_requirements space t = Some r \<Longrightarrow> known_pairs space t \<Longrightarrow> known_pairs space r"
  using requirements_known [of space t "[]" r] by (simp add: target_requirements_def known_pairs_def [of space t])

lemma cartesian_known:
  "known_pairs space cur \<Longrightarrow> set ds \<subseteq> set space \<Longrightarrow> t \<in> set (cartesian_points ds cur) \<Longrightarrow> known_pairs space t"
proof (induction ds arbitrary: cur)
  case (Cons d ds)
  then obtain p where p: "p \<in> set (dim_points d)" "t \<in> set (cartesian_points ds (btree_insert (dim_id d) (pt_name p) cur))"
    by auto
  from Cons.IH [OF _ _ p(2)] known_pairs_insert [OF Cons.prems(1) known_pair_dim [of d space p]] p(1) Cons.prems(2)
  show ?case by simp
qed simp

lemma block_is_enumeration: "build_initial_block exclusions ds cur = enumerate_all exclusions ds cur"
proof (induction ds arbitrary: cur)
  case (Cons d ds)
  then show ?case by (simp cong: map_cong)
qed simp

lemma enumerate_known:
  "known_pairs space cur \<Longrightarrow> set ds \<subseteq> set space \<Longrightarrow> a \<in> set (enumerate_all exclusions ds cur) \<Longrightarrow> known_pairs space a"
proof (induction ds arbitrary: cur)
  case (Cons d ds)
  show ?case
  proof (cases "is_active cur d")
    case True
    with Cons.prems(3) obtain p where p: "p \<in> set (dim_points d)"
      "a \<in> set (enumerate_all exclusions ds (btree_insert (dim_id d) (pt_name p) cur))" by auto
    from Cons.IH [OF _ _ p(2)] known_pairs_insert [OF Cons.prems(1) known_pair_dim [of d space p]] p(1) Cons.prems(2)
    show ?thesis by simp
  next
    case False
    with Cons show ?thesis by simp
  qed
qed (simp split: if_splits)

lemma fold_fst_member:
  assumes "\<And>x best n p. fst (step x (best, n)) = Some p \<Longrightarrow> f x = p \<or> best = Some p"
  shows "fst (fold step xs (best, n)) = Some p \<Longrightarrow> p \<in> f ` set xs \<or> best = Some p"
proof (induction xs arbitrary: best n)
  case (Cons x xs)
  obtain best' n' where b: "step x (best, n) = (best', n')" by fastforce
  from Cons b assms [of x best n p] show ?case by auto
qed simp

lemma best_point_known: "best_point d exclusions tau targets = Some p \<Longrightarrow> p \<in> points_of d"
  unfolding best_point_def points_of_def
  by (drule fold_fst_member [where f = pt_name, rotated]) (auto simp: Let_def split: if_splits)

lemma grow_rows_known:
  "grow_rows d exclusions ts targets = (ts', targets') \<Longrightarrow> list_all (known_pairs space) ts \<Longrightarrow> d \<in> set space \<Longrightarrow>
   list_all (known_pairs space) ts' \<and> set targets' \<subseteq> set targets"
proof (induction d exclusions ts targets arbitrary: ts' targets' rule: grow_rows.induct)
  case (2 d exclusions tau ts targets)
  let ?here = "if \<not> is_active tau d then (tau, targets)
         else case best_point d exclusions tau targets of
                None \<Rightarrow> (tau, targets)
              | Some p \<Rightarrow>
                  let tau = btree_insert (dim_id d) p tau in (tau, filter (\<lambda>t. \<not> is_covered t tau) targets)"
  obtain tau1 targets1 where here: "?here = (tau1, targets1)" by fastforce
  obtain ts2 targets2 where rest: "grow_rows d exclusions ts targets1 = (ts2, targets2)" by fastforce
  have out: "ts' = tau1 # ts2" "targets' = targets2" using 2(2) here rest by simp_all
  have tau: "known_pairs space tau" using 2(3) by simp
  have one: "known_pairs space tau1 \<and> set targets1 \<subseteq> set targets"
    using here tau 2(4) best_point_known [of d exclusions tau targets]
    by (auto simp: Let_def known_pair_def split: if_splits option.splits intro!: known_pairs_insert)
  have ts: "list_all (known_pairs space) ts" using 2(3) by simp
  from 2(1) [OF here [symmetric] refl rest ts 2(4)] one show ?case by (auto simp: out)
qed simp

lemma or_insert_known:
  "list_all (known_pair space) reqs \<Longrightarrow> known_pairs space tau \<Longrightarrow> known_pairs space (or_insert_all reqs tau)"
  unfolding or_insert_all_def
proof (induction reqs arbitrary: tau)
  case (Cons x reqs)
  obtain d p where x: "x = (d, p)" by (cases x)
  from Cons.prems have "known_pairs space (if contains_key tau d then tau else btree_insert d p tau)"
    by (auto simp: x intro: known_pairs_insert)
  from Cons.IH [OF _ this] Cons.prems(1) show ?case by (simp add: x)
qed simp

lemma cover_target_known:
  assumes "space_ok space" and "cover_target space t (ts, targets) = (ts', targets')" and "list_all (known_pairs space) ts"
    and "known_pairs space t"
  shows "list_all (known_pairs space) ts' \<and> set targets' \<subseteq> set targets"
proof -
  have reqs: "known_pairs space r" if "target_requirements space t = Some r" for r
    using target_requirements_known [OF assms(1) that assms(4)] .
  have upd: "list_all (known_pairs space) (ts[i := or_insert_all r (ts ! i)])" if "i < length ts" "known_pairs space r" for i r
    using assms(3) that by (auto simp: list_all_iff known_pairs_def [of space r] dest!: set_update_subset_insert [THEN subsetD]
        intro!: or_insert_known)
  show ?thesis
    using assms(2,3) reqs upd
    by (auto simp: Let_def split: if_splits option.splits dest!: position_SomeD)
qed

lemma cover_all_known:
  assumes "space_ok space"
  shows "fold (cover_target space) work (ts, targets) = (ts', targets') \<Longrightarrow> list_all (known_pairs space) ts \<Longrightarrow>
    list_all (known_pairs space) work \<Longrightarrow> list_all (known_pairs space) ts' \<and> set targets' \<subseteq> set targets"
proof (induction work arbitrary: ts targets)
  case (Cons t work)
  obtain ts1 targets1 where one: "cover_target space t (ts, targets) = (ts1, targets1)" by fastforce
  from cover_target_known [OF assms one Cons.prems(2)] Cons.prems(3) have "list_all (known_pairs space) ts1" "set targets1 \<subseteq> set targets"
    by simp_all
  with Cons.IH [of ts1 targets1] Cons.prems one show ?case by auto
qed simp

lemma grow_all_known:
  assumes "space_ok space"
  shows "grow_all space exclusions processed ds (ts, targets) = (ts', targets') \<Longrightarrow> set ds \<subseteq> set space \<Longrightarrow>
    list_all (known_pairs space) ts \<Longrightarrow> list_all (known_pairs space) targets \<Longrightarrow> list_all (known_pairs space) ts'"
proof (induction ds arbitrary: processed ts targets)
  case (Cons d ds)
  obtain ts1 targets1 where rows: "grow_rows d exclusions ts targets = (ts1, targets1)" by fastforce
  let ?work = "filter (\<lambda>t. contains_key t (dim_id d) \<and> list_all (\<lambda>k. k \<in> set (dim_id d # processed)) (map fst t)) targets1"
  obtain ts2 targets2 where cover: "fold (cover_target space) ?work (ts1, targets1) = (ts2, targets2)" by fastforce
  have dim: "grow_dimension space exclusions (dim_id d # processed) d (ts, targets) = (ts2, targets2)"
    by (simp only: grow_dimension_def prod.case rows cover)
  from grow_rows_known [OF rows Cons.prems(3)] Cons.prems(2) have 1: "list_all (known_pairs space) ts1" "set targets1 \<subseteq> set targets"
    by simp_all
  then have "list_all (known_pairs space) ?work" using Cons.prems(4) by (auto simp: list_all_iff)
  from cover_all_known [OF assms cover 1(1) this] have 2: "list_all (known_pairs space) ts2" "set targets2 \<subseteq> set targets1" by simp_all
  have "list_all (known_pairs space) targets2" using 1(2) 2(2) Cons.prems(4) by (auto simp: list_all_iff)
  with Cons.IH [of "dim_id d # processed" ts2 targets2] Cons.prems(1,2) 2(1) dim show ?case by simp
qed simp

end
