(* ===== verification/Sampler_Select.thy ===== *)
theory Sampler_Select
  imports Sampler_Cover
begin

text \<open>
  The selection as a whole: what every selected variant is, and that a selection is always made.
\<close>

subsection \<open>What the covering algorithm returns\<close>

lemma found_holds: "List.find P xs = Some a \<Longrightarrow> P a \<and> a \<in> set xs"
  by (auto simp: find_Some_iff in_set_conv_nth)

lemma substitution_member:
  "a \<in> set (substitutions space tau full d) \<Longrightarrow>
   \<exists>p \<in> set (dim_points d). map_of tau (dim_id d) = None \<and> a = complete_assignment space (btree_insert (dim_id d) (pt_name p) tau)"
  by (auto simp: substitutions_def contains_key_def split: if_splits option.splits)

lemma complete_avoiding_cases:
  assumes "complete_avoiding space tau exclusions = Some a"
  obtains "a = complete_assignment space tau" "\<not> matching_exclusion a exclusions"
    | d p where "d \<in> set space" "p \<in> set (dim_points d)" "map_of tau (dim_id d) = None"
        "a = complete_assignment space (btree_insert (dim_id d) (pt_name p) tau)" "\<not> matching_exclusion a exclusions"
proof (cases "matching_exclusion (complete_assignment space tau) exclusions")
  case False
  with assms have "a = complete_assignment space tau" by (simp add: complete_avoiding_def Let_def)
  with False that(1) show ?thesis by blast
next
  case True
  with assms have "List.find (\<lambda>candidate. \<not> matching_exclusion candidate exclusions)
      (concat (map (substitutions space tau (complete_assignment space tau)) space)) = Some a"
    by (simp add: complete_avoiding_def Let_def)
  from found_holds [OF this] obtain d where "\<not> matching_exclusion a exclusions" "d \<in> set space"
    "a \<in> set (substitutions space tau (complete_assignment space tau) d)" by auto
  with substitution_member [OF this(3)] that(2) show ?thesis by blast
qed

lemma complete_avoiding_valid:
  assumes "space_ok space" and "known_pairs space tau" and "complete_avoiding space tau exclusions = Some a"
  shows "valid_assignment space a \<and> \<not> matching_exclusion a exclusions"
  using assms(3)
proof (cases rule: complete_avoiding_cases)
  case 1
  with known_pairs_complete [OF assms(1,2)] show ?thesis by simp
next
  case (2 d p)
  with known_pairs_complete [OF assms(1) known_pairs_insert [OF assms(2) known_pair_dim]] show ?thesis by simp
qed

lemma ipog_valid:
  assumes "space_ok space" and "list_all (known_pairs space) targets"
    and "ipog space t seeds targets exclusions = Some (covering, dropped)" and "a \<in> set covering"
  shows "valid_assignment space a \<and> \<not> matching_exclusion a exclusions"
proof -
  let ?targets = "filter (\<lambda>target. \<not> list_ex (is_covered target) seeds) targets"
  have some: "\<not> (?targets = [] \<or> space = [])" using assms(3,4) by (auto simp: ipog_def Let_def split: if_splits)
  obtain order where order: "processing_order space = Some order" using processing_order_ok [OF assms(1)] by blast
  let ?t = "max (min t (length order)) 1"
  let ?dims = "map (\<lambda>i. space ! i) order"
  let ?block = "filter (\<lambda>tau. \<not> list_ex (covers_partial tau) seeds) (build_initial_block exclusions (take ?t ?dims) [])"
  obtain ts rest where grown: "grow_all space exclusions (map dim_id (take ?t ?dims)) (drop ?t ?dims) (?block, ?targets) = (ts, rest)"
    by fastforce
  have "set order \<subseteq> {..<length space}" using processing_order_ok [OF assms(1)] order by auto
  then have dims: "set ?dims \<subseteq> set space" by auto
  have block: "list_all (known_pairs space) ?block"
    unfolding block_is_enumeration list_all_iff
    using enumerate_known [of space "[]" "take ?t ?dims" _ exclusions] dims set_take_subset [of ?t ?dims] by auto
  have "list_all (known_pairs space) ts"
    by (rule grow_all_known [OF assms(1) grown _ block])
      (use assms(2) dims set_drop_subset [of ?t ?dims] in \<open>auto simp: list_all_iff\<close>)
  moreover from assms(3) some have "covering = List.map_filter id (map (\<lambda>tau. complete_avoiding space tau exclusions) ts)"
    unfolding ipog_def Let_def if_not_P [OF some] order option.case grown prod.case by simp
  then obtain tau where "tau \<in> set ts" "complete_avoiding space tau exclusions = Some a"
    using assms(4) by (auto simp: List.map_filter_def)
  ultimately have "known_pairs space tau" by (simp add: list_all_iff)
  from complete_avoiding_valid [OF assms(1) this \<open>complete_avoiding space tau exclusions = Some a\<close>] show ?thesis .
qed

lemma combinations_below: "is \<in> set (combinations n t start) \<Longrightarrow> set is \<subseteq> {..<n}"
  by (induction n t start arbitrary: "is" rule: combinations.induct) fastforce+

lemma count_exclusion_when: "count_exclusion target es = Some es' \<Longrightarrow> map rx_when es' = map rx_when es"
  by (induction target es arbitrary: es' rule: count_exclusion.induct) (auto split: if_splits)

lemma add_targets:
  "fold (add_target space) ts (targets, es) = (targets', es') \<Longrightarrow>
   map rx_when es' = map rx_when es \<and> set targets' \<subseteq> set targets \<union> set ts"
proof (induction ts arbitrary: targets es)
  case (Cons t ts)
  obtain targets1 es1 where one: "add_target space t (targets, es) = (targets1, es1)" by fastforce
  then have "map rx_when es1 = map rx_when es \<and> set targets1 \<subseteq> insert t (set targets)"
    by (auto simp: set_insert_def dest: count_exclusion_when split: option.splits if_splits)
  with Cons.IH [of targets1 es1] Cons.prems one show ?case by auto
qed simp

lemma matching_cong: "map rx_when es = map rx_when es' \<Longrightarrow> matching_exclusion a es = matching_exclusion a es'"
proof -
  have "matching_exclusion a es = list_ex (has_pairs a) (map rx_when es)" for es
    by (simp add: matching_exclusion_def list_ex_iff)
  then show "map rx_when es = map rx_when es' \<Longrightarrow> ?thesis" by simp
qed

lemma targets_known:
  assumes "enumerate_targets space t es = (targets, es')"
  shows "list_all (known_pairs space) targets" and "matching_exclusion a es' = matching_exclusion a es"
proof -
  let ?all = "concat (map (\<lambda>is. cartesian_points (map (\<lambda>i. space ! i) is) []) (combinations (length space) t 0))"
  note added = add_targets [of space ?all "[]" es targets es', folded enumerate_targets_def, OF assms]
  have "known_pairs space c" if "c \<in> set ?all" for c
  proof -
    from that obtain "is" where i: "is \<in> set (combinations (length space) t 0)" "c \<in> set (cartesian_points (map (\<lambda>i. space ! i) is) [])"
      by auto
    have "set (map (\<lambda>i. space ! i) is) \<subseteq> set space" using combinations_below [OF i(1)] by auto
    from cartesian_known [OF _ this i(2)] show ?thesis by simp
  qed
  then show "list_all (known_pairs space) targets" unfolding list_all_iff
  proof -
    assume known: "\<And>c. c \<in> set ?all \<Longrightarrow> known_pairs space c"
    have "set targets \<subseteq> set ?all" using added by simp
    with known show "\<forall>x \<in> set targets. known_pairs space x" by (blast dest: subsetD)
  qed
  from added show "matching_exclusion a es' = matching_exclusion a es" by (intro matching_cong) simp
qed

subsection \<open>The list of variants\<close>

definition variants_ok :: "dimension list \<Rightarrow> resolved_exclusion list \<Rightarrow> variant list \<Rightarrow> bool" where
  "variants_ok space es vs \<longleftrightarrow>
     distinct (map vr_assignment vs)
     \<and> (\<forall>v \<in> set vs. valid_assignment space (vr_assignment v) \<and> vr_id v = render_assignment space (vr_assignment v) (own_ids space)
          \<and> (vr_origin v = Covering \<longrightarrow> \<not> matching_exclusion (vr_assignment v) es))"

lemma push_ok:
  "variants_ok space es vs \<Longrightarrow> valid_assignment space a \<Longrightarrow> (from = Covering \<Longrightarrow> \<not> matching_exclusion a es) \<Longrightarrow>
   variants_ok space es (push_variant space from a vs)"
  by (auto simp: variants_ok_def push_variant_def)

lemma push_variant_prefix: "prefix vs (push_variant space from a vs)"
  by (simp add: push_variant_def)

lemma push_in: "a \<in> vr_assignment ` set (push_variant space from a vs)"
  by (auto simp: push_variant_def)

lemma fold_push:
  "variants_ok space es vs \<Longrightarrow> (\<And>x. x \<in> set xs \<Longrightarrow> valid_assignment space (f x) \<and> (from = Covering \<longrightarrow> \<not> matching_exclusion (f x) es)) \<Longrightarrow>
   variants_ok space es (fold (\<lambda>x. push_variant space from (f x)) xs vs)
   \<and> prefix vs (fold (\<lambda>x. push_variant space from (f x)) xs vs)
   \<and> vr_assignment ` set (fold (\<lambda>x. push_variant space from (f x)) xs vs) = vr_assignment ` set vs \<union> f ` set xs"
proof (induction xs arbitrary: vs)
  case (Cons x xs)
  have "variants_ok space es (push_variant space from (f x) vs)" using Cons.prems(2) [of x] by (intro push_ok Cons.prems(1)) auto
  moreover have "vr_assignment ` set (push_variant space from (f x) vs) = insert (f x) (vr_assignment ` set vs)"
    by (auto simp: push_variant_def)
  ultimately show ?case
    using Cons.IH [of "push_variant space from (f x) vs"] Cons.prems(2) push_variant_prefix [of vs space "from" "f x"]
    by (auto intro: prefix_order.trans)
qed simp

lemma pairs_known: "list_all (known_pair space) (ref_pairs space refs)"
proof -
  have "known_pair space pair" if "resolve_point_ref space r = Inr pair" for r pair
  proof -
    from that obtain d where d: "resolve_dimension_ref space (rf_dimension r) = Ref_Found d"
      "list_ex (\<lambda>p. pt_name p = rf_point r) (dim_points d)" "pair = (dim_id d, rf_point r)"
      by (auto simp: resolve_point_ref_def split: ref_resolution.splits if_splits)
    have "filter (refers_to (rf_dimension r)) space = [d]"
      using d(1) by (auto simp: resolve_dimension_ref_def split: list.splits)
    then have "d \<in> set (filter (refers_to (rf_dimension r)) space)" by simp
    moreover have "rf_point r \<in> points_of d" using d(2) unfolding points_of_def list_ex_iff by (metis imageI)
    ultimately show ?thesis unfolding d(3) known_pair_def by auto
  qed
  then show ?thesis by (auto simp: ref_pairs_def list_all_iff split: sum.splits)
qed

lemma assignment_of_known: "list_all (known_pair space) pairs \<Longrightarrow> known_pairs space (assignment_of pairs)"
proof -
  have "list_all (known_pair space) pairs \<Longrightarrow> known_pairs space a \<Longrightarrow> known_pairs space (fold (\<lambda>(d, p) a. btree_insert d p a) pairs a)" for a
    by (induction pairs arbitrary: a) (auto intro: known_pairs_insert)
  then show "list_all (known_pair space) pairs \<Longrightarrow> known_pairs space (assignment_of pairs)" by (simp add: assignment_of_def)
qed

lemma pins_known: "resolve_refs space policy = Inr (pins, es) \<Longrightarrow> list_all (known_pairs space) pins"
  by (auto simp: resolve_refs_def Let_def list_all_iff intro!: assignment_of_known pairs_known split: if_splits)

definition seeds_of :: "dimension list \<Rightarrow> variant list \<Rightarrow> bool" where
  "seeds_of space vs \<longleftrightarrow>
     vs \<noteq> [] \<and> vr_assignment (hd vs) = complete_assignment space [] \<and> vr_origin (hd vs) = Base"

lemma seeds_of_prefix: "seeds_of space vs \<Longrightarrow> prefix vs ws \<Longrightarrow> seeds_of space ws"
  by (auto simp: seeds_of_def prefix_def)

lemma seeds_ok:
  assumes space: "space_ok space" "list_all facet_ok space" and pins: "list_all (known_pairs space) pins"
    and seeds: "seed_variants space policy strategy pins = Some vs"
  shows "variants_ok space es vs \<and> seeds_of space vs \<and> complete_assignment space ` set pins \<subseteq> vr_assignment ` set vs"
proof -
  let ?base = "push_variant space Base (complete_assignment space []) []"
  have base: "variants_ok space es ?base" "seeds_of space ?base"
    using push_ok [of space es "[]" "complete_assignment space []" Base] known_pairs_complete [OF space(1) known_pairs_Nil]
    by (simp_all add: variants_ok_def seeds_of_def push_variant_def)
  have pinned: "variants_ok space es (fold (\<lambda>pin. push_variant space Pinned (complete_assignment space pin)) pins ws)
      \<and> seeds_of space (fold (\<lambda>pin. push_variant space Pinned (complete_assignment space pin)) pins ws)
      \<and> complete_assignment space ` set pins \<subseteq> vr_assignment ` set (fold (\<lambda>pin. push_variant space Pinned (complete_assignment space pin)) pins ws)"
    if "variants_ok space es ws" "seeds_of space ws" for ws
    using fold_push [OF that(1), of pins "complete_assignment space" Pinned] known_pairs_complete [OF space(1)] pins
      seeds_of_prefix [OF that(2)] by (auto simp: list_all_iff)
  have bounded: "variants_ok space es (push_variant space Boundary (complete_assignment space most)
        (push_variant space Boundary (complete_assignment space least) ?base))
      \<and> seeds_of space (push_variant space Boundary (complete_assignment space most)
        (push_variant space Boundary (complete_assignment space least) ?base))"
    if "boundary_partial space True = Some least" "boundary_partial space False = Some most" for least most
  proof -
    have v: "valid_assignment space (complete_assignment space a)" if "boundary_partial space m = Some a" for m a
      using known_pairs_complete [OF space(1) valid_known [OF boundary_valid [OF that space]]] .
    have "variants_ok space es (push_variant space Boundary (complete_assignment space least) ?base)"
      by (rule push_ok [OF base(1) v [OF that(1)]]) simp
    from push_ok [OF this v [OF that(2)], of Boundary]
    show ?thesis by (simp add: seeds_of_prefix [OF seeds_of_prefix [OF base(2) push_variant_prefix] push_variant_prefix])
  qed
  from seeds obtain ws where ws: "vs = fold (\<lambda>pin. push_variant space Pinned (complete_assignment space pin)) pins ws"
    and "ws = ?base \<or> (\<exists>least most. boundary_partial space True = Some least \<and> boundary_partial space False = Some most
      \<and> ws = push_variant space Boundary (complete_assignment space most)
        (push_variant space Boundary (complete_assignment space least) ?base))"
    by (auto simp: seed_variants_def Let_def split: if_splits bind_splits)
  then have "variants_ok space es ws" "seeds_of space ws" using base bounded by blast+
  from pinned [OF this] show ?thesis by (simp add: ws)
qed

lemma cover_ok:
  assumes space: "space_ok space" and vs: "variants_ok space es vs"
    and cover: "cover_seeds space policy strategy vs es = Some (ws, es', targets, dropped)"
  shows "variants_ok space es ws \<and> prefix vs ws"
    and "strategy = ''exhaustive'' \<Longrightarrow> vr_assignment ` set ws =
      vr_assignment ` set vs \<union> {a. valid_assignment space a \<and> \<not> matching_exclusion a es}"
proof -
  have skip: "fold (\<lambda>a variants. if a \<in> vr_assignment ` set vs then variants else push_variant space Covering a variants) as us
      = fold (push_variant space Covering) as us" if "prefix vs us" for as us
    using that
  proof (induction as arbitrary: us)
    case (Cons a as)
    have "push_variant space Covering a us = us" if "a \<in> vr_assignment ` set vs"
      using that set_mono_prefix [OF Cons.prems] by (auto simp: push_variant_def)
    with Cons.IH [of us] Cons.IH [of "push_variant space Covering a us"] Cons.prems push_variant_prefix [of us space Covering a]
    show ?case by (auto intro: prefix_order.trans)
  qed simp
  have pushed: "variants_ok space es (fold (push_variant space Covering) as vs) \<and> prefix vs (fold (push_variant space Covering) as vs)
      \<and> vr_assignment ` set (fold (push_variant space Covering) as vs) = vr_assignment ` set vs \<union> set as"
    if "\<And>a. a \<in> set as \<Longrightarrow> valid_assignment space a \<and> \<not> matching_exclusion a es" for as
    using fold_push [OF vs, of as "\<lambda>a. a" Covering] that by simp
  show "variants_ok space es ws \<and> prefix vs ws"
    and "strategy = ''exhaustive'' \<Longrightarrow> vr_assignment ` set ws =
      vr_assignment ` set vs \<union> {a. valid_assignment space a \<and> \<not> matching_exclusion a es}"
  proof -
    consider "strategy = ''base-only''" | "strategy = ''exhaustive''" | "strategy \<noteq> ''base-only''" "strategy \<noteq> ''exhaustive''" by blast
    then have "variants_ok space es ws \<and> prefix vs ws \<and> (strategy = ''exhaustive'' \<longrightarrow> vr_assignment ` set ws =
      vr_assignment ` set vs \<union> {a. valid_assignment space a \<and> \<not> matching_exclusion a es})"
    proof cases
      case 1
      with cover vs show ?thesis by (simp add: cover_seeds_def Let_def)
    next
      case 2
      with cover have "ws = fold (push_variant space Covering) (enumerate_all es space []) vs"
        by (auto simp: cover_seeds_def Let_def skip)
      with pushed [of "enumerate_all es space []"] show ?thesis by (simp add: enumerated_valid [OF space])
    next
      case 3
      obtain ts es1 where targets: "enumerate_targets space (max (sa_strength policy) 1) es = (ts, es1)" by fastforce
      from cover 3 obtain covering where i: "ipog space (max (sa_strength policy) 1) (map vr_assignment vs) ts es1 = Some (covering, dropped)"
        "ws = fold (push_variant space Covering) covering vs"
        unfolding cover_seeds_def Let_def if_not_P [OF 3(1)] if_not_P [OF 3(2)] targets prod.case by auto
      have "valid_assignment space a \<and> \<not> matching_exclusion a es" if "a \<in> set covering" for a
        using ipog_valid [OF space targets_known(1) [OF targets] i(1) that] targets_known(2) [OF targets] by simp
      from pushed [OF this] 3(2) show ?thesis by (simp add: i(2))
    qed
    then show "variants_ok space es ws \<and> prefix vs ws"
      and "strategy = ''exhaustive'' \<Longrightarrow> vr_assignment ` set ws =
        vr_assignment ` set vs \<union> {a. valid_assignment space a \<and> \<not> matching_exclusion a es}" by blast+
  qed
qed

subsection \<open>A selection is always made\<close>

lemma fold_some:
  "(\<And>x acc. x \<in> set xs \<Longrightarrow> acc \<noteq> None \<Longrightarrow> step x acc \<noteq> None) \<Longrightarrow> acc \<noteq> None \<Longrightarrow> fold step xs acc \<noteq> None"
proof (induction xs arbitrary: acc)
  case (Cons x xs)
  have "step x acc \<noteq> None" by (rule Cons.prems(1)) (simp_all add: Cons.prems(2))
  with Cons show ?case by simp
qed simp

lemma child_later:
  assumes "space_ok space" and "i < length space" and "kid \<in> set (children_by_gate space (dim_id (space ! i)) p)"
  shows "\<exists>j. i < j \<and> j < length space \<and> kid = space ! j"
proof -
  from assms(3) obtain j where j: "j < length space" "kid = space ! j" by (auto simp: children_by_gate_def in_set_conv_nth)
  from assms(3) have "last_gate kid = Some (dim_id (space ! i), p)" by (simp add: children_by_gate_def)
  then have g: "dim_gates kid \<noteq> []" "gate_dimension (last (dim_gates kid)) = dim_id (space ! i)"
    by (auto simp: last_gate_def split: if_splits)
  have "last (dim_gates kid) \<in> set (dim_gates (space ! j))" using g(1) by (simp add: j(2))
  from gates_earlier [OF _ j(1) this] assms(1) obtain k where k: "k < j" "last (dim_gates kid) \<in> dim_gates_of (space ! k)"
    by (auto simp: space_ok_def)
  then have "dim_id (space ! k) = dim_id (space ! i)" using g(2) by (auto simp: dim_gates_of_def)
  then have "k = i" using assms(1,2) j(1) k(1) nth_eq_iff_index_eq [of "map dim_id space" k i] by (simp add: space_ok_def)
  with k(1) j show ?thesis by blast
qed

lemma weight_some:
  assumes "space_ok space"
  shows "i < length space \<Longrightarrow> length space - i \<le> fuel \<Longrightarrow> weight space fuel (dim_id (space ! i)) \<noteq> None"
proof (induction fuel arbitrary: i)
  case (Suc fuel)
  have d: "by_id space (dim_id (space ! i)) = Some (space ! i)"
    using by_id_of [of space "space ! i"] assms Suc.prems(1) by (simp add: space_ok_def)
  have kids: "weight space fuel (dim_id kid) \<noteq> None" if "kid \<in> set (children_by_gate space (dim_id (space ! i)) p)" for kid p
  proof -
    from child_later [OF assms Suc.prems(1) that] obtain j where "i < j" "j < length space" "kid = space ! j" by blast
    with Suc.IH [of j] Suc.prems(2) show ?thesis by simp
  qed
  have inner: "fold (\<lambda>kid acc. case acc of None \<Rightarrow> None | Some (product, exact) \<Rightarrow>
      (case weight space fuel (dim_id kid) of None \<Rightarrow> None
       | Some (w, kid_exact) \<Rightarrow> Some (saturating (product * w) (exact \<and> kid_exact))))
      (children_by_gate space (dim_id (space ! i)) p) (Some acc) \<noteq> None" for p acc
    by (rule fold_some) (use kids [where p = p] in \<open>force split: option.split\<close>)+
  show ?case
    unfolding weight.simps d option.case
    by (rule fold_some) (use inner in \<open>force split: option.split\<close>)+
qed simp

lemma space_size_some: "space_ok space \<Longrightarrow> space_size space \<noteq> None"
  unfolding space_size_def
proof (rule fold_some)
  fix d acc assume space: "space_ok space" and d: "d \<in> set space" and "(acc :: (nat \<times> bool) option) \<noteq> None"
  then obtain n e where acc: "acc = Some (n, e)" by auto
  from d obtain i where i: "i < length space" "d = space ! i" by (auto simp: in_set_conv_nth)
  with weight_some [OF space, of i "length space + 1"] obtain w e where "weight space (length space + 1) (dim_id d) = Some (w, e)"
    by fastforce
  then show "(case acc of None \<Rightarrow> None | Some (sz, exact) \<Rightarrow>
      if dim_gates d \<noteq> [] then acc
      else (case weight space (length space + 1) (dim_id d) of None \<Rightarrow> None
        | Some (w, dim_exact) \<Rightarrow> Some (saturating (sz * w) (exact \<and> dim_exact)))) \<noteq> None"
    by (simp add: acc del: weight.simps)
qed simp

lemma sum_options_some: "(\<And>x. x \<in> set xs \<Longrightarrow> x \<noteq> None) \<Longrightarrow> sum_options xs \<noteq> None"
  by (induction xs) (auto split: option.split)

lemma all_some_some: "(\<And>x. x \<in> set xs \<Longrightarrow> x \<noteq> None) \<Longrightarrow> all_some xs \<noteq> None"
  by (induction xs) (auto split: option.split)

lemma descendants_some:
  assumes "space_ok space"
  shows "i < length space \<Longrightarrow> length space - i \<le> fuel \<Longrightarrow> descendant_count space fuel (dim_id (space ! i)) p \<noteq> None"
proof (induction fuel arbitrary: i p)
  case (Suc fuel)
  have "descendant_count space fuel (dim_id kid) q \<noteq> None" if "kid \<in> set (children_by_gate space (dim_id (space ! i)) p)" for kid q
  proof -
    from child_later [OF assms Suc.prems(1) that] obtain j where "i < j" "j < length space" "kid = space ! j" by blast
    with Suc.IH [of j] Suc.prems(2) show ?thesis by simp
  qed
  then have "sum_options (map (\<lambda>p. descendant_count space fuel (dim_id kid) (pt_name p)) (dim_points kid)) \<noteq> None"
    if "kid \<in> set (children_by_gate space (dim_id (space ! i)) p)" for kid
    using that by (intro sum_options_some) auto
  then have "\<exists>z. sum_options (map (\<lambda>p. descendant_count space fuel (dim_id kid) (pt_name p)) (dim_points kid)) = Some z"
    if "kid \<in> set (children_by_gate space (dim_id (space ! i)) p)" for kid
    using that by blast
  then show ?case unfolding descendant_count.simps by (intro sum_options_some) fastforce
qed simp

lemma boundary_some:
  assumes "space_ok space"
  shows "boundary_partial space minimal \<noteq> None"
proof -
  have point: "boundary_point space minimal d \<noteq> None" if "d \<in> set space" for d
  proof -
    from that obtain i where i: "i < length space" "d = space ! i" by (auto simp: in_set_conv_nth)
    have "all_some (map (\<lambda>p. descendant_count space (length space + 1) (dim_id d) (pt_name p)) (dim_points d)) \<noteq> None"
      by (rule all_some_some) (use descendants_some [OF assms i(1), of "length space + 1"] i(2) in auto)
    then show ?thesis unfolding boundary_point_def by (simp del: not_None_eq)
  qed
  have "set ds \<subseteq> set space \<Longrightarrow> boundary_from space minimal ds a \<noteq> None" for ds a
  proof (induction ds arbitrary: a)
    case (Cons d ds)
    with point [of d] obtain p where "boundary_point space minimal d = Some p" by auto
    with Cons show ?case by simp
  qed simp
  then show ?thesis by (simp add: boundary_partial_def)
qed

lemma ipog_some: "space_ok space \<Longrightarrow> ipog space t seeds targets es \<noteq> None"
proof -
  assume "space_ok space"
  then obtain order where "processing_order space = Some order" using processing_order_ok by blast
  then show ?thesis by (simp add: ipog_def Let_def split: prod.split)
qed

lemma select_some:
  assumes "space_ok space"
  shows "select_variants space policy \<noteq> None"
proof (cases "resolve_refs space policy")
  case (Inr r)
  obtain pins es where r: "r = (pins, es)" by fastforce
  obtain sz exact where sz: "space_size space = Some (sz, exact)" using space_size_some [OF assms] by auto
  show ?thesis
  proof (cases "chosen_strategy policy sz exact")
    case (Some strategy)
    obtain least most where b: "boundary_partial space True = Some least" "boundary_partial space False = Some most"
      using boundary_some [OF assms, of True] boundary_some [OF assms, of False] by blast
    have "seed_variants space policy strategy pins \<noteq> None" by (simp add: seed_variants_def Let_def b)
    then obtain vs where vs: "seed_variants space policy strategy pins = Some vs" by auto
    have "cover_seeds space policy strategy vs es \<noteq> None"
      using ipog_some [OF assms] by (simp add: cover_seeds_def Let_def split: prod.split del: not_None_eq)
    then show ?thesis by (auto simp: select_variants_def Inr r sz Some vs)
  qed (simp add: select_variants_def Inr r sz)
qed (simp add: select_variants_def)

end
