(* ===== verification/Sampler_Flat.thy ===== *)
theory Sampler_Flat
  imports Sampler_Select
begin

text \<open>
  The covering array over a space without gates: every target ends up in a row, and every row's pairs
  survive completion.
\<close>

definition ungated :: "dimension list \<Rightarrow> bool" where
  "ungated space \<longleftrightarrow> distinct (map dim_id space) \<and> list_all dimension_ok space \<and> (\<forall>d \<in> set space. dim_gates d = [])"

lemma ungated_active: "ungated space \<Longrightarrow> d \<in> set space \<Longrightarrow> is_active a d"
  by (simp add: ungated_def is_active_def)

lemma ungated_sub: "ungated space \<Longrightarrow> set ds \<subseteq> set space \<Longrightarrow> distinct (map dim_id ds) \<Longrightarrow> ungated ds"
  by (auto simp: ungated_def list_all_iff)

lemma parents_first_flat: "(\<And>d. d \<in> set ds \<Longrightarrow> dim_gates d = []) \<Longrightarrow> parents_first K ds"
  by (induction ds arbitrary: K) auto

lemma ungated_ok: "ungated space \<Longrightarrow> space_ok space"
  by (simp add: ungated_def space_ok_def parents_first_flat)

lemma map_le_value: "m \<subseteq>\<^sub>m m' \<Longrightarrow> m k = Some v \<Longrightarrow> m' k = Some v"
  by (metis domI map_le_def)

lemma has_pairs_mono: "has_pairs a ps \<Longrightarrow> map_of a \<subseteq>\<^sub>m map_of b \<Longrightarrow> has_pairs b ps"
  by (auto simp: has_pairs_def list_all_iff elim!: ballE dest: map_le_value)

lemma has_pairs_self: "btree_map a \<Longrightarrow> has_pairs a a"
  by (auto simp: has_pairs_def list_all_iff dest!: btree_map_index_map simp: index_map_def)

lemma insert_extends: "btree_map a \<Longrightarrow> map_of a k = None \<Longrightarrow> map_of a \<subseteq>\<^sub>m map_of (btree_insert k p a)"
  by (auto simp: map_le_def map_of_btree_insert)

subsection \<open>Requirements\<close>

lemma map_of_fold_insert:
  "btree_map a \<Longrightarrow> distinct (map fst ps) \<Longrightarrow> map_of (fold (\<lambda>(d, p) a. btree_insert d p a) ps a) = map_of a ++ map_of ps
    \<and> btree_map (fold (\<lambda>(d, p) a. btree_insert d p a) ps a)"
proof (induction ps arbitrary: a)
  case (Cons x ps)
  obtain d p where x: "x = (d, p)" by (cases x)
  have a: "btree_map (btree_insert d p a)" using Cons.prems(1) by (rule btree_map_insert)
  have none: "map_of ps d = None" using Cons.prems(2) by (simp add: x map_of_eq_None_iff)
  have upd: "map_of (btree_insert d p a) = (map_of a)(d \<mapsto> p)"
    by (simp add: fun_eq_iff map_of_btree_insert [OF Cons.prems(1)])
  have "map_of (btree_insert d p a) ++ map_of ps = map_of a ++ map_of ((d, p) # ps)"
    unfolding upd using none by (auto simp: fun_eq_iff map_add_def split: option.split)
  moreover have "fold (\<lambda>(d, p) a. btree_insert d p a) (x # ps) a = fold (\<lambda>(d, p) a. btree_insert d p a) ps (btree_insert d p a)"
    by (simp add: x)
  ultimately show ?case using Cons.IH [OF a] Cons.prems(2) x by (metis distinct.simps(2) list.simps(9))
qed simp

lemma requirements_flat:
  assumes "ungated space"
  shows "list_all (known_pair space) ps \<Longrightarrow> btree_map reqs \<Longrightarrow> distinct (map fst ps) \<Longrightarrow> (\<forall>x \<in> set ps. map_of reqs (fst x) = None) \<Longrightarrow>
    requirements_from space ps reqs = Some (fold (\<lambda>(d, p) a. btree_insert d p a) ps reqs)"
proof (induction ps arbitrary: reqs)
  case (Cons x ps)
  obtain k p where x: "x = (k, p)" by (cases x)
  from Cons.prems(1) obtain d where d: "d \<in> set space" "dim_id d = k" by (auto simp: x known_pair_def)
  have "by_id space k = Some d" using by_id_of [of space d] assms d by (auto simp: ungated_def)
  moreover have "dim_gates d = []" using assms d(1) by (simp add: ungated_def)
  moreover have "map_of reqs k = None" using Cons.prems(4) by (simp add: x)
  moreover have "requirements_from space ps (btree_insert k p reqs) = Some (fold (\<lambda>(d, p) a. btree_insert d p a) ps (btree_insert k p reqs))"
    using Cons.prems by (intro Cons.IH) (auto simp: x btree_map_insert map_of_btree_insert image_iff)
  ultimately show ?case by (simp add: x)
qed simp

lemma target_requirements_flat:
  assumes "ungated space" and "known_pairs space t"
  shows "target_requirements space t = Some t"
proof -
  have t: "btree_map t" "distinct (map fst t)" "list_all (known_pair space) t"
    using assms(2) by (auto simp: known_pairs_def dest: btree_map_index_map simp: index_map_def)
  have b: "btree_map ([] :: assignment)" by (simp add: btree_map_def)
  from map_of_fold_insert [OF b t(2)] t(1) have "fold (\<lambda>(d, p) a. btree_insert d p a) t [] = t"
    by (intro btree_map_eq) auto
  with requirements_flat [OF assms(1) t(3) b t(2)] show ?thesis by (simp add: target_requirements_def)
qed

lemma or_insert_extends:
  "btree_map tau \<Longrightarrow> map_of tau \<subseteq>\<^sub>m map_of (or_insert_all reqs tau) \<and> btree_map (or_insert_all reqs tau)
    \<and> fst ` set (or_insert_all reqs tau) = fst ` set tau \<union> fst ` set reqs"
proof (induction reqs arbitrary: tau)
  case (Cons x reqs)
  obtain d p where x: "x = (d, p)" by (cases x)
  let ?tau = "if contains_key tau d then tau else btree_insert d p tau"
  have step: "or_insert_all (x # reqs) tau = or_insert_all reqs ?tau" by (simp add: or_insert_all_def x)
  have "btree_map ?tau" using Cons.prems by (simp add: btree_map_insert)
  moreover have "map_of tau \<subseteq>\<^sub>m map_of ?tau" using insert_extends [OF Cons.prems, of d p] by (simp add: contains_key_def)
  moreover have "fst ` set ?tau = insert d (fst ` set tau)"
    by (auto simp: contains_key_def fst_btree_insert dest: map_of_SomeD intro: rev_image_eqI)
  moreover have "fst ` set (x # reqs) = insert d (fst ` set reqs)" by (simp add: x)
  ultimately show ?case unfolding step using Cons.IH [of ?tau] map_le_trans [of "map_of tau" "map_of ?tau"] by (metis Un_insert_left Un_insert_right)
qed (simp add: or_insert_all_def)

lemma or_insert_covers:
  "btree_map tau \<Longrightarrow> distinct (map fst t) \<Longrightarrow> is_compatible tau t \<Longrightarrow> is_covered t (or_insert_all t tau)"
proof (induction t arbitrary: tau)
  case (Cons x t)
  obtain d p where x: "x = (d, p)" by (cases x)
  let ?tau = "if contains_key tau d then tau else btree_insert d p tau"
  have step: "or_insert_all (x # t) tau = or_insert_all t ?tau" by (simp add: or_insert_all_def x)
  have b: "btree_map ?tau" using Cons.prems(1) by (simp add: btree_map_insert)
  have here: "map_of ?tau d = Some p"
    using Cons.prems(1,3) by (auto simp: x is_compatible_def contains_key_def map_of_btree_insert split: option.splits)
  have "map_of ?tau k = map_of tau k" if "(k, q) \<in> set t" for k q
  proof -
    have "k \<noteq> d" using Cons.prems(2) that by (auto simp: x image_iff)
    then show ?thesis using Cons.prems(1) by (simp add: map_of_btree_insert)
  qed
  then have "is_compatible ?tau t"
    using Cons.prems(3) by (fastforce simp: is_compatible_def list_all_iff)
  from Cons.IH [OF b _ this] Cons.prems(2) have "is_covered t (or_insert_all t ?tau)" by (simp add: x)
  moreover have "map_of (or_insert_all t ?tau) d = Some p"
    using or_insert_extends [OF b, of t] here by (auto simp: map_le_def dom_def)
  ultimately show ?case unfolding step by (simp add: x is_covered_def has_pairs_def)
qed (simp add: is_covered_def has_pairs_def)

end
