(* ===== verification/Sampler_Grow.thy ===== *)
theory Sampler_Grow
  imports Sampler_Flat
begin

text \<open>
  The growth of the covering array over a space without gates: no step loses a target. What
  \<open>grow_all\<close> keeps, from the initial block to the last dimension, is that a target is either still to be
  covered or covered by a row, and that a target whose dimensions are all placed is covered.
\<close>

definition covered_in :: "assignment list \<Rightarrow> target \<Rightarrow> bool" where
  "covered_in rows T \<longleftrightarrow> list_ex (is_covered T) rows"

definition rows_within :: "string set \<Rightarrow> assignment list \<Rightarrow> bool" where
  "rows_within P rows \<longleftrightarrow> (\<forall>tau \<in> set rows. btree_map tau \<and> fst ` set tau \<subseteq> P)"

definition extended_in :: "assignment list \<Rightarrow> assignment list \<Rightarrow> bool" where
  "extended_in rows' rows \<longleftrightarrow> (\<forall>tau \<in> set rows. \<exists>tau' \<in> set rows'. map_of tau \<subseteq>\<^sub>m map_of tau')"

text \<open>What the growth keeps: nothing is lost.\<close>

definition keeps :: "target set \<Rightarrow> string set \<Rightarrow> assignment list \<times> target list \<Rightarrow> bool" where
  "keeps goal P state \<longleftrightarrow>
     rows_within P (fst state) \<and> set (snd state) \<subseteq> goal
     \<and> (\<forall>T \<in> goal. T \<in> set (snd state) \<or> covered_in (fst state) T)"

lemma keepsI [intro?]:
  "rows_within P rows \<Longrightarrow> set targets \<subseteq> goal \<Longrightarrow> (\<And>T. T \<in> goal \<Longrightarrow> T \<in> set targets \<or> covered_in rows T) \<Longrightarrow> keeps goal P (rows, targets)"
  by (simp add: keeps_def)

lemma covered_extended: "covered_in rows T \<Longrightarrow> extended_in rows' rows \<Longrightarrow> covered_in rows' T"
  unfolding covered_in_def list_ex_iff extended_in_def is_covered_def using has_pairs_mono by blast

lemma extended_subset: "set rows \<subseteq> set rows' \<Longrightarrow> extended_in rows' rows"
  unfolding extended_in_def by (meson map_le_refl subsetD)

lemma extended_refl [simp]: "extended_in rows rows"
  by (rule extended_subset) simp

lemma extended_trans: "extended_in b a \<Longrightarrow> extended_in c b \<Longrightarrow> extended_in c a"
  unfolding extended_in_def by (meson map_le_trans)

subsection \<open>Growing the rows\<close>

lemma grow_rows_flat:
  assumes "dim_gates d = []" and "dim_id d \<notin> P"
  shows "grow_rows d es rows targets = (rows', targets') \<Longrightarrow> rows_within P rows \<Longrightarrow>
    rows_within (insert (dim_id d) P) rows' \<and> extended_in rows' rows \<and> set targets' \<subseteq> set targets
    \<and> (\<forall>T \<in> set targets. T \<in> set targets' \<or> covered_in rows' T)"
proof (induction rows arbitrary: targets rows' targets')
  case Nil
  then show ?case by (simp add: rows_within_def extended_in_def)
next
  case (Cons tau rows)
  have active: "is_active tau d" by (simp add: is_active_def assms(1))
  have tau: "btree_map tau" "fst ` set tau \<subseteq> P" and rows: "rows_within P rows"
    using Cons.prems(2) by (simp_all add: rows_within_def)
  have free: "map_of tau (dim_id d) = None" using tau(2) assms(2) by (auto simp: map_of_eq_None_iff)
  define tau1 where "tau1 = (case best_point d es tau targets of None \<Rightarrow> tau | Some p \<Rightarrow> btree_insert (dim_id d) p tau)"
  define mid where "mid = (case best_point d es tau targets of None \<Rightarrow> targets | Some p \<Rightarrow> filter (\<lambda>t. \<not> is_covered t tau1) targets)"
  obtain rest where rest: "grow_rows d es rows mid = (rest, targets')" "rows' = tau1 # rest"
    using Cons.prems(1) active by (auto simp: tau1_def mid_def Let_def split: option.splits prod.splits)
  have grown: "btree_map tau1" "fst ` set tau1 \<subseteq> insert (dim_id d) P" "map_of tau \<subseteq>\<^sub>m map_of tau1"
    using tau insert_extends [OF tau(1) free]
    by (auto simp: tau1_def btree_map_insert fst_btree_insert split: option.split)
  have mid: "set mid \<subseteq> set targets" "\<forall>T \<in> set targets. T \<in> set mid \<or> is_covered T tau1"
    by (auto simp: mid_def split: option.split)
  from Cons.IH [OF rest(1) rows] grown mid show ?case
    by (auto simp: rest(2) rows_within_def extended_in_def covered_in_def)
qed

lemma grow_rows_keeps:
  assumes "dim_gates d = []" and "dim_id d \<notin> P" and "grow_rows d es rows targets = (rows', targets')" and "keeps goal P (rows, targets)"
  shows "keeps goal (insert (dim_id d) P) (rows', targets') \<and> extended_in rows' rows"
proof -
  from assms(4) have old: "rows_within P rows" "set targets \<subseteq> goal" "\<And>T. T \<in> goal \<Longrightarrow> T \<in> set targets \<or> covered_in rows T"
    by (simp_all add: keeps_def)
  from grow_rows_flat [OF assms(1-3) old(1)] have new: "rows_within (insert (dim_id d) P) rows'" "extended_in rows' rows"
    "set targets' \<subseteq> set targets" "\<And>T. T \<in> set targets \<Longrightarrow> T \<in> set targets' \<or> covered_in rows' T" by simp_all
  have "T \<in> set targets' \<or> covered_in rows' T" if "T \<in> goal" for T
    using old(3) [OF that] new(4) covered_extended [OF _ new(2)] by blast
  with new old(2) show ?thesis by (auto simp: keeps_def)
qed

subsection \<open>Covering one target\<close>

lemma position_found: "position Q xs = Some i \<Longrightarrow> i < length xs \<and> Q (xs ! i)"
  by (induction Q xs arbitrary: i rule: position.induct) (auto split: if_splits option.splits)

lemma replaced_extended:
  assumes "i < length rows" and "map_of (rows ! i) \<subseteq>\<^sub>m map_of tau"
  shows "extended_in (rows[i := tau]) rows"
proof -
  have "\<exists>tau' \<in> set (rows[i := tau]). map_of (rows ! k) \<subseteq>\<^sub>m map_of tau'" if "k < length rows" for k
  proof (cases "k = i")
    case True
    then show ?thesis using assms by (auto intro: bexI [of _ tau] simp: set_update_memI)
  next
    case False
    then have "rows[i := tau] ! k = rows ! k" by simp
    moreover have "rows[i := tau] ! k \<in> set (rows[i := tau])" using that by (intro nth_mem) simp
    ultimately show ?thesis by (metis map_le_refl)
  qed
  then show ?thesis by (auto simp: extended_in_def in_set_conv_nth)
qed

lemma cover_target_flat:
  assumes space: "ungated space" and T: "known_pairs space T" "fst ` set T \<subseteq> P" and rows: "rows_within P rows"
    and step: "cover_target space T (rows, targets) = (rows', targets')"
  shows "rows_within P rows' \<and> extended_in rows' rows \<and> set targets' \<subseteq> set targets
    \<and> (\<forall>t \<in> set targets. t \<in> set targets' \<or> covered_in rows' t) \<and> (T \<in> set targets \<longrightarrow> covered_in rows' T)"
proof (cases "T \<in> set targets")
  case False
  with step rows show ?thesis by simp
next
  case True
  have b: "btree_map T" and keys: "distinct (map fst T)"
    using T(1) by (auto simp: known_pairs_def dest: btree_map_index_map simp: index_map_def)
  have reqs: "target_requirements space T = Some T" by (rule target_requirements_flat [OF space T(1)])
  have removed: "targets' = filter (\<lambda>t. \<not> (rows' \<noteq> [] \<and> is_covered t (last rows')) \<and> \<not> list_ex (is_covered t) rows') targets"
    and rows': "rows' = (case position (\<lambda>tau. is_compatible tau T) rows of
      Some i \<Rightarrow> rows[i := or_insert_all T (rows ! i)] | None \<Rightarrow> rows @ [T])"
    using step True by (auto simp: reqs Let_def split: option.splits)
  have targets': "set targets' \<subseteq> set targets" "\<forall>t \<in> set targets. t \<in> set targets' \<or> covered_in rows' t"
    by (auto simp: removed covered_in_def list_ex_iff)
  have "rows_within P rows' \<and> extended_in rows' rows \<and> covered_in rows' T"
  proof (cases "position (\<lambda>tau. is_compatible tau T) rows")
    case None
    then have eq: "rows' = rows @ [T]" by (simp add: rows')
    have "extended_in rows' rows" unfolding eq by (rule extended_subset) auto
    moreover have "is_covered T T" using has_pairs_self [OF b] by (simp add: is_covered_def)
    ultimately show ?thesis using rows T(2) b by (auto simp: eq rows_within_def covered_in_def)
  next
    case (Some i)
    then have i: "i < length rows" "is_compatible (rows ! i) T" by (auto dest: position_found)
    have row: "btree_map (rows ! i)" "fst ` set (rows ! i) \<subseteq> P" using rows i(1) by (simp_all add: rows_within_def)
    let ?tau = "or_insert_all T (rows ! i)"
    have tau: "map_of (rows ! i) \<subseteq>\<^sub>m map_of ?tau" "btree_map ?tau" "fst ` set ?tau \<subseteq> P"
      using or_insert_extends [OF row(1), of T] row(2) T(2) by auto
    have eq: "rows' = rows[i := ?tau]" using Some by (simp add: rows')
    have "?tau \<in> set rows'" using i(1) by (simp add: eq set_update_memI)
    moreover have "is_covered T ?tau" by (rule or_insert_covers [OF row(1) keys i(2)])
    moreover have "extended_in rows' rows" unfolding eq by (rule replaced_extended [OF i(1) tau(1)])
    moreover have "rows_within P rows'" using rows tau by (auto simp: rows_within_def eq dest!: set_update_subset_insert [THEN subsetD])
    ultimately show ?thesis by (auto simp: covered_in_def list_ex_iff)
  qed
  with targets' show ?thesis by blast
qed

lemma cover_target_keeps:
  assumes space: "ungated space" and T: "known_pairs space T" "fst ` set T \<subseteq> P" "T \<in> goal" and old: "keeps goal P (rows, targets)"
    and step: "cover_target space T (rows, targets) = (rows', targets')"
  shows "keeps goal P (rows', targets') \<and> extended_in rows' rows \<and> covered_in rows' T"
proof -
  from old have o: "rows_within P rows" "set targets \<subseteq> goal" "\<And>T. T \<in> goal \<Longrightarrow> T \<in> set targets \<or> covered_in rows T"
    by (simp_all add: keeps_def)
  from cover_target_flat [OF space T(1,2) o(1) step] have new: "rows_within P rows'" "extended_in rows' rows"
    "set targets' \<subseteq> set targets" "\<And>t. t \<in> set targets \<Longrightarrow> t \<in> set targets' \<or> covered_in rows' t"
    "T \<in> set targets \<Longrightarrow> covered_in rows' T" by simp_all
  have all: "t \<in> set targets' \<or> covered_in rows' t" if "t \<in> goal" for t
    using o(3) [OF that] new(4) covered_extended [OF _ new(2)] by blast
  have "covered_in rows' T" using o(3) [OF T(3)] new(5) covered_extended [OF _ new(2)] by blast
  with all new o(2) show ?thesis by (auto simp: keeps_def)
qed

lemma cover_all_keeps:
  assumes space: "ungated space"
  shows "fold (cover_target space) work (rows, targets) = (rows', targets') \<Longrightarrow> keeps goal P (rows, targets) \<Longrightarrow>
    (\<And>T. T \<in> set work \<Longrightarrow> known_pairs space T \<and> fst ` set T \<subseteq> P \<and> T \<in> goal) \<Longrightarrow>
    keeps goal P (rows', targets') \<and> extended_in rows' rows \<and> (\<forall>T \<in> set work. covered_in rows' T)"
proof (induction work arbitrary: rows targets)
  case (Cons T work)
  obtain r u where step: "cover_target space T (rows, targets) = (r, u)" by (metis surj_pair)
  have T: "known_pairs space T" "fst ` set T \<subseteq> P" "T \<in> goal" using Cons.prems(3) [of T] by simp_all
  note one = cover_target_keeps [OF space T Cons.prems(2) step]
  have "fold (cover_target space) work (r, u) = (rows', targets')" using Cons.prems(1) by (simp add: step del: cover_target.simps)
  then have rest: "keeps goal P (rows', targets') \<and> extended_in rows' r \<and> (\<forall>T \<in> set work. covered_in rows' T)"
    by (rule Cons.IH) (use one Cons.prems(3) in auto)
  then have "covered_in rows' T" using one covered_extended by blast
  with rest one show ?case by (auto intro: extended_trans)
qed simp

subsection \<open>Growing by a dimension\<close>

definition placed_covered :: "target set \<Rightarrow> string set \<Rightarrow> assignment list \<Rightarrow> bool" where
  "placed_covered goal P rows \<longleftrightarrow> (\<forall>T \<in> goal. fst ` set T \<subseteq> P \<longrightarrow> covered_in rows T)"

lemma grow_dimension_keeps:
  assumes space: "ungated space" and d: "dim_gates d = []" "dim_id d \<notin> P" and goal: "\<And>T. T \<in> goal \<Longrightarrow> known_pairs space T"
    and old: "keeps goal P (rows, targets)" "placed_covered goal P rows" and processed: "set processed = insert (dim_id d) P"
    and step: "grow_dimension space es processed d (rows, targets) = (rows', targets')"
  shows "keeps goal (insert (dim_id d) P) (rows', targets') \<and> placed_covered goal (insert (dim_id d) P) rows'"
proof -
  obtain r u where rows: "grow_rows d es rows targets = (r, u)" by (metis surj_pair)
  note grown = grow_rows_keeps [OF d rows old(1)]
  let ?work = "filter (\<lambda>t. contains_key t (dim_id d) \<and> list_all (\<lambda>k. k \<in> set processed) (map fst t)) u"
  have fold: "fold (cover_target space) ?work (r, u) = (rows', targets')" using step by (simp add: grow_dimension_def rows)
  have sub: "set u \<subseteq> goal" using grown by (simp add: keeps_def)
  have work: "known_pairs space T \<and> fst ` set T \<subseteq> insert (dim_id d) P \<and> T \<in> goal" if "T \<in> set ?work" for T
    using that sub goal by (auto simp: list_all_iff processed)
  from cover_all_keeps [OF space fold _ work] grown
  have new: "keeps goal (insert (dim_id d) P) (rows', targets')" "extended_in rows' r" "\<And>T. T \<in> set ?work \<Longrightarrow> covered_in rows' T"
    by blast+
  have "covered_in rows' T" if T: "T \<in> goal" "fst ` set T \<subseteq> insert (dim_id d) P" for T
  proof (cases "fst ` set T \<subseteq> P")
    case True
    with old(2) T(1) have "covered_in rows T" by (simp add: placed_covered_def)
    then show ?thesis using grown new(2) covered_extended by blast
  next
    case False
    from grown T(1) have "T \<in> set u \<or> covered_in r T" by (simp add: keeps_def)
    then show ?thesis
    proof
      assume "T \<in> set u"
      moreover from False T(2) have "dim_id d \<in> fst ` set T" by (metis subset_insert)
      ultimately have "T \<in> set ?work"
        using T(2) by (auto simp: contains_key_def list_all_iff processed map_of_eq_None_iff)
      then show ?thesis by (rule new(3))
    next
      assume "covered_in r T"
      then show ?thesis by (rule covered_extended [OF _ new(2)])
    qed
  qed
  with new(1) show ?thesis by (simp add: placed_covered_def)
qed

lemma grow_all_keeps:
  assumes space: "ungated space" and goal: "\<And>T. T \<in> goal \<Longrightarrow> known_pairs space T"
  shows "grow_all space es processed ds (rows, targets) = (rows', targets') \<Longrightarrow> set ds \<subseteq> set space \<Longrightarrow> distinct (map dim_id ds) \<Longrightarrow>
    set processed = P \<Longrightarrow> P \<inter> dim_id ` set ds = {} \<Longrightarrow> keeps goal P (rows, targets) \<Longrightarrow> placed_covered goal P rows \<Longrightarrow>
    keeps goal (P \<union> dim_id ` set ds) (rows', targets') \<and> placed_covered goal (P \<union> dim_id ` set ds) rows'"
proof (induction ds arbitrary: processed rows targets P)
  case (Cons d ds)
  obtain r u where step: "grow_dimension space es (dim_id d # processed) d (rows, targets) = (r, u)" by (metis surj_pair)
  have d: "dim_gates d = []" "dim_id d \<notin> P" using space Cons.prems(2,5) by (auto simp: ungated_def)
  have one: "keeps goal (insert (dim_id d) P) (r, u) \<and> placed_covered goal (insert (dim_id d) P) r"
    by (rule grow_dimension_keeps [OF space d goal Cons.prems(6,7) _ step]) (simp_all add: Cons.prems(4))
  have "keeps goal (insert (dim_id d) P \<union> dim_id ` set ds) (rows', targets')
    \<and> placed_covered goal (insert (dim_id d) P \<union> dim_id ` set ds) rows'"
    by (rule Cons.IH [of "dim_id d # processed" r u]) (use Cons.prems one in \<open>auto simp: step\<close>)
  then show ?case by simp
qed simp

end
