(* ===== verification/Sampler_Covers.thy ===== *)
theory Sampler_Covers
  imports Sampler_Grow
begin

text \<open>
  The coverage of a space without gates: the enumerated targets are the well-formed assignments of
  exactly \<open>t\<close> dimensions that no exclusion matches, the initial block and the growth cover each of them,
  and completing a row keeps its pairs.
\<close>

subsection \<open>The targets\<close>

lemma combinations_exact:
  "set (combinations n t start) = {is. sorted_wrt (<) is \<and> set is \<subseteq> {start..<n} \<and> length is = t}"
proof (induction n t start rule: combinations.induct)
  case (2 n t start)
  show ?case
  proof (intro set_eqI iffI)
    fix "is" assume "is \<in> set (combinations n (Suc t) start)"
    then obtain i ks where i: "i \<in> {start..<n}" "ks \<in> set (combinations n t (i + 1))" "is = i # ks" by auto
    with 2 [of i] show "is \<in> {is. sorted_wrt (<) is \<and> set is \<subseteq> {start..<n} \<and> length is = Suc t}" by fastforce
  next
    fix "is" assume a: "is \<in> {is. sorted_wrt (<) is \<and> set is \<subseteq> {start..<n} \<and> length is = Suc t}"
    then obtain i ks where i: "is = i # ks" by (cases "is") auto
    with a 2 [of i] have "ks \<in> set (combinations n t (i + 1))" by fastforce
    with a i show "is \<in> set (combinations n (Suc t) start)" by auto
  qed
qed auto

lemma cartesian_exact:
  "btree_map cur \<Longrightarrow> distinct (map dim_id ds) \<Longrightarrow> fst ` set cur \<inter> dim_id ` set ds = {} \<Longrightarrow>
   T \<in> set (cartesian_points ds cur) \<longleftrightarrow>
     btree_map T \<and> map_of cur \<subseteq>\<^sub>m map_of T \<and> fst ` set T = fst ` set cur \<union> dim_id ` set ds
     \<and> (\<forall>d \<in> set ds. \<exists>p \<in> points_of d. map_of T (dim_id d) = Some p)"
proof (induction ds arbitrary: cur)
  case Nil
  have "T = cur" if T: "btree_map T" "map_of cur \<subseteq>\<^sub>m map_of T" "fst ` set T = fst ` set cur"
  proof -
    have "dom (map_of T) = dom (map_of cur)" using T(3) by (simp add: dom_map_of_conv_image_fst)
    then have "map_of T = map_of cur" using T(2) by (metis map_le_antisym map_le_def)
    then show ?thesis using T(1) Nil(1) by (metis btree_map_eq)
  qed
  then show ?case using Nil(1) by auto
next
  case (Cons d ds)
  have free: "map_of cur (dim_id d) = None" using Cons.prems(3) by (auto simp: map_of_eq_None_iff)
  have next_ok: "btree_map (btree_insert (dim_id d) p cur)" "distinct (map dim_id ds)"
    "fst ` set (btree_insert (dim_id d) p cur) \<inter> dim_id ` set ds = {}" for p
    using Cons.prems by (auto simp: btree_map_insert fst_btree_insert)
  have le: "map_of (btree_insert (dim_id d) p cur) \<subseteq>\<^sub>m map_of T \<longleftrightarrow> map_of T (dim_id d) = Some p \<and> map_of cur \<subseteq>\<^sub>m map_of T" for p
    using free by (auto simp: map_of_btree_insert [OF Cons.prems(1)] map_le_def split: if_splits)
  have "T \<in> set (cartesian_points (d # ds) cur) \<longleftrightarrow>
    (\<exists>p \<in> points_of d. T \<in> set (cartesian_points ds (btree_insert (dim_id d) p cur)))"
    by (auto simp: points_of_def)
  also have "\<dots> \<longleftrightarrow> (\<exists>p \<in> points_of d. btree_map T \<and> map_of T (dim_id d) = Some p \<and> map_of cur \<subseteq>\<^sub>m map_of T
      \<and> fst ` set T = fst ` set cur \<union> dim_id ` set (d # ds)
      \<and> (\<forall>d \<in> set ds. \<exists>p \<in> points_of d. map_of T (dim_id d) = Some p))"
    by (simp add: Cons.IH [OF next_ok] le fst_btree_insert insert_commute Un_insert_left conj_assoc)
  also have "\<dots> \<longleftrightarrow> btree_map T \<and> map_of cur \<subseteq>\<^sub>m map_of T \<and> fst ` set T = fst ` set cur \<union> dim_id ` set (d # ds)
     \<and> (\<forall>d \<in> set (d # ds). \<exists>p \<in> points_of d. map_of T (dim_id d) = Some p)" by auto
  finally show ?case .
qed

lemma image_within: "K \<subseteq> f ` S \<Longrightarrow> f ` {x \<in> S. f x \<in> K} = K"
  by blast

lemma nth_image_all: "(\<lambda>i. xs ! i) ` {..<length xs} = set xs"
  by (auto simp: in_set_conv_nth)

lemma count_exclusion_none: "count_exclusion T es = None \<longleftrightarrow> \<not> matching_exclusion T es"
  by (induction T es rule: count_exclusion.induct) (auto simp: matching_exclusion_def)

lemma add_targets_exact:
  assumes "ungated space"
  shows "fold (add_target space) ts (targets, es) = (targets', es') \<Longrightarrow> list_all (known_pairs space) ts \<Longrightarrow>
    set targets' = set targets \<union> {T \<in> set ts. \<not> matching_exclusion T es}"
proof (induction ts arbitrary: targets es)
  case (Cons T ts)
  have reqs: "target_requirements space T = Some T" using target_requirements_flat [OF assms] Cons.prems(2) by simp
  show ?case
  proof (cases "count_exclusion T es")
    case None
    then have "\<not> matching_exclusion T es" by (simp add: count_exclusion_none)
    with None Cons.IH [of "set_insert T targets" es] Cons.prems show ?thesis by (auto simp: reqs set_insert_def split: if_splits)
  next
    case (Some es1)
    then have T: "matching_exclusion T es" using count_exclusion_none [of T es] by simp
    have "matching_exclusion a es1 = matching_exclusion a es" for a
      by (rule matching_cong) (rule count_exclusion_when [OF Some])
    with Some T Cons.IH [of targets es1] Cons.prems show ?thesis by (auto simp: reqs)
  qed
qed simp

lemma length_keys: "btree_map a \<Longrightarrow> length a = card (fst ` set a)"
  using distinct_card [of "map fst a"] by (auto dest: btree_map_index_map simp: index_map_def)

lemma enumerated_exact:
  assumes space: "ungated space" and targets: "enumerate_targets space t es = (targets, es')"
  shows "set targets = {T. known_pairs space T \<and> length T = t \<and> \<not> matching_exclusion T es}"
proof -
  let ?dims = "\<lambda>is. map (\<lambda>i. space ! i) is"
  let ?all = "concat (map (\<lambda>is. cartesian_points (?dims is) []) (combinations (length space) t 0))"
  have ids: "distinct (map dim_id space)" using space by (simp add: ungated_def)
  have in_space: "set (?dims is) \<subseteq> set space" "distinct (map dim_id (?dims is))" "length is = t"
    if "is \<in> set (combinations (length space) t 0)" for "is"
  proof -
    from that have i: "sorted_wrt (<) is" "set is \<subseteq> {0..<length space}" and "length is = t"
      unfolding combinations_exact by auto
    then show "length is = t" "set (?dims is) \<subseteq> set space" by auto
    have "map dim_id (?dims is) = map (\<lambda>i. map dim_id space ! i) is" using i(2) by auto
    moreover have "inj_on (\<lambda>i. map dim_id space ! i) (set is)"
      using ids i(2) by (auto intro!: inj_on_nth)
    then have "distinct (map (\<lambda>i. map dim_id space ! i) is)"
      using i(1) by (subst distinct_map) (simp add: strict_sorted_iff)
    ultimately show "distinct (map dim_id (?dims is))" by (simp only:)
  qed
  have all: "T \<in> set ?all \<longleftrightarrow> known_pairs space T \<and> length T = t" for T
  proof
    assume "T \<in> set ?all"
    then obtain "is" where i: "is \<in> set (combinations (length space) t 0)" "T \<in> set (cartesian_points (?dims is) [])" by auto
    have "known_pairs space T" using cartesian_known [OF _ in_space(1) [OF i(1)] i(2)] by simp
    moreover have "btree_map T" "fst ` set T = dim_id ` set (?dims is)"
      using i(2) cartesian_exact [of "[]" "?dims is" T] in_space(2) [OF i(1)] by (auto simp: btree_map_def)
    then have "length T = t"
      using length_keys [of T] distinct_card [OF in_space(2) [OF i(1)]] in_space(3) [OF i(1)] by (simp add: image_image)
    ultimately show "known_pairs space T \<and> length T = t" by simp
  next
    assume T: "known_pairs space T \<and> length T = t"
    then have b: "btree_map T" and keys: "fst ` set T \<subseteq> dim_id ` set space"
      by (auto simp: known_pairs_def list_all_iff known_pair_def image_iff) (metis fst_conv)
    let ?is = "filter (\<lambda>i. dim_id (space ! i) \<in> fst ` set T) [0..<length space]"
    have dims: "?dims ?is = filter (\<lambda>d. dim_id d \<in> fst ` set T) space"
      by (metis (no_types, lifting) filter_cong filter_map comp_def map_nth)
    have d: "distinct (map dim_id (?dims ?is))" unfolding dims using ids by (rule distinct_map_filter)
    have set: "dim_id ` set (?dims ?is) = fst ` set T" unfolding dims using image_within [OF keys] by simp
    have "length (?dims ?is) = t" using distinct_card [OF d] length_keys [OF b] set T by (simp only: list.set_map length_map)
    then have "length ?is = t" by (simp only: length_map)
    then have "?is \<in> set (combinations (length space) t 0)"
      by (auto simp: combinations_exact sorted_wrt_filter)
    moreover have "\<exists>p \<in> points_of d. map_of T (dim_id d) = Some p" if "d \<in> set (?dims ?is)" for d
    proof -
      from that have "d \<in> set space" "dim_id d \<in> fst ` set T" unfolding dims by auto
      moreover from this(2) obtain p where "map_of T (dim_id d) = Some p"
        by (metis map_of_eq_None_iff not_None_eq)
      ultimately show ?thesis using known_pairs_point [OF ids] T by (auto simp: point_known_def)
    qed
    then have "T \<in> set (cartesian_points (?dims ?is) [])"
      using cartesian_exact [of "[]" "?dims ?is" T] d b set by (simp add: btree_map_def)
    ultimately show "T \<in> set ?all" by (simp only: set_concat set_map) blast
  qed
  have "list_all (known_pairs space) ?all" using all by (simp add: list_all_iff del: set_concat set_map)
  from add_targets_exact [OF space targets [unfolded enumerate_targets_def] this] all show ?thesis
    by (auto simp del: set_concat set_map)
qed

subsection \<open>Completing a row\<close>

lemma complete_keeps_pair:
  "(\<And>d. d \<in> set ds \<Longrightarrow> dim_gates d = []) \<Longrightarrow> btree_map a \<Longrightarrow>
   map_of tau k = Some p \<Longrightarrow> k \<in> dim_id ` set ds \<or> map_of a k = Some p \<Longrightarrow> map_of (complete_from tau ds a) k = Some p"
proof (induction ds arbitrary: a)
  case (Cons d ds)
  let ?a = "btree_insert (dim_id d) (case map_of tau (dim_id d) of Some p \<Rightarrow> p | None \<Rightarrow> dim_default d) a"
  have "is_active a d" using Cons.prems(1) [of d] by (simp add: is_active_def)
  moreover have "map_of (complete_from tau ds ?a) k = Some p"
    by (rule Cons.IH) (use Cons.prems in \<open>auto simp: btree_map_insert map_of_btree_insert\<close>)
  ultimately show ?case by simp
qed simp

lemma complete_keeps:
  assumes "ungated space" and "fst ` set tau \<subseteq> dim_id ` set space"
  shows "map_of tau \<subseteq>\<^sub>m map_of (complete_assignment space tau)"
proof -
  have "map_of (complete_assignment space tau) k = Some p" if "map_of tau k = Some p" for k p
  proof -
    have "k \<in> fst ` set tau" using that by (metis map_of_eq_None_iff option.discI)
    then show ?thesis unfolding complete_assignment_def
      using assms that by (intro complete_keeps_pair) (auto simp: ungated_def btree_map_def)
  qed
  then show ?thesis by (auto simp: map_le_def)
qed

lemma avoiding_keeps:
  assumes space: "ungated space" and tau: "btree_map tau" "fst ` set tau \<subseteq> dim_id ` set space"
    and step: "complete_avoiding space tau es = Some a"
  shows "map_of tau \<subseteq>\<^sub>m map_of a"
  using step
proof (cases rule: complete_avoiding_cases)
  case 1
  then show ?thesis using complete_keeps [OF space tau(2)] by simp
next
  case (2 d p)
  have "map_of (btree_insert (dim_id d) (pt_name p) tau) \<subseteq>\<^sub>m map_of a"
    unfolding 2(4) by (rule complete_keeps [OF space]) (use 2(1) tau(2) in \<open>auto simp: fst_btree_insert\<close>)
  with insert_extends [OF tau(1) 2(3), of "pt_name p"] show ?thesis by (rule map_le_trans)
qed

subsection \<open>The covering array\<close>

lemma block_keeps:
  assumes dims: "ungated dims" and T: "known_pairs dims T" "length T = length dims" "\<not> matching_exclusion T es"
  shows "T \<in> set (build_initial_block es dims [])"
proof -
  have b: "btree_map T" and keys: "fst ` set T \<subseteq> dim_id ` set dims"
    using T(1) by (auto simp: known_pairs_def list_all_iff known_pair_def image_iff) (metis fst_conv)
  have ids: "distinct (map dim_id dims)" using dims by (simp add: ungated_def)
  have "card (dim_id ` set dims) = length dims" using distinct_card [OF ids] by simp
  then have "fst ` set T = dim_id ` set dims"
    using keys T(2) length_keys [OF b] by (intro card_subset_eq) simp_all
  then have "map_of T (dim_id d) \<noteq> None" if "d \<in> set dims" for d
    using that by (auto simp: map_of_eq_None_iff)
  then have "valid_assignment dims T"
    using b keys known_pairs_point [OF ids T(1)] ungated_active [OF dims]
    by (auto simp: valid_assignment_def point_known_def)
  with T(3) show ?thesis by (simp add: block_is_enumeration enumerated_valid [OF ungated_ok [OF dims]])
qed

lemma ipog_covers:
  assumes space: "ungated space" and t: "1 \<le> t" and ipog: "ipog space t seeds targets es = Some (covering, 0)"
    and targets: "set targets = {T. known_pairs space T \<and> length T = t \<and> \<not> matching_exclusion T es}"
    and T: "T \<in> set targets"
  shows "covered_in (seeds @ covering) T"
proof (cases "list_ex (is_covered T) seeds")
  case True
  then show ?thesis by (simp add: covered_in_def)
next
  case False
  let ?left = "filter (\<lambda>T. \<not> list_ex (is_covered T) seeds) targets"
  let ?goal = "set ?left"
  have ids: "distinct (map dim_id space)" using space by (simp add: ungated_def)
  have goal: "known_pairs space T" "length T = t" "\<not> matching_exclusion T es" "\<not> list_ex (is_covered T) seeds" if "T \<in> ?goal" for T
    using that targets by auto
  have keys: "fst ` set tau \<subseteq> dim_id ` set sub" if "known_pairs sub tau" for sub tau
    using that by (auto simp: known_pairs_def list_all_iff known_pair_def image_iff) (metis fst_conv)
  have T0: "T \<in> ?goal" using T False by simp
  have "t \<le> length space"
    using card_mono [OF _ keys [OF goal(1) [OF T0]]] length_keys [of T] goal(1,2) [OF T0] distinct_card [OF ids]
    by (simp add: known_pairs_def)
  have "space \<noteq> []" using \<open>t \<le> length space\<close> t by auto
  have "?left \<noteq> []" using T0 by (metis empty_iff list.set(1))
  obtain order where order: "processing_order space = Some order" "distinct order" "set order = {..<length space}"
    using processing_order_ok [OF ungated_ok [OF space]] by blast
  define dims where "dims = map (\<lambda>i. space ! i) order"
  have n: "length order = length space" using order(2,3) by (metis card_lessThan distinct_card)
  have "set dims = (\<lambda>i. space ! i) ` {..<length space}" by (simp add: dims_def order(3))
  also have "\<dots> = set space" by (rule nth_image_all)
  finally have set_dims: "set dims = set space" .
  have dims_ids: "distinct (map dim_id dims)"
  proof (rule card_distinct)
    have "length dims = length space" by (simp add: dims_def n)
    then show "card (set (map dim_id dims)) = length (map dim_id dims)"
      using distinct_card [OF ids] by (simp add: set_dims)
  qed
  have same_t: "max (min t (length order)) (Suc 0) = t" using t \<open>t \<le> length space\<close> n by simp
  let ?block = "filter (\<lambda>tau. \<not> list_ex (covers_partial tau) seeds) (build_initial_block es (take t dims) [])"
  let ?P = "dim_id ` set (take t dims)"
  obtain rows rest where grown: "grow_all space es (map dim_id (take t dims)) (drop t dims) (?block, ?left) = (rows, rest)"
    by (metis surj_pair)
  have result: "covering = List.map_filter id (map (\<lambda>tau. complete_avoiding space tau es) rows)"
    "length (filter (\<lambda>c. c = None) (map (\<lambda>tau. complete_avoiding space tau es) rows)) = 0"
    using ipog grown \<open>space \<noteq> []\<close> \<open>?left \<noteq> []\<close>
    by (simp_all add: ipog_def Let_def order(1) same_t dims_def)
  have first: "ungated (take t dims)"
    using set_dims dims_ids by (intro ungated_sub [OF space]) (auto dest: in_set_takeD simp: take_map [symmetric] distinct_take)
  have len: "length (take t dims) = t" using \<open>t \<le> length space\<close> n by (simp add: dims_def)
  have split: "set (take t dims) \<union> set (drop t dims) = set space" using set_dims by (metis append_take_drop_id set_append)
  have apart: "?P \<inter> dim_id ` set (drop t dims) = {}"
    using dims_ids by (metis append_take_drop_id distinct_append map_append set_map)
  have block: "T \<in> set ?block" if T: "T \<in> ?goal" "fst ` set T \<subseteq> ?P" for T
  proof -
    have "known_pair (take t dims) x" if x: "x \<in> set T" for x
    proof -
      have "known_pair space x" "fst x \<in> ?P" using goal(1) [OF T(1)] x T(2) by (auto simp: known_pairs_def list_all_iff)
      then obtain d d' where d: "d \<in> set space" "dim_id d = fst x" "snd x \<in> points_of d" "d' \<in> set (take t dims)" "dim_id d' = fst x"
        by (auto simp: known_pair_def)
      have "d' \<in> set space" using d(4) split by blast
      then have "d' = d" using d ids by (metis distinct_map inj_onD)
      then show ?thesis using d by (auto simp: known_pair_def)
    qed
    then have "known_pairs (take t dims) T" using goal(1) [OF T(1)] by (simp add: known_pairs_def list_all_iff)
    from block_keeps [OF first this _ goal(3) [OF T(1)]] len goal(2,4) [OF T(1)]
    show ?thesis by (simp add: covers_partial_def is_covered_def list_ex_iff)
  qed
  have self: "is_covered T T" if "T \<in> ?goal" for T
    using has_pairs_self [of T] goal(1) [OF that] by (simp add: is_covered_def known_pairs_def)
  have start: "keeps ?goal ?P (?block, ?left)"
  proof
    show "rows_within ?P ?block" unfolding rows_within_def
    proof
      fix tau assume "tau \<in> set ?block"
      then have "known_pairs (take t dims) tau"
        using enumerate_known [of "take t dims" "[]" "take t dims" tau es] by (simp add: block_is_enumeration)
      with keys show "btree_map tau \<and> fst ` set tau \<subseteq> ?P" by (simp add: known_pairs_def)
    qed
  qed auto
  have placed: "placed_covered ?goal ?P ?block"
    using block self by (auto simp: placed_covered_def covered_in_def list_ex_iff)
  have "keeps ?goal (?P \<union> dim_id ` set (drop t dims)) (rows, rest) \<and> placed_covered ?goal (?P \<union> dim_id ` set (drop t dims)) rows"
    by (rule grow_all_keeps [OF space goal(1) grown _ _ _ apart start placed])
      (use split dims_ids in \<open>auto simp: drop_map [symmetric]\<close>)
  then have rows: "rows_within (dim_id ` set space) rows" "placed_covered ?goal (dim_id ` set space) rows"
    using split by (simp_all add: image_Un [symmetric] keeps_def)
  then have "covered_in rows T" using T0 keys [OF goal(1) [OF T0]] by (simp add: placed_covered_def)
  then obtain tau where tau: "tau \<in> set rows" "is_covered T tau" by (auto simp: covered_in_def list_ex_iff)
  then have "complete_avoiding space tau es \<noteq> None" using result(2) by (auto simp: filter_empty_conv)
  then obtain a where a: "complete_avoiding space tau es = Some a" by blast
  have "map_of tau \<subseteq>\<^sub>m map_of a" using rows(1) tau(1) by (intro avoiding_keeps [OF space _ _ a]) (simp_all add: rows_within_def)
  then have "is_covered T a" using tau(2) has_pairs_mono by (auto simp: is_covered_def)
  moreover have "a \<in> set covering" using a tau(1) by (force simp: result(1) map_filter_def)
  ultimately show ?thesis by (auto simp: covered_in_def list_ex_iff)
qed

end
