(* ===== verification/Sampler_Theorems.thy ===== *)
theory Sampler_Theorems
  imports Sampler_Covers
begin

text \<open>
  What a selection of variants promises, over the space of any shape whose dimensions have distinct ids:
  a selection is always made, its variants are distinct well-formed assignments led by the base, an
  exhaustive one holds every assignment no exclusion matches, and a t-wise one over a space without gates
  covers every target. Where a gate is in the space, a target the report counts as covered may be in no
  variant.
\<close>

subsection \<open>The space of a shape\<close>

lemma facet_ok_other: "dim_facet d \<noteq> ''presence'' \<Longrightarrow> dim_facet d \<noteq> ''nullability'' \<Longrightarrow> facet_ok d"
  by (simp add: facet_ok_def)

lemma facet_ok_cardinality: "d \<in> set (cardinality_dimension opr at least most gates) \<Longrightarrow> facet_ok d"
  by (rule facet_ok_other) (auto simp: cardinality_dimension_def Let_def split: if_splits)

lemma facet_ok_named [simp]:
  "facet_ok (presence_dimension at gates)" "facet_ok (nullability_dimension at gates)"
  "facet_ok (value_dimension L at ex options gates)" "facet_ok (alternative_dimension at alternatives dflt gates)"
  by (auto simp: facet_ok_def presence_dimension_def nullability_dimension_def value_dimension_def
        alternative_dimension_def points_of_def named_point_def)

lemma space_walk_facets: "d \<in> set (space_walk L at gates s) \<Longrightarrow> facet_ok d"
proof (induction L at gates s rule: space_walk.induct)
  case (4 L at gates ex g disc alternatives dflt)
  then show ?case by (cases "length alternatives < 2") fastforce+
next
  case (5 L at gates ex g items least most)
  then show ?case using facet_ok_cardinality by auto
next
  case (6 L at gates ex g ks vs least most)
  then show ?case using facet_ok_cardinality by (auto split: option.splits)
next
  case (7 L at gates ex g members)
  then show ?case by (force simp: members_by_name_def)
next
  case (8 L at gates ex g entries)
  then show ?case by (fastforce dest: enumerate_member)
next
  case (9 L at gates ex g entries)
  then show ?case by (fastforce dest: enumerate_member)
qed (auto split: if_splits)

lemma shape_space_ok:
  assumes "every_shape (default_named L) s" and "distinct (map dim_id (compute_space L s at))"
  shows "space_ok (compute_space L s at)" and "list_all facet_ok (compute_space L s at)"
  using space_walk_ok [OF assms(1)] space_walk_parents [of "[]" L at s] space_walk_facets assms(2)
  by (simp_all add: space_ok_def compute_space_def list_all_iff)

subsection \<open>What a selection went through\<close>

lemma finished:
  assumes "finish_selection space policy sz exact strategy vs es targets dropped = Inr sel"
  shows "sl_variants sel = vs \<and> length vs \<le> sa_max_variants policy \<and> se_strategy (sl_report sel) = strategy
    \<and> se_selected (sl_report sel) = length vs \<and> cv_dropped (se_coverage (sl_report sel)) = dropped"
  using assms by (auto simp: finish_selection_def split: if_splits)

lemma selected_cases:
  assumes "select_variants space policy = Some (Inr sel)"
  obtains pins es strategy vs es' targets dropped where
    "resolve_refs space policy = Inr (pins, es)" "seed_variants space policy strategy pins = Some vs"
    "cover_seeds space policy strategy vs es = Some (sl_variants sel, es', targets, dropped)"
    "length (sl_variants sel) \<le> sa_max_variants policy" "se_strategy (sl_report sel) = strategy"
    "se_selected (sl_report sel) = length (sl_variants sel)" "cv_dropped (se_coverage (sl_report sel)) = dropped"
proof -
  obtain pins es where refs: "resolve_refs space policy = Inr (pins, es)"
    using assms by (cases "resolve_refs space policy") (auto simp: select_variants_def)
  from assms obtain sz exact where sz: "space_size space = Some (sz, exact)"
    by (auto simp: select_variants_def refs split: bind_splits)
  from assms obtain strategy where strategy: "chosen_strategy policy sz exact = Some strategy"
    by (cases "chosen_strategy policy sz exact") (simp_all add: select_variants_def refs sz)
  from assms obtain vs where vs: "seed_variants space policy strategy pins = Some vs"
    by (cases "seed_variants space policy strategy pins") (simp_all add: select_variants_def refs sz strategy)
  from assms obtain ws es' targets dropped where cover: "cover_seeds space policy strategy vs es = Some (ws, es', targets, dropped)"
    and "finish_selection space policy sz exact strategy ws es' targets dropped = Inr sel"
    by (cases "cover_seeds space policy strategy vs es") (auto simp: select_variants_def refs sz strategy vs)
  from finished [OF this(2)] cover that [OF refs vs] show ?thesis by auto
qed

lemma selected_ok:
  assumes space: "space_ok space" "list_all facet_ok space" and sel: "select_variants space policy = Some (Inr sel)"
    and refs: "resolve_refs space policy = Inr (pins, es)"
  shows "variants_ok space es (sl_variants sel) \<and> seeds_of space (sl_variants sel)
    \<and> complete_assignment space ` set pins \<subseteq> vr_assignment ` set (sl_variants sel)
    \<and> length (sl_variants sel) \<le> sa_max_variants policy \<and> se_selected (sl_report sel) = length (sl_variants sel)"
proof -
  from sel obtain strategy vs es' targets dropped where
    vs: "seed_variants space policy strategy pins = Some vs"
    and cover: "cover_seeds space policy strategy vs es = Some (sl_variants sel, es', targets, dropped)"
    and rest: "length (sl_variants sel) \<le> sa_max_variants policy" "se_selected (sl_report sel) = length (sl_variants sel)"
    by (rule selected_cases) (simp add: refs)
  have "list_all (known_pairs space) pins" using pins_known [OF refs] .
  from seeds_ok [OF space this vs, of es] cover_ok(1) [OF space(1) _ cover] seeds_of_prefix rest
  show ?thesis using set_mono_prefix by blast
qed

lemma selected_exhaustive:
  assumes space: "space_ok space" "list_all facet_ok space" and sel: "select_variants space policy = Some (Inr sel)"
    and refs: "resolve_refs space policy = Inr (pins, es)" and a: "valid_assignment space a" "\<not> matching_exclusion a es"
    and ex: "se_strategy (sl_report sel) = ''exhaustive''"
  shows "a \<in> vr_assignment ` set (sl_variants sel)"
proof -
  from sel obtain strategy vs es' targets dropped where
    vs: "seed_variants space policy strategy pins = Some vs"
    and cover: "cover_seeds space policy strategy vs es = Some (sl_variants sel, es', targets, dropped)"
    and strategy: "strategy = ''exhaustive''"
    by (rule selected_cases) (simp add: refs ex)
  have "list_all (known_pairs space) pins" using pins_known [OF refs] .
  from seeds_ok [OF space this vs, of es] have "variants_ok space es vs" by simp
  from cover_ok(2) [OF space(1) this cover strategy] a show ?thesis by simp
qed

subsection \<open>Covering a space without gates\<close>

lemma combined_covered:
  "covered_in (map vr_assignment vs @ covering) T \<Longrightarrow> vr_assignment ` set ws = vr_assignment ` set vs \<union> set covering \<Longrightarrow>
   \<exists>v \<in> set ws. is_covered T (vr_assignment v)"
proof -
  assume "covered_in (map vr_assignment vs @ covering) T" and ws: "vr_assignment ` set ws = vr_assignment ` set vs \<union> set covering"
  then obtain a where "a \<in> vr_assignment ` set ws" "is_covered T a" by (auto simp: covered_in_def list_ex_iff ws)
  then show ?thesis by blast
qed

lemma pushed_assignments:
  "vr_assignment ` set (fold (push_variant space from) as vs) = vr_assignment ` set vs \<union> set as"
proof (induction as arbitrary: vs)
  case (Cons a as)
  have "vr_assignment ` set (push_variant space from a vs) = insert a (vr_assignment ` set vs)"
    by (auto simp: push_variant_def)
  with Cons show ?case by simp
qed simp

lemma cover_flat:
  assumes space: "ungated space" and cover: "cover_seeds space policy ''t-wise'' vs es = Some (ws, es', n, 0)"
    and T: "known_pairs space T" "length T = max (sa_strength policy) 1" "\<not> matching_exclusion T es"
  shows "\<exists>v \<in> set ws. is_covered T (vr_assignment v)"
proof -
  let ?t = "max (sa_strength policy) 1"
  obtain ts es1 where targets: "enumerate_targets space ?t es = (ts, es1)" by fastforce
  have seeds: "''t-wise'' \<noteq> ''base-only''" "''t-wise'' \<noteq> ''exhaustive''" by simp_all
  from cover obtain covering where i: "ipog space ?t (map vr_assignment vs) ts es1 = Some (covering, 0)"
    "ws = fold (push_variant space Covering) covering vs"
    unfolding cover_seeds_def Let_def if_not_P [OF seeds(1)] if_not_P [OF seeds(2)] targets prod.case by auto
  have exact: "set ts = {T. known_pairs space T \<and> length T = ?t \<and> \<not> matching_exclusion T es1}"
    using enumerated_exact [OF space targets] targets_known(2) [OF targets] by simp
  have "T \<in> set ts" using T enumerated_exact [OF space targets] by simp
  from ipog_covers [OF space _ i(1) exact this] have "covered_in (map vr_assignment vs @ covering) T" by simp
  then show ?thesis by (rule combined_covered) (simp add: i(2) pushed_assignments)
qed

lemma avoiding_nothing: "complete_avoiding space tau [] = Some (complete_assignment space tau)"
  by (simp add: complete_avoiding_def matching_exclusion_def Let_def)

lemma ipog_drops_nothing: "ipog space t seeds targets [] = Some (covering, dropped) \<Longrightarrow> dropped = 0"
  by (auto simp: ipog_def Let_def avoiding_nothing split: if_splits option.splits prod.splits)

lemma cover_drops_nothing:
  assumes "cover_seeds space policy ''t-wise'' vs [] = Some (ws, es', n, dropped)"
  shows "dropped = 0"
proof -
  let ?t = "max (sa_strength policy) 1"
  obtain ts es1 where targets: "enumerate_targets space ?t [] = (ts, es1)" by fastforce
  have "map rx_when es1 = map rx_when ([] :: resolved_exclusion list)"
    using add_targets [OF targets [unfolded enumerate_targets_def]] by simp
  then have none: "es1 = []" by simp
  have names: "''t-wise'' \<noteq> ''base-only''" "''t-wise'' \<noteq> ''exhaustive''" by simp_all
  from assms obtain covering where "ipog space ?t (map vr_assignment vs) ts [] = Some (covering, dropped)"
    unfolding cover_seeds_def Let_def if_not_P [OF names(1)] if_not_P [OF names(2)] targets prod.case none by auto
  then show ?thesis by (rule ipog_drops_nothing)
qed

lemma t_wise_selection:
  assumes space: "space_ok space" and refs: "resolve_refs space policy = Inr (pins, es)" and policy: "sa_strategy policy = ''t-wise''"
    and seeds: "map_option (map vr_assignment) (seed_variants space policy ''t-wise'' pins) = Some seeds"
    and targets: "enumerate_targets space (max (sa_strength policy) 1) es = (ts, es1)"
    and ipog: "ipog space (max (sa_strength policy) 1) seeds ts es1 = Some (covering, dropped)"
    and room: "length seeds + length covering \<le> sa_max_variants policy"
  shows "\<exists>sel. select_variants space policy = Some (Inr sel)
    \<and> vr_assignment ` set (sl_variants sel) = set seeds \<union> set covering \<and> se_strategy (sl_report sel) = ''t-wise''
    \<and> se_coverage (sl_report sel) = \<lparr>cv_targets = length ts, cv_covered = length ts - dropped,
        cv_removed = sum_list (map rx_removed es1), cv_dropped = dropped\<rparr>"
proof -
  obtain sz exact where sz: "space_size space = Some (sz, exact)" using space_size_some [OF space] by auto
  have strategy: "chosen_strategy policy sz exact = Some ''t-wise''" by (simp add: chosen_strategy_def policy)
  obtain vs where vs: "seed_variants space policy ''t-wise'' pins = Some vs" "map vr_assignment vs = seeds"
    using seeds by auto
  let ?ws = "fold (push_variant space Covering) covering vs"
  have names: "''t-wise'' \<noteq> ''base-only''" "''t-wise'' \<noteq> ''exhaustive''" by simp_all
  have cover: "cover_seeds space policy ''t-wise'' vs es = Some (?ws, es1, length ts, dropped)"
    unfolding cover_seeds_def Let_def if_not_P [OF names(1)] if_not_P [OF names(2)] targets vs(2) prod.case ipog by simp
  have "length (fold (push_variant space Covering) as us) \<le> length us + length as" for as us
  proof (induction as arbitrary: us)
    case (Cons a as)
    have "length (push_variant space Covering a us) \<le> Suc (length us)" by (simp add: push_variant_def)
    with Cons [of "push_variant space Covering a us"] show ?case by simp
  qed simp
  from this [of covering vs] have "length ?ws \<le> sa_max_variants policy" using room vs(2) by auto
  moreover have "vr_assignment ` set ?ws = set seeds \<union> set covering" by (simp add: pushed_assignments vs(2) [symmetric])
  ultimately show ?thesis by (simp add: select_variants_def refs sz strategy vs(1) cover finish_selection_def)
qed

subsection \<open>Two shapes to select from\<close>

text \<open>An object of three optional members, and one whose second member may also be null.\<close>

definition text_shape :: shape where
  "text_shape = ShapeNode None None (Core (Kind VK_String))"

definition optional_shape :: "shape \<Rightarrow> shape" where
  "optional_shape s = ShapeNode None None (Core (Optional s))"

definition flat_shape :: shape where
  "flat_shape = ShapeNode None None (Core (Object
     [(''a'', optional_shape text_shape), (''b'', optional_shape text_shape), (''c'', optional_shape text_shape)]))"

definition gated_shape :: shape where
  "gated_shape = ShapeNode None None (Core (Object
     [(''a'', optional_shape text_shape), (''b'', optional_shape (ShapeNode None None (Core (Nullable text_shape))))]))"

definition t_wise_policy :: sampling_policy where
  "t_wise_policy = default_sampling\<lparr>sa_strategy := ''t-wise''\<rparr>"

lemma flat_shape_names: "every_shape (default_named L) flat_shape"
  by (simp add: flat_shape_def optional_shape_def text_shape_def every_shape.simps)

lemma gated_shape_names: "every_shape (default_named L) gated_shape"
  by (simp add: gated_shape_def optional_shape_def text_shape_def every_shape.simps)

lemma flat_space: "compute_space example_lib flat_shape ''r'' =
    [presence_dimension ''r.a'' [], presence_dimension ''r.b'' [], presence_dimension ''r.c'' []]"
  by code_simp

lemma gated_space: "compute_space example_lib gated_shape ''r'' =
    [presence_dimension ''r.a'' [], presence_dimension ''r.b'' [],
     nullability_dimension ''r.b'' [\<lparr>gate_dimension = ''r.b#presence'', gate_point = ''present''\<rparr>]]"
  by code_simp

lemma flat_ids: "distinct (map dim_id (compute_space example_lib flat_shape ''r''))"
  by code_simp

lemma gated_ids: "distinct (map dim_id (compute_space example_lib gated_shape ''r''))"
  by code_simp

lemma t_wise_refs: "resolve_refs space t_wise_policy = Inr ([], [])"
  by (simp add: resolve_refs_def t_wise_policy_def default_sampling_def)

lemma t_wise_strength: "sa_strategy t_wise_policy = ''t-wise''" "max (sa_strength t_wise_policy) 1 = 2"
    "sa_max_variants t_wise_policy = 50"
  by (simp_all add: t_wise_policy_def default_sampling_def)

lemma flat_seeds: "map_option (map vr_assignment) (seed_variants (compute_space example_lib flat_shape ''r'') t_wise_policy ''t-wise'' []) =
    Some [[(''r.a#presence'', ''present''), (''r.b#presence'', ''present''), (''r.c#presence'', ''present'')],
      [(''r.a#presence'', ''absent''), (''r.b#presence'', ''absent''), (''r.c#presence'', ''absent'')]]"
  by code_simp

lemma flat_targets: "enumerate_targets (compute_space example_lib flat_shape ''r'') 2 [] =
    (fst (enumerate_targets (compute_space example_lib flat_shape ''r'') 2 []), [])"
  by code_simp

lemma flat_covering: "map_option (\<lambda>(covering, dropped). (length covering \<le> 3, dropped))
      (ipog (compute_space example_lib flat_shape ''r'') 2
        [[(''r.a#presence'', ''present''), (''r.b#presence'', ''present''), (''r.c#presence'', ''present'')],
         [(''r.a#presence'', ''absent''), (''r.b#presence'', ''absent''), (''r.c#presence'', ''absent'')]]
        (fst (enumerate_targets (compute_space example_lib flat_shape ''r'') 2 [])) []) = Some (True, 0)"
  by code_simp

lemma flat_selected:
  obtains sel where "select_variants (compute_space example_lib flat_shape ''r'') t_wise_policy = Some (Inr sel)"
    "se_strategy (sl_report sel) = ''t-wise''" "cv_dropped (se_coverage (sl_report sel)) = 0"
proof -
  let ?space = "compute_space example_lib flat_shape ''r''"
  let ?seeds = "[[(''r.a#presence'', ''present''), (''r.b#presence'', ''present''), (''r.c#presence'', ''present'')],
     [(''r.a#presence'', ''absent''), (''r.b#presence'', ''absent''), (''r.c#presence'', ''absent'')]]"
  let ?ts = "fst (enumerate_targets ?space 2 [])"
  from flat_covering obtain covering where covering: "ipog ?space 2 ?seeds ?ts [] = Some (covering, 0)" "length covering \<le> 3"
    by (cases "ipog ?space 2 ?seeds ?ts []") auto
  note selection = t_wise_selection [OF shape_space_ok(1) [OF flat_shape_names flat_ids] t_wise_refs t_wise_strength(1) flat_seeds,
      unfolded t_wise_strength(2), OF flat_targets covering(1)]
  have "length ?seeds + length covering \<le> sa_max_variants t_wise_policy" using covering(2) by (simp add: t_wise_strength(3))
  from selection [OF this] that show ?thesis by auto
qed

definition exhaustive_policy :: sampling_policy where
  "exhaustive_policy = default_sampling\<lparr>sa_strategy := ''exhaustive''\<rparr>"

lemma exhaustive_refs: "resolve_refs space exhaustive_policy = Inr ([], [])"
  by (simp add: resolve_refs_def exhaustive_policy_def default_sampling_def)

lemma flat_enumerated:
  "Option.bind (seed_variants (compute_space example_lib flat_shape ''r'') exhaustive_policy ''exhaustive'' [])
     (\<lambda>vs. map_option (\<lambda>(ws, es, n, dropped). length ws)
        (cover_seeds (compute_space example_lib flat_shape ''r'') exhaustive_policy ''exhaustive'' vs [])) = Some 8"
  by code_simp

lemma flat_exhausted:
  obtains sel where "select_variants (compute_space example_lib flat_shape ''r'') exhaustive_policy = Some (Inr sel)"
    "se_strategy (sl_report sel) = ''exhaustive''"
proof -
  let ?space = "compute_space example_lib flat_shape ''r''"
  obtain sz exact where sz: "space_size ?space = Some (sz, exact)"
    using space_size_some [OF shape_space_ok(1) [OF flat_shape_names flat_ids]] by auto
  have strategy: "chosen_strategy exhaustive_policy sz exact = Some ''exhaustive''"
    by (simp add: chosen_strategy_def exhaustive_policy_def)
  from flat_enumerated obtain vs where vs: "seed_variants ?space exhaustive_policy ''exhaustive'' [] = Some vs"
    and more: "map_option (\<lambda>(ws, es, n, dropped). length ws) (cover_seeds ?space exhaustive_policy ''exhaustive'' vs []) = Some 8"
    by (cases "seed_variants ?space exhaustive_policy ''exhaustive'' []") auto
  from more obtain ws es n dropped where ws: "cover_seeds ?space exhaustive_policy ''exhaustive'' vs [] = Some (ws, es, n, dropped)" "length ws = 8"
    by (cases "cover_seeds ?space exhaustive_policy ''exhaustive'' vs []") auto
  have "sa_max_variants exhaustive_policy = 50" by (simp add: exhaustive_policy_def default_sampling_def)
  then show ?thesis
    using that by (simp add: select_variants_def exhaustive_refs sz strategy vs ws finish_selection_def)
qed

definition gated_covering :: "assignment list" where
  "gated_covering =
     [[(''r.a#presence'', ''present''), (''r.b#presence'', ''absent'')],
      [(''r.a#presence'', ''absent''), (''r.b#nullability'', ''null''), (''r.b#presence'', ''present'')],
      [(''r.a#presence'', ''absent''), (''r.b#nullability'', ''non-null''), (''r.b#presence'', ''present'')]]"

definition gated_seeds :: "assignment list" where
  "gated_seeds =
     [[(''r.a#presence'', ''present''), (''r.b#nullability'', ''non-null''), (''r.b#presence'', ''present'')],
      [(''r.a#presence'', ''absent''), (''r.b#presence'', ''absent'')]]"

definition lost_target :: target where
  "lost_target = [(''r.a#presence'', ''present''), (''r.b#nullability'', ''null'')]"

lemma gated_seeded: "map_option (map vr_assignment) (seed_variants (compute_space example_lib gated_shape ''r'') t_wise_policy ''t-wise'' []) =
    Some gated_seeds"
  by code_simp

lemma gated_targets: "enumerate_targets (compute_space example_lib gated_shape ''r'') 2 [] =
    (fst (enumerate_targets (compute_space example_lib gated_shape ''r'') 2 []), [])
    \<and> length (fst (enumerate_targets (compute_space example_lib gated_shape ''r'') 2 [])) = 10
    \<and> lost_target \<in> set (fst (enumerate_targets (compute_space example_lib gated_shape ''r'') 2 []))"
  by code_simp

lemma gated_covered: "ipog (compute_space example_lib gated_shape ''r'') 2 gated_seeds
    (fst (enumerate_targets (compute_space example_lib gated_shape ''r'') 2 [])) [] = Some (gated_covering, 0)"
  by code_simp

lemma gated_lost: "filter (is_covered lost_target) (gated_seeds @ gated_covering) = []"
  by code_simp

subsection \<open>The properties\<close>

text \<open>C13: a selection over the space of a shape always comes back, a problem of the policy or a budget
  exceeded included: the gate recursions end and the processing order never sticks.\<close>

theorem selection_returns:
  assumes "every_shape (default_named L) s" and "distinct (map dim_id (compute_space L s at))"
  shows "\<exists>r. select_variants (compute_space L s at) policy = Some r"
  using select_some [OF shape_space_ok(1) [OF assms], of policy] by auto

theorem selection_returns_witness:
  "\<exists>r. select_variants (compute_space example_lib gated_shape ''r'') default_sampling = Some r"
  by (rule selection_returns [OF gated_shape_names gated_ids])





text \<open>C10: over a space without gates a t-wise selection covers every choice of points for \<open>t\<close> dimensions that
  no exclusion matches, if the policy excludes nothing or the report says that no row was dropped.\<close>

theorem flat_selection_covers:
  assumes "every_shape (default_named L) s" and "distinct (map dim_id (compute_space L s at))"
    and "\<forall>d \<in> set (compute_space L s at). dim_gates d = []"
    and "resolve_refs (compute_space L s at) policy = Inr (pins, es)"
    and "select_variants (compute_space L s at) policy = Some (Inr sel)"
    and "se_strategy (sl_report sel) = ''t-wise''" and "es = [] \<or> cv_dropped (se_coverage (sl_report sel)) = 0"
    and "known_pairs (compute_space L s at) T" and "length T = max (sa_strength policy) 1" and "\<not> matching_exclusion T es"
  shows "\<exists>v \<in> set (sl_variants sel). is_covered T (vr_assignment v)"
proof -
  have flat: "ungated (compute_space L s at)"
    using shape_space_ok [OF assms(1,2)] assms(3) by (simp add: ungated_def space_ok_def)
  from assms(5) obtain vs es' n dropped where
    cover: "cover_seeds (compute_space L s at) policy ''t-wise'' vs es = Some (sl_variants sel, es', n, dropped)"
    and "cv_dropped (se_coverage (sl_report sel)) = dropped"
    by (rule selected_cases) (simp add: assms(4,6))
  then have "dropped = 0" using assms(7) by (metis cover_drops_nothing)
  with cover have "cover_seeds (compute_space L s at) policy ''t-wise'' vs es = Some (sl_variants sel, es', n, 0)" by simp
  from cover_flat [OF flat this assms(8-10)] show ?thesis .
qed

theorem flat_selection_covers_witness:
  "\<exists>sel. select_variants (compute_space example_lib flat_shape ''r'') t_wise_policy = Some (Inr sel)
     \<and> (\<exists>v \<in> set (sl_variants sel). is_covered [(''r.a#presence'', ''absent''), (''r.c#presence'', ''present'')] (vr_assignment v))"
proof -
  obtain sel where sel: "select_variants (compute_space example_lib flat_shape ''r'') t_wise_policy = Some (Inr sel)"
    "se_strategy (sl_report sel) = ''t-wise''" by (rule flat_selected)
  let ?T = "[(''r.a#presence'', ''absent''), (''r.c#presence'', ''present'')]"
  have flat: "\<forall>d \<in> set (compute_space example_lib flat_shape ''r''). dim_gates d = []"
    by (simp add: flat_space presence_dimension_def)
  have T: "known_pairs (compute_space example_lib flat_shape ''r'') ?T" "length ?T = max (sa_strength t_wise_policy) 1"
    "\<not> matching_exclusion ?T []"
    by (simp_all add: flat_space presence_dimension_def known_pairs_def known_pair_def points_of_def named_point_def
        dimension_id_def btree_map_def matching_exclusion_def t_wise_strength(2) [simplified] less_list_code)
  show ?thesis
    using sel(1) flat_selection_covers [OF flat_shape_names flat_ids flat t_wise_refs sel(1,2) disjI1 [OF refl] T] by blast
qed

text \<open>C14: with a gate, a target may be lost: the report counts ten targets, ten covered and nothing dropped,
  and no variant has \<open>a\<close> present with \<open>b\<close> null, which is one of the ten.\<close>

theorem gated_target_lost:
  "\<exists>sel. select_variants (compute_space example_lib gated_shape ''r'') t_wise_policy = Some (Inr sel)
     \<and> lost_target \<in> set (fst (enumerate_targets (compute_space example_lib gated_shape ''r'') 2 []))
     \<and> cv_targets (se_coverage (sl_report sel)) = 10 \<and> cv_covered (se_coverage (sl_report sel)) = 10
     \<and> cv_dropped (se_coverage (sl_report sel)) = 0
     \<and> filter (\<lambda>v. is_covered lost_target (vr_assignment v)) (sl_variants sel) = []"
proof -
  note targets = gated_targets [THEN conjunct1] and count = gated_targets [THEN conjunct2]
  note selection = t_wise_selection [OF shape_space_ok(1) [OF gated_shape_names gated_ids] t_wise_refs t_wise_strength(1) gated_seeded,
      unfolded t_wise_strength(2), OF targets gated_covered]
  have "length gated_seeds + length gated_covering \<le> sa_max_variants t_wise_policy"
    by (simp add: gated_seeds_def gated_covering_def t_wise_strength(3))
  from selection [OF this] obtain sel where sel: "select_variants (compute_space example_lib gated_shape ''r'') t_wise_policy = Some (Inr sel)"
    "vr_assignment ` set (sl_variants sel) = set gated_seeds \<union> set gated_covering"
    "se_coverage (sl_report sel) = \<lparr>cv_targets = 10, cv_covered = 10 - 0, cv_removed = sum_list (map rx_removed ([] :: resolved_exclusion list)), cv_dropped = 0\<rparr>"
    unfolding count [THEN conjunct1] by (elim exE conjE) (rule that)
  have "\<not> is_covered lost_target (vr_assignment v)" if "v \<in> set (sl_variants sel)" for v
    using gated_lost sel(2) that by (auto simp: filter_empty_conv)
  then have "filter (\<lambda>v. is_covered lost_target (vr_assignment v)) (sl_variants sel) = []"
    by (simp add: filter_empty_conv)
  with sel(1,3) count show ?thesis by auto
qed

end
