(* ===== verification/Contract_Model.thy ===== *)
theory Contract_Model
  imports Sampler Interaction_Parse "HOL-Library.Option_ord" "HOL-Library.Product_Lexorder"
begin

text \<open>
  A contract, engine/kernel/src/contract: its records, how each is written (canonical.rs,
  shape/canonical.rs, and the derived serializers of model.rs, a member in the order it is declared and
  left out when it is \<open>None\<close>), the identity of an interaction and the merge of two contracts. Bytes are
  written by \<open>json_text\<close>. Reading a file back is \<open>serde\<close>'s derived deserializer, a parameter.
\<close>

text \<open>The dash the messages use, in UTF-8.\<close>

definition em_dash :: string where
  "em_dash = [CHR 0xE2, CHR 0x80, CHR 0x94]"

subsection \<open>Opaque members\<close>

fun json_sorted :: "json \<Rightarrow> json" where
  "json_sorted (JObject members) = JObject (map (\<lambda>(k, v). (k, json_sorted v)) (by_name members))"
| "json_sorted (JArray items) = JArray (map json_sorted items)"
| "json_sorted other = other"

definition core_node :: "json smap \<Rightarrow> bool" where
  "core_node members =
     (case map_of members ''shape'' of
        Some (JString operator) \<Rightarrow> operator \<in> set core_operators
      | _ \<Rightarrow> False)"

fun shape_canonical :: "json \<Rightarrow> json" where
  "shape_canonical (JObject members) =
     (if \<not> core_node members then JObject members
      else JObject (map (\<lambda>(name, member). (name,
        if name = ''members'' then
          (case member of JObject ms \<Rightarrow> JObject (map (\<lambda>(k, v). (k, shape_canonical v)) ms) | other \<Rightarrow> other)
        else if name = ''alternatives'' then
          (case member of JObject ms \<Rightarrow> JObject (map (\<lambda>(k, v). (k, shape_canonical v)) (by_name ms)) | other \<Rightarrow> other)
        else if name \<in> {''of'', ''items'', ''keys'', ''values''} then shape_canonical member
        else if name = ''entries'' then
          (case member of JArray entries \<Rightarrow> JArray (map shape_canonical entries) | other \<Rightarrow> other)
        else member)) (by_name members)))"
| "shape_canonical other = other"

definition binding_case :: "json \<Rightarrow> json" where
  "binding_case v =
     (case v of
        JObject members \<Rightarrow>
          JObject (map (\<lambda>(name, member). (name, if name = ''value'' then member else json_sorted member)) (by_name members))
      | other \<Rightarrow> other)"

definition binding_json :: "json \<Rightarrow> json" where
  "binding_json v =
     (case v of
        JObject members \<Rightarrow>
          JObject (map (\<lambda>(name, member). (name,
            if name = ''default'' then member
            else (case (name = ''cases'', member) of
                    (True, JArray cases) \<Rightarrow> JArray (map binding_case cases)
                  | _ \<Rightarrow> json_sorted member))) (by_name members))
      | other \<Rightarrow> other)"

definition canonical_parts :: "json smap smap \<Rightarrow> json" where
  "canonical_parts parts =
     JObject (map (\<lambda>(part, slots). (part, JObject (map (\<lambda>(slot, node). (slot, shape_canonical node)) slots))) parts)"

definition record_map :: "json smap \<Rightarrow> json" where
  "record_map r = JObject (map (\<lambda>(name, v). (name, json_sorted v)) r)"

subsection \<open>The records\<close>

record party =
  pa_name :: string

record resolved_state =
  rs_name :: string
  rs_params :: "json smap option"

record recorded_slot =
  ro_content :: json
  ro_encoded :: "string option"
  ro_content_type :: "string option"

record recorded_variant =
  rv_id :: string
  rv_origin :: origin
  rv_assignment :: "json list"
  rv_states :: "resolved_state list option"
  rv_parts :: "recorded_slot smap smap"

record recorded_selection =
  rl_variants :: "recorded_variant list"
  rl_report :: "json smap"

record contract_interaction =
  ci_description :: string
  ci_transport :: "transport option"
  ci_states :: "provider_state list option"
  ci_parts :: "json smap smap"
  ci_content_types :: "content_types option"
  ci_requires :: "requirement list option"
  ci_selection :: recorded_selection

record contract_metadata =
  cm_writer :: "string smap option"
  cm_created :: "string option"
  cm_build_url :: "string option"

record contract =
  ct_format :: string
  ct_schema :: "string option"
  ct_consumer :: party
  ct_provider :: party
  ct_interactions :: "contract_interaction list"
  ct_metadata :: "contract_metadata option"

subsection \<open>Writing\<close>

definition optional_member :: "string \<Rightarrow> ('a \<Rightarrow> json) \<Rightarrow> 'a option \<Rightarrow> json smap" where
  "optional_member name f v = (case v of Some x \<Rightarrow> [(name, f x)] | None \<Rightarrow> [])"

definition party_json :: "party \<Rightarrow> json" where
  "party_json p = JObject [(''name'', JString (pa_name p))]"

definition transport_json :: "transport \<Rightarrow> json" where
  "transport_json t = JObject ((''kind'', JString (tr_kind t)) # optional_member ''mode'' JString (tr_mode t))"

definition state_json :: "provider_state \<Rightarrow> json" where
  "state_json s =
     JObject ((''name'', JString (ps_name s)) # optional_member ''params'' JObject (ps_params s)
       @ optional_member ''variant-params'' (\<lambda>bs. JArray (map binding_json bs)) (ps_variant_params s))"

definition states_json :: "provider_state list \<Rightarrow> json" where
  "states_json ss = JArray (map state_json ss)"

definition requirement_json :: "requirement \<Rightarrow> json" where
  "requirement_json r =
     JObject ((''component'', JString (rq_component r))
       # optional_member ''min-version'' (\<lambda>n. JNumber (PosInt n)) (rq_min_version r))"

definition content_types_json :: "content_types \<Rightarrow> json" where
  "content_types_json types =
     JObject (map (\<lambda>(part, slots). (part, JObject (map (\<lambda>(slot, t). (slot, JString t)) slots))) types)"

definition resolved_state_json :: "resolved_state \<Rightarrow> json" where
  "resolved_state_json s = JObject ((''name'', JString (rs_name s)) # optional_member ''params'' JObject (rs_params s))"

definition recorded_slot_json :: "recorded_slot \<Rightarrow> json" where
  "recorded_slot_json s =
     JObject ((''content'', ro_content s) # optional_member ''encoded'' JString (ro_encoded s)
       @ optional_member ''content-type'' JString (ro_content_type s))"

definition recorded_variant_json :: "recorded_variant \<Rightarrow> json" where
  "recorded_variant_json v =
     JObject ([(''id'', JString (rv_id v)), (''origin'', JString (origin_text (rv_origin v))),
         (''assignment'', JArray (map json_sorted (rv_assignment v)))]
       @ optional_member ''states'' (\<lambda>ss. JArray (map resolved_state_json ss)) (rv_states v)
       @ [(''parts'', JObject (map (\<lambda>(part, slots). (part, JObject (map (\<lambda>(slot, s). (slot, recorded_slot_json s)) slots)))
            (rv_parts v)))])"

definition selection_json :: "recorded_selection \<Rightarrow> json" where
  "selection_json s =
     JObject [(''variants'', JArray (map recorded_variant_json (rl_variants s))), (''report'', record_map (rl_report s))]"

definition contract_interaction_json :: "contract_interaction \<Rightarrow> json" where
  "contract_interaction_json i =
     JObject ((''description'', JString (ci_description i)) # optional_member ''transport'' transport_json (ci_transport i)
       @ optional_member ''states'' states_json (ci_states i) @ [(''parts'', canonical_parts (ci_parts i))]
       @ optional_member ''content-types'' content_types_json (ci_content_types i)
       @ optional_member ''requires'' (\<lambda>rs. JArray (map requirement_json rs)) (ci_requires i)
       @ [(''selection'', selection_json (ci_selection i))])"

definition metadata_json :: "contract_metadata \<Rightarrow> json" where
  "metadata_json m =
     JObject (optional_member ''writer'' (\<lambda>w. JObject (map (\<lambda>(k, v). (k, JString v)) w)) (cm_writer m)
       @ optional_member ''created'' JString (cm_created m) @ optional_member ''build-url'' JString (cm_build_url m))"

definition contract_json :: "contract \<Rightarrow> json" where
  "contract_json c =
     JObject ((''$format'', JString (ct_format c)) # optional_member ''$schema'' JString (ct_schema c)
       @ [(''consumer'', party_json (ct_consumer c)), (''provider'', party_json (ct_provider c)),
          (''interactions'', JArray (map contract_interaction_json (ct_interactions c)))]
       @ optional_member ''metadata'' metadata_json (ct_metadata c))"

definition write_canonical :: "lib \<Rightarrow> contract \<Rightarrow> string" where
  "write_canonical L c = json_text L (contract_json c) @ [CHR 0x0A]"

text \<open>The interaction specification an interaction was written from: every member is inserted in turn.\<close>

definition spec_document :: "contract_interaction \<Rightarrow> json" where
  "spec_document i =
     JObject ([(''description'', JString (ci_description i)),
         (''parts'', JObject (map (\<lambda>(part, slots). (part, JObject slots)) (ci_parts i)))]
       @ optional_member ''transport'' transport_json (ci_transport i)
       @ optional_member ''states'' states_json (ci_states i)
       @ optional_member ''content-types'' content_types_json (ci_content_types i)
       @ optional_member ''requires'' (\<lambda>rs. JArray (map requirement_json rs)) (ci_requires i))"

subsection \<open>Identification\<close>

datatype identify_mode = Strict | Tolerant

definition strict_prefix_bytes :: string where
  "strict_prefix_bytes = ''{'' @ [CHR 0x22] @ ''$format'' @ [CHR 0x22] @ '':''"

definition identify_strict :: "string \<Rightarrow> bool" where
  "identify_strict bytes = prefix strict_prefix_bytes bytes"

definition identify_tolerant :: "string \<Rightarrow> bool" where
  "identify_tolerant bytes = contains_text (take 8192 bytes) ([CHR 0x22] @ ''$format'' @ [CHR 0x22])"

definition identify :: "string \<Rightarrow> identify_mode \<Rightarrow> bool" where
  "identify bytes mode = (case mode of Strict \<Rightarrow> identify_strict bytes | Tolerant \<Rightarrow> identify_tolerant bytes)"

datatype contract_error = Not_A_Contract | Version_Unsupported string | Contract_Invalid "problem list"

definition contract_error_code :: "contract_error \<Rightarrow> string" where
  "contract_error_code e =
     (case e of
        Not_A_Contract \<Rightarrow> ''contract-invalid''
      | Version_Unsupported _ \<Rightarrow> ''contract-version-unsupported''
      | Contract_Invalid _ \<Rightarrow> ''contract-invalid'')"

definition contract_error_text :: "contract_error \<Rightarrow> string" where
  "contract_error_text e =
     (case e of
        Not_A_Contract \<Rightarrow> ''not a Janus contract, or unreadable as one''
      | Version_Unsupported format \<Rightarrow> ''unsupported contract format: '' @ format
      | Contract_Invalid problems \<Rightarrow> ''invalid contract ('' @ nat_text (length problems) @ '' problem(s))'')"

text \<open>
  A persisted identifier, persisted.rs: the spelling written and the earlier ones also read; and a versioned
  format's family, its name at any major. No earlier spelling is in force.
\<close>

record persisted =
  pz_writes :: string
  pz_earlier :: "string list"

definition persisted_reads :: "persisted \<Rightarrow> string \<Rightarrow> bool" where
  "persisted_reads p found \<longleftrightarrow> found = pz_writes p \<or> found \<in> set (pz_earlier p)"

definition family :: "string \<Rightarrow> string option" where
  "family spelling = map_option (\<lambda>at. take at spelling @ ''/'') (last_occurrence ''/'' spelling)"

definition names_family :: "persisted \<Rightarrow> string \<Rightarrow> bool" where
  "names_family p found \<longleftrightarrow>
     list_ex (\<lambda>pre. starts_with found pre) (List.map_filter family (pz_writes p # pz_earlier p))"

definition contract_format :: persisted where
  "contract_format = \<lparr>pz_writes = ''janus-contract/1'', pz_earlier = []\<rparr>"

definition provider_shape_format :: persisted where
  "provider_shape_format = \<lparr>pz_writes = ''janus-provider-shape/1'', pz_earlier = []\<rparr>"

text \<open>Reading: the deserializer is a parameter, a contract or the path to the member it could not read.\<close>

definition contract_read ::
  "(string \<Rightarrow> (document_segment list \<times> string) + contract) \<Rightarrow> string \<Rightarrow> identify_mode \<Rightarrow> contract_error + contract" where
  "contract_read de bytes mode =
     (if \<not> identify bytes mode then Inl Not_A_Contract
      else (case de bytes of
              Inl (path, message) \<Rightarrow> Inl (Contract_Invalid [\<lparr>pr_pointer = json_pointer path, pr_message = message\<rparr>])
            | Inr c \<Rightarrow> Inr c))"

subsection \<open>Merging\<close>

datatype conflict = Parties string string | Interactions "contract_interaction list"

definition states_bytes :: "lib \<Rightarrow> contract_interaction \<Rightarrow> string option" where
  "states_bytes L i = map_option (\<lambda>ss. json_text L (states_json ss)) (ci_states i)"

text \<open>What \<open>compare\<close> orders by, the description first.\<close>

definition identity_key :: "lib \<Rightarrow> contract_interaction \<Rightarrow> string \<times> string option" where
  "identity_key L i = (ci_description i, states_bytes L i)"

definition contract_sort :: "lib \<Rightarrow> contract_interaction list \<Rightarrow> contract_interaction list" where
  "contract_sort L interactions = sort_key (identity_key L) interactions"

definition same_identity :: "lib \<Rightarrow> contract_interaction \<Rightarrow> contract_interaction \<Rightarrow> bool" where
  "same_identity L a b \<longleftrightarrow> identity_key L a = identity_key L b"

definition record_bytes :: "lib \<Rightarrow> contract_interaction \<Rightarrow> string" where
  "record_bytes L i = json_text L (contract_interaction_json i)"

fun merge_loop ::
  "lib \<Rightarrow> contract_interaction list \<Rightarrow> contract_interaction list \<Rightarrow> contract_interaction list \<times> contract_interaction list
     \<Rightarrow> contract_interaction list \<times> contract_interaction list" where
  "merge_loop L new [] state = state"
| "merge_loop L new (kept # existing) (interactions, conflicts) =
     merge_loop L new existing
       (case List.find (\<lambda>i. same_identity L i kept) new of
          None \<Rightarrow> (interactions @ [kept], conflicts)
        | Some i \<Rightarrow>
            if record_bytes L i = record_bytes L kept then (interactions, conflicts)
            else (interactions, conflicts @ [kept]))"

definition contract_merge :: "lib \<Rightarrow> contract \<Rightarrow> contract \<Rightarrow> conflict + contract" where
  "contract_merge L existing new =
     (if pa_name (ct_consumer existing) \<noteq> pa_name (ct_consumer new) \<or> pa_name (ct_provider existing) \<noteq> pa_name (ct_provider new)
      then Inl (Parties (pa_name (ct_consumer existing)) (pa_name (ct_provider existing)))
      else (case merge_loop L (ct_interactions new) (ct_interactions existing) (ct_interactions new, []) of
              (interactions, conflicts) \<Rightarrow>
                if conflicts \<noteq> [] then Inl (Interactions (contract_sort L conflicts))
                else Inr (new\<lparr>ct_interactions := contract_sort L interactions\<rparr>)))"

subsection \<open>The file a contract is written to\<close>

datatype write_mode = Merge | Overwrite

definition parse_mode :: "string option \<Rightarrow> string + write_mode" where
  "parse_mode mode =
     (case mode of
        None \<Rightarrow> Inr Merge
      | Some text \<Rightarrow>
          if text = ''merge'' then Inr Merge
          else if text = ''overwrite'' then Inr Overwrite
          else Inl (''write.mode: '' @ quote1 text @ '' is neither '' @ quote1 ''merge'' @ '' nor '' @ quote1 ''overwrite''))"

definition ascii_whitespace :: "char \<Rightarrow> bool" where
  "ascii_whitespace c \<longleftrightarrow> c \<in> {CHR 0x20, CHR 0x09, CHR 0x0A, CHR 0x0C, CHR 0x0D}"

datatype write_failure = Unreadable contract_error | Conflicted conflict

definition next_bytes ::
  "lib \<Rightarrow> (string \<Rightarrow> contract_error + contract) \<Rightarrow> string \<Rightarrow> contract \<Rightarrow> write_mode \<Rightarrow> write_failure + string" where
  "next_bytes L read existing contract mode =
     (if mode = Overwrite \<or> list_all ascii_whitespace existing then Inr (write_canonical L contract)
      else (case read existing of
              Inl err \<Rightarrow> Inl (Unreadable err)
            | Inr held \<Rightarrow>
                (case contract_merge L held contract of
                   Inl c \<Rightarrow> Inl (Conflicted c)
                 | Inr merged \<Rightarrow> Inr (write_canonical L merged))))"

definition conflict_message :: "string \<Rightarrow> conflict \<Rightarrow> string" where
  "conflict_message path c =
     (case c of
        Parties consumer provider \<Rightarrow>
          ''the file at '' @ quote1 path @ '' holds the contract between '' @ quote1 consumer @ '' and '' @ quote1 provider
      | Interactions is \<Rightarrow>
          ''the file at '' @ quote1 path @ '' records ''
            @ (if length is = 1 then ''an interaction'' else ''interactions'') @ '' differently from this session: ''
            @ join_with '', '' (map (\<lambda>i. quote1 (ci_description i)) is))"

definition conflict_details :: "string \<Rightarrow> conflict \<Rightarrow> json" where
  "conflict_details path c =
     (case c of
        Parties consumer provider \<Rightarrow>
          JObject [(''path'', JString path), (''consumer'', JString consumer), (''provider'', JString provider)]
      | Interactions is \<Rightarrow>
          JObject [(''path'', JString path),
            (''interactions'', JArray (map (\<lambda>i.
               JObject ((''description'', JString (ci_description i)) # optional_member ''states'' states_json (ci_states i))) is))])"

end
