(* ===== verification/Contract_Laws.thy ===== *)
theory Contract_Laws
  imports Contract_Model
begin

text \<open>
  Merging contracts: the laws of joining two lists of keyed records (locale \<open>keyed_join\<close>), interpreted on
  the interactions of a contract under their identity.
\<close>

locale keyed_join =
  fixes key :: "'a \<Rightarrow> 'k::linorder" and bytes :: "'a \<Rightarrow> string"
    and join :: "'a list \<Rightarrow> 'a list \<Rightarrow> 'a list" and clash :: "'a list \<Rightarrow> 'a list \<Rightarrow> 'a list"
  assumes join: "join new old = sort_key key (new @ filter (\<lambda>k. key k \<notin> key ` set new) old)"
    and clash: "distinct (map key new) \<Longrightarrow> k \<in> set (clash new old) \<longleftrightarrow>
      k \<in> set old \<and> (\<exists>i \<in> set new. key i = key k \<and> bytes i \<noteq> bytes k)"
begin

lemma keyed_unique:
  assumes "sorted (map key xs)" and "distinct (map key xs)" and "sorted (map key ys)" and "distinct (map key ys)"
    and "set xs = set ys"
  shows "xs = ys"
proof (rule map_sorted_distinct_set_unique [of key])
  show "inj_on key (set xs \<union> set ys)" using assms(2,5) by (simp add: distinct_map)
qed (use assms in simp_all)

lemma join_distinct:
  assumes "distinct (map key new)" and "distinct (map key old)"
  shows "distinct (map key (join new old))" and "sorted (map key (join new old))"
    and "set (join new old) = set new \<union> {k \<in> set old. key k \<notin> key ` set new}"
proof -
  have "distinct (map key (new @ filter (\<lambda>k. key k \<notin> key ` set new) old))"
    using distinct_map_filter [OF assms(2), of "\<lambda>k. key k \<notin> key ` set new"] assms(1) by (auto simp: image_iff)
  then show "distinct (map key (join new old))" by (simp only: join distinct_map distinct_sort set_sort)
qed (auto simp: join)

lemma join_again:
  assumes "distinct (map key new)" and "distinct (map key old)"
  shows "join new (join new old) = join new old" and "clash new (join new old) = []"
proof -
  note one = join_distinct [OF assms]
  note two = join_distinct [OF assms(1) one(1)]
  show "join new (join new old) = join new old"
    by (rule keyed_unique [OF two(2,1) one(2,1)]) (unfold two(3) one(3), blast)
  have "k \<notin> set (clash new (join new old))" for k
  proof
    assume "k \<in> set (clash new (join new old))"
    then obtain i where i: "k \<in> set (join new old)" "i \<in> set new" "key i = key k" "bytes i \<noteq> bytes k"
      using clash [OF assms(1)] by blast
    then have "k \<in> set new" using one(3) by (auto simp: image_iff)
    then have "i = k" using i(2,3) assms(1) by (auto simp: distinct_map dest: inj_onD)
    then show False using i(4) by simp
  qed
  then show "clash new (join new old) = []" by (metis last_in_set)
qed

lemma join_cong:
  assumes "map (\<lambda>i. (key i, g i)) old = map (\<lambda>i. (key i, g i)) old'"
  shows "map g (join new old) = map g (join new old')"
proof -
  let ?h = "\<lambda>i. (key i, g i)"
  have ins: "map ?h (insort_key key x xs) = insort_key fst (?h x) (map ?h xs)" for x xs
    by (induction xs) simp_all
  have srt: "map ?h (sort_key key xs) = sort_key fst (map ?h xs)" for xs
    by (induction xs) (simp_all add: ins)
  have flt: "map ?h (filter (\<lambda>k. Q (key k)) xs) = filter (\<lambda>(k, _). Q k) (map ?h xs)" for Q xs
    by (induction xs) simp_all
  have "map ?h (join new old) = map ?h (join new old')"
    using assms by (simp only: join srt map_append flt [of "\<lambda>k. k \<notin> key ` set new"])
  then have "map snd (map ?h (join new old)) = map snd (map ?h (join new old'))" by (simp only:)
  then show ?thesis by (simp add: comp_def)
qed

lemma join_own: "distinct (map key new) \<Longrightarrow> sorted (map key new) \<Longrightarrow> join new new = new \<and> clash new new = []"
proof -
  assume d: "distinct (map key new)" and s: "sorted (map key new)"
  have "filter (\<lambda>k. key k \<notin> key ` set new) new = []" by (auto simp: filter_empty_conv)
  then have "join new new = sort_key key new" by (simp only: join append_Nil2)
  moreover have "k \<notin> set (clash new new)" for k
  proof
    assume "k \<in> set (clash new new)"
    then obtain i where "i \<in> set new" "k \<in> set new" "key i = key k" "bytes i \<noteq> bytes k" using clash [OF d] by blast
    then show False using d by (auto simp: distinct_map dest: inj_onD)
  qed
  then have "clash new new = []" by (metis last_in_set)
  ultimately show ?thesis using s by (simp add: sort_key_id_if_sorted)
qed

lemma join_commutes:
  assumes d: "distinct (map key new)" "distinct (map key old)" and ok: "clash new old = []"
  shows "map bytes (join new old) = map bytes (join old new)" and "clash old new = []"
proof -
  have agree: "bytes i = bytes k" if "i \<in> set new" "k \<in> set old" "key i = key k" for i k
    using clash [OF d(1), of k old] that ok by auto
  have "k \<notin> set (clash old new)" for k
    using clash [OF d(2), of k new] agree by (metis)
  then show "clash old new = []" by (metis last_in_set)
  let ?g = "\<lambda>i. (key i, bytes i)"
  note one = join_distinct [OF d] and two = join_distinct [OF d(2,1)]
  have into: "?g ` set (join a b) \<subseteq> ?g ` set (join b a)"
    if ab: "distinct (map key a)" "distinct (map key b)" and eq: "\<And>i k. i \<in> set a \<Longrightarrow> k \<in> set b \<Longrightarrow> key i = key k \<Longrightarrow> bytes i = bytes k" for a b
  proof
    fix x assume "x \<in> ?g ` set (join a b)"
    then obtain i where i: "x = ?g i" "i \<in> set a \<or> (i \<in> set b \<and> key i \<notin> key ` set a)"
      using join_distinct(3) [OF ab] by auto
    show "x \<in> ?g ` set (join b a)"
    proof (cases "i \<in> set b \<or> key i \<notin> key ` set b")
      case True
      then have "i \<in> set (join b a)" using i(2) join_distinct(3) [OF ab(2,1)] by blast
      then show ?thesis using i(1) by blast
    next
      case False
      then obtain k where k: "k \<in> set b" "key k = key i" by auto
      then have "bytes i = bytes k" using False i(2) eq by metis
      moreover have "k \<in> set (join b a)" using k(1) join_distinct(3) [OF ab(2,1)] by blast
      ultimately show ?thesis using i(1) k(2) by (metis (no_types, lifting) image_eqI)
    qed
  qed
  have "?g ` set (join new old) = ?g ` set (join old new)"
    using into [OF d agree] into [OF d(2,1)] agree by (metis (no_types, lifting) subset_antisym)
  then have sets: "set (map ?g (join new old)) = set (map ?g (join old new))" by simp
  have "map ?g (join new old) = map ?g (join old new)"
  proof (rule map_sorted_distinct_set_unique [of fst])
    have "inj_on fst (?g ` set (join new old))" using one(1) by (auto simp: distinct_map inj_on_def)
    then show "inj_on fst (set (map ?g (join new old)) \<union> set (map ?g (join old new)))" by (simp only: sets [symmetric]) simp
  qed (use one two sets in \<open>simp_all add: comp_def\<close>)
  then have "map snd (map ?g (join new old)) = map snd (map ?g (join old new))" by (simp only:)
  then show "map bytes (join new old) = map bytes (join old new)" by (simp add: comp_def)
qed

end

subsection \<open>The interactions of a contract\<close>

definition joined :: "lib \<Rightarrow> contract_interaction list \<Rightarrow> contract_interaction list \<Rightarrow> contract_interaction list" where
  "joined L new old = contract_sort L (fst (merge_loop L new old (new, [])))"

definition conflicting :: "lib \<Rightarrow> contract_interaction list \<Rightarrow> contract_interaction list \<Rightarrow> contract_interaction list" where
  "conflicting L new old = snd (merge_loop L new old (new, []))"

lemma find_identity_None: "List.find (\<lambda>i. same_identity L i k) new = None \<longleftrightarrow> identity_key L k \<notin> identity_key L ` set new"
  by (auto simp: find_None_iff same_identity_def image_iff)

lemma merge_loop_eq:
  "merge_loop L new old (interactions, conflicts) =
     (interactions @ filter (\<lambda>k. identity_key L k \<notin> identity_key L ` set new) old,
      conflicts @ filter (\<lambda>k. case List.find (\<lambda>i. same_identity L i k) new of
        None \<Rightarrow> False | Some i \<Rightarrow> record_bytes L i \<noteq> record_bytes L k) old)"
proof (induction old arbitrary: interactions conflicts)
  case (Cons k old)
  show ?case
  proof (cases "List.find (\<lambda>i. same_identity L i k) new")
    case None
    then have "identity_key L k \<notin> identity_key L ` set new" by (rule iffD1 [OF find_identity_None])
    with None show ?thesis by (simp only: merge_loop.simps option.case Cons filter.simps) simp
  next
    case (Some i)
    then have "\<not> identity_key L k \<notin> identity_key L ` set new" by (metis find_identity_None option.discI)
    with Some show ?thesis by (simp only: merge_loop.simps option.case filter.simps if_False) (simp add: Cons)
  qed
qed simp

interpretation merging: keyed_join "identity_key L" "record_bytes L" "joined L" "conflicting L" for L
proof unfold_locales
  fix new old k
  show "joined L new old = sort_key (identity_key L) (new @ filter (\<lambda>k. identity_key L k \<notin> identity_key L ` set new) old)"
    by (simp add: joined_def merge_loop_eq contract_sort_def)
  assume d: "distinct (map (identity_key L) new)"
  have "(case List.find (\<lambda>i. same_identity L i k) new of None \<Rightarrow> False | Some i \<Rightarrow> record_bytes L i \<noteq> record_bytes L k)
    \<longleftrightarrow> (\<exists>i \<in> set new. identity_key L i = identity_key L k \<and> record_bytes L i \<noteq> record_bytes L k)"
  proof (cases "List.find (\<lambda>i. same_identity L i k) new")
    case None
    then have "\<forall>i \<in> set new. identity_key L i \<noteq> identity_key L k" by (auto simp: find_None_iff same_identity_def)
    then show ?thesis by (simp add: None)
  next
    case (Some i)
    then have i: "i \<in> set new" "identity_key L i = identity_key L k"
      by (auto simp: find_Some_iff same_identity_def in_set_conv_nth)
    have "\<forall>j \<in> set new. identity_key L j = identity_key L k \<longrightarrow> j = i"
      using i d by (metis distinct_map inj_onD)
    then show ?thesis unfolding Some option.case using i by blast
  qed
  then show "k \<in> set (conflicting L new old) \<longleftrightarrow>
      k \<in> set old \<and> (\<exists>i \<in> set new. identity_key L i = identity_key L k \<and> record_bytes L i \<noteq> record_bytes L k)"
    by (simp add: conflicting_def merge_loop_eq)
qed

definition identities_distinct :: "lib \<Rightarrow> contract \<Rightarrow> bool" where
  "identities_distinct L c \<longleftrightarrow> distinct (map (identity_key L) (ct_interactions c))"

definition in_identity_order :: "lib \<Rightarrow> contract \<Rightarrow> bool" where
  "in_identity_order L c \<longleftrightarrow> sorted (map (identity_key L) (ct_interactions c))"

definition same_parties :: "contract \<Rightarrow> contract \<Rightarrow> bool" where
  "same_parties a b \<longleftrightarrow> pa_name (ct_consumer a) = pa_name (ct_consumer b) \<and> pa_name (ct_provider a) = pa_name (ct_provider b)"

lemma contract_merge_eq:
  "contract_merge L existing new =
     (if \<not> same_parties existing new
      then Inl (Parties (pa_name (ct_consumer existing)) (pa_name (ct_provider existing)))
      else if conflicting L (ct_interactions new) (ct_interactions existing) \<noteq> []
      then Inl (Interactions (contract_sort L (conflicting L (ct_interactions new) (ct_interactions existing))))
      else Inr (new\<lparr>ct_interactions := joined L (ct_interactions new) (ct_interactions existing)\<rparr>))"
  by (auto simp: contract_merge_def same_parties_def conflicting_def joined_def split: prod.split)

lemma contract_merged:
  "contract_merge L existing new = Inr merged \<longleftrightarrow>
     same_parties existing new \<and> conflicting L (ct_interactions new) (ct_interactions existing) = []
     \<and> merged = new\<lparr>ct_interactions := joined L (ct_interactions new) (ct_interactions existing)\<rparr>"
  by (auto simp: contract_merge_eq)

text \<open>C6: the order contracts are merged in does not show. Where two contracts of one pair merge, they merge the
  other way round too, and the interactions are the same bytes in the same order, each identity once.\<close>

theorem merge_order_independent:
  assumes "identities_distinct L a" and "identities_distinct L b" and "contract_merge L a b = Inr c"
  shows "\<exists>c'. contract_merge L b a = Inr c' \<and> map (record_bytes L) (ct_interactions c') = map (record_bytes L) (ct_interactions c)
    \<and> identities_distinct L c \<and> in_identity_order L c"
proof -
  have d: "distinct (map (identity_key L) (ct_interactions b))" "distinct (map (identity_key L) (ct_interactions a))"
    using assms(1,2) by (simp_all add: identities_distinct_def)
  from assms(3) have c: "same_parties a b" "conflicting L (ct_interactions b) (ct_interactions a) = []"
    "ct_interactions c = joined L (ct_interactions b) (ct_interactions a)"
    by (auto simp: contract_merged)
  note other = merging.join_commutes [OF d c(2)]
  have "contract_merge L b a = Inr (a\<lparr>ct_interactions := joined L (ct_interactions a) (ct_interactions b)\<rparr>)"
    using c(1) other(2) by (auto simp: contract_merged same_parties_def)
  with other(1) merging.join_distinct [OF d] show ?thesis
    by (auto simp: c(3) identities_distinct_def in_identity_order_def)
qed

lemma written_key:
  assumes "contract_interaction_json i = contract_interaction_json j"
  shows "identity_key L i = identity_key L j"
proof -
  have "map_of m ''states'' = map_option states_json (ci_states k)"
    if "contract_interaction_json k = JObject m" for k m
    using that by (auto simp: contract_interaction_json_def optional_member_def split: option.splits)
  moreover obtain m where "contract_interaction_json i = JObject m" by (simp add: contract_interaction_json_def)
  ultimately have "map_option states_json (ci_states i) = map_option states_json (ci_states j)" using assms by metis
  then have "map_option (json_text L) (map_option states_json (ci_states i))
    = map_option (json_text L) (map_option states_json (ci_states j))" by (simp only:)
  then have "states_bytes L i = states_bytes L j" by (simp add: states_bytes_def option.map_comp comp_def)
  moreover have "ci_description i = ci_description j" using assms by (simp add: contract_interaction_json_def)
  ultimately show ?thesis by (simp add: identity_key_def)
qed

lemma written_same:
  assumes "contract_json a = contract_json b"
  shows "map contract_interaction_json (ct_interactions a) = map contract_interaction_json (ct_interactions b)" and "same_parties a b"
  using assms by (simp_all add: contract_json_def same_parties_def party_json_def optional_member_def split: option.splits)

lemma written_keys:
  "map contract_interaction_json is = map contract_interaction_json js \<Longrightarrow>
   map (\<lambda>i. (identity_key L i, contract_interaction_json i)) is = map (\<lambda>i. (identity_key L i, contract_interaction_json i)) js"
proof (induction "is" arbitrary: js)
  case (Cons i "is")
  then obtain j js' where "js = j # js'" "contract_interaction_json i = contract_interaction_json j"
    "map contract_interaction_json is = map contract_interaction_json js'" by auto
  with Cons.IH [of js'] written_key [of i j L] show ?case by simp
qed simp

text \<open>What reads back as what was written merges as it does.\<close>

lemma merge_read_back:
  assumes d: "identities_distinct L new" and merged: "contract_merge L c new = Inr c"
    and same: "contract_json c' = contract_json c"
  shows "\<exists>r. contract_merge L c' new = Inr r \<and> contract_json r = contract_json c"
proof -
  have dist: "distinct (map (identity_key L) (ct_interactions new))" using d by (simp add: identities_distinct_def)
  from merged have c: "same_parties c new" "conflicting L (ct_interactions new) (ct_interactions c) = []"
    "c = new\<lparr>ct_interactions := joined L (ct_interactions new) (ct_interactions c)\<rparr>" by (simp_all add: contract_merged)
  note written = written_same [OF same]
  note keys = written_keys [OF written(1), of L]
  have "k \<notin> set (conflicting L (ct_interactions new) (ct_interactions c'))" for k
  proof
    assume "k \<in> set (conflicting L (ct_interactions new) (ct_interactions c'))"
    then obtain i where i: "k \<in> set (ct_interactions c')" "i \<in> set (ct_interactions new)" "identity_key L i = identity_key L k"
      "record_bytes L i \<noteq> record_bytes L k" using merging.clash [OF dist] by blast
    from i(1) have "contract_interaction_json k \<in> contract_interaction_json ` set (ct_interactions c)"
      using written(1) by (metis image_eqI list.set_map)
    then obtain j where j: "j \<in> set (ct_interactions c)" "contract_interaction_json j = contract_interaction_json k" by force
    have "identity_key L j = identity_key L k" by (rule written_key [OF j(2)])
    moreover have "record_bytes L j = record_bytes L k" by (simp add: record_bytes_def j(2))
    ultimately have "j \<in> set (conflicting L (ct_interactions new) (ct_interactions c))"
      using merging.clash [OF dist, of j "ct_interactions c"] i j(1) by auto
    with c(2) show False by simp
  qed
  then have ok: "conflicting L (ct_interactions new) (ct_interactions c') = []" by (metis last_in_set)
  have "map contract_interaction_json (joined L (ct_interactions new) (ct_interactions c'))
    = map contract_interaction_json (joined L (ct_interactions new) (ct_interactions c))"
    by (rule merging.join_cong [OF keys])
  then have "contract_json (new\<lparr>ct_interactions := joined L (ct_interactions new) (ct_interactions c')\<rparr>)
    = contract_json (new\<lparr>ct_interactions := joined L (ct_interactions new) (ct_interactions c)\<rparr>)"
    by (simp add: contract_json_def)
  moreover have "same_parties c' new" using written(2) c(1) by (simp add: same_parties_def)
  ultimately show ?thesis using ok c(3) by (auto simp: contract_merged)
qed

text \<open>C7: writing a session's contract again changes nothing. The contract's identities are distinct and in
  order; what was written is the contract itself, or its merge with what the file held. If the file reads
  back as a contract that is written the same, the next write leaves its bytes as they are.\<close>

theorem rewriting_is_stable:
  assumes "identities_distinct L new" and "in_identity_order L new"
    and "c = new \<or> (identities_distinct L held \<and> contract_merge L held new = Inr c)"
    and "read (write_canonical L c) = Inr reread" and "contract_json reread = contract_json c"
    and "\<not> list_all ascii_whitespace (write_canonical L c)"
  shows "next_bytes L read (write_canonical L c) new Merge = Inr (write_canonical L c)"
proof -
  have d: "distinct (map (identity_key L) (ct_interactions new))" and s: "sorted (map (identity_key L) (ct_interactions new))"
    using assms(1,2) by (simp_all add: identities_distinct_def in_identity_order_def)
  from assms(3) have "contract_merge L c new = Inr c"
  proof
    assume "c = new"
    then show ?thesis using merging.join_own [OF d s] by (simp add: contract_merged same_parties_def)
  next
    assume held: "identities_distinct L held \<and> contract_merge L held new = Inr c"
    then have "distinct (map (identity_key L) (ct_interactions held))" by (simp add: identities_distinct_def)
    note again = merging.join_again [OF d this]
    from held have c: "same_parties held new" "c = new\<lparr>ct_interactions := joined L (ct_interactions new) (ct_interactions held)\<rparr>"
      by (auto simp: contract_merged)
    show ?thesis using again by (simp add: contract_merged c(2) same_parties_def)
  qed
  from merge_read_back [OF assms(1) this assms(5)] obtain r where
    r: "contract_merge L reread new = Inr r" "contract_json r = contract_json c" by blast
  have "next_bytes L read (write_canonical L c) new Merge = Inr (write_canonical L r)"
    by (simp add: next_bytes_def assms(4,6) r(1))
  also have "write_canonical L r = write_canonical L c" by (simp add: write_canonical_def r(2))
  finally show ?thesis .
qed

subsection \<open>Two contracts\<close>

definition plain_interaction :: "string \<Rightarrow> contract_interaction" where
  "plain_interaction description =
     \<lparr>ci_description = description, ci_transport = None, ci_states = None, ci_parts = [], ci_content_types = None,
      ci_requires = None, ci_selection = \<lparr>rl_variants = [], rl_report = []\<rparr>\<rparr>"

definition plain_contract :: "string list \<Rightarrow> contract" where
  "plain_contract descriptions =
     \<lparr>ct_format = ''janus-contract/1'', ct_schema = None, ct_consumer = \<lparr>pa_name = ''web''\<rparr>, ct_provider = \<lparr>pa_name = ''orders''\<rparr>,
      ct_interactions = map plain_interaction descriptions, ct_metadata = None\<rparr>"

lemma plain_merged:
  "contract_merge example_lib (plain_contract [''get'', ''put'']) (plain_contract [''delete'', ''get'']) =
     Inr (plain_contract [''delete'', ''get'', ''put''])"
  by code_simp

lemma plain_distinct: "distinct ds \<Longrightarrow> identities_distinct L (plain_contract ds)"
  by (auto simp: identities_distinct_def plain_contract_def identity_key_def plain_interaction_def distinct_map comp_def inj_on_def)

theorem merge_order_independent_witness:
  "\<exists>c'. contract_merge example_lib (plain_contract [''delete'', ''get'']) (plain_contract [''get'', ''put'']) = Inr c'
     \<and> map (record_bytes example_lib) (ct_interactions c') = map (record_bytes example_lib) (map plain_interaction [''delete'', ''get'', ''put''])"
proof -
  have "ct_interactions (plain_contract [''delete'', ''get'', ''put'']) = map plain_interaction [''delete'', ''get'', ''put'']"
    by (simp add: plain_contract_def)
  with merge_order_independent [OF plain_distinct plain_distinct plain_merged] show ?thesis by auto
qed

theorem rewriting_is_stable_witness:
  "next_bytes example_lib (\<lambda>_. Inr (plain_contract [''delete'', ''get'', ''put'']))
     (write_canonical example_lib (plain_contract [''delete'', ''get'', ''put''])) (plain_contract [''delete'', ''get'']) Merge
   = Inr (write_canonical example_lib (plain_contract [''delete'', ''get'', ''put'']))"
proof (rule rewriting_is_stable [where held = "plain_contract [''get'', ''put'']" and reread = "plain_contract [''delete'', ''get'', ''put'']"])
  show "in_identity_order example_lib (plain_contract [''delete'', ''get''])" unfolding in_identity_order_def by code_simp
  show "\<not> list_all ascii_whitespace (write_canonical example_lib (plain_contract [''delete'', ''get'', ''put'']))"
    by (simp add: write_canonical_def contract_json_def example_lib_def ascii_whitespace_def)
qed (simp_all add: plain_distinct plain_merged)

subsection \<open>A contract of another major\<close>

lemma merged_format: "contract_merge L held new = Inr c \<Longrightarrow> ct_format c = ct_format new"
  by (auto simp: contract_merge_def split: if_splits prod.splits)

text \<open>C29: the format a contract file names is never compared with the one the engine implements. Whatever
  major the file holds, reading it is never \<open>contract-version-unsupported\<close>, and a file of another major that
  deserializes is merged with the session's contract and written back under the session's format.\<close>

theorem other_major_rewritten:
  assumes "identify existing Tolerant" and "\<not> list_all ascii_whitespace existing" and "de existing = Inr held"
    and "ct_format held = major" and "contract_merge L held new = Inr c"
  shows "contract_read de existing Tolerant \<noteq> Inl (Version_Unsupported major)
    \<and> next_bytes L (\<lambda>bytes. contract_read de bytes Tolerant) existing new Merge = Inr (write_canonical L c)
    \<and> ct_format c = ct_format new"
  using merged_format [OF assms(5)] assms by (simp add: next_bytes_def contract_read_def)

definition next_major :: contract where
  "next_major = (plain_contract [''get'', ''put''])\<lparr>ct_format := ''janus-contract/2''\<rparr>"

theorem other_major_rewritten_witness:
  "next_bytes example_lib (\<lambda>bytes. contract_read (\<lambda>_. Inr next_major) bytes Tolerant) strict_prefix_bytes
     (plain_contract [''delete'', ''get'']) Merge
   = Inr (write_canonical example_lib (plain_contract [''delete'', ''get'', ''put'']))"
proof -
  have merged: "contract_merge example_lib next_major (plain_contract [''delete'', ''get'']) = Inr (plain_contract [''delete'', ''get'', ''put''])"
    by code_simp
  have "identify strict_prefix_bytes Tolerant" "\<not> list_all ascii_whitespace strict_prefix_bytes"
    by (simp_all add: identify_def identify_tolerant_def strict_prefix_bytes_def starts_with_def ascii_whitespace_def)
  then show ?thesis
    using other_major_rewritten [of strict_prefix_bytes "\<lambda>_. Inr next_major" next_major "''janus-contract/2''", OF _ _ refl _ merged]
    by (simp add: next_major_def)
qed

end
