(* ===== verification/Sub_Report.thy ===== *)
theory Sub_Report
  imports Contract_Model Sub_Walk Plan_Interpret Parse_Laws
begin

text \<open>
  The subsumption report, engine/kernel/src/subsumption/provider_shape.rs, select.rs and report.rs: which
  entry of a provider's published shapes an interaction is checked against, and the loop over a whole
  contract. An entry is found by description and states, or by a selector whose compiled plan admits every
  recorded example. The readers of an interaction document are a parameter, as in \<open>Interaction_Parse\<close>.
\<close>

subsection \<open>What a provider publishes\<close>

record provider_interaction =
  pi_description :: string
  pi_states :: "string list option"
  pi_selector :: "json smap smap option"
  pi_provenance :: "string option"
  pi_source :: "json smap option"
  pi_parts :: "json smap smap"

record shape_metadata =
  sm_writer :: "string smap option"
  sm_created :: "string option"

record provider_shape =
  ph_format :: string
  ph_schema :: "string option"
  ph_provider :: party
  ph_provenance :: "string option"
  ph_metadata :: "shape_metadata option"
  ph_interactions :: "provider_interaction list"

definition state_names :: "provider_interaction \<Rightarrow> string list" where
  "state_names entry = (case pi_states entry of Some names \<Rightarrow> names | None \<Rightarrow> [])"

definition provenance_of :: "provider_shape \<Rightarrow> provider_interaction \<Rightarrow> string" where
  "provenance_of shape entry =
     (case pi_provenance entry of
        Some p \<Rightarrow> p
      | None \<Rightarrow> (case ph_provenance shape of Some p \<Rightarrow> p | None \<Rightarrow> ''authored''))"

definition find_published :: "provider_shape \<Rightarrow> string \<Rightarrow> string list \<Rightarrow> provider_interaction option" where
  "find_published shape description states =
     List.find (\<lambda>entry. pi_description entry = description \<and> state_names entry = states) (ph_interactions shape)"

text \<open>Reading a published document: its bytes as a value and as a shape are parameters.\<close>

definition read_provider_shape ::
  "(string \<Rightarrow> json option) \<Rightarrow> (string \<Rightarrow> (document_segment list \<times> string) + provider_shape) \<Rightarrow> string
     \<Rightarrow> contract_error + provider_shape" where
  "read_provider_shape value_in de bytes =
     (case Option.bind (value_in bytes) (\<lambda>v. Option.bind (json_get v ''$format'') as_str) of
        None \<Rightarrow> Inl Not_A_Contract
      | Some found \<Rightarrow>
          if persisted_reads provider_shape_format found
          then (case de bytes of
                  Inl (path, message) \<Rightarrow> Inl (Contract_Invalid [\<lparr>pr_pointer = json_pointer path, pr_message = message\<rparr>])
                | Inr shape \<Rightarrow> Inr shape)
          else if names_family provider_shape_format found then Inl (Version_Unsupported found)
          else Inl Not_A_Contract)"

subsection \<open>Selecting an entry\<close>

datatype selection =
    By_Description provider_interaction
  | By_Selector provider_interaction
  | Ambiguous "provider_interaction list"
  | Unselected

text \<open>\<open>str::trim_start_matches\<close> with a pattern that is not empty.\<close>

function trim_start_matches :: "string \<Rightarrow> string \<Rightarrow> string" where
  "trim_start_matches pat s =
     (if pat \<noteq> [] \<and> starts_with s pat then trim_start_matches pat (drop (length pat) s) else s)"
  by pat_completeness auto
termination
proof (relation "measure (\<lambda>(_, s). length s)")
  fix pat s :: string
  assume p: "pat \<noteq> [] \<and> starts_with s pat"
  then have "s \<noteq> []" by (auto simp: starts_with_def)
  with p show "((pat, drop (length pat) s), (pat, s)) \<in> measure (\<lambda>(_, s). length s)" by simp
qed simp

declare trim_start_matches.simps [simp del]

definition execute_plan :: "lib \<Rightarrow> plan \<Rightarrow> rv smap \<Rightarrow> executed" where
  "execute_plan L p captured =
     execute_with L \<lparr>h_resolve = captured_resolve captured, h_content = None, h_actions = None\<rparr> p"

definition selector_document :: "json smap smap \<Rightarrow> json" where
  "selector_document selector =
     JObject [(''description'', JString ''selector''), (''parts'', JObject (map (\<lambda>(part, slots). (part, JObject slots)) selector))]"

definition selector_problems :: "nat \<Rightarrow> problem list \<Rightarrow> problem list" where
  "selector_problems index found =
     map (\<lambda>p. \<lparr>pr_pointer = ''/interactions/'' @ nat_text index @ ''/selector'' @ trim_start_matches ''/parts'' (pr_pointer p),
             pr_message = pr_message p\<rparr>) found"

definition recorded_values :: "json smap smap \<Rightarrow> recorded_variant \<Rightarrow> json smap" where
  "recorded_values selector v =
     fold (\<lambda>(part, slots). fold (\<lambda>(slot, _) vs.
         case Option.bind (map_of (rv_parts v) part) (\<lambda>recorded. map_of recorded slot) of
           Some s \<Rightarrow> btree_insert (''$.'' @ part @ ''.'' @ slot) (ro_content s) vs
         | None \<Rightarrow> vs) slots) selector []"

definition admits_every_example ::
  "lib \<Rightarrow> field_readers \<Rightarrow> json smap smap \<Rightarrow> contract_interaction \<Rightarrow> nat \<Rightarrow> problem list \<Rightarrow> bool \<times> problem list" where
  "admits_every_example L R selector i index problems =
     (case interaction_parse R (selector_document selector) of
        Inl found \<Rightarrow> (False, problems @ selector_problems index found)
      | Inr spec \<Rightarrow>
          let p = compile_plan L (interaction.truncate spec) [] None;
              variants = rl_variants (ci_selection i)
          in (variants \<noteq> [] \<and> list_all (\<lambda>v.
                fst (outcome (execute_plan L p (captured_from_json (recorded_values selector v)))) = Matched) variants,
              problems))"

fun select_by_selector ::
  "lib \<Rightarrow> field_readers \<Rightarrow> contract_interaction \<Rightarrow> string list \<Rightarrow> nat \<Rightarrow> provider_interaction list \<Rightarrow> problem list
     \<Rightarrow> provider_interaction list \<times> problem list" where
  "select_by_selector L R i states index [] problems = ([], problems)"
| "select_by_selector L R i states index (entry # entries) problems =
     (case pi_selector entry of
        None \<Rightarrow> select_by_selector L R i states (index + 1) entries problems
      | Some selector \<Rightarrow>
          if pi_states entry \<noteq> None \<and> state_names entry \<noteq> states
          then select_by_selector L R i states (index + 1) entries problems
          else (case admits_every_example L R selector i index problems of (admitted, problems) \<Rightarrow>
                case select_by_selector L R i states (index + 1) entries problems of (found, problems) \<Rightarrow>
                  (if admitted then entry # found else found, problems)))"

definition select_published ::
  "lib \<Rightarrow> field_readers \<Rightarrow> provider_shape \<Rightarrow> contract_interaction \<Rightarrow> string list \<Rightarrow> problem list \<Rightarrow> selection \<times> problem list" where
  "select_published L R shape i states problems =
     (case find_published shape (ci_description i) states of
        Some entry \<Rightarrow> (By_Description entry, problems)
      | None \<Rightarrow>
          (case select_by_selector L R i states 0 (ph_interactions shape) problems of (found, problems) \<Rightarrow>
             (case found of [] \<Rightarrow> Unselected | [entry] \<Rightarrow> By_Selector entry | entries \<Rightarrow> Ambiguous entries, problems)))"

subsection \<open>The report\<close>

record interaction_result =
  ie_description :: string
  ie_states :: "string list option"
  ie_matched :: bool
  ie_matched_by :: "string option"
  ie_reason :: "string option"
  ie_verdict :: string
  ie_findings :: "finding list"

record report_summary =
  su_interactions :: nat
  su_matched :: nat
  su_findings :: nat
  su_reviews :: nat

record sub_report =
  sb_format :: string
  sb_schema :: "string option"
  sb_consumer :: party
  sb_provider :: party
  sb_metadata :: "shape_metadata option"
  sb_interactions :: "interaction_result list"
  sb_summary :: report_summary

definition not_published :: string where
  "not_published = ''not-published''"

definition interaction_states :: "contract_interaction \<Rightarrow> string list" where
  "interaction_states i = (case ci_states i of Some ss \<Rightarrow> map ps_name ss | None \<Rightarrow> [])"

definition recorded_states :: "string list \<Rightarrow> string list option" where
  "recorded_states states = (if states \<noteq> [] then Some states else None)"

definition ambiguous_reason :: "provider_interaction list \<Rightarrow> string" where
  "ambiguous_reason entries =
     nat_text (length entries) @ '' published shapes select this interaction by operation (''
       @ join_with '', '' (map (\<lambda>e. quote1 (pi_description e)) entries) @ ''); the checker does not choose between them''"

definition report_pointer :: "string list \<Rightarrow> string" where
  "report_pointer segments = fold (\<lambda>segment pointer. push_pointer_segment pointer segment) segments []"

definition parse_slot :: "json \<Rightarrow> string \<Rightarrow> problem list \<Rightarrow> shape option \<times> problem list" where
  "parse_slot v pointer problems =
     (case shape_parse v pointer of Inr node \<Rightarrow> (Some node, problems) | Inl found \<Rightarrow> (None, problems @ found))"

type_synonym slots_state = "sub_verdict \<times> finding list \<times> problem list"

definition check_slot ::
  "lib \<Rightarrow> recorded_exclusion list \<Rightarrow> nat \<Rightarrow> string \<Rightarrow> string \<Rightarrow> json \<Rightarrow> json \<Rightarrow> slots_state \<Rightarrow> slots_state" where
  "check_slot L exclusions index part slot consumer_v provider_v state =
     (case state of (v, findings, problems) \<Rightarrow>
      case parse_slot consumer_v (report_pointer [''interactions'', nat_text index, ''parts'', part, slot]) problems of
        (consumer, problems) \<Rightarrow>
      case parse_slot provider_v (report_pointer [''parts'', part, slot]) problems of (provider, problems) \<Rightarrow>
        (case (consumer, provider) of
           (Some c, Some p) \<Rightarrow>
             let r = walk_node L exclusions p c (path_root part slot)
             in (verdict_and v (out_verdict r), findings @ out_findings r, problems)
         | _ \<Rightarrow> (v, findings, problems)))"

definition check_parts ::
  "lib \<Rightarrow> recorded_exclusion list \<Rightarrow> nat \<Rightarrow> json smap smap \<Rightarrow> json smap smap \<Rightarrow> slots_state \<Rightarrow> slots_state" where
  "check_parts L exclusions index published parts state =
     fold (\<lambda>(part, slots) state.
       case map_of published part of
         None \<Rightarrow> state
       | Some provider_part \<Rightarrow>
           fold (\<lambda>(slot, consumer_v) state.
             case map_of provider_part slot of
               None \<Rightarrow> state
             | Some provider_v \<Rightarrow> check_slot L exclusions index part slot consumer_v provider_v state) slots state)
       parts state"

definition unmatched_result :: "contract_interaction \<Rightarrow> string list \<Rightarrow> selection \<Rightarrow> interaction_result" where
  "unmatched_result i states found =
     \<lparr>ie_description = ci_description i, ie_states = recorded_states states, ie_matched = False, ie_matched_by = None,
      ie_reason = (case found of Ambiguous entries \<Rightarrow> Some (ambiguous_reason entries) | _ \<Rightarrow> None),
      ie_verdict = not_published, ie_findings = []\<rparr>"

definition check_matched ::
  "lib \<Rightarrow> nat \<Rightarrow> contract_interaction \<Rightarrow> string list \<Rightarrow> provider_interaction \<Rightarrow> string \<Rightarrow> problem list
     \<Rightarrow> interaction_result \<times> problem list" where
  "check_matched L index i states entry by_what problems =
     (let exclusions = from_selection_report (JObject (rl_report (ci_selection i))) in
      case check_parts L exclusions index (pi_parts entry) (ci_parts i) (Yes, [], problems) of (v, findings, problems) \<Rightarrow>
        (\<lparr>ie_description = ci_description i, ie_states = recorded_states states, ie_matched = True,
          ie_matched_by = Some by_what, ie_reason = None, ie_verdict = verdict_text v, ie_findings = findings\<rparr>, problems))"

definition check_interaction ::
  "lib \<Rightarrow> field_readers \<Rightarrow> provider_shape \<Rightarrow> nat \<Rightarrow> contract_interaction \<Rightarrow> problem list \<Rightarrow> interaction_result \<times> problem list" where
  "check_interaction L R shape index i problems =
     (let states = interaction_states i in
      case select_published L R shape i states problems of (found, problems) \<Rightarrow>
        (case found of
           By_Description entry \<Rightarrow> check_matched L index i states entry ''description'' problems
         | By_Selector entry \<Rightarrow> check_matched L index i states entry ''selector'' problems
         | _ \<Rightarrow> (unmatched_result i states found, problems)))"

fun check_interactions ::
  "lib \<Rightarrow> field_readers \<Rightarrow> provider_shape \<Rightarrow> nat \<Rightarrow> contract_interaction list \<Rightarrow> problem list
     \<Rightarrow> interaction_result list \<times> problem list" where
  "check_interactions L R shape index [] problems = ([], problems)"
| "check_interactions L R shape index (i # is) problems =
     (case check_interaction L R shape index i problems of (r, problems) \<Rightarrow>
      case check_interactions L R shape (index + 1) is problems of (rs, problems) \<Rightarrow> (r # rs, problems))"

definition summarise :: "interaction_result list \<Rightarrow> report_summary" where
  "summarise rs =
     \<lparr>su_interactions = length rs, su_matched = length (filter ie_matched rs),
      su_findings = length (filter (\<lambda>f. fg_severity f = S_Finding) (concat (map ie_findings rs))),
      su_reviews = length (filter (\<lambda>f. fg_severity f = S_Review) (concat (map ie_findings rs)))\<rparr>"

definition sub_check :: "lib \<Rightarrow> field_readers \<Rightarrow> contract \<Rightarrow> provider_shape \<Rightarrow> problem list + sub_report" where
  "sub_check L R c shape =
     (case check_interactions L R shape 0 (ct_interactions c) [] of (results, problems) \<Rightarrow>
        if problems \<noteq> [] then Inl problems
        else Inr \<lparr>sb_format = ''janus-subsumption-report/1'', sb_schema = None, sb_consumer = ct_consumer c,
          sb_provider = ct_provider c, sb_metadata = None, sb_interactions = results, sb_summary = summarise results\<rparr>)"

end
