(* ===== verification/Report_Laws.thy ===== *)
theory Report_Laws
  imports Sub_Report Contract_Laws Parse_Theorems Sub_Theorems
begin

text \<open>
  What a subsumption report says: an entry for every interaction of the contract, each verdict the
  conjunction of its findings', and a \<open>yes\<close> is sound for the documents of every slot that was compared.
\<close>

subsection \<open>The slots of one interaction\<close>

definition compared :: "json smap smap \<Rightarrow> json smap smap \<Rightarrow> (string \<times> string \<times> json \<times> json) list" where
  "compared published parts =
     concat (map (\<lambda>(part, slots). case map_of published part of
         None \<Rightarrow> []
       | Some provider_part \<Rightarrow> concat (map (\<lambda>(slot, consumer_v). case map_of provider_part slot of
             None \<Rightarrow> [] | Some provider_v \<Rightarrow> [(part, slot, consumer_v, provider_v)]) slots)) parts)"

lemma fold_filtered:
  assumes "\<And>x state. fold g (h x) state = step x state"
  shows "fold g (concat (map h xs)) state = fold step xs state"
  by (induction xs arbitrary: state) (simp_all add: assms)

lemma check_parts_compared:
  "check_parts L E index published parts state =
     fold (\<lambda>(part, slot, cv, pv). check_slot L E index part slot cv pv) (compared published parts) state"
  unfolding check_parts_def compared_def
proof (rule fold_filtered [symmetric], clarsimp split: option.split)
  fix part slots provider_part state
  show "fold (\<lambda>(part, slot, cv, pv). check_slot L E index part slot cv pv)
     (concat (map (\<lambda>(slot, consumer_v). case map_of provider_part slot of
        None \<Rightarrow> [] | Some provider_v \<Rightarrow> [(part, slot, consumer_v, provider_v)]) slots)) state =
    fold (\<lambda>(slot, consumer_v) state. case map_of provider_part slot of
        None \<Rightarrow> state | Some provider_v \<Rightarrow> check_slot L E index part slot consumer_v provider_v state) slots state"
    by (rule fold_filtered) (auto split: option.split)
qed

definition slot_agrees :: "lib \<Rightarrow> recorded_exclusion list \<Rightarrow> nat \<Rightarrow> sub_verdict \<Rightarrow> string \<times> string \<times> json \<times> json \<Rightarrow> bool" where
  "slot_agrees L E index v x \<longleftrightarrow>
     (case x of (part, slot, cv, pv) \<Rightarrow>
        \<exists>c p. shape_parse cv (report_pointer [''interactions'', nat_text index, ''parts'', part, slot]) = Inr c
          \<and> shape_parse pv (report_pointer [''parts'', part, slot]) = Inr p
          \<and> (v = Yes \<longrightarrow> out_verdict (walk_node L E p c (path_root part slot)) = Yes))"

definition documents_wf :: "json smap smap \<Rightarrow> bool" where
  "documents_wf parts \<longleftrightarrow> list_all (\<lambda>(_, slots). list_all (\<lambda>(_, v). wf_json v) slots) parts"

lemma compared_member:
  assumes "(part, slot, cv, pv) \<in> set (compared published parts)"
  obtains slots provider_part where "(part, slots) \<in> set parts" "(slot, cv) \<in> set slots"
    "map_of published part = Some provider_part" "map_of provider_part slot = Some pv"
proof -
  from assms obtain slots where p: "(part, slots) \<in> set parts"
    "(part, slot, cv, pv) \<in> set (case map_of published part of
       None \<Rightarrow> []
     | Some provider_part \<Rightarrow> concat (map (\<lambda>(slot, consumer_v). case map_of provider_part slot of
           None \<Rightarrow> [] | Some provider_v \<Rightarrow> [(part, slot, consumer_v, provider_v)]) slots))"
    by (auto simp: compared_def split: option.splits if_splits)
  from p(2) obtain provider_part where pp: "map_of published part = Some provider_part"
    by (cases "map_of published part") auto
  have "(slot, cv) \<in> set slots \<and> map_of provider_part slot = Some pv"
    using p(2) unfolding pp option.case by (auto split: option.split_asm)
  with pp have "map_of published part = Some provider_part" "(slot, cv) \<in> set slots" "map_of provider_part slot = Some pv"
    by simp_all
  with p(1) that show ?thesis by blast
qed

lemma compared_wf:
  assumes "documents_wf published" and "documents_wf parts"
  shows "list_all (\<lambda>(_, _, cv, pv). wf_json cv \<and> wf_json pv) (compared published parts)"
proof -
  have "wf_json cv \<and> wf_json pv" if "(part, slot, cv, pv) \<in> set (compared published parts)" for part slot cv pv
  proof (rule compared_member [OF that])
    fix slots provider_part
    assume "(part, slots) \<in> set parts" "(slot, cv) \<in> set slots" "map_of published part = Some provider_part" "map_of provider_part slot = Some pv"
    with assms show ?thesis by (fastforce simp: documents_wf_def list_all_iff dest: map_of_SomeD)
  qed
  then show ?thesis by (auto simp: list_all_iff)
qed

lemma refusal_explained: "wf_json v \<Longrightarrow> shape_parse v path \<noteq> Inl []"
  using parse_outcome [of v path] by auto

lemma check_slot_grows:
  assumes "check_slot L E index part slot cv pv (v, fs, ps) = (v', fs', ps')" and "wf_json cv" and "wf_json pv"
  shows "prefix ps ps' \<and> (ps' = [] \<longrightarrow> (v' = Yes \<longrightarrow> v = Yes) \<and> slot_agrees L E index v' (part, slot, cv, pv))
    \<and> (v = findings_verdict fs \<longrightarrow> list_all (\<lambda>f. fg_severity f = severity_of (fg_verdict f)) fs \<longrightarrow>
        v' = findings_verdict fs' \<and> list_all (\<lambda>f. fg_severity f = severity_of (fg_verdict f)) fs')"
proof -
  have "accounted (walk_node L E p c at)" for p c at using recording.walk [of L E p c at] by simp
  with assms(1) refusal_explained [OF assms(2)] refusal_explained [OF assms(3)] show ?thesis
    by (auto simp: check_slot_def parse_slot_def slot_agrees_def accounted_def Let_def split: sum.splits prod.splits)
qed

lemma check_slots_grow:
  "fold (\<lambda>(part, slot, cv, pv). check_slot L E index part slot cv pv) xs (v, fs, ps) = (v', fs', ps') \<Longrightarrow>
   list_all (\<lambda>(_, _, cv, pv). wf_json cv \<and> wf_json pv) xs \<Longrightarrow> prefix ps ps' \<and> (ps' = [] \<longrightarrow> (v' = Yes \<longrightarrow> v = Yes) \<and> list_all (slot_agrees L E index v') xs)
    \<and> (v = findings_verdict fs \<longrightarrow> list_all (\<lambda>f. fg_severity f = severity_of (fg_verdict f)) fs \<longrightarrow>
        v' = findings_verdict fs' \<and> list_all (\<lambda>f. fg_severity f = severity_of (fg_verdict f)) fs')"
proof (induction xs arbitrary: v fs ps)
  case (Cons x xs)
  obtain part slot cv pv where x: "x = (part, slot, cv, pv)" by (cases x)
  obtain v1 fs1 ps1 where one: "check_slot L E index part slot cv pv (v, fs, ps) = (v1, fs1, ps1)" by (metis prod_cases3)
  have wf: "wf_json cv" "wf_json pv" "list_all (\<lambda>(_, _, cv, pv). wf_json cv \<and> wf_json pv) xs" using Cons.prems(2) by (simp_all add: x)
  note first = check_slot_grows [OF one wf(1,2)]
  from Cons.prems(1) have "fold (\<lambda>(part, slot, cv, pv). check_slot L E index part slot cv pv) xs (v1, fs1, ps1) = (v', fs', ps')"
    by (simp add: x one)
  note rest = Cons.IH [OF this wf(3)]
  have "slot_agrees L E index v' x" if "ps' = []"
  proof -
    have "ps1 = []" using rest that by auto
    with first have "slot_agrees L E index v1 x" by (simp add: x)
    moreover have "v' = Yes \<longrightarrow> v1 = Yes" using rest that by simp
    ultimately show ?thesis by (auto simp: x slot_agrees_def)
  qed
  note slot = this
  note f = first [THEN conjunct1] first [THEN conjunct2, THEN conjunct1] first [THEN conjunct2, THEN conjunct2]
    and r = rest [THEN conjunct1] rest [THEN conjunct2, THEN conjunct1] rest [THEN conjunct2, THEN conjunct2]
  show ?case
  proof (intro conjI impI)
    show "prefix ps ps'" using f(1) r(1) by (rule prefix_order.trans)
  next
    assume none: "ps' = []"
    then have "ps1 = []" using r(1) by simp
    then show "list_all (slot_agrees L E index v') (x # xs)" using slot [OF none] r(2) none by simp
    assume "v' = Yes"
    then show "v = Yes" using f(2) r(2) none \<open>ps1 = []\<close> by simp
  next
    assume "v = findings_verdict fs" "list_all (\<lambda>f. fg_severity f = severity_of (fg_verdict f)) fs"
    then have "v1 = findings_verdict fs1 \<and> list_all (\<lambda>f. fg_severity f = severity_of (fg_verdict f)) fs1" using f(3) by simp
    then have "v' = findings_verdict fs' \<and> list_all (\<lambda>f. fg_severity f = severity_of (fg_verdict f)) fs'" using r(3) by simp
    then show "v' = findings_verdict fs'" "list_all (\<lambda>f. fg_severity f = severity_of (fg_verdict f)) fs'" by simp_all
  qed
qed simp

subsection \<open>One interaction\<close>

definition verdict_accounted :: "interaction_result \<Rightarrow> bool" where
  "verdict_accounted r \<longleftrightarrow>
     ie_verdict r = (if ie_matched r then verdict_text (findings_verdict (ie_findings r)) else not_published)
     \<and> list_all (\<lambda>f. fg_severity f = severity_of (fg_verdict f)) (ie_findings r)"

text \<open>What a result is for: the interaction it names, and the entry it was checked against, when one was found.\<close>

definition result_for ::
  "lib \<Rightarrow> provider_shape \<Rightarrow> nat \<Rightarrow> contract_interaction \<Rightarrow> interaction_result \<Rightarrow> bool" where
  "result_for L shape index i r \<longleftrightarrow>
     ie_description r = ci_description i \<and> ie_states r = recorded_states (interaction_states i) \<and> verdict_accounted r
     \<and> (ie_matched r \<longrightarrow> (\<exists>entry \<in> set (ph_interactions shape). \<exists>E. list_all (slot_agrees L E index
           (if ie_verdict r = ''yes'' then Yes else No)) (compared (pi_parts entry) (ci_parts i))))"

lemma verdict_text_yes: "verdict_text v = ''yes'' \<longleftrightarrow> v = Yes"
  by (cases v) (simp_all add: verdict_text_def)

lemma selected_entries:
  "select_by_selector L R i states index entries problems = (found, problems') \<Longrightarrow> set found \<subseteq> set entries \<and> prefix problems problems'"
proof (induction entries arbitrary: index problems found problems')
  case (Cons entry entries)
  have adm: "prefix problems (snd (admits_every_example L R s i index problems))" for s
    by (auto simp: admits_every_example_def Let_def split: sum.split)
  show ?case
  proof (cases "pi_selector entry")
    case None
    with Cons.prems Cons.IH show ?thesis by fastforce
  next
    case (Some s)
    show ?thesis
    proof (cases "pi_states entry \<noteq> None \<and> state_names entry \<noteq> states")
      case True
      with Some Cons.prems Cons.IH show ?thesis by fastforce
    next
      case False
      obtain a ps where a: "admits_every_example L R s i index problems = (a, ps)" by (metis surj_pair)
      obtain fs qs where rest: "select_by_selector L R i states (index + 1) entries ps = (fs, qs)" by (metis surj_pair)
      from Cons.prems have "found = (if a then entry # fs else fs)" "problems' = qs"
        unfolding select_by_selector.simps Some option.case if_not_P [OF False] a rest prod.case by simp_all
      with Cons.IH [OF rest] adm [of s] show ?thesis by (auto simp: a intro: prefix_order.trans)
    qed
  qed
qed simp

lemma selected_entry:
  assumes "select_published L R shape i states problems = (found, problems')"
  shows "prefix problems problems' \<and> (found = By_Description entry \<or> found = By_Selector entry \<longrightarrow> entry \<in> set (ph_interactions shape))"
proof (cases "find_published shape (ci_description i) states")
  case (Some e)
  then have "e \<in> set (ph_interactions shape)" by (auto simp: find_published_def find_Some_iff in_set_conv_nth)
  with Some assms show ?thesis by (auto simp: select_published_def)
next
  case None
  obtain fs ps where s: "select_by_selector L R i states 0 (ph_interactions shape) problems = (fs, ps)" by (metis surj_pair)
  with None assms selected_entries [OF s] show ?thesis
    by (auto simp: select_published_def split: list.splits)
qed

lemma check_matched_result:
  assumes "check_matched L index i states entry by_what problems = (r, problems')" and "states = interaction_states i"
    and "entry \<in> set (ph_interactions shape)" and "documents_wf (pi_parts entry)" and "documents_wf (ci_parts i)"
  shows "prefix problems problems' \<and> (problems' = [] \<longrightarrow> result_for L shape index i r)"
proof -
  let ?E = "from_selection_report (JObject (rl_report (ci_selection i)))"
  obtain v fs ps where c: "check_parts L ?E index (pi_parts entry) (ci_parts i) (Yes, [], problems) = (v, fs, ps)" by (metis prod_cases3)
  note grown = check_slots_grow [OF c [unfolded check_parts_compared] compared_wf [OF assms(4,5)]]
  have r: "r = \<lparr>ie_description = ci_description i, ie_states = recorded_states states, ie_matched = True,
      ie_matched_by = Some by_what, ie_reason = None, ie_verdict = verdict_text v, ie_findings = fs\<rparr>" "problems' = ps"
    using assms(1) by (simp_all add: check_matched_def c)
  have "slot_agrees L ?E index (if verdict_text v = ''yes'' then Yes else No) x" if "slot_agrees L ?E index v x" for x
    using that by (auto simp: slot_agrees_def verdict_text_yes)
  then have "list_all (slot_agrees L ?E index (if verdict_text v = ''yes'' then Yes else No)) (compared (pi_parts entry) (ci_parts i))"
    if "ps = []" using grown that by (auto simp: list_all_iff)
  then have found: "\<exists>entry \<in> set (ph_interactions shape). \<exists>E. list_all (slot_agrees L E index (if verdict_text v = ''yes'' then Yes else No))
      (compared (pi_parts entry) (ci_parts i))" if "ps = []" using assms(3) that by blast
  have "prefix problems ps" "v = findings_verdict fs" "list_all (\<lambda>f. fg_severity f = severity_of (fg_verdict f)) fs"
    using grown by simp_all
  then show ?thesis using found by (simp add: r result_for_def verdict_accounted_def assms(2))
qed

definition published_wf :: "provider_shape \<Rightarrow> bool" where
  "published_wf shape \<longleftrightarrow> (\<forall>entry \<in> set (ph_interactions shape). documents_wf (pi_parts entry))"

lemma check_interaction_result:
  assumes "check_interaction L R shape index i problems = (r, problems')" and "published_wf shape" and "documents_wf (ci_parts i)"
  shows "prefix problems problems' \<and> (problems' = [] \<longrightarrow> result_for L shape index i r)"
proof -
  let ?states = "interaction_states i"
  obtain found ps where s: "select_published L R shape i ?states problems = (found, ps)" by (metis surj_pair)
  have grows: "prefix problems ps" using selected_entry [OF s] by blast
  have matched: ?thesis if "check_matched L index i ?states entry w ps = (r, problems')" "entry \<in> set (ph_interactions shape)" for entry w
    using check_matched_result [OF that(1) refl that(2) _ assms(3)] grows assms(2) that(2) prefix_order.trans
    unfolding published_wf_def by blast
  have unmatched: "result_for L shape index i (unmatched_result i ?states found)"
    by (simp add: result_for_def unmatched_result_def verdict_accounted_def)
  show ?thesis
  proof (cases found)
    case (By_Description entry)
    with assms(1) s selected_entry [OF s, of entry] show ?thesis by (intro matched) (auto simp: check_interaction_def Let_def)
  next
    case (By_Selector entry)
    with assms(1) s selected_entry [OF s, of entry] show ?thesis by (intro matched) (auto simp: check_interaction_def Let_def)
  qed (use assms(1) s grows unmatched in \<open>auto simp: check_interaction_def Let_def\<close>)
qed

lemma check_interactions_results:
  "check_interactions L R shape index is problems = (rs, problems') \<Longrightarrow>
   published_wf shape \<Longrightarrow> list_all (\<lambda>i. documents_wf (ci_parts i)) is \<Longrightarrow> prefix problems problems' \<and> (problems' = [] \<longrightarrow> length rs = length is
     \<and> (\<forall>k < length is. result_for L shape (index + k) (is ! k) (rs ! k)))"
proof (induction "is" arbitrary: index problems rs problems')
  case (Cons i "is")
  obtain r ps where one: "check_interaction L R shape index i problems = (r, ps)" by (metis surj_pair)
  obtain rs1 qs where rest: "check_interactions L R shape (index + 1) is ps = (rs1, qs)" by (metis surj_pair)
  from Cons.prems(1) have eq: "rs = r # rs1" "problems' = qs" by (simp_all add: one rest [simplified])
  have "documents_wf (ci_parts i)" "list_all (\<lambda>i. documents_wf (ci_parts i)) is" using Cons.prems(3) by simp_all
  note first = check_interaction_result [OF one Cons.prems(2) this(1)] and others = Cons.IH [OF rest Cons.prems(2) this(2)]
  have "result_for L shape (index + k) ((i # is) ! k) (rs ! k)" if "problems' = []" "k < length (i # is)" for k
  proof (cases k)
    case 0
    have "ps = []" using others that(1) eq(2) by auto
    with first show ?thesis by (simp add: 0 eq(1))
  next
    case (Suc n)
    with others that eq show ?thesis by auto
  qed
  moreover have "prefix problems problems'" using first others eq(2) prefix_order.trans by blast
  ultimately show ?case using others eq by simp
qed simp

lemma checked:
  assumes "sub_check L R c shape = Inr rpt" and "published_wf shape" and "list_all (\<lambda>i. documents_wf (ci_parts i)) (ct_interactions c)"
  shows "length (sb_interactions rpt) = length (ct_interactions c)
    \<and> (\<forall>k < length (ct_interactions c). result_for L shape k (ct_interactions c ! k) (sb_interactions rpt ! k))
    \<and> sb_summary rpt = summarise (sb_interactions rpt)"
proof -
  obtain rs ps where r: "check_interactions L R shape 0 (ct_interactions c) [] = (rs, ps)" by (metis surj_pair)
  with assms(1) have "ps = []" "sb_interactions rpt = rs" "sb_summary rpt = summarise rs"
    by (auto simp: sub_check_def split: if_splits)
  with check_interactions_results [OF r assms(2,3)] show ?thesis by simp
qed

subsection \<open>The properties\<close>

lemma yes_inside:
  assumes "out_verdict (walk_node L E p c at) = Yes" and "sound_lib L" and "sound_judge J"
  shows "sub_sound L J p c"
  using subsuming.walk [of L p c E at] assms by (auto simp: yes_is_sound_def)

lemma slots_inside:
  assumes "list_all (slot_agrees L E index Yes) xs" and "sound_lib L" and "sound_judge J" and "(part, slot, cv, pv) \<in> set xs"
  shows "\<exists>s p at at'. shape_parse cv at = Inr s \<and> shape_parse pv at' = Inr p \<and> sub_sound L J p s"
proof -
  from assms(1,4) have "slot_agrees L E index Yes (part, slot, cv, pv)" by (auto simp: list_all_iff)
  then obtain s p where "shape_parse cv (report_pointer [''interactions'', nat_text index, ''parts'', part, slot]) = Inr s"
    "shape_parse pv (report_pointer [''parts'', part, slot]) = Inr p" "out_verdict (walk_node L E p s (path_root part slot)) = Yes"
    by (auto simp: slot_agrees_def)
  with yes_inside [OF this(3) assms(2,3)] show ?thesis by blast
qed

lemma result_yes:
  assumes "result_for L shape index i r" and "ie_verdict r = ''yes''" and "sound_lib L" and "sound_judge J"
  shows "\<exists>entry \<in> set (ph_interactions shape). \<forall>(part, slot, cv, pv) \<in> set (compared (pi_parts entry) (ci_parts i)).
    \<exists>s p at at'. shape_parse cv at = Inr s \<and> shape_parse pv at' = Inr p \<and> sub_sound L J p s"
proof -
  have "ie_matched r" using assms(1,2) by (auto simp: result_for_def verdict_accounted_def not_published_def split: if_splits)
  with assms(1,2) obtain entry E where e: "entry \<in> set (ph_interactions shape)"
    "list_all (slot_agrees L E index Yes) (compared (pi_parts entry) (ci_parts i))" by (auto simp: result_for_def)
  show ?thesis
  proof (rule bexI [OF _ e(1)], clarify)
    fix part slot cv pv assume "(part, slot, cv, pv) \<in> set (compared (pi_parts entry) (ci_parts i))"
    from slots_inside [OF e(2) assms(3,4) this]
    show "\<exists>s p at at'. shape_parse cv at = Inr s \<and> shape_parse pv at' = Inr p \<and> sub_sound L J p s" .
  qed
qed

text \<open>A report answers for the whole contract. It has one result for every interaction, in the contract's
  order and under its description; a result's verdict is \<open>not-published\<close> when no entry was found, otherwise
  the Kleene conjunction of its findings', each of which has its verdict's severity; and the summary counts
  the results.\<close>

theorem report_covers_contract:
  assumes "sub_check L R c shape = Inr rpt" and "published_wf shape" and "list_all (\<lambda>i. documents_wf (ci_parts i)) (ct_interactions c)"
  shows "map ie_description (sb_interactions rpt) = map ci_description (ct_interactions c)
    \<and> list_all verdict_accounted (sb_interactions rpt)
    \<and> su_interactions (sb_summary rpt) = length (ct_interactions c)
    \<and> su_matched (sb_summary rpt) + length (filter (\<lambda>r. ie_verdict r = not_published) (sb_interactions rpt)) = length (ct_interactions c)"
proof -
  note r = checked [OF assms]
  then have results: "result_for L shape k (ct_interactions c ! k) (sb_interactions rpt ! k)" if "k < length (sb_interactions rpt)" for k
    using that by simp
  have "map ie_description (sb_interactions rpt) = map ci_description (ct_interactions c)"
    using r by (intro nth_equalityI) (auto simp: result_for_def)
  moreover have accounted: "list_all verdict_accounted (sb_interactions rpt)"
    using results by (auto simp: list_all_length result_for_def)
  moreover have "filter (\<lambda>r. ie_verdict r = not_published) (sb_interactions rpt) = filter (\<lambda>r. \<not> ie_matched r) (sb_interactions rpt)"
    using accounted
    by (intro filter_cong) (auto simp: list_all_iff verdict_accounted_def not_published_def verdict_text_def split: sub_verdict.splits)
  ultimately show ?thesis using r sum_length_filter_compl [of ie_matched "sb_interactions rpt"] by (simp add: summarise_def)
qed

text \<open>A \<open>yes\<close> in a report is sound for the documents it compared. Where an interaction's result is \<open>yes\<close>
  some published entry was found for it, and for every slot both describe, the two documents are shapes and
  every value the provider's admits is one the consumer's admits (under what \<open>sub_sound\<close> asks of the
  shapes).\<close>

theorem report_yes_sound:
  assumes "sub_check L R c shape = Inr rpt" and "published_wf shape" and "list_all (\<lambda>i. documents_wf (ci_parts i)) (ct_interactions c)"
    and "sound_lib L" and "sound_judge J" and "k < length (ct_interactions c)" and "ie_verdict (sb_interactions rpt ! k) = ''yes''"
  shows "\<exists>entry \<in> set (ph_interactions shape).
    \<forall>(part, slot, cv, pv) \<in> set (compared (pi_parts entry) (ci_parts (ct_interactions c ! k))).
      \<exists>s p at at'. shape_parse cv at = Inr s \<and> shape_parse pv at' = Inr p \<and> sub_sound L J p s"
  using result_yes [OF _ assms(7,4,5)] checked [OF assms(1-3)] assms(6) by blast

subsection \<open>A contract and a shape\<close>

definition list_interaction :: contract_interaction where
  "list_interaction = (plain_interaction ''list'')\<lparr>ci_parts := [(''response'', [(''body'', list_document)])]\<rparr>"

definition list_contract :: contract where
  "list_contract = (plain_contract [])\<lparr>ct_interactions := [list_interaction, plain_interaction ''get'']\<rparr>"

definition list_published :: provider_shape where
  "list_published =
     \<lparr>ph_format = ''janus-provider-shape/1'', ph_schema = None, ph_provider = \<lparr>pa_name = ''orders''\<rparr>, ph_provenance = None,
      ph_metadata = None, ph_interactions = [\<lparr>pi_description = ''list'', pi_states = None, pi_selector = None, pi_provenance = None, pi_source = None,
        pi_parts = [(''response'', [(''body'', list_document)])]\<rparr>]\<rparr>"

lemma list_wf: "published_wf list_published" "list_all (\<lambda>i. documents_wf (ci_parts i)) (ct_interactions list_contract)"
  by (simp_all add: published_wf_def list_published_def documents_wf_def list_document_def index_map_def list_contract_def
      list_interaction_def plain_interaction_def plain_contract_def)

lemma list_checked:
  obtains rpt where "sub_check L R list_contract list_published = Inr rpt"
    "map ie_verdict (sb_interactions rpt) = [''yes'', ''not-published'']" "map ie_matched (sb_interactions rpt) = [True, False]"
    "map ie_findings (sb_interactions rpt) = [[], []]"
proof -
  let ?s = "ShapeNode None None (Core (EachLike (ShapeNode None None (Core (Kind VK_Integer))) 1 (Some 3)))"
  have wf: "wf_json list_document" by (simp add: list_document_def index_map_def)
  have walk: "walk_node L [] ?s ?s at = out_yes" for at
    using parsed_reflexive [OF wf list_document_parsed, of L at] by (simp add: compare_shapes_def Let_def out_yes_def)
  show ?thesis
    by (rule that [of "the (case sub_check L R list_contract list_published of Inr r \<Rightarrow> Some r)"])
      (simp_all add: sub_check_def list_contract_def list_published_def list_interaction_def plain_interaction_def plain_contract_def
        check_interaction_def select_published_def find_published_def state_names_def interaction_states_def check_matched_def
        check_parts_def check_slot_def parse_slot_def list_document_parsed from_selection_report_def walk Let_def
        unmatched_result_def verdict_text_def not_published_def del: One_nat_def)
qed

theorem report_covers_contract_witness:
  "\<exists>rpt. sub_check example_lib no_readers list_contract list_published = Inr rpt \<and> map ie_description (sb_interactions rpt) = [''list'', ''get'']"
proof -
  obtain rpt where r: "sub_check example_lib no_readers list_contract list_published = Inr rpt" by (rule list_checked)
  with report_covers_contract [OF r list_wf] show ?thesis
    by (simp add: list_contract_def list_interaction_def plain_interaction_def plain_contract_def)
qed

theorem report_yes_sound_witness:
  "\<exists>s p at at'. shape_parse list_document at = Inr s \<and> shape_parse list_document at' = Inr p \<and> sub_sound example_lib language_silence p s"
proof -
  obtain rpt where r: "sub_check example_lib no_readers list_contract list_published = Inr rpt"
    "map ie_verdict (sb_interactions rpt) = [''yes'', ''not-published'']" by (rule list_checked)
  then have "ie_verdict (sb_interactions rpt ! 0) = ''yes''" by (cases "sb_interactions rpt") auto
  moreover have "sound_lib example_lib" by (simp add: sound_lib_def example_lib_def)
  moreover have "0 < length (ct_interactions list_contract)" by (simp add: list_contract_def)
  ultimately show ?thesis
    using report_yes_sound [OF r(1) list_wf _ language_silence_sound, of 0]
    by (simp add: list_published_def list_contract_def list_interaction_def compared_def)
qed

end
