(* ===== verification/Compat.thy ===== *)
theory Compat
  imports Sub_Report Policy
begin

text \<open>
  The compatibility decision, engine/kernel/src/compatibility/decide.rs: what the subsumption report of a
  pair, the verification summaries a host supplies and one resolved policy say together. A loop's state
  is threaded; the counts kept while mapping over the exemptions are the counts of the results.
\<close>

subsection \<open>Decisions\<close>

datatype decision = Pass | Warned | Blocked

definition rank_of :: "decision \<Rightarrow> nat" where
  "rank_of d = (case d of Pass \<Rightarrow> 0 | Warned \<Rightarrow> 1 | Blocked \<Rightarrow> 2)"

instantiation decision :: linorder
begin

definition less_eq_decision :: "decision \<Rightarrow> decision \<Rightarrow> bool" where
  "less_eq_decision a b \<longleftrightarrow> rank_of a \<le> rank_of b"

definition less_decision :: "decision \<Rightarrow> decision \<Rightarrow> bool" where
  "less_decision a b \<longleftrightarrow> rank_of a < rank_of b"

instance
  by standard (auto simp: less_eq_decision_def less_decision_def rank_of_def split: decision.splits)

end

definition decision_text :: "decision \<Rightarrow> string" where
  "decision_text d = (case d of Pass \<Rightarrow> ''pass'' | Warned \<Rightarrow> ''warn'' | Blocked \<Rightarrow> ''block'')"

datatype reason_action = Note | Warn_Reason | Block_Reason

definition reason_decision :: "reason_action \<Rightarrow> decision" where
  "reason_decision a = (case a of Note \<Rightarrow> Pass | Warn_Reason \<Rightarrow> Warned | Block_Reason \<Rightarrow> Blocked)"

definition reason_of :: "policy_action \<Rightarrow> reason_action" where
  "reason_of a = (case a of Warn \<Rightarrow> Warn_Reason | Block \<Rightarrow> Block_Reason)"

record reason =
  re_code :: string
  re_action :: reason_action
  re_message :: string

definition reason_new :: "string \<Rightarrow> reason_action \<Rightarrow> string \<Rightarrow> reason" where
  "reason_new code action message = \<lparr>re_code = code, re_action = action, re_message = message\<rparr>"

subsection \<open>The documents\<close>

record compat_pair =
  cp_consumer :: party
  cp_provider :: party
  cp_format :: "string option"
  cp_subsumption :: "sub_report option"

record verification_view =
  vv_status :: string
  vv_runs :: nat
  vv_filtered :: "bool option"
  vv_variants :: "json option"

record subsumption_view =
  sv_verdict :: string
  sv_interactions :: nat
  sv_matched :: nat
  sv_not_published :: nat
  sv_findings :: nat
  sv_reviews :: nat
  sv_exempt :: nat
  sv_advisories :: nat

datatype disposition = Live | Exempt

record interaction_id =
  id_description :: string
  id_states :: "string list option"

record exemption_ref =
  er_reason :: string
  er_expires :: "string option"

record finding_entry =
  fe_interaction :: interaction_id
  fe_disposition :: disposition
  fe_exemption :: "exemption_ref option"
  fe_finding :: finding

datatype exemption_status = Applied | Unused | Lapsed

record exemption_result =
  xr_status :: exemption_status
  xr_matched :: nat
  xr_exemption :: exemption

record pair_result =
  pq_consumer :: party
  pq_provider :: party
  pq_format :: "string option"
  pq_decision :: decision
  pq_verification :: verification_view
  pq_subsumption :: subsumption_view
  pq_reasons :: "reason list"
  pq_findings :: "finding_entry list"
  pq_exemptions :: "exemption_result list"

record compat_summary =
  cs_pairs :: nat
  cs_blocked :: nat
  cs_warned :: nat
  cs_passed :: nat
  cs_findings :: nat
  cs_reviews :: nat
  cs_exempt :: nat

record policy_view =
  pw_on_finding :: policy_action
  pw_on_review :: policy_action
  pw_exemptions :: nat

record compat_report =
  cr_format :: string
  cr_decision :: decision
  cr_policy :: policy_view
  cr_as_of :: "string option"
  cr_pairs :: "pair_result list"
  cr_summary :: compat_summary

definition count_text :: "nat \<Rightarrow> string \<Rightarrow> string \<Rightarrow> string" where
  "count_text n one many = (if n = 1 then ''1 '' @ one else nat_text n @ '' '' @ many)"

subsection \<open>What the verification summaries say\<close>

definition as_array :: "json option \<Rightarrow> json list option" where
  "as_array v = (case v of Some (JArray xs) \<Rightarrow> Some xs | _ \<Rightarrow> None)"

definition worst_status :: "string \<Rightarrow> string \<Rightarrow> string" where
  "worst_status left right =
     (case List.find (\<lambda>candidate. left = candidate \<or> right = candidate) [''failed'', ''incomplete'', ''verified''] of
        Some candidate \<Rightarrow> candidate
      | None \<Rightarrow> left)"

definition named_pairs :: "json \<Rightarrow> json list \<Rightarrow> (string \<times> string) list" where
  "named_pairs summary consumers =
     (let providers = (case as_array (json_get summary ''providers'') of Some ps \<Rightarrow> ps | None \<Rightarrow> []) in
      List.map_filter (\<lambda>(c, p). Option.bind (as_str c) (\<lambda>c. map_option (\<lambda>p. (c, p)) (as_str p))) (zip consumers providers))"

definition add_counts :: "json \<Rightarrow> json smap \<Rightarrow> json smap" where
  "add_counts entry totals =
     (case json_get entry ''variants'' of
        Some (JObject counts) \<Rightarrow>
          fold (\<lambda>(name, n) totals.
            index_insert name (JNumber (PosInt (u64_add
              (case Option.bind (map_of totals name) value_u64 of Some k \<Rightarrow> k | None \<Rightarrow> 0)
              (case value_u64 n of Some k \<Rightarrow> k | None \<Rightarrow> 0)))) totals) counts totals
      | _ \<Rightarrow> totals)"

definition added_up :: "json list \<Rightarrow> json" where
  "added_up entries = JObject (fold add_counts entries [])"

definition entries_status :: "json list \<Rightarrow> string" where
  "entries_status mine =
     fold (\<lambda>status worst.
       if status = ''failed'' then worst_status worst ''failed''
       else if status = ''incomplete'' then worst_status worst ''incomplete'' else worst)
       (List.map_filter (\<lambda>entry. Option.bind (json_get entry ''status'') as_str) mine) ''verified''"

definition names_failure :: "string \<Rightarrow> string \<Rightarrow> json \<Rightarrow> bool" where
  "names_failure consumer provider failure =
     (let contract = Option.bind (Option.bind (Some failure) (\<lambda>f. json_get f ''interaction'')) (\<lambda>i. json_get i ''contract'')
      in Option.bind contract (\<lambda>c. json_get c ''consumer'') = Some (JString consumer)
        \<and> Option.bind contract (\<lambda>c. json_get c ''provider'') = Some (JString provider))"

definition summary_status :: "string \<Rightarrow> string \<Rightarrow> json \<Rightarrow> string" where
  "summary_status consumer provider summary =
     (if (case as_array (json_get summary ''failures'') of
            Some failures \<Rightarrow> list_ex (names_failure consumer provider) failures | None \<Rightarrow> False)
      then ''failed''
      else if (case json_get summary ''aborted'' of Some abort \<Rightarrow> abort \<noteq> JNull | None \<Rightarrow> False)
      then ''incomplete'' else ''verified'')"

definition verification_step :: "string \<Rightarrow> string \<Rightarrow> json \<Rightarrow> verification_view \<Rightarrow> verification_view" where
  "verification_step consumer provider summary view =
     (case as_array (json_get summary ''consumers'') of
        None \<Rightarrow> view
      | Some consumers \<Rightarrow>
          let pairs = named_pairs summary consumers;
              runs = vv_runs view + 1;
              so_far = (case vv_filtered view of Some f \<Rightarrow> f | None \<Rightarrow> False)
          in if (consumer, provider) \<notin> set pairs then view
             else (case as_array (json_get summary ''pairs'') of
                 Some entries \<Rightarrow>
                   let mine = filter (\<lambda>entry. json_get entry ''consumer'' = Some (JString consumer)
                           \<and> json_get entry ''provider'' = Some (JString provider)) entries;
                       narrowed = list_ex (\<lambda>entry. json_get entry ''status'' = Some (JString ''filtered'')) mine
                   in \<lparr>vv_status = worst_status (vv_status view) (entries_status mine), vv_runs = runs,
                       vv_filtered = Some (so_far \<or> narrowed),
                       vv_variants = (if runs = 1 then Some (added_up mine) else None)\<rparr>
               | None \<Rightarrow>
                   \<lparr>vv_status = worst_status (vv_status view) (summary_status consumer provider summary), vv_runs = runs,
                    vv_filtered = Some (so_far \<or> json_get summary ''filtered'' = Some (JBool True)),
                    vv_variants = (if length pairs = 1 \<and> runs = 1 then json_get summary ''variants'' else None)\<rparr>))"

definition verification_for :: "json list \<Rightarrow> string \<Rightarrow> string \<Rightarrow> verification_view" where
  "verification_for verifications consumer provider =
     fold (verification_step consumer provider) verifications
       \<lparr>vv_status = ''unknown'', vv_runs = 0, vv_filtered = None, vv_variants = None\<rparr>"

subsection \<open>Disposing of the findings\<close>

definition worst_verdict :: "string \<Rightarrow> string \<Rightarrow> string" where
  "worst_verdict left right =
     (if left = ''no'' \<or> right = ''no'' then ''no''
      else if left = ''unknown'' \<or> right = ''unknown'' then ''unknown'' else left)"

definition exempting ::
  "sub_policy \<Rightarrow> string option \<Rightarrow> string \<Rightarrow> string \<Rightarrow> string list \<Rightarrow> finding \<Rightarrow> nat option" where
  "exempting policy as_of consumer description states f =
     (case action_for policy (fg_severity f) of
        None \<Rightarrow> None
      | Some _ \<Rightarrow>
          position (\<lambda>e. \<not> lapsed e as_of \<and> exemption_matches e consumer description states (fg_path f)) (sp_exemptions policy))"

record dispose_state =
  ds_view :: subsumption_view
  ds_entries :: "finding_entry list"
  ds_matched :: "nat list"

definition dispose_finding ::
  "sub_policy \<Rightarrow> string option \<Rightarrow> string \<Rightarrow> string \<Rightarrow> string list \<Rightarrow> finding \<Rightarrow> dispose_state \<Rightarrow> dispose_state" where
  "dispose_finding policy as_of consumer description states f st =
     (let i = \<lparr>id_description = description, id_states = (if states \<noteq> [] then Some states else None)\<rparr>;
          view = ds_view st
      in case exempting policy as_of consumer description states f of
           Some index \<Rightarrow>
             \<lparr>ds_view = view\<lparr>sv_exempt := sv_exempt view + 1\<rparr>,
              ds_entries = ds_entries st @ [\<lparr>fe_interaction = i, fe_disposition = Exempt,
                fe_exemption = Some \<lparr>er_reason = em_reason (sp_exemptions policy ! index), er_expires = em_expires (sp_exemptions policy ! index)\<rparr>,
                fe_finding = f\<rparr>],
              ds_matched = (ds_matched st)[index := ds_matched st ! index + 1]\<rparr>
         | None \<Rightarrow>
             st\<lparr>ds_view := (case fg_severity f of
                  S_Finding \<Rightarrow> view\<lparr>sv_findings := sv_findings view + 1\<rparr>
                | S_Review \<Rightarrow> view\<lparr>sv_reviews := sv_reviews view + 1\<rparr>
                | S_Advisory \<Rightarrow> view\<lparr>sv_advisories := sv_advisories view + 1\<rparr>),
              ds_entries := ds_entries st @ [\<lparr>fe_interaction = i, fe_disposition = Live, fe_exemption = None, fe_finding = f\<rparr>]\<rparr>)"

definition result_states :: "interaction_result \<Rightarrow> string list" where
  "result_states r = (case ie_states r of Some names \<Rightarrow> names | None \<Rightarrow> [])"

definition dispose_interaction ::
  "sub_policy \<Rightarrow> string option \<Rightarrow> string \<Rightarrow> interaction_result \<Rightarrow> dispose_state \<Rightarrow> dispose_state" where
  "dispose_interaction policy as_of consumer r st =
     fold (dispose_finding policy as_of consumer (ie_description r) (result_states r)) (ie_findings r) st"

definition initial_view :: "sub_report \<Rightarrow> subsumption_view" where
  "initial_view rpt =
     \<lparr>sv_verdict = (if su_matched (sb_summary rpt) = 0 then ''not-checked''
        else foldl worst_verdict ''yes'' (map ie_verdict (filter ie_matched (sb_interactions rpt)))),
      sv_interactions = length (sb_interactions rpt), sv_matched = su_matched (sb_summary rpt),
      sv_not_published = length (filter (\<lambda>r. ie_verdict r = not_published) (sb_interactions rpt)),
      sv_findings = 0, sv_reviews = 0, sv_exempt = 0, sv_advisories = 0\<rparr>"

definition exemption_result_of :: "string option \<Rightarrow> exemption \<Rightarrow> nat \<Rightarrow> exemption_result" where
  "exemption_result_of as_of e n =
     \<lparr>xr_status = (if lapsed e as_of then Lapsed else if n = 0 then Unused else Applied), xr_matched = n, xr_exemption = e\<rparr>"

definition backquoted :: "string \<Rightarrow> string" where
  "backquoted s = [CHR 0x60] @ s @ [CHR 0x60]"

definition lapsed_message :: "nat \<Rightarrow> string" where
  "lapsed_message n =
     (if n = 1 then ''1 exemption is past its '' @ backquoted ''expires''
        @ '' date and silenced nothing; whatever it covered is decided again''
      else nat_text n @ '' exemptions are past their '' @ backquoted ''expires''
        @ '' date and silenced nothing; whatever they covered is decided again'')"

definition no_expiry_message :: "nat \<Rightarrow> string" where
  "no_expiry_message n =
     (if n = 1 then ''1 applied exemption carries no '' @ backquoted ''expires'' @ '' date and will never be revisited on its own''
      else nat_text n @ '' applied exemptions carry no '' @ backquoted ''expires'' @ '' date and will never be revisited on their own'')"

definition unused_message :: "nat \<Rightarrow> string" where
  "unused_message n =
     count_text n ''exemption'' ''exemptions'' @ '' matched nothing '' @ em_dash
       @ '' either the gap closed, or the selectors never fitted it''"

definition unevaluated_message :: "nat \<Rightarrow> string" where
  "unevaluated_message n =
     (if n = 1 then ''1 applied exemption carries an '' @ backquoted ''expires''
        @ '' date that was not evaluated: no date to judge against was supplied''
      else nat_text n @ '' applied exemptions carry an '' @ backquoted ''expires''
        @ '' date that was not evaluated: no date to judge against was supplied'')"

definition some_reason :: "nat \<Rightarrow> string \<Rightarrow> reason_action \<Rightarrow> string \<Rightarrow> reason list" where
  "some_reason n code action message = (if 0 < n then [reason_new code action message] else [])"

definition exemption_reasons :: "string option \<Rightarrow> exemption_result list \<Rightarrow> reason list" where
  "exemption_reasons as_of results =
     (let n_lapsed = length (filter (\<lambda>x. xr_status x = Lapsed) results);
          unused = length (filter (\<lambda>x. xr_status x = Unused) results);
          no_expiry = length (filter (\<lambda>x. xr_status x = Applied \<and> em_expires (xr_exemption x) = None) results);
          unevaluated = length (filter (\<lambda>x. xr_status x = Applied \<and> em_expires (xr_exemption x) \<noteq> None \<and> as_of = None) results)
      in some_reason n_lapsed ''exemption-lapsed'' Warn_Reason (lapsed_message n_lapsed)
         @ some_reason no_expiry ''exemption-no-expiry'' Note (no_expiry_message no_expiry)
         @ some_reason unused ''exemption-unused'' Note (unused_message unused)
         @ some_reason unevaluated ''expiry-not-evaluated'' Note (unevaluated_message unevaluated))"

definition dispose ::
  "sub_report \<Rightarrow> string \<Rightarrow> sub_policy \<Rightarrow> string option
     \<Rightarrow> subsumption_view \<times> finding_entry list \<times> exemption_result list \<times> reason list" where
  "dispose rpt consumer policy as_of =
     (let st = fold (dispose_interaction policy as_of consumer) (sb_interactions rpt)
            \<lparr>ds_view = initial_view rpt, ds_entries = [], ds_matched = replicate (length (sp_exemptions policy)) 0\<rparr>;
          results = map (\<lambda>(e, n). exemption_result_of as_of e n) (zip (sp_exemptions policy) (ds_matched st))
      in (ds_view st, ds_entries st, results, exemption_reasons as_of results))"

subsection \<open>One pair\<close>

definition failed_message :: string where
  "failed_message = ''the contract was replayed at the provider and found mismatches; no policy and no exemption makes that a pass''"

definition incomplete_message :: string where
  "incomplete_message =
     ''the verification run was aborted before it finished, so what it did not reach is unknown, not passing''"

definition missing_message :: "nat \<Rightarrow> string" where
  "missing_message unattributable =
     (if 0 < unattributable
      then if unattributable = 1
        then ''no verification result names this pair (1 supplied result names no consumers at all, and cannot be attributed)''
        else ''no verification result names this pair ('' @ nat_text unattributable
          @ '' supplied results name no consumers at all, and cannot be attributed)''
      else ''no verification result was supplied for this pair; a contract nobody replayed is not a passing one'')"

definition filtered_message :: string where
  "filtered_message = ''the verification run was filtered: unreplayed variants are not passing ones''"

definition no_shape_message :: string where
  "no_shape_message =
     ''the provider published no shape, so this pair gets replay-only semantics '' @ em_dash @ '' today'' @ [CHR 0x27]
       @ ''s behaviour, which is what makes the check adoptable per provider''"

definition not_published_message :: "nat \<Rightarrow> nat \<Rightarrow> string" where
  "not_published_message n interactions =
     (if n = 1 then ''1 of '' @ count_text interactions ''interaction'' ''interactions''
        @ '' has no published provider shape and was not checked''
      else nat_text n @ '' of '' @ count_text interactions ''interaction'' ''interactions''
        @ '' have no published provider shape and were not checked'')"

definition findings_message :: "nat \<Rightarrow> string" where
  "findings_message n =
     count_text n ''decided finding'' ''decided findings'' @ '': the provider may produce responses this consumer has not tested''"

definition reviews_message :: "nat \<Rightarrow> string" where
  "reviews_message n =
     count_text n ''comparison'' ''comparisons'' @ '' the checker cannot decide either way; a person has to look''"

definition exempt_message :: "nat \<Rightarrow> string" where
  "exempt_message n = count_text n ''finding'' ''findings'' @ '' silenced by an exemption this policy carries''"

definition advisories_message :: "nat \<Rightarrow> string" where
  "advisories_message n =
     (if n = 1 then ''1 passing field carries an exercised-coverage caveat (design 2.8 '' @ [CHR 0xC2, CHR 0xA7] @ ''5)''
      else nat_text n @ '' passing fields carry an exercised-coverage caveat (design 2.8 '' @ [CHR 0xC2, CHR 0xA7] @ ''5)'')"

definition verification_reasons :: "verification_view \<Rightarrow> nat \<Rightarrow> reason list" where
  "verification_reasons v unattributable =
     (if vv_status v = ''failed'' then [reason_new ''verification-failed'' Block_Reason failed_message]
      else if vv_status v = ''incomplete'' then [reason_new ''verification-incomplete'' Block_Reason incomplete_message]
      else if vv_status v = ''unknown'' then [reason_new ''verification-missing'' Warn_Reason (missing_message unattributable)]
      else [])
     @ (if vv_filtered v = Some True then [reason_new ''verification-filtered'' Warn_Reason filtered_message] else [])"

definition unchecked_view :: subsumption_view where
  "unchecked_view =
     \<lparr>sv_verdict = ''not-checked'', sv_interactions = 0, sv_matched = 0, sv_not_published = 0, sv_findings = 0,
      sv_reviews = 0, sv_exempt = 0, sv_advisories = 0\<rparr>"

definition subsumption_reasons :: "sub_policy \<Rightarrow> subsumption_view \<Rightarrow> reason list" where
  "subsumption_reasons policy s =
     some_reason (sv_not_published s) ''interactions-not-published'' Note
         (not_published_message (sv_not_published s) (sv_interactions s))
     @ some_reason (sv_findings s) ''subsumption-findings'' (reason_of (sp_on_finding policy)) (findings_message (sv_findings s))
     @ some_reason (sv_reviews s) ''subsumption-reviews'' (reason_of (sp_on_review policy)) (reviews_message (sv_reviews s))
     @ some_reason (sv_exempt s) ''subsumption-exempt'' Note (exempt_message (sv_exempt s))
     @ some_reason (sv_advisories s) ''subsumption-advisories'' Note (advisories_message (sv_advisories s))"

definition worst_reason :: "reason list \<Rightarrow> decision" where
  "worst_reason reasons = fold (\<lambda>r d. max d (reason_decision (re_action r))) reasons Pass"

definition decide_pair ::
  "compat_pair \<Rightarrow> json list \<Rightarrow> nat \<Rightarrow> sub_policy \<Rightarrow> string option \<Rightarrow> pair_result" where
  "decide_pair pair verifications unattributable policy as_of =
     (let consumer = pa_name (cp_consumer pair);
          verification = verification_for verifications consumer (pa_name (cp_provider pair))
      in case (case cp_subsumption pair of
                 None \<Rightarrow> (unchecked_view, [], [], [])
               | Some rpt \<Rightarrow> dispose rpt consumer policy as_of) of
           (subsumption, findings, exemptions, applied) \<Rightarrow>
             let reasons = verification_reasons verification unattributable
                   @ (if cp_subsumption pair = None then [reason_new ''provider-shape-missing'' Note no_shape_message]
                      else subsumption_reasons policy subsumption)
                   @ applied
             in \<lparr>pq_consumer = cp_consumer pair, pq_provider = cp_provider pair, pq_format = cp_format pair,
                 pq_decision = worst_reason reasons, pq_verification = verification, pq_subsumption = subsumption,
                 pq_reasons = reasons, pq_findings = findings, pq_exemptions = exemptions\<rparr>)"

subsection \<open>The whole run\<close>

definition summarise_pair :: "pair_result \<Rightarrow> compat_summary \<Rightarrow> compat_summary" where
  "summarise_pair r s =
     (let s = (case pq_decision r of
            Blocked \<Rightarrow> s\<lparr>cs_blocked := cs_blocked s + 1\<rparr>
          | Warned \<Rightarrow> s\<lparr>cs_warned := cs_warned s + 1\<rparr>
          | Pass \<Rightarrow> s\<lparr>cs_passed := cs_passed s + 1\<rparr>)
      in s\<lparr>cs_findings := cs_findings s + sv_findings (pq_subsumption r),
           cs_reviews := cs_reviews s + sv_reviews (pq_subsumption r),
           cs_exempt := cs_exempt s + sv_exempt (pq_subsumption r)\<rparr>)"

definition decide :: "compat_pair list \<Rightarrow> json list \<Rightarrow> sub_policy \<Rightarrow> string option \<Rightarrow> compat_report" where
  "decide pairs verifications policy as_of =
     (let unattributable = length (filter (\<lambda>summary. as_array (json_get summary ''consumers'') = None) verifications);
          results = map (\<lambda>pair. decide_pair pair verifications unattributable policy as_of) pairs
      in \<lparr>cr_format = ''janus-compatibility-report/1'',
          cr_decision = fold (\<lambda>r d. max d (pq_decision r)) results Pass,
          cr_policy = \<lparr>pw_on_finding = sp_on_finding policy, pw_on_review = sp_on_review policy,
            pw_exemptions = length (sp_exemptions policy)\<rparr>,
          cr_as_of = as_of, cr_pairs = results,
          cr_summary = fold summarise_pair results
            \<lparr>cs_pairs = length results, cs_blocked = 0, cs_warned = 0, cs_passed = 0, cs_findings = 0, cs_reviews = 0, cs_exempt = 0\<rparr>\<rparr>)"

end
