(* ===== verification/Compat_Laws.thy ===== *)
theory Compat_Laws
  imports Compat Report_Laws
begin

text \<open>
  What a compatibility report says: every finding of the subsumption report disposed of once, the decision
  of a pair read off its verification status and what is left live, and what a \<open>Pass\<close> promises.
\<close>

subsection \<open>Every finding is disposed of once\<close>

definition live_as :: "severity \<Rightarrow> finding_entry \<Rightarrow> bool" where
  "live_as s e \<longleftrightarrow> fe_disposition e = Live \<and> fg_severity (fe_finding e) = s"

definition counted :: "subsumption_view \<Rightarrow> finding_entry list \<Rightarrow> bool" where
  "counted view entries \<longleftrightarrow>
     sv_findings view = length (filter (live_as S_Finding) entries)
     \<and> sv_reviews view = length (filter (live_as S_Review) entries)
     \<and> sv_advisories view = length (filter (live_as S_Advisory) entries)
     \<and> sv_exempt view = length (filter (\<lambda>e. fe_disposition e = Exempt) entries)
     \<and> sv_findings view + sv_reviews view + sv_advisories view + sv_exempt view = length entries"

definition disposed :: "sub_policy \<Rightarrow> string option \<Rightarrow> subsumption_view \<Rightarrow> dispose_state \<Rightarrow> bool" where
  "disposed policy as_of view st \<longleftrightarrow>
     counted (ds_view st) (ds_entries st)
     \<and> sv_verdict (ds_view st) = sv_verdict view \<and> sv_not_published (ds_view st) = sv_not_published view
     \<and> sv_exempt (ds_view st) = sum_list (ds_matched st)
     \<and> length (ds_matched st) = length (sp_exemptions policy)
     \<and> (\<forall>k < length (ds_matched st). lapsed (sp_exemptions policy ! k) as_of \<longrightarrow> ds_matched st ! k = 0)
     \<and> (\<forall>e \<in> set (ds_entries st). fe_disposition e = Exempt \<longrightarrow>
          fg_severity (fe_finding e) \<noteq> S_Advisory \<and> sp_exemptions policy \<noteq> [])"

lemma exempting_SomeD:
  "exempting policy as_of consumer description states f = Some k \<Longrightarrow>
     k < length (sp_exemptions policy) \<and> \<not> lapsed (sp_exemptions policy ! k) as_of \<and> fg_severity f \<noteq> S_Advisory"
  by (auto simp: exempting_def action_for_def dest: position_SomeD split: option.splits severity.splits)

lemma sum_list_bump: "k < length ns \<Longrightarrow> sum_list (ns[k := ns ! k + 1]) = sum_list ns + (1 :: nat)"
  using elem_le_sum_list [of k ns] by (simp add: sum_list_update)

lemma dispose_finding_disposed:
  assumes "disposed policy as_of view st"
  shows "disposed policy as_of view (dispose_finding policy as_of consumer description states f st)"
proof (cases "exempting policy as_of consumer description states f")
  case None
  with assms show ?thesis
    by (cases "fg_severity f") (auto simp: disposed_def counted_def dispose_finding_def Let_def live_as_def)
next
  case (Some k)
  note k = exempting_SomeD [OF this]
  with assms have m: "k < length (ds_matched st)" by (simp add: disposed_def)
  from k have "sp_exemptions policy \<noteq> []" by auto
  with assms Some k m show ?thesis
    using sum_list_bump [OF m]
    by (auto simp: disposed_def counted_def dispose_finding_def Let_def live_as_def nth_list_update)
qed

lemma dispose_finding_entries:
  "map fe_finding (ds_entries (dispose_finding policy as_of consumer description states f st)) = map fe_finding (ds_entries st) @ [f]"
  by (simp add: dispose_finding_def Let_def split: option.split)

lemma dispose_findings:
  "disposed policy as_of view st \<Longrightarrow> disposed policy as_of view (fold (dispose_finding policy as_of consumer description states) fs st)"
  "map fe_finding (ds_entries (fold (dispose_finding policy as_of consumer description states) fs st)) = map fe_finding (ds_entries st) @ fs"
  by (induction fs arbitrary: st) (simp_all add: dispose_finding_disposed dispose_finding_entries)

lemma dispose_interactions:
  "disposed policy as_of view st \<Longrightarrow> disposed policy as_of view (fold (dispose_interaction policy as_of consumer) rs st)"
  "map fe_finding (ds_entries (fold (dispose_interaction policy as_of consumer) rs st))
     = map fe_finding (ds_entries st) @ concat (map ie_findings rs)"
  by (induction rs arbitrary: st) (simp_all add: dispose_interaction_def dispose_findings)

definition dispose_start :: "sub_report \<Rightarrow> sub_policy \<Rightarrow> dispose_state" where
  "dispose_start rpt policy =
     \<lparr>ds_view = initial_view rpt, ds_entries = [], ds_matched = replicate (length (sp_exemptions policy)) 0\<rparr>"

lemma start_disposed: "disposed policy as_of (initial_view rpt) (dispose_start rpt policy)"
  by (simp add: disposed_def counted_def dispose_start_def initial_view_def sum_list_replicate)

definition dispose_end :: "sub_report \<Rightarrow> string \<Rightarrow> sub_policy \<Rightarrow> string option \<Rightarrow> dispose_state" where
  "dispose_end rpt consumer policy as_of =
     fold (dispose_interaction policy as_of consumer) (sb_interactions rpt) (dispose_start rpt policy)"

lemma end_disposed: "disposed policy as_of (initial_view rpt) (dispose_end rpt consumer policy as_of)"
  by (simp add: dispose_end_def dispose_interactions(1) start_disposed)

lemma end_entries: "map fe_finding (ds_entries (dispose_end rpt consumer policy as_of)) = concat (map ie_findings (sb_interactions rpt))"
  by (simp add: dispose_end_def dispose_interactions(2) dispose_start_def)

lemma dispose_ends:
  "dispose rpt consumer policy as_of =
     (let st = dispose_end rpt consumer policy as_of;
          results = map (\<lambda>(e, n). exemption_result_of as_of e n) (zip (sp_exemptions policy) (ds_matched st))
      in (ds_view st, ds_entries st, results, exemption_reasons as_of results))"
  by (simp add: dispose_def dispose_end_def dispose_start_def)

lemma results_matched:
  "length ns = length es \<Longrightarrow> map xr_matched (map (\<lambda>(e, n). exemption_result_of as_of e n) (zip es ns)) = ns"
  by (induction ns es rule: list_induct2) (simp_all add: exemption_result_of_def)

lemma lapsed_unmatched:
  assumes "length ns = length es" and "\<forall>k < length ns. lapsed (es ! k) as_of \<longrightarrow> ns ! k = 0"
  shows "filter (\<lambda>x. xr_status x = Lapsed \<and> xr_matched x \<noteq> 0) (map (\<lambda>(e, n). exemption_result_of as_of e n) (zip es ns)) = []"
  using assms by (auto simp: filter_empty_conv set_zip exemption_result_of_def split: if_splits)

text \<open>C25: every finding is disposed of exactly once. A pair's entries are the findings of its subsumption
  report in their order; each is counted under its severity when it is live, and otherwise as exempt; the
  four counts add up to the number of findings. The verdict is the one the report had, whatever is exempt.
  What the exemptions matched adds up to the exempt count, and an exemption past its date matched nothing.\<close>

theorem findings_accounted:
  "case dispose rpt consumer policy as_of of (view, entries, results, reasons) \<Rightarrow>
     map fe_finding entries = concat (map ie_findings (sb_interactions rpt)) \<and> counted view entries
     \<and> sv_verdict view = sv_verdict (initial_view rpt) \<and> length results = length (sp_exemptions policy) \<and> sum_list (map xr_matched results) = sv_exempt view
     \<and> filter (\<lambda>x. xr_status x = Lapsed \<and> xr_matched x \<noteq> 0) results = []"
proof -
  let ?st = "dispose_end rpt consumer policy as_of"
  note d = end_disposed [of policy as_of rpt consumer, unfolded disposed_def]
  have same: "length (ds_matched ?st) = length (sp_exemptions policy)" using d by blast
  have "\<forall>k < length (ds_matched ?st). lapsed (sp_exemptions policy ! k) as_of \<longrightarrow> ds_matched ?st ! k = 0" using d by blast
  note silent = lapsed_unmatched [OF same this]
  have "counted (ds_view ?st) (ds_entries ?st)" "sv_exempt (ds_view ?st) = sum_list (ds_matched ?st)"
    "sv_verdict (ds_view ?st) = sv_verdict (initial_view rpt)" using d by blast+
  with silent show ?thesis by (simp add: dispose_ends Let_def end_entries results_matched [OF same] same del: map_map)
qed

subsection \<open>What decides a pair\<close>

lemma worst_reason_from:
  "fold (\<lambda>r d. max d (reason_decision (re_action r))) rs d0
     = (if d0 = Blocked \<or> list_ex (\<lambda>r. re_action r = Block_Reason) rs then Blocked
        else if d0 = Pass \<and> list_all (\<lambda>r. re_action r = Note) rs then Pass else Warned)"
proof (induction rs arbitrary: d0)
  case Nil
  then show ?case by (cases d0) simp_all
next
  case (Cons r rs)
  then show ?case
    by (cases d0; cases "re_action r") (simp_all add: reason_decision_def max_def less_eq_decision_def rank_of_def)
qed

lemma worst_reason_cases:
  "worst_reason rs =
     (if list_ex (\<lambda>r. re_action r = Block_Reason) rs then Blocked
      else if list_all (\<lambda>r. re_action r = Note) rs then Pass else Warned)"
  by (simp add: worst_reason_def worst_reason_from)

text \<open>What a pair's result says by itself.\<close>

definition stopped :: "sub_policy \<Rightarrow> pair_result \<Rightarrow> bool" where
  "stopped policy r \<longleftrightarrow>
     vv_status (pq_verification r) \<in> {''failed'', ''incomplete''}
     \<or> 0 < sv_findings (pq_subsumption r) \<and> sp_on_finding policy = Block
     \<or> 0 < sv_reviews (pq_subsumption r) \<and> sp_on_review policy = Block"

definition clear :: "pair_result \<Rightarrow> bool" where
  "clear r \<longleftrightarrow>
     vv_status (pq_verification r) \<notin> {''failed'', ''incomplete'', ''unknown''} \<and> vv_filtered (pq_verification r) \<noteq> Some True
     \<and> sv_findings (pq_subsumption r) = 0 \<and> sv_reviews (pq_subsumption r) = 0
     \<and> filter (\<lambda>x. xr_status x = Lapsed) (pq_exemptions r) = []"

definition answer :: "sub_policy \<Rightarrow> pair_result \<Rightarrow> decision" where
  "answer policy r = (if stopped policy r then Blocked else if clear r then Pass else Warned)"

lemma some_reason_action [simp]:
  "list_ex (\<lambda>r. re_action r = a) (some_reason n code action message) \<longleftrightarrow> 0 < n \<and> action = a"
  "list_all (\<lambda>r. re_action r = a) (some_reason n code action message) \<longleftrightarrow> n = 0 \<or> action = a"
  by (simp_all add: some_reason_def reason_new_def)

lemma reason_of_action [simp]: "reason_of a = Block_Reason \<longleftrightarrow> a = Block" "reason_of a \<noteq> Note"
  by (cases a; simp add: reason_of_def)+

lemma exemption_reasons_action:
  "\<not> list_ex (\<lambda>r. re_action r = Block_Reason) (exemption_reasons as_of results)"
  "list_all (\<lambda>r. re_action r = Note) (exemption_reasons as_of results) \<longleftrightarrow> filter (\<lambda>x. xr_status x = Lapsed) results = []"
  by (simp_all add: exemption_reasons_def Let_def)

lemma subsumption_reasons_action:
  "list_ex (\<lambda>r. re_action r = Block_Reason) (subsumption_reasons policy s) \<longleftrightarrow>
     0 < sv_findings s \<and> sp_on_finding policy = Block \<or> 0 < sv_reviews s \<and> sp_on_review policy = Block"
  "list_all (\<lambda>r. re_action r = Note) (subsumption_reasons policy s) \<longleftrightarrow> sv_findings s = 0 \<and> sv_reviews s = 0"
  by (simp_all add: subsumption_reasons_def)

lemma verification_reasons_action:
  "list_ex (\<lambda>r. re_action r = Block_Reason) (verification_reasons v n) \<longleftrightarrow> vv_status v \<in> {''failed'', ''incomplete''}"
  "list_all (\<lambda>r. re_action r = Note) (verification_reasons v n) \<longleftrightarrow>
     vv_status v \<notin> {''failed'', ''incomplete'', ''unknown''} \<and> vv_filtered v \<noteq> Some True"
  by (simp_all add: verification_reasons_def reason_new_def)

lemmas reason_actions = exemption_reasons_action subsumption_reasons_action verification_reasons_action

lemma decide_pair_answer: "pq_decision (decide_pair pair verifications n policy as_of) = answer policy (decide_pair pair verifications n policy as_of)"
proof (cases "cp_subsumption pair")
  case None
  then show ?thesis
    by (simp add: decide_pair_def Let_def worst_reason_cases answer_def stopped_def clear_def reason_actions unchecked_view_def
        reason_new_def)
next
  case (Some rpt)
  obtain view entries results reasons where d: "dispose rpt (pa_name (cp_consumer pair)) policy as_of = (view, entries, results, reasons)"
    by (metis prod_cases4)
  then have r: "reasons = exemption_reasons as_of results" by (auto simp: dispose_ends Let_def)
  show ?thesis
    by (auto simp: decide_pair_def Let_def Some d worst_reason_cases answer_def stopped_def clear_def reason_actions r)
qed

lemma worst_decision:
  "fold (\<lambda>r d. max d (pq_decision r)) rs d0 =
     (if d0 = Blocked \<or> list_ex (\<lambda>r. pq_decision r = Blocked) rs then Blocked
      else if d0 = Pass \<and> list_all (\<lambda>r. pq_decision r = Pass) rs then Pass else Warned)"
proof (induction rs arbitrary: d0)
  case Nil
  then show ?case by (cases d0) simp_all
next
  case (Cons r rs)
  then show ?case
    by (cases d0; cases "pq_decision r") (simp_all add: max_def less_eq_decision_def rank_of_def)
qed

subsection \<open>What the verification runs say\<close>

text \<open>The summaries that name a pair, and the status each reports for it.\<close>

definition covering :: "string \<Rightarrow> string \<Rightarrow> json \<Rightarrow> bool" where
  "covering consumer provider summary \<longleftrightarrow>
     (case as_array (json_get summary ''consumers'') of
        None \<Rightarrow> False | Some consumers \<Rightarrow> (consumer, provider) \<in> set (named_pairs summary consumers))"

definition reported :: "string \<Rightarrow> string \<Rightarrow> json \<Rightarrow> string" where
  "reported consumer provider summary =
     (case as_array (json_get summary ''pairs'') of
        Some entries \<Rightarrow> entries_status (filter (\<lambda>entry. json_get entry ''consumer'' = Some (JString consumer)
            \<and> json_get entry ''provider'' = Some (JString provider)) entries)
      | None \<Rightarrow> summary_status consumer provider summary)"

lemma verification_step_status:
  "vv_status (verification_step c p summary view) =
     (if covering c p summary then worst_status (vv_status view) (reported c p summary) else vv_status view)"
  "vv_runs (verification_step c p summary view) = vv_runs view + (if covering c p summary then 1 else 0)"
  by (simp_all add: verification_step_def covering_def reported_def Let_def split: option.split)

definition statuses :: "string set" where
  "statuses = {''failed'', ''incomplete'', ''verified''}"

lemma worst_status_cases:
  assumes "left \<in> statuses \<union> {''unknown''}" and "right \<in> statuses"
  shows "worst_status left right =
    (if left = ''failed'' \<or> right = ''failed'' then ''failed''
     else if left = ''incomplete'' \<or> right = ''incomplete'' then ''incomplete'' else ''verified'')"
  using assms by (auto simp: worst_status_def statuses_def)

lemma entries_status_in: "entries_status mine \<in> statuses"
proof -
  have "fold (\<lambda>status worst. if status = ''failed'' then worst_status worst ''failed''
      else if status = ''incomplete'' then worst_status worst ''incomplete'' else worst) ss worst \<in> statuses"
    if "worst \<in> statuses" for ss worst
    using that
  proof (induction ss arbitrary: worst)
    case (Cons s ss)
    have "worst_status worst right \<in> statuses" if "right \<in> statuses" for right
      using Cons.prems that by (subst worst_status_cases) (auto simp: statuses_def)
    then show ?case using Cons by (auto simp: statuses_def)
  qed simp
  then show ?thesis by (simp add: entries_status_def statuses_def)
qed

lemma reported_in: "reported c p summary \<in> statuses"
proof (cases "as_array (json_get summary ''pairs'')")
  case None
  then show ?thesis by (simp add: reported_def summary_status_def statuses_def)
next
  case (Some entries)
  then show ?thesis using entries_status_in by (simp add: reported_def)
qed

definition overall_status :: "string \<Rightarrow> string list \<Rightarrow> string" where
  "overall_status s0 rs =
     (if s0 = ''failed'' \<or> ''failed'' \<in> set rs then ''failed''
      else if s0 = ''incomplete'' \<or> ''incomplete'' \<in> set rs then ''incomplete''
      else if rs = [] then s0 else ''verified'')"

lemma overall_step:
  assumes "s0 \<in> statuses \<union> {''unknown''}" and "r \<in> statuses"
  shows "overall_status (worst_status s0 r) rs = overall_status s0 (r # rs)"
  unfolding worst_status_cases [OF assms] by (simp add: overall_status_def)

lemma worst_status_in:
  assumes "s0 \<in> statuses \<union> {''unknown''}" and "r \<in> statuses"
  shows "worst_status s0 r \<in> statuses \<union> {''unknown''}"
  unfolding worst_status_cases [OF assms] by (simp add: statuses_def)

lemma verification_fold:
  assumes "vv_status view \<in> statuses \<union> {''unknown''}"
  shows "vv_status (fold (verification_step c p) vs view) = overall_status (vv_status view) (map (reported c p) (filter (covering c p) vs))
    \<and> vv_runs (fold (verification_step c p) vs view) = vv_runs view + length (filter (covering c p) vs)"
  using assms
proof (induction vs arbitrary: view)
  case Nil
  then show ?case by (simp add: overall_status_def)
next
  case (Cons v vs)
  let ?view = "verification_step c p v view"
  have known: "vv_status ?view \<in> statuses \<union> {''unknown''}"
    using Cons.prems worst_status_in [OF Cons.prems reported_in] by (simp add: verification_step_status)
  note Cons.IH [OF this]
  then show ?case using overall_step [OF Cons.prems reported_in] by (simp add: verification_step_status)
qed

text \<open>C26: a pair's verification status is the worst any covering run reports, whatever order the runs are
  supplied in: \<open>failed\<close> before \<open>incomplete\<close> before \<open>verified\<close>, and \<open>unknown\<close> exactly when no summary
  names the pair.\<close>

theorem verification_worst:
  "vv_status (verification_for verifications c p) =
     (let rs = map (reported c p) (filter (covering c p) verifications) in
      if ''failed'' \<in> set rs then ''failed'' else if ''incomplete'' \<in> set rs then ''incomplete''
      else if rs = [] then ''unknown'' else ''verified'')
   \<and> vv_runs (verification_for verifications c p) = length (filter (covering c p) verifications)"
  using verification_fold [of "\<lparr>vv_status = ''unknown'', vv_runs = 0, vv_filtered = None, vv_variants = None\<rparr>" c p verifications]
  by (simp add: verification_for_def overall_status_def Let_def)

subsection \<open>What a run's decision says\<close>

lemma summarise_pairs:
  "cs_blocked (fold summarise_pair rs s) = cs_blocked s + length (filter (\<lambda>r. pq_decision r = Blocked) rs)"
  "cs_warned (fold summarise_pair rs s) = cs_warned s + length (filter (\<lambda>r. pq_decision r = Warned) rs)"
  "cs_passed (fold summarise_pair rs s) = cs_passed s + length (filter (\<lambda>r. pq_decision r = Pass) rs)"
  by (induction rs arbitrary: s) (simp_all add: summarise_pair_def Let_def split: decision.split)

lemma decided_pairs:
  "cr_pairs (decide pairs verifications policy as_of) =
     map (\<lambda>pair. decide_pair pair verifications
       (length (filter (\<lambda>summary. as_array (json_get summary ''consumers'') = None) verifications)) policy as_of) pairs"
  by (simp add: decide_def Let_def)

lemma decided_answers:
  "map pq_decision (cr_pairs (decide pairs verifications policy as_of)) =
     map (answer policy) (cr_pairs (decide pairs verifications policy as_of))"
  by (simp add: decided_pairs decide_pair_answer)

lemma decided_worst:
  "cr_decision (decide pairs verifications policy as_of) =
     (let rs = cr_pairs (decide pairs verifications policy as_of) in
      if list_ex (\<lambda>r. pq_decision r = Blocked) rs then Blocked
      else if list_all (\<lambda>r. pq_decision r = Pass) rs then Pass else Warned)"
  by (simp add: decide_def Let_def worst_decision)

text \<open>C24: what decides. A pair is blocked exactly when its verification failed or was aborted, or a live
  finding or review meets a policy that blocks on it; it passes exactly when it was verified whole and
  nothing is live and no exemption has lapsed; and otherwise it warns. The run's decision is the worst of
  its pairs', and the summary counts each pair once.\<close>

theorem decision_explained:
  "let rpt = decide pairs verifications policy as_of; rs = cr_pairs rpt in
     map pq_decision rs = map (answer policy) rs
     \<and> cr_decision rpt = (if list_ex (\<lambda>r. answer policy r = Blocked) rs then Blocked
          else if list_all (\<lambda>r. answer policy r = Pass) rs then Pass else Warned)
     \<and> cs_blocked (cr_summary rpt) = length (filter (\<lambda>r. answer policy r = Blocked) rs)
     \<and> cs_blocked (cr_summary rpt) + cs_warned (cr_summary rpt) + cs_passed (cr_summary rpt) = length pairs"
proof -
  let ?rs = "cr_pairs (decide pairs verifications policy as_of)"
  have each: "pq_decision r = answer policy r" if "r \<in> set ?rs" for r
    using decided_answers [of pairs verifications policy as_of] that by (simp add: map_eq_conv)
  then have same: "filter (\<lambda>r. pq_decision r = d) ?rs = filter (\<lambda>r. answer policy r = d) ?rs" for d
    by (intro filter_cong) simp_all
  have "list_ex (\<lambda>r. pq_decision r = d) ?rs = list_ex (\<lambda>r. answer policy r = d) ?rs"
    "list_all (\<lambda>r. pq_decision r = d) ?rs = list_all (\<lambda>r. answer policy r = d) ?rs" for d
    using each by (auto simp: list_ex_iff list_all_iff)
  note worst = decided_worst [of pairs verifications policy as_of, unfolded Let_def this]
  have counts: "cs_blocked (cr_summary (decide pairs verifications policy as_of)) = length (filter (\<lambda>r. pq_decision r = Blocked) ?rs)"
    "cs_warned (cr_summary (decide pairs verifications policy as_of)) = length (filter (\<lambda>r. pq_decision r = Warned) ?rs)"
    "cs_passed (cr_summary (decide pairs verifications policy as_of)) = length (filter (\<lambda>r. pq_decision r = Pass) ?rs)"
    by (simp_all add: decide_def Let_def summarise_pairs)
  have all: "length (filter (\<lambda>r. pq_decision r = Blocked) rs) + length (filter (\<lambda>r. pq_decision r = Warned) rs)
      + length (filter (\<lambda>r. pq_decision r = Pass) rs) = length rs" for rs :: "pair_result list"
  proof (induction rs)
    case (Cons r rs)
    then show ?case by (cases "pq_decision r") simp_all
  qed simp
  have "length ?rs = length pairs" by (simp add: decided_pairs)
  with all [of ?rs] counts worst decided_answers show ?thesis by (simp add: Let_def same)
qed

subsection \<open>What a pass promises\<close>

lemma pass_pair:
  assumes "cr_decision (decide pairs verifications policy as_of) = Pass" and "pair \<in> set pairs"
  obtains n where "clear (decide_pair pair verifications n policy as_of)"
proof -
  let ?rs = "cr_pairs (decide pairs verifications policy as_of)"
  obtain n where r: "decide_pair pair verifications n policy as_of \<in> set ?rs" using assms(2) by (auto simp: decided_pairs)
  have "list_all (\<lambda>r. pq_decision r = Pass) ?rs"
    using assms(1) decided_worst [of pairs verifications policy as_of] by (auto simp: Let_def split: if_splits)
  with r have "answer policy (decide_pair pair verifications n policy as_of) = Pass"
    using decide_pair_answer [of pair verifications n policy as_of] by (simp add: list_all_iff)
  then show ?thesis using that [of n] by (simp add: answer_def split: if_splits)
qed

lemma decide_pair_parts:
  "pq_verification (decide_pair pair verifications n policy as_of) =
     verification_for verifications (pa_name (cp_consumer pair)) (pa_name (cp_provider pair))"
  "cp_subsumption pair = Some rpt \<Longrightarrow> pq_subsumption (decide_pair pair verifications n policy as_of) =
     ds_view (dispose_end rpt (pa_name (cp_consumer pair)) policy as_of)"
  by (simp_all add: decide_pair_def Let_def dispose_ends split: option.split prod.split)

text \<open>With no exemption every entry is live, so a view with nothing live leaves only advisories.\<close>

lemma nothing_live:
  assumes "sv_findings (ds_view (dispose_end rpt consumer policy as_of)) = 0"
    and "sv_reviews (ds_view (dispose_end rpt consumer policy as_of)) = 0" and "sp_exemptions policy = []"
    and "r \<in> set (sb_interactions rpt)" and "f \<in> set (ie_findings r)"
  shows "fg_severity f = S_Advisory"
proof -
  let ?st = "dispose_end rpt consumer policy as_of"
  have "f \<in> set (map fe_finding (ds_entries ?st))" using assms(4,5) by (auto simp: end_entries)
  then obtain e where e: "e \<in> set (ds_entries ?st)" "fe_finding e = f" by auto
  note d = end_disposed [of policy as_of rpt consumer, unfolded disposed_def counted_def]
  have "fe_disposition e \<noteq> Exempt" using d e(1) assms(3) by blast
  then have live: "fe_disposition e = Live" by (cases "fe_disposition e") simp_all
  have "filter (live_as S_Finding) (ds_entries ?st) = []" "filter (live_as S_Review) (ds_entries ?st) = []"
    using d assms(1,2) by simp_all
  with e live show ?thesis by (cases "fg_severity f") (auto simp: filter_empty_conv live_as_def)
qed

lemma advisory_yes:
  "list_all (\<lambda>f. fg_severity f = severity_of (fg_verdict f)) fs \<Longrightarrow> list_all (\<lambda>f. fg_severity f = S_Advisory) fs \<Longrightarrow>
   findings_verdict fs = Yes"
proof (induction fs)
  case (Cons f fs)
  then have "fg_verdict f = Yes" by (cases "fg_verdict f") (simp_all add: severity_of_def)
  with Cons show ?case by simp
qed simp


subsection \<open>A run\<close>

definition list_pair :: "sub_report \<Rightarrow> compat_pair" where
  "list_pair rpt =
     \<lparr>cp_consumer = \<lparr>pa_name = ''web''\<rparr>, cp_provider = \<lparr>pa_name = ''orders''\<rparr>, cp_format = None, cp_subsumption = Some rpt\<rparr>"

definition list_run :: json where
  "list_run = JObject [(''consumers'', JArray [JString ''web'']), (''providers'', JArray [JString ''orders'']),
     (''pairs'', JArray [JObject [(''consumer'', JString ''web''), (''provider'', JString ''orders''), (''status'', JString ''verified'')]])]"

lemma list_decided:
  assumes "map ie_verdict (sb_interactions rpt) = [''yes'', ''not-published'']" and "map ie_findings (sb_interactions rpt) = [[], []]"
  shows "cr_decision (decide [list_pair rpt] [list_run] default_policy None) = Pass"
proof -
  obtain r1 r2 where rs: "sb_interactions rpt = [r1, r2]" using assms(1) by (auto simp: map_eq_Cons_conv)
  with assms(2) have none: "ie_findings r1 = []" "ie_findings r2 = []" by simp_all
  have status: "vv_status (verification_for [list_run] ''web'' ''orders'') = ''verified''"
    "vv_filtered (verification_for [list_run] ''web'' ''orders'') = Some False"
    by (simp_all add: verification_for_def verification_step_def list_run_def as_array_def named_pairs_def entries_status_def
        worst_status_def Let_def List.map_filter_def)
  have "ds_view (dispose_end rpt c default_policy None) = initial_view rpt" for c
    by (simp add: dispose_end_def rs dispose_interaction_def none dispose_start_def)
  then have "answer default_policy (decide_pair (list_pair rpt) [list_run] n default_policy None) = Pass" for n
    by (simp add: answer_def stopped_def clear_def decide_pair_def list_pair_def Let_def dispose_ends status default_policy_def
        initial_view_def)
  then show ?thesis by (simp add: decided_worst decided_pairs decide_pair_answer)
qed


end
