(* ===== verification/Generate.thy ===== *)
theory Generate
  imports Shape_Admits Plan_Compile
begin

text \<open>
  The payload of a variant, engine/kernel/src/variant/generate.rs: the walk of a shape under an assignment,
  as the walk of \<open>Variant_Space\<close>, that produces the value the assignment describes. A slot is a document
  value or octets; inside a document octets are their base64 text.
\<close>

datatype generated = Document json | Octets string

definition as_document :: "generated \<Rightarrow> json option" where
  "as_document g = (case g of Document v \<Rightarrow> Some v | Octets _ \<Rightarrow> None)"

definition into_json :: "lib \<Rightarrow> generated \<Rightarrow> json" where
  "into_json L g = (case g of Document v \<Rightarrow> v | Octets bytes \<Rightarrow> JString (base64_encode L bytes))"

definition generated_example :: "lib \<Rightarrow> example \<Rightarrow> generated" where
  "generated_example L e =
     (case (if ex_encoded e = Some ''base64'' then Option.bind (as_str (ex_value e)) (base64_decode L) else None) of
        Some bytes \<Rightarrow> Octets bytes
      | None \<Rightarrow> Document (ex_value e))"

definition cardinality_size :: "string \<Rightarrow> nat \<Rightarrow> nat option \<Rightarrow> string smap \<Rightarrow> nat" where
  "cardinality_size at least most A =
     (case map_of A (dimension_id at ''cardinality'') of
        Some point \<Rightarrow> (case map_of (cardinality_points least most) point of Some n \<Rightarrow> n | None \<Rightarrow> least)
      | None \<Rightarrow> least)"

text \<open>A value's place in a list, and the key of an entry.\<close>

definition or_null :: "json option \<Rightarrow> json" where
  "or_null v = (case v of Some x \<Rightarrow> x | None \<Rightarrow> JNull)"

definition entry_key :: "json option \<Rightarrow> nat \<Rightarrow> string" where
  "entry_key key index = (case Option.bind key as_str of Some t \<Rightarrow> t | None \<Rightarrow> ''key'' @ nat_text index)"

definition chosen_option :: "lib \<Rightarrow> string smap \<Rightarrow> string \<Rightarrow> json list \<Rightarrow> json option" where
  "chosen_option L A at options =
     Option.bind (map_of A (dimension_id at ''value'')) (\<lambda>point. List.find (\<lambda>x. canonical_point_name L x = point) options)"

definition chosen_alternative :: "string smap \<Rightarrow> string \<Rightarrow> shape smap \<Rightarrow> string option \<Rightarrow> string option" where
  "chosen_alternative A at alternatives dflt =
     (case map_of A (dimension_id at ''alternative'') of
        Some name \<Rightarrow> Some name
      | None \<Rightarrow> (case dflt of
            Some name \<Rightarrow> Some name
          | None \<Rightarrow> (case alternatives of [] \<Rightarrow> None | (name, _) # _ \<Rightarrow> Some name)))"

function (sequential) generate_shape :: "lib \<Rightarrow> string smap \<Rightarrow> string \<Rightarrow> shape \<Rightarrow> generated option" where
  "generate_shape L A at (ShapeNode ex g (Component operator raw)) = map_option (generated_example L) ex"
| "generate_shape L A at (ShapeNode ex g (Core (Optional s))) =
     (if map_of A (dimension_id at ''presence'') = Some ''absent'' then None else generate_shape L A at s)"
| "generate_shape L A at (ShapeNode ex g (Core Forbidden)) = None"
| "generate_shape L A at (ShapeNode ex g (Core (Nullable s))) =
     (if map_of A (dimension_id at ''nullability'') = Some ''null'' then Some (Document JNull)
      else generate_shape L A at s)"
| "generate_shape L A at (ShapeNode ex g (Core (AnyOf options))) =
     (case (chosen_option L A at options, ex) of
        (Some x, _) \<Rightarrow> Some (Document x)
      | (None, Some e) \<Rightarrow> Some (generated_example L e)
      | (None, None) \<Rightarrow> (case options of [] \<Rightarrow> None | x # _ \<Rightarrow> Some (Document x)))"
| "generate_shape L A at (ShapeNode ex g (Core (OneOf disc alternatives dflt))) =
     (case chosen_alternative A at alternatives dflt of
        None \<Rightarrow> None
      | Some name \<Rightarrow>
          (case map_of alternatives name of
             None \<Rightarrow> None
           | Some alt \<Rightarrow> generate_shape L A (path_alternative at name) alt))"
| "generate_shape L A at (ShapeNode ex g (Core (EachLike s least most))) =
     Some (Document (JArray (replicate (cardinality_size at least most A)
       (or_null (map_option (into_json L) (generate_shape L A (each_like_item at) s))))))"
| "generate_shape L A at (ShapeNode ex g (Core (EachEntry ks vs least most))) =
     (let entry = or_null (map_option (into_json L) (generate_shape L A (each_entry_value at) vs));
          key = (case ks of Some k \<Rightarrow> map_option (into_json L) (generate_shape L A (each_entry_key at) k) | None \<Rightarrow> None)
      in Some (Document (JObject (fold (\<lambda>index m. index_insert (entry_key key index) entry m)
           [0..<cardinality_size at least most A] []))))"
| "generate_shape L A at (ShapeNode ex g (Core (Object members))) =
     Some (Document (JObject (concat (map (\<lambda>(name, m).
       case generate_shape L A (path_member at name) m of Some v \<Rightarrow> [(name, into_json L v)] | None \<Rightarrow> []) members))))"
| "generate_shape L A at (ShapeNode ex g (Core (ArrayOf entries))) =
     Some (Document (JArray (map (\<lambda>(i, e). or_null (map_option (into_json L) (generate_shape L A (path_array_index at i) e)))
       (List.enumerate 0 entries))))"
| "generate_shape L A at (ShapeNode ex g (Core (Contains entries))) =
     Some (Document (JArray (concat (map (\<lambda>(i, e).
       case generate_shape L A (path_array_index at i) e of Some v \<Rightarrow> [into_json L v] | None \<Rightarrow> []) (List.enumerate 0 entries)))))"
| "generate_shape L A at (ShapeNode ex g (Core leaf)) =
     Some (case ex of Some e \<Rightarrow> generated_example L e | None \<Rightarrow> Document JNull)"
  by pat_completeness auto
termination
  by (relation "measure (\<lambda>(L, A, at, s). size s)")
    (auto simp: less_Suc_eq_le intro: size_list_estimation' smap_size_le le_SucI dest: enumerate_member map_of_SomeD)

text \<open>A whole interaction; a slot whose shape produces nothing is left out.\<close>

definition generate_slots :: "lib \<Rightarrow> string smap \<Rightarrow> string \<Rightarrow> shape smap \<Rightarrow> generated smap" where
  "generate_slots L A part slots =
     concat (map (\<lambda>(slot, s).
       case generate_shape L A (path_root part slot) s of Some v \<Rightarrow> [(slot, v)] | None \<Rightarrow> []) slots)"

definition generate_interaction :: "lib \<Rightarrow> interaction \<Rightarrow> string smap \<Rightarrow> generated smap smap" where
  "generate_interaction L spec A = map (\<lambda>(part, slots). (part, generate_slots L A part slots)) (in_parts spec)"

end
