(* ===== verification/Generate_Laws.thy ===== *)
theory Generate_Laws
  imports Generate Parse_Theorems Sampler_Theorems
begin

text \<open>
  The payload generated for a variant is one the shape admits under the variant's own points, so the plan
  compiled for the variant matches it; and the two places where it is not.
\<close>

subsection \<open>What generation asks of a shape\<close>

text \<open>Every leaf has an example it admits (an absent example is null), no value inside a document is octets,
  and the entries of a map are not keyed by an example.\<close>

definition leaf_value :: "example option \<Rightarrow> json" where
  "leaf_value ex = (case ex of Some e \<Rightarrow> ex_value e | None \<Rightarrow> JNull)"

definition documentary :: "example option \<Rightarrow> bool" where
  "documentary ex \<longleftrightarrow> (case ex of Some e \<Rightarrow> ex_encoded e \<noteq> Some ''base64'' \<and> wf_json (ex_value e) | None \<Rightarrow> True)"

fun sampled :: "lib \<Rightarrow> judge \<Rightarrow> shape \<Rightarrow> bool" where
  "sampled L R (ShapeNode ex g (Component operator raw)) =
     (ex \<noteq> None \<and> documentary ex \<and> jd_component R operator raw (rv_from_json (leaf_value ex)))"
| "sampled L R (ShapeNode ex g (Core (EachEntry ks vs least most))) = (ks = None)"
| "sampled L R (ShapeNode ex g (Core (AnyOf options))) = documentary ex"
| "sampled L R (ShapeNode ex g (Core Forbidden)) = True"
| "sampled L R (ShapeNode ex g (Core c)) =
     (leaf_operator c \<longrightarrow> documentary ex \<and> leaf_admits L R ex c (rv_from_json (leaf_value ex)))"

text \<open>An assignment that names points of the dimensions it mentions, as a selected variant's does.\<close>

definition names_points :: "string smap \<Rightarrow> dimension list \<Rightarrow> bool" where
  "names_points A space \<longleftrightarrow> (\<forall>d \<in> set space. \<forall>p. map_of A (dim_id d) = Some p \<longrightarrow> p \<in> points_of d)"

lemma valid_names_points: "valid_assignment space A \<Longrightarrow> names_points A space"
  by (simp add: valid_assignment_def names_points_def)

lemma names_points_simps [simp]:
  "names_points A []"
  "names_points A (d # ds) \<longleftrightarrow> (\<forall>p. map_of A (dim_id d) = Some p \<longrightarrow> p \<in> points_of d) \<and> names_points A ds"
  "names_points A (ds @ es) \<longleftrightarrow> names_points A ds \<and> names_points A es"
  "names_points A (concat dss) \<longleftrightarrow> (\<forall>ds \<in> set dss. names_points A ds)"
  by (auto simp: names_points_def)

subsection \<open>Sizes and options\<close>

lemma sized: "bounds_parsed least most \<Longrightarrow> size_admits (map_of A) at least most (cardinality_size at least most A)"
  by (auto simp: size_admits_def cardinality_size_def cardinality_region_def cardinality_points_def bounds_parsed_def
      in_region_def Let_def split: option.splits if_splits)

lemma option_equal: "wf_json x \<Longrightarrow> runtime_eq (rv_from_json x) (rv_from_json x)"
  by (simp add: runtime_eq_refl wf_rv_from_json no_entry_from_json)

lemma nat_text_inject: "nat_text m = nat_text n \<Longrightarrow> m = n"
  by (metis digits_value_nat_text)

lemma index_insert_new: "k \<notin> fst ` set m \<Longrightarrow> index_insert k v m = m @ [(k, v)]"
  by (induction k v m rule: index_insert.induct) auto

lemma entries_keyed:
  "fold (\<lambda>index m. index_insert (entry_key None index) x m) [0..<n] [] = map (\<lambda>i. (''key'' @ nat_text i, x)) [0..<n]"
proof (induction n)
  case (Suc n)
  have "''key'' @ nat_text n \<notin> fst ` set (map (\<lambda>i. (''key'' @ nat_text i, x)) [0..<n])" by (auto dest: nat_text_inject)
  note index_insert_new [OF this, of x]
  with Suc show ?case by (simp add: entry_key_def)
qed simp

lemma keys_distinct: "index_map (map (\<lambda>i. (''key'' @ nat_text i, x)) [0..<n])"
  by (auto simp: index_map_def distinct_map inj_on_def comp_def dest: nat_text_inject)

text \<open>The members that are produced, of those there are.\<close>

fun gather :: "(string \<Rightarrow> 'a \<Rightarrow> 'b option) \<Rightarrow> ('b \<Rightarrow> 'c) \<Rightarrow> 'a smap \<Rightarrow> 'c smap" where
  "gather f h [] = []"
| "gather f h ((name, m) # ms) = (case f name m of Some v \<Rightarrow> (name, h v) # gather f h ms | None \<Rightarrow> gather f h ms)"

lemma gather_concat: "concat (map (\<lambda>(name, m). case f name m of Some v \<Rightarrow> [(name, h v)] | None \<Rightarrow> []) ms) = gather f h ms"
  by (induction f h ms rule: gather.induct) (auto split: option.split)

lemma gather_member: "(k, x) \<in> set (gather f h ms) \<Longrightarrow> \<exists>m v. (k, m) \<in> set ms \<and> f k m = Some v \<and> x = h v"
  by (induction f h ms rule: gather.induct) (auto split: option.splits)

lemma gather_keys: "(k, x) \<in> set (gather f h ms) \<Longrightarrow> k \<in> fst ` set ms"
  by (auto dest!: gather_member intro: rev_image_eqI)

lemma gather_lookup: "index_map ms \<Longrightarrow> (n, m) \<in> set ms \<Longrightarrow> map_of (gather f h ms) n = map_option h (f n m)"
proof (induction f h ms rule: gather.induct)
  case (2 f h name c ms)
  have ms: "index_map ms" "name \<notin> fst ` set ms" using "2.prems"(1) by (simp_all add: index_map_def)
  then have none: "map_of (gather f h ms) name = None" by (auto simp: map_of_eq_None_iff dest: gather_keys)
  show ?case
  proof (cases "n = name")
    case True
    then have "m = c" using "2.prems"(2) ms(2) by (auto simp: image_iff)
    with none True show ?thesis by (simp split: option.split)
  next
    case False
    then have "(n, m) \<in> set ms" using "2.prems"(2) by simp
    with "2.IH" ms(1) False show ?thesis by (auto split: option.split)
  qed
qed simp

lemma gather_index: "index_map ms \<Longrightarrow> index_map (gather f h ms)"
  by (induction f h ms rule: gather.induct) (auto simp: index_map_def dest: gather_keys split: option.split)

lemma greedy_diagonal:
  assumes "\<And>i. i < length rows \<Longrightarrow> k + i < length (rows ! i) \<and> rows ! i ! (k + i)"
  shows "greedy_matching {0..<k} rows"
  using assms
proof (induction rows arbitrary: k)
  case (Cons row rows)
  from Cons.prems [of 0] have k: "k < length row" "row ! k" by simp_all
  have split: "[0..<length row] = [0..<k] @ k # [Suc k..<length row]"
    using k(1) by (metis le_add1 less_imp_le_nat upt_add_eq_append upt_conv_Cons le_add_diff_inverse add_0)
  have none: "List.find (\<lambda>i. i \<notin> {0..<k} \<and> row ! i) [0..<k] = None" by (auto simp: find_None_iff)
  have "List.find (\<lambda>i. i \<notin> {0..<k} \<and> row ! i) (xs @ k # ys) = Some k"
    if "List.find (\<lambda>i. i \<notin> {0..<k} \<and> row ! i) xs = None" for xs ys
    using that k by (induction xs) (auto split: if_splits)
  with none have "List.find (\<lambda>i. i \<notin> {0..<k} \<and> row ! i) [0..<length row] = Some k" unfolding split by blast
  moreover have "greedy_matching {0..<Suc k} rows"
  proof (rule Cons.IH)
    fix i assume "i < length rows"
    with Cons.prems [of "Suc i"] show "Suc k + i < length (rows ! i) \<and> rows ! i ! (Suc k + i)" by simp
  qed
  moreover have "insert k {0..<k} = {0..<Suc k}" by auto
  ultimately show ?case by simp
qed simp

subsection \<open>A generated value is admitted\<close>

definition fits :: "lib \<Rightarrow> judge \<Rightarrow> string smap \<Rightarrow> string \<Rightarrow> shape \<Rightarrow> generated option \<Rightarrow> bool" where
  "fits L R A at s result \<longleftrightarrow>
     (case result of
        Some x \<Rightarrow> (\<exists>v. x = Document v \<and> wf_json v \<and> admits L R (map_of A) at s (rv_from_json v))
      | None \<Rightarrow> admits_absent s \<and> admits L R (map_of A) at s RAbsent)"

lemma fits_present:
  assumes "fits L R A at s (generate_shape L A at s)" and "\<not> admits_absent s"
  obtains v where "generate_shape L A at s = Some (Document v)" "wf_json v" "admits L R (map_of A) at s (rv_from_json v)"
  using assms by (auto simp: fits_def split: option.splits)

lemma documentary_example: "documentary (Some e) \<Longrightarrow> generated_example L e = Document (ex_value e) \<and> wf_json (ex_value e)"
  by (simp add: documentary_def generated_example_def)

lemma leaf_fits:
  assumes "leaf_operator c" and "parsed (ShapeNode ex g (Core c))" and "sampled L R (ShapeNode ex g (Core c))"
  shows "fits L R A at (ShapeNode ex g (Core c)) (generate_shape L A at (ShapeNode ex g (Core c)))"
proof (cases c)
  case (AnyOf options)
  with assms have p: "options \<noteq> []" "list_all wf_json options" "documentary ex"
    "case ex of Some e \<Rightarrow> list_ex (\<lambda>x. value_eq x (ex_value e)) options | None \<Rightarrow> True" by auto
  show ?thesis
  proof (cases "chosen_option L A at options")
    case None
    then show ?thesis
      using p documentary_example [of _ L] option_equal
      by (auto simp: AnyOf fits_def any_of_admits_def chosen_option_def neq_Nil_conv list_ex_iff runtime_eq_from_json
          split: option.splits)
  next
    case (Some x)
    then have "List.find (\<lambda>x. canonical_point_name L x = the (map_of A (dimension_id at ''value''))) options = Some x"
      by (auto simp: chosen_option_def split: bind_splits)
    then have "x \<in> set options" by (auto dest: find_Some_ex)
    with p have "wf_json x" by (auto simp: list_all_iff)
    with Some show ?thesis
      by (auto simp: AnyOf fits_def any_of_admits_def chosen_option_def option_equal)
  qed
next
  case Forbidden
  then show ?thesis by (simp add: fits_def)
qed (use assms documentary_example [of _ L] in \<open>auto simp: fits_def leaf_value_def split: option.splits\<close>)

lemma object_fits:
  assumes "parsed (ShapeNode ex g (Core (Object ms)))"
    and "\<And>n m. (n, m) \<in> set ms \<Longrightarrow> fits L R A (path_member at n) m (generate_shape L A (path_member at n) m)"
  shows "fits L R A at (ShapeNode ex g (Core (Object ms))) (generate_shape L A at (ShapeNode ex g (Core (Object ms))))"
proof -
  let ?f = "\<lambda>n m. generate_shape L A (path_member at n) m"
  let ?fs = "gather ?f (into_json L) ms"
  have ms: "index_map ms" using assms(1) by simp
  have field: "admits L R (map_of A) (path_member at n) m (or_absent (map_option rv_from_json (map_of ?fs n)))"
    if "(n, m) \<in> set ms" for n m
    using assms(2) [OF that] gather_lookup [OF ms that, of ?f "into_json L"]
    by (auto simp: fits_def or_absent_def into_json_def split: option.splits)
  have "wf_json v" if "(n, v) \<in> set ?fs" for n v
    using gather_member [OF that] assms(2) by (fastforce simp: fits_def into_json_def)
  then have "wf_json (JObject ?fs)" using gather_index [OF ms, of ?f "into_json L"] by (auto simp: list_all_iff)
  then show ?thesis using field by (auto simp: fits_def gather_concat list_all_iff map_of_map)
qed

lemma enumerate_nth: "(i, e) \<in> set (List.enumerate 0 es) \<longleftrightarrow> i < length es \<and> e = es ! i"
  by (auto simp: in_set_enumerate_eq)

lemma array_fits:
  assumes "parsed (ShapeNode ex g (Core (ArrayOf es)))"
    and "\<And>i. i < length es \<Longrightarrow> fits L R A (path_array_index at i) (es ! i) (generate_shape L A (path_array_index at i) (es ! i))"
  shows "fits L R A at (ShapeNode ex g (Core (ArrayOf es))) (generate_shape L A at (ShapeNode ex g (Core (ArrayOf es))))"
proof -
  let ?item = "\<lambda>(i, e). or_null (map_option (into_json L) (generate_shape L A (path_array_index at i) e))"
  have item: "wf_json (?item (i, es ! i)) \<and> admits L R (map_of A) (path_array_index at i) (es ! i) (rv_from_json (?item (i, es ! i)))"
    if "i < length es" for i
  proof -
    have "\<not> admits_absent (es ! i)" using assms(1) that by (simp add: list_all_length)
    with assms(2) [OF that] obtain v where "generate_shape L A (path_array_index at i) (es ! i) = Some (Document v)" "wf_json v"
      "admits L R (map_of A) (path_array_index at i) (es ! i) (rv_from_json v)" by (rule fits_present)
    then show ?thesis by (simp add: or_null_def into_json_def)
  qed
  then show ?thesis
    by (auto simp: fits_def list_all_iff enumerate_nth nth_enumerate_eq split_beta)
qed

lemma contains_fits:
  assumes "parsed (ShapeNode ex g (Core (Contains es)))" and "jd_contains R = greedy_matching {}"
    and "\<And>i. i < length es \<Longrightarrow> fits L R A (path_array_index at i) (es ! i) (generate_shape L A (path_array_index at i) (es ! i))"
  shows "fits L R A at (ShapeNode ex g (Core (Contains es))) (generate_shape L A at (ShapeNode ex g (Core (Contains es))))"
proof -
  have "\<exists>v. generate_shape L A (path_array_index at i) (es ! i) = Some (Document v) \<and> wf_json v
      \<and> admits L R (map_of A) (path_array_index at i) (es ! i) (rv_from_json v)" if "i < length es" for i
  proof -
    have "\<not> admits_absent (es ! i)" using assms(1) that by (simp add: list_all_length)
    with assms(3) [OF that] show ?thesis using fits_present by metis
  qed
  then obtain item where item: "\<And>i. i < length es \<Longrightarrow> generate_shape L A (path_array_index at i) (es ! i) = Some (Document (item i))"
    "\<And>i. i < length es \<Longrightarrow> wf_json (item i)"
    "\<And>i. i < length es \<Longrightarrow> admits L R (map_of A) (path_array_index at i) (es ! i) (rv_from_json (item i))"
    by metis
  have one: "(case x of (i, e) \<Rightarrow> case generate_shape L A (path_array_index at i) e of Some v \<Rightarrow> [into_json L v] | None \<Rightarrow> [])
      = [item (fst x)]" if "x \<in> set (List.enumerate 0 es)" for x
  proof -
    obtain i e where x: "x = (i, e)" by fastforce
    with that have "i < length es" "e = es ! i" by (simp_all add: enumerate_nth)
    with item(1) show ?thesis by (simp add: into_json_def x)
  qed
  have gen: "generate_shape L A at (ShapeNode ex g (Core (Contains es))) = Some (Document (JArray (map item [0..<length es])))"
  proof -
    let ?F = "\<lambda>(i, e). case generate_shape L A (path_array_index at i) e of Some v \<Rightarrow> [into_json L v] | None \<Rightarrow> []"
    have "map ?F (List.enumerate 0 es) = map (\<lambda>x. [item (fst x)]) (List.enumerate 0 es)"
      by (rule map_cong) (simp_all add: one)
    then have "concat (map ?F (List.enumerate 0 es)) = concat (map (\<lambda>x. [item (fst x)]) (List.enumerate 0 es))"
      by (simp only:)
    also have "\<dots> = map (\<lambda>x. item (fst x)) (List.enumerate 0 es)" by (rule concat_map_singleton)
    also have "\<dots> = map item [0..<length es]" by (rule nth_equalityI) (simp_all add: nth_enumerate_eq)
    finally have "concat (map ?F (List.enumerate 0 es)) = map item [0..<length es]" .
    then show ?thesis by simp
  qed
  have "greedy_matching {0..<0} (map (\<lambda>(i, e). map (admits L R (map_of A) (path_array_index at i) e)
      (map rv_from_json (map item [0..<length es]))) (List.enumerate 0 es))"
    using item(3) by (intro greedy_diagonal) (simp add: nth_enumerate_eq)
  then show ?thesis unfolding gen fits_def using item(2) by (simp add: assms(2) list_all_length)
qed

text \<open>A point of the union's dimension names an alternative, and so do the default and the first.\<close>

lemma chosen_known:
  assumes "parsed (ShapeNode ex g (Core (OneOf disc as dflt)))" and "names_points A (space_walk L at gates (ShapeNode ex g (Core (OneOf disc as dflt))))"
  obtains name alt where "chosen_alternative A at as dflt = Some name" "map_of as name = Some alt" "(name, alt) \<in> set as"
    "\<And>n. map_of A (dimension_id at ''alternative'') = Some n \<Longrightarrow> n = name"
proof -
  have as: "2 \<le> length as" "case dflt of Some n \<Rightarrow> contains_key as n | None \<Rightarrow> True" using assms(1) by auto
  have "n \<in> fst ` set as" if "map_of A (dimension_id at ''alternative'') = Some n" for n
    using assms(2) as(1) that by (force simp: alternative_dimension_def points_of_def named_point_def)
  moreover obtain x xs where "as = x # xs" using as(1) by (cases as) auto
  ultimately have "\<exists>name. chosen_alternative A at as dflt = Some name \<and> name \<in> fst ` set as
      \<and> (\<forall>n. map_of A (dimension_id at ''alternative'') = Some n \<longrightarrow> n = name)"
  proof (cases "map_of A (dimension_id at ''alternative'')")
    case None
    show ?thesis
    proof (cases dflt)
      case (Some d)
      then have "d \<in> fst ` set as" using as(2) by (auto simp: contains_key_def dest: map_of_SomeD intro: rev_image_eqI)
      with None Some show ?thesis by (simp add: chosen_alternative_def)
    qed (use None \<open>as = x # xs\<close> in \<open>simp add: chosen_alternative_def split: prod.split\<close>)
  qed (simp add: chosen_alternative_def)
  then obtain name where n: "chosen_alternative A at as dflt = Some name" "name \<in> fst ` set as"
    "\<And>n. map_of A (dimension_id at ''alternative'') = Some n \<Longrightarrow> n = name" by blast
  then obtain alt where "map_of as name = Some alt" by (metis weak_map_of_SomeI imageE prod.collapse)
  with n that map_of_SomeD show thesis by metis
qed

lemma one_of_fits:
  assumes "parsed (ShapeNode ex g (Core (OneOf disc as dflt)))" and "names_points A (space_walk L at gates (ShapeNode ex g (Core (OneOf disc as dflt))))"
    and "\<And>n m. (n, m) \<in> set as \<Longrightarrow> fits L R A (path_alternative at n) m (generate_shape L A (path_alternative at n) m)"
  shows "fits L R A at (ShapeNode ex g (Core (OneOf disc as dflt))) (generate_shape L A at (ShapeNode ex g (Core (OneOf disc as dflt))))"
proof (rule chosen_known [OF assms(1,2)])
  fix name alt
  assume c: "chosen_alternative A at as dflt = Some name" "map_of as name = Some alt" "(name, alt) \<in> set as"
    and pinned: "\<And>n. map_of A (dimension_id at ''alternative'') = Some n \<Longrightarrow> n = name"
  have "\<not> admits_absent alt" using assms(1) c(3) by (auto simp: list_all_iff)
  with assms(3) [OF c(3)] obtain v where v: "generate_shape L A (path_alternative at name) alt = Some (Document v)" "wf_json v"
    "admits L R (map_of A) (path_alternative at name) alt (rv_from_json v)" by (rule fits_present)
  have "Option.bind (map_of A (dimension_id at ''alternative'')) (\<lambda>n. if contains_key as n then Some n else None) \<in> {None, Some name}"
    using pinned by (cases "map_of A (dimension_id at ''alternative'')") auto
  moreover have "list_ex (\<lambda>(n, m). admits L R (map_of A) (path_alternative at n) m (rv_from_json v)) as"
    "list_ex (\<lambda>(n, m). n = name \<and> admits L R (map_of A) (path_alternative at n) m (rv_from_json v)) as"
    using v(3) c(3) by (auto simp: list_ex_iff)
  ultimately show ?thesis using v c(1,2) by (auto simp: fits_def)
qed

lemma generated_fits:
  assumes "jd_contains R = greedy_matching {}"
  shows "every_shape parsed s \<Longrightarrow> every_shape (sampled L R) s \<Longrightarrow> names_points A (space_walk L at gates s) \<Longrightarrow>
    fits L R A at s (generate_shape L A at s)"
proof (induction s arbitrary: at gates rule: shape_cases_induct)
  case (component ex g op raw)
  then show ?case
    using every_shape_here [OF component(2)] documentary_example [of _ L]
    by (auto simp: fits_def leaf_value_def)
next
  case (leaf ex g c)
  then show ?case using leaf_fits every_shape_here by blast
next
  case (object ex g ms)
  show ?case
  proof (rule object_fits [OF every_shape_here [OF object.prems(1)]])
    fix n m assume m: "(n, m) \<in> set ms"
    then have "m \<in> set (shape_children (ShapeNode ex g (Core (Object ms))))" by force
    note every_shape_child [OF object.prems(1) this] every_shape_child [OF object.prems(2) this]
    moreover have "names_points A (space_walk L (path_member at n) gates m)"
      using object.prems(3) m by (force simp: members_by_name_def)
    ultimately show "fits L R A (path_member at n) m (generate_shape L A (path_member at n) m)" by (rule object.IH [OF m])
  qed
next
  case (array ex g es)
  show ?case
  proof (rule array_fits [OF every_shape_here [OF array.prems(1)]])
    fix i assume i: "i < length es"
    then have e: "es ! i \<in> set es" "(i, es ! i) \<in> set (List.enumerate 0 es)" by (simp_all add: enumerate_nth)
    have "every_shape parsed (es ! i)" "every_shape (sampled L R) (es ! i)"
      using array.prems(1,2) e(1) by (auto elim!: every_shape_child)
    moreover have "names_points A (space_walk L (path_array_index at i) gates (es ! i))" using array.prems(3) e(2) by force
    ultimately show "fits L R A (path_array_index at i) (es ! i) (generate_shape L A (path_array_index at i) (es ! i))"
      by (rule array.IH [OF e(1)])
  qed
next
  case (contains ex g es)
  show ?case
  proof (rule contains_fits [OF every_shape_here [OF contains.prems(1)] assms])
    fix i assume i: "i < length es"
    then have e: "es ! i \<in> set es" "(i, es ! i) \<in> set (List.enumerate 0 es)" by (simp_all add: enumerate_nth)
    have "every_shape parsed (es ! i)" "every_shape (sampled L R) (es ! i)"
      using contains.prems(1,2) e(1) by (auto elim!: every_shape_child)
    moreover have "names_points A (space_walk L (path_array_index at i) gates (es ! i))" using contains.prems(3) e(2) by force
    ultimately show "fits L R A (path_array_index at i) (es ! i) (generate_shape L A (path_array_index at i) (es ! i))"
      by (rule contains.IH [OF e(1)])
  qed
next
  case (one_of ex g d as df)
  show ?case
  proof (rule one_of_fits [OF every_shape_here [OF one_of.prems(1)] one_of.prems(3)])
    fix n m assume m: "(n, m) \<in> set as"
    then have c: "m \<in> set (shape_children (ShapeNode ex g (Core (OneOf d as df))))" by force
    have "2 \<le> length as" using every_shape_here [OF one_of.prems(1)] by simp
    then have "names_points A (space_walk L (path_alternative at n) (under gates (dimension_id at ''alternative'') n) m)"
      using one_of.prems(3) m by force
    with one_of.IH [OF m] c one_of.prems(1,2) show "fits L R A (path_alternative at n) m (generate_shape L A (path_alternative at n) m)"
      by (blast intro: every_shape_child)
  qed
next
  case (optional ex g s)
  have "fits L R A at s (generate_shape L A at s)"
    using optional.prems by (intro optional.IH [of _ "under gates (dimension_id at ''presence'') ''present''"]) (auto intro: every_shape_child)
  then show ?case by (auto simp: fits_def split: option.splits)
next
  case (nullable ex g s)
  have "fits L R A at s (generate_shape L A at s)"
    using nullable.prems by (intro nullable.IH [of _ "under gates (dimension_id at ''nullability'') ''non-null''"]) (auto intro: every_shape_child)
  moreover have "\<not> admits_absent s" using every_shape_here [OF nullable.prems(1)] by simp
  ultimately show ?case by (auto simp: fits_def split: option.splits)
next
  case (each_like ex g i mn mx)
  have p: "\<not> admits_absent i" "bounds_parsed mn mx" using every_shape_here [OF each_like.prems(1)] by simp_all
  have "fits L R A (each_like_item at) i (generate_shape L A (each_like_item at) i)"
    using each_like.prems by (intro each_like.IH [of _ gates]) (auto intro: every_shape_child)
  then obtain v where v: "generate_shape L A (each_like_item at) i = Some (Document v)" "wf_json v"
    "admits L R (map_of A) (each_like_item at) i (rv_from_json v)" using p(1) by (rule fits_present)
  then show ?case using sized [OF p(2)] by (auto simp: fits_def or_null_def into_json_def list_all_iff)
next
  case (each_entry ex g k v mn mx)
  have p: "\<not> admits_absent v" "bounds_parsed mn mx" "k = None"
    using every_shape_here [OF each_entry.prems(1)] every_shape_here [OF each_entry.prems(2)] by simp_all
  have "v \<in> set (shape_children (ShapeNode ex g (Core (EachEntry k v mn mx))))" by (simp split: option.split)
  note every_shape_child [OF each_entry.prems(1) this] every_shape_child [OF each_entry.prems(2) this]
  then have "fits L R A (each_entry_value at) v (generate_shape L A (each_entry_value at) v)"
    using each_entry.prems(3) by (intro each_entry.IH(2) [of _ gates]) auto
  then obtain x where x: "generate_shape L A (each_entry_value at) v = Some (Document x)" "wf_json x"
    "admits L R (map_of A) (each_entry_value at) v (rv_from_json x)" using p(1) by (rule fits_present)
  then show ?case
    using sized [OF p(2), of A at] keys_distinct [of x "cardinality_size at mn mx A"]
    by (auto simp: fits_def or_null_def into_json_def p(3) entries_keyed list_all_iff)
qed

subsection \<open>A variant's payload matches its plan\<close>

text \<open>The payload as a reply that carries it is captured: one value for each slot.\<close>

definition generated_rv :: "generated \<Rightarrow> rv" where
  "generated_rv x = (case x of Document v \<Rightarrow> rv_from_json v | Octets bytes \<Rightarrow> RBytes bytes)"

definition payload :: "lib \<Rightarrow> interaction \<Rightarrow> string smap \<Rightarrow> rv smap" where
  "payload L spec A = concat (map (\<lambda>(part, slots). map (\<lambda>(slot, x). (slot_path part slot, generated_rv x)) slots)
     (generate_interaction L spec A))"

definition generable :: "lib \<Rightarrow> judge \<Rightarrow> string smap \<Rightarrow> string \<Rightarrow> string \<Rightarrow> shape \<Rightarrow> bool" where
  "generable L R A part slot s \<longleftrightarrow>
     every_shape parsed s \<and> \<not> admits_absent s \<and> every_shape plan_ok s \<and> every_shape (sampled L R) s
     \<and> names_points A (compute_space L s (path_root part slot))"

lemma generable_slot:
  assumes "generable L R A part slot s" and "jd_contains R = greedy_matching {}"
  obtains v where "generate_shape L A (path_root part slot) s = Some (Document v)" "wf_json v"
    "admits L R (map_of A) (path_root part slot) s (rv_from_json v)"
  using generated_fits [OF assms(2), of s L A "path_root part slot" "[]"] assms(1)
  by (auto simp: generable_def compute_space_def elim!: fits_present)

lemma payload_member:
  assumes "(part, slots) \<in> set (in_parts spec)" and "(slot, s) \<in> set slots" and "generate_shape L A (path_root part slot) s = Some x"
  shows "(slot_path part slot, generated_rv x) \<in> set (payload L spec A)"
proof -
  have "(slot, x) \<in> set (generate_slots L A part slots)" using assms(2,3) by (force simp: generate_slots_def)
  with assms(1) show ?thesis by (force simp: payload_def generate_interaction_def)
qed


definition samples_shape :: shape where
  "samples_shape = ShapeNode None None (Core (EachLike
     (ShapeNode (Some \<lparr>ex_value = JNumber (PosInt 7), ex_encoded = None\<rparr>) None (Core (Kind VK_Integer))) 1 (Some 3)))"

definition samples_spec :: interaction where
  "samples_spec = \<lparr>in_description = ''d'', in_parts = [(''response'', [(''body'', samples_shape)])]\<rparr>"


subsection \<open>Where a generated value is not admitted\<close>

definition keyed_shape :: "nat \<Rightarrow> shape" where
  "keyed_shape n = ShapeNode None None (Core (EachEntry
     (Some (ShapeNode (Some \<lparr>ex_value = JString ''sku'', ex_encoded = None\<rparr>) None (Core (Kind VK_String))))
     (ShapeNode (Some \<lparr>ex_value = JNumber (PosInt 7), ex_encoded = None\<rparr>) None (Core (Kind VK_Integer))) n None))"

lemma collided: "0 < n \<Longrightarrow> fold (\<lambda>index m. index_insert k x m) [0..<n] [] = [(k, x)]"
proof (induction n)
  case (Suc n)
  then show ?case by (cases n) auto
qed simp



text \<open>Octets inside a document: the example is produced as its base64 text, and the plan compares bytes.\<close>

lemma nested_octets_rejected:
  assumes "base64_decode L t = Some bytes"
  shows "generate_shape L A at (ShapeNode None None (Core (Object [(name,
      ShapeNode (Some \<lparr>ex_value = JString t, ex_encoded = Some ''base64''\<rparr>) None (Core Equality))])))
      = Some (Document (JObject [(name, JString (base64_encode L bytes))]))"
    and "\<not> admits L R (map_of A) at (ShapeNode None None (Core (Object [(name,
      ShapeNode (Some \<lparr>ex_value = JString t, ex_encoded = Some ''base64''\<rparr>) None (Core Equality))])))
      (rv_from_json (JObject [(name, JString (base64_encode L bytes))]))"
  by (simp_all add: assms generated_example_def into_json_def or_absent_def example_value_def)

end
