(* ===== verification/Variant_Params.thy ===== *)
theory Variant_Params
  imports Contract_Model
begin

text \<open>
  Variant-bound provider state, engine/kernel/src/variant/params.rs: the parameters of a state whose value
  depends on the variant, bound and validated against a variant space, and resolved under an assignment.
  The problems a function pushes are the list it returns; the warning of \<open>resolve_states\<close> is left out.
\<close>

record bound_case =
  bc_point :: string
  bc_value :: json

record binding =
  bd_name :: string
  bd_reference :: string
  bd_dimension :: string
  bd_cases :: "bound_case list"
  bd_default :: "json option"

definition param_problem :: "string \<Rightarrow> string \<Rightarrow> problem" where
  "param_problem pointer message = \<lparr>pr_pointer = pointer, pr_message = message\<rparr>"

definition filled_text :: "json option \<Rightarrow> string option" where
  "filled_text v = (case Option.bind v as_str of Some t \<Rightarrow> if t \<noteq> [] then Some t else None | None \<Rightarrow> None)"

definition unknown_dimension_text :: "string \<Rightarrow> dimension list \<Rightarrow> string" where
  "unknown_dimension_text reference space =
     quote1 reference @ '' matches no dimension of this interaction; it has ''
       @ (if space = [] then ''none'' else join_with '', '' (map dim_id space))"

definition ambiguous_dimension_text :: "string \<Rightarrow> string list \<Rightarrow> string" where
  "ambiguous_dimension_text reference candidates =
     quote1 reference @ '' matches more than one dimension: '' @ join_with '', '' candidates
       @ '' '' @ em_dash @ '' name one of them''"

definition bind_case :: "dimension \<Rightarrow> string \<Rightarrow> json \<Rightarrow> bound_case option \<times> problem list" where
  "bind_case dimension at raw =
     (case (filled_text (json_get raw ''point''), json_get raw ''value'') of
        (Some point, Some v) \<Rightarrow>
          if list_ex (\<lambda>p. pt_name p = point) (dim_points dimension)
          then (Some \<lparr>bc_point = point, bc_value = v\<rparr>, [])
          else (None, [param_problem (at @ ''/point'') (''dimension '' @ quote1 (dim_id dimension) @ '' has no point ''
                 @ quote1 point @ ''; its points are '' @ join_with '', '' (map pt_name (dim_points dimension)))])
      | _ \<Rightarrow> (None, [param_problem at (''a case must have a non-empty '' @ quote1 ''point'' @ '' and a '' @ quote1 ''value'')]))"

definition bind_cases :: "dimension \<Rightarrow> string \<Rightarrow> json option \<Rightarrow> bound_case list \<times> problem list" where
  "bind_cases dimension at cases =
     (case cases of
        Some (JArray (c # cs)) \<Rightarrow>
          (let results = map (\<lambda>(k, raw). bind_case dimension (at @ ''/cases/'' @ nat_text k) raw) (List.enumerate 0 (c # cs))
           in (List.map_filter fst results, concat (map snd results)))
      | _ \<Rightarrow> ([], [param_problem (at @ ''/cases'') (quote1 ''cases'' @ '' is required and must be a non-empty array'')]))"

definition gated_problems :: "dimension \<Rightarrow> string \<Rightarrow> json option \<Rightarrow> problem list" where
  "gated_problems dimension at dflt =
     (if dim_gates dimension \<noteq> [] \<and> dflt = None
      then [param_problem at (''dimension '' @ quote1 (dim_id dimension) @ '' is gated (''
             @ join_with '', '' (map (\<lambda>g. gate_dimension g @ ''='' @ gate_point g) (dim_gates dimension))
             @ ''), so this binding needs a '' @ quote1 ''default'' @ '' for the variants where it is inactive'')]
      else [])"

definition bind_one :: "json \<Rightarrow> provider_state \<Rightarrow> dimension list \<Rightarrow> string \<Rightarrow> binding option \<times> problem list" where
  "bind_one entry state space at =
     (case entry of
        JObject members \<Rightarrow>
          (case filled_text (map_of members ''name'') of
             None \<Rightarrow> (None, [param_problem (at @ ''/name'') (quote1 ''name'' @ '' is required and must be a non-empty string'')])
           | Some name \<Rightarrow>
               (case filled_text (map_of members ''dimension'') of
                  None \<Rightarrow>
                    (None, [param_problem (at @ ''/dimension'') (quote1 ''dimension'' @ '' is required and must be a non-empty string'')])
                | Some reference \<Rightarrow>
                    let literal = (if (case ps_params state of Some ps \<Rightarrow> contains_key ps name | None \<Rightarrow> False)
                          then [param_problem (at @ ''/name'') (''parameter '' @ quote1 name
                                  @ '' is both a literal parameter and a variant-bound one'')]
                          else [])
                    in (case resolve_dimension_ref space reference of
                          Ref_Not_Found \<Rightarrow> (None, literal @ [param_problem (at @ ''/dimension'') (unknown_dimension_text reference space)])
                        | Ref_Ambiguous candidates \<Rightarrow>
                            (None, literal @ [param_problem (at @ ''/dimension'') (ambiguous_dimension_text reference candidates)])
                        | Ref_Found dimension \<Rightarrow>
                            (case bind_cases dimension at (map_of members ''cases'') of (cases, found) \<Rightarrow>
                               (Some \<lparr>bd_name = name, bd_reference = reference, bd_dimension = dim_id dimension,
                                  bd_cases = cases, bd_default = map_of members ''default''\<rparr>,
                                literal @ found @ gated_problems dimension at (map_of members ''default''))))))
      | _ \<Rightarrow> (None, [param_problem at ''a variant-params entry must be an object'']))"

definition bind_state :: "dimension list \<Rightarrow> string \<Rightarrow> nat \<Rightarrow> provider_state \<Rightarrow> binding list \<times> problem list" where
  "bind_state space pointer_base i state =
     (let raw = (case ps_variant_params state of Some raw \<Rightarrow> raw | None \<Rightarrow> []);
          results = map (\<lambda>(j, entry). bind_one entry state space
            (pointer_base @ ''/'' @ nat_text i @ ''/variant-params/'' @ nat_text j)) (List.enumerate 0 raw)
      in (List.map_filter fst results, concat (map snd results)))"

definition bind_states :: "provider_state list \<Rightarrow> dimension list \<Rightarrow> string \<Rightarrow> problem list + binding list list" where
  "bind_states states space pointer_base =
     (let results = map (\<lambda>(i, state). bind_state space pointer_base i state) (List.enumerate 0 states);
          problems = concat (map snd results)
      in if problems = [] then Inr (map fst results) else Inl problems)"

text \<open>What is recorded: every reference replaced by the id it resolved to.\<close>

definition resolved_entry :: "json \<Rightarrow> binding \<Rightarrow> json" where
  "resolved_entry entry b =
     (case entry of JObject members \<Rightarrow> JObject (index_insert ''dimension'' (JString (bd_dimension b)) members) | other \<Rightarrow> other)"

fun resolved_entries :: "json list \<Rightarrow> binding list \<Rightarrow> json list" where
  "resolved_entries (e # es) (b # bs) = resolved_entry e b # resolved_entries es bs"
| "resolved_entries es _ = es"

definition with_resolved_dimensions :: "provider_state list \<Rightarrow> binding list list \<Rightarrow> provider_state list" where
  "with_resolved_dimensions states bound =
     map (\<lambda>(state, bindings). state\<lparr>ps_variant_params :=
       map_option (\<lambda>entries. resolved_entries entries bindings) (ps_variant_params state)\<rparr>) (zip states bound)"

subsection \<open>Resolution\<close>

definition resolve_binding :: "binding \<Rightarrow> string smap \<Rightarrow> json option" where
  "resolve_binding b A =
     (case Option.bind (map_of A (bd_dimension b)) (\<lambda>point. List.find (\<lambda>c. bc_point c = point) (bd_cases b)) of
        Some c \<Rightarrow> Some (bc_value c)
      | None \<Rightarrow> bd_default b)"

definition resolve_param :: "string smap \<Rightarrow> binding \<Rightarrow> json smap \<Rightarrow> json smap" where
  "resolve_param A b params =
     (case resolve_binding b A of
        Some v \<Rightarrow> btree_insert (bd_name b) v params
      | None \<Rightarrow> filter (\<lambda>(k, _). k \<noteq> bd_name b) params)"

definition resolve_state :: "string smap \<Rightarrow> provider_state \<Rightarrow> binding list \<Rightarrow> resolved_state" where
  "resolve_state A state bindings =
     (let params = fold (resolve_param A) bindings (case ps_params state of Some ps \<Rightarrow> ps | None \<Rightarrow> [])
      in \<lparr>rs_name = ps_name state, rs_params = (if params \<noteq> [] then Some params else None)\<rparr>)"

definition resolve_states ::
  "provider_state list option \<Rightarrow> dimension list \<Rightarrow> string smap \<Rightarrow> resolved_state list option" where
  "resolve_states states space A =
     map_option (\<lambda>states.
       let bound = (case bind_states states space ''/states'' of Inr bound \<Rightarrow> bound | Inl _ \<Rightarrow> replicate (length states) [])
       in map (\<lambda>(state, bindings). resolve_state A state bindings) (zip states bound)) states"

end
