(* ===== verification/Params_Laws.thy ===== *)
theory Params_Laws
  imports Variant_Params Sampler_Theorems
begin

text \<open>
  Bound parameters: what a validated binding is, when a parameter is absent, and that the recorded
  references resolve as the author's did.
\<close>

subsection \<open>Validated bindings\<close>

definition bound_well :: "dimension list \<Rightarrow> binding \<Rightarrow> bool" where
  "bound_well space b \<longleftrightarrow>
     (\<exists>d \<in> set space. bd_dimension b = dim_id d \<and> (\<forall>c \<in> set (bd_cases b). bc_point c \<in> points_of d)
        \<and> (dim_gates d \<noteq> [] \<longrightarrow> bd_default b \<noteq> None))"

lemma found_dimension: "resolve_dimension_ref space reference = Ref_Found d \<Longrightarrow> d \<in> set space"
  by (auto simp: resolve_dimension_ref_def filter_eq_Cons_iff split: list.splits)

lemma bind_case_point: "fst (bind_case d at raw) = Some c \<Longrightarrow> bc_point c \<in> points_of d"
  by (auto simp: bind_case_def points_of_def list_ex_iff split: option.splits if_splits)

lemma map_filter_member: "y \<in> set (List.map_filter f xs) \<longleftrightarrow> (\<exists>x \<in> set xs. f x = Some y)"
  by (induction xs) (auto simp: List.map_filter_def)

lemma bind_cases_points: "bind_cases d at cs = (cases, ps) \<Longrightarrow> c \<in> set cases \<Longrightarrow> bc_point c \<in> points_of d"
  by (auto simp: bind_cases_def Let_def map_filter_member dest!: bind_case_point split: option.splits json.splits list.splits)

lemma bind_one_bound:
  assumes "bind_one e st space at = (Some b, [])"
  shows "bound_well space b"
proof -
  obtain members where e: "e = JObject members" using assms by (auto simp: bind_one_def split: json.splits)
  obtain name where n: "filled_text (map_of members ''name'') = Some name" using assms by (auto simp: bind_one_def e split: option.splits)
  obtain r where r: "filled_text (map_of members ''dimension'') = Some r" using assms by (auto simp: bind_one_def e n split: option.splits)
  obtain d where d: "resolve_dimension_ref space r = Ref_Found d"
    using assms by (auto simp: bind_one_def e n r Let_def split: ref_resolution.splits)
  obtain cases found where c: "bind_cases d at (map_of members ''cases'') = (cases, found)" by (metis surj_pair)
  from assms have b: "bd_dimension b = dim_id d" "bd_cases b = cases" "bd_default b = map_of members ''default''"
    "gated_problems d at (map_of members ''default'') = []"
    by (auto simp: bind_one_def e n r d c Let_def split: if_splits)
  from b(4) have "dim_gates d \<noteq> [] \<longrightarrow> bd_default b \<noteq> None" by (auto simp: gated_problems_def b(3) split: if_splits)
  with found_dimension [OF d] bind_cases_points [OF c] show ?thesis unfolding bound_well_def b(1,2) by blast
qed

lemma bind_one_decided: "snd (bind_one e st space at) = [] \<Longrightarrow> \<exists>b. bind_one e st space at = (Some b, [])"
  by (auto simp: bind_one_def Let_def split: json.splits option.splits ref_resolution.splits prod.splits)

text \<open>Validation succeeds when every entry of every state binds without a problem, entry by entry.\<close>

definition raw_entries :: "provider_state \<Rightarrow> json list" where
  "raw_entries st = (case ps_variant_params st of Some raw \<Rightarrow> raw | None \<Rightarrow> [])"

lemma gated_none: "gated_problems d at v = [] \<longleftrightarrow> gated_problems d at' v = []"
  by (simp add: gated_problems_def)

lemma bind_case_at: "snd (bind_case d at raw) = [] \<longleftrightarrow> snd (bind_case d at' raw) = []" "fst (bind_case d at raw) = fst (bind_case d at' raw)"
  by (auto simp: bind_case_def split: option.splits)

lemma map_filter_fst:
  "(\<And>x. x \<in> set xs \<Longrightarrow> fst (F x) = fst (G x)) \<Longrightarrow> List.map_filter fst (map F xs) = List.map_filter fst (map G xs)"
  by (induction xs) (auto simp: List.map_filter_def)

lemma bind_cases_at:
  assumes "bind_cases d at cs = (cases, [])"
  shows "bind_cases d at' cs = (cases, [])"
proof -
  obtain x xs where cs: "cs = Some (JArray (x # xs))"
    using assms by (auto simp: bind_cases_def split: option.splits json.splits list.splits)
  let ?F = "\<lambda>at (k, raw). bind_case d (at @ ''/cases/'' @ nat_text k) raw"
  have "\<forall>y \<in> set (List.enumerate 0 (x # xs)). snd (?F at y) = []" using assms by (auto simp: bind_cases_def cs Let_def)
  then have "concat (map snd (map (?F at') (List.enumerate 0 (x # xs)))) = []" using bind_case_at(1) by fastforce
  moreover have "List.map_filter fst (map (?F at') (List.enumerate 0 (x # xs))) = List.map_filter fst (map (?F at) (List.enumerate 0 (x # xs)))"
    by (rule map_filter_fst) (auto intro: bind_case_at(2))
  ultimately show ?thesis using assms by (simp add: bind_cases_def cs Let_def)
qed

text \<open>An entry that binds, and any entry that agrees with it but for a reference to the same dimension.\<close>

lemma bind_one_again:
  assumes "bind_one e st space at = (Some b, [])" and "resolve_dimension_ref space (bd_dimension b) = Ref_Found d"
    and "dim_id d = bd_dimension b" and "bd_dimension b \<noteq> []" and "ps_params st' = ps_params st"
    and same: "\<And>d'. d' \<in> set space \<Longrightarrow> dim_id d' = bd_dimension b \<Longrightarrow> d' = d"
  shows "bind_one e st' space at' = (Some b, [])"
    and "bind_one (resolved_entry e b) st' space at' = (Some (b\<lparr>bd_reference := bd_dimension b\<rparr>), [])"
proof -
  obtain members where e: "e = JObject members" using assms(1) by (auto simp: bind_one_def split: json.splits)
  obtain name where n: "filled_text (map_of members ''name'') = Some name"
    using assms(1) by (auto simp: bind_one_def e split: option.splits)
  obtain r where r: "filled_text (map_of members ''dimension'') = Some r"
    using assms(1) by (auto simp: bind_one_def e n split: option.splits)
  obtain d0 where d0: "resolve_dimension_ref space r = Ref_Found d0"
    using assms(1) by (auto simp: bind_one_def e n r Let_def split: ref_resolution.splits)
  obtain cases found where c: "bind_cases d0 at (map_of members ''cases'') = (cases, found)" by (metis surj_pair)
  from assms(1) have b: "b = \<lparr>bd_name = name, bd_reference = r, bd_dimension = dim_id d0, bd_cases = cases,
      bd_default = map_of members ''default''\<rparr>" "found = []" "gated_problems d0 at (map_of members ''default'') = []"
    "\<not> (case ps_params st of Some ps \<Rightarrow> contains_key ps name | None \<Rightarrow> False)"
    by (auto simp: bind_one_def e n r d0 c Let_def split: if_splits)
  have "d0 = d" using same [OF found_dimension [OF d0]] by (simp add: b(1))
  note c' = bind_cases_at [OF c [unfolded b(2)], of at'] and g' = gated_none [of d0 at _ at', THEN iffD1, OF b(3)]
  show "bind_one e st' space at' = (Some b, [])"
    using b(4) by (simp add: bind_one_def e n r d0 c' g' Let_def b(1) assms(5))
  have "filled_text (Some (JString (dim_id d0))) = Some (dim_id d0)" using assms(4) by (simp add: filled_text_def b(1))
  then show "bind_one (resolved_entry e b) st' space at' = (Some (b\<lparr>bd_reference := bd_dimension b\<rparr>), [])"
    using b(4) assms(2) \<open>d0 = d\<close> c' g' n
    by (simp add: bind_one_def resolved_entry_def e map_of_index_insert b(1) assms(5) Let_def)
qed

subsection \<open>Validation of a list of states\<close>

text \<open>Every dimension is the only one its id refers to.\<close>

definition ids_refer :: "dimension list \<Rightarrow> bool" where
  "ids_refer space \<longleftrightarrow> (\<forall>d \<in> set space. dim_id d \<noteq> [] \<and> resolve_dimension_ref space (dim_id d) = Ref_Found d)"

lemma refer_again:
  assumes "ids_refer space" and "bind_one e st space at = (Some b, [])" and "ps_params st' = ps_params st"
  shows "bind_one e st' space at' = (Some b, [])"
    and "bind_one (resolved_entry e b) st' space at' = (Some (b\<lparr>bd_reference := bd_dimension b\<rparr>), [])"
proof -
  obtain d where d: "d \<in> set space" "bd_dimension b = dim_id d" using bind_one_bound [OF assms(2)] by (auto simp: bound_well_def)
  have r: "resolve_dimension_ref space (bd_dimension b) = Ref_Found d" "bd_dimension b \<noteq> []"
    using assms(1) d by (auto simp: ids_refer_def)
  have same: "d' = d" if "d' \<in> set space" "dim_id d' = bd_dimension b" for d'
    using assms(1) that r(1) unfolding ids_refer_def by (metis ref_resolution.inject(2))
  note again = bind_one_again [OF assms(2) r(1) d(2) [symmetric] r(2) assms(3) same]
  show "bind_one e st' space at' = (Some b, [])"
    "bind_one (resolved_entry e b) st' space at' = (Some (b\<lparr>bd_reference := bd_dimension b\<rparr>), [])"
    using again by simp_all
qed

lemma collected_forward:
  assumes "concat (map snd rs) = []" and "\<And>r. r \<in> set rs \<Longrightarrow> snd r = [] \<Longrightarrow> \<exists>b. r = (Some b, [])"
  shows "list_all2 (\<lambda>r b. r = (Some b, [])) rs (List.map_filter fst rs)"
  using assms by (induction rs) (fastforce simp: List.map_filter_def)+

lemma collected_back:
  "list_all2 (\<lambda>r b. r = (Some b, [])) rs bs \<Longrightarrow> List.map_filter fst rs = bs \<and> concat (map snd rs) = []"
  by (induction rs bs rule: list_all2_induct) (simp_all add: List.map_filter_def)

definition bound_as :: "dimension list \<Rightarrow> provider_state \<Rightarrow> binding list \<Rightarrow> bool" where
  "bound_as space st bs \<longleftrightarrow> list_all2 (\<lambda>e b. \<exists>at. bind_one e st space at = (Some b, [])) (raw_entries st) bs"

lemma bind_state_raw:
  "bind_state space base i st =
     (let rs = map (\<lambda>(j, entry). bind_one entry st space (base @ ''/'' @ nat_text i @ ''/variant-params/'' @ nat_text j))
            (List.enumerate 0 (raw_entries st))
      in (List.map_filter fst rs, concat (map snd rs)))"
  by (simp only: bind_state_def raw_entries_def Let_def)

lemma bind_state_bound: "bind_state space base i st = (bs, []) \<Longrightarrow> bound_as space st bs"
proof -
  assume b: "bind_state space base i st = (bs, [])"
  let ?rs = "map (\<lambda>(j, entry). bind_one entry st space (base @ ''/'' @ nat_text i @ ''/variant-params/'' @ nat_text j))
    (List.enumerate 0 (raw_entries st))"
  from b have c: "concat (map snd ?rs) = []" "List.map_filter fst ?rs = bs" by (simp_all only: bind_state_raw Let_def prod.inject)
  have "list_all2 (\<lambda>r b. r = (Some b, [])) ?rs (List.map_filter fst ?rs)"
    by (rule collected_forward [OF c(1)]) (auto dest: bind_one_decided)
  then show ?thesis
    unfolding c(2) bound_as_def by (auto simp: list_all2_conv_all_nth nth_enumerate_eq)
qed

lemma bind_state_from:
  assumes "list_all2 (\<lambda>e b. \<forall>at. bind_one e st space at = (Some b, [])) (raw_entries st) bs"
  shows "bind_state space base i st = (bs, [])"
proof -
  let ?rs = "map (\<lambda>(j, entry). bind_one entry st space (base @ ''/'' @ nat_text i @ ''/variant-params/'' @ nat_text j))
    (List.enumerate 0 (raw_entries st))"
  have "list_all2 (\<lambda>r b. r = (Some b, [])) ?rs bs" using assms by (auto simp: list_all2_conv_all_nth nth_enumerate_eq)
  from collected_back [OF this] show ?thesis by (simp only: bind_state_raw Let_def prod.inject)
qed

lemma bind_states_bound:
  assumes "bind_states states space base = Inr bound"
  shows "list_all2 (bound_as space) states bound"
proof -
  have ok: "\<forall>x \<in> set (List.enumerate 0 states). snd (case x of (i, st) \<Rightarrow> bind_state space base i st) = []"
    "bound = map fst (map (\<lambda>(i, st). bind_state space base i st) (List.enumerate 0 states))"
    using assms by (auto simp: bind_states_def Let_def split: if_splits)
  have "bound_as space (states ! k) (fst (bind_state space base k (states ! k)))" if "k < length states" for k
  proof -
    have "(k, states ! k) \<in> set (List.enumerate 0 states)" using that by (auto simp: in_set_enumerate_eq)
    with ok(1) have "snd (bind_state space base k (states ! k)) = []" by fastforce
    then show ?thesis by (intro bind_state_bound [of space base k]) (metis prod.collapse)
  qed
  then show ?thesis by (simp add: ok(2) list_all2_conv_all_nth nth_enumerate_eq)
qed

lemma bind_states_from:
  assumes "length bound = length states" and "\<And>k. k < length states \<Longrightarrow> bind_state space base k (states ! k) = (bound ! k, [])"
  shows "bind_states states space base = Inr bound"
proof -
  have "map (\<lambda>(i, st). bind_state space base i st) (List.enumerate 0 states) = map (\<lambda>bs. (bs, [])) bound"
    by (rule nth_equalityI) (use assms in \<open>simp_all add: nth_enumerate_eq\<close>)
  then show ?thesis by (simp add: bind_states_def Let_def comp_def)
qed

subsection \<open>What is recorded resolves as what was written\<close>

definition by_id_reference :: "binding \<Rightarrow> binding" where
  "by_id_reference b = b\<lparr>bd_reference := bd_dimension b\<rparr>"

lemma resolved_entries_binds:
  assumes "ids_refer space" and "ps_params st' = ps_params st"
  shows "list_all2 (\<lambda>e b. \<exists>at. bind_one e st space at = (Some b, [])) es bs \<Longrightarrow>
    list_all2 (\<lambda>e b. \<forall>at. bind_one e st' space at = (Some b, [])) (resolved_entries es bs) (map by_id_reference bs)"
proof (induction es bs rule: list_all2_induct)
  case (Cons e es b bs)
  then show ?case using refer_again(2) [OF assms(1) _ assms(2)] by (auto simp: by_id_reference_def)
qed simp

lemma resolve_same: "resolve_binding (by_id_reference b) A = resolve_binding b A" "bd_name (by_id_reference b) = bd_name b"
  by (simp_all add: resolve_binding_def by_id_reference_def split: option.split)

lemma resolve_state_same:
  "ps_params st' = ps_params st \<Longrightarrow> ps_name st' = ps_name st \<Longrightarrow> resolve_state A st' (map by_id_reference bs) = resolve_state A st bs"
proof -
  have "fold (resolve_param A) (map by_id_reference bs) m = fold (resolve_param A) bs m" for m
    by (induction bs arbitrary: m) (simp_all add: resolve_param_def resolve_same split: option.split)
  then show "ps_params st' = ps_params st \<Longrightarrow> ps_name st' = ps_name st \<Longrightarrow> ?thesis" by (simp add: resolve_state_def)
qed


subsection \<open>When a parameter is absent\<close>

text \<open>A bound parameter is missing from a variant's state for one reason only. Where the bindings
  validate and the assignment is well-formed for the space, a binding resolves to nothing only when its
  dimension is gated by nothing, the assignment names one of its points, no case has that point and there is
  no default: the parameter of a gated dimension never vanishes.\<close>

theorem absent_parameter_explained:
  assumes "bind_states states space base = Inr bound" and "bs \<in> set bound" and "b \<in> set bs"
    and "valid_assignment space A" and "resolve_binding b A = None"
  shows "\<exists>d \<in> set space. bd_dimension b = dim_id d \<and> dim_gates d = [] \<and> bd_default b = None
    \<and> (\<exists>p \<in> points_of d. map_of A (dim_id d) = Some p \<and> p \<notin> bc_point ` set (bd_cases b))"
proof -
  obtain st where "bound_as space st bs"
    using bind_states_bound [OF assms(1)] assms(2) by (auto simp: list_all2_conv_all_nth in_set_conv_nth)
  then obtain e at where "bind_one e st space at = (Some b, [])"
    using assms(3) by (auto simp: bound_as_def list_all2_conv_all_nth in_set_conv_nth)
  from bind_one_bound [OF this] obtain d where d: "d \<in> set space" "bd_dimension b = dim_id d"
    "dim_gates d \<noteq> [] \<longrightarrow> bd_default b \<noteq> None" by (auto simp: bound_well_def)
  have none: "bd_default b = None" "\<And>p. map_of A (dim_id d) = Some p \<Longrightarrow> List.find (\<lambda>c. bc_point c = p) (bd_cases b) = None"
    using assms(5) d(2) by (auto simp: resolve_binding_def split: option.splits bind_splits)
  have ungated: "dim_gates d = []" using d(3) none(1) by blast
  then have "is_active A d" by (simp add: is_active_def)
  with assms(4) d(1) obtain p where p: "map_of A (dim_id d) = Some p" "p \<in> points_of d"
    by (auto simp: valid_assignment_def)
  from none(2) [OF p(1)] have "p \<notin> bc_point ` set (bd_cases b)" by (auto simp: find_None_iff)
  with d(1,2) ungated none(1) p show ?thesis by blast
qed

subsection \<open>A shipped order\<close>

definition shipped_space :: "dimension list" where
  "shipped_space = [presence_dimension ''response.body.shippedAt'' []]"

definition shipped_state :: provider_state where
  "shipped_state = \<lparr>ps_name = ''an order exists'', ps_params = Some [(''id'', JString ''66'')],
     ps_variant_params = Some [JObject [(''name'', JString ''shipped''), (''dimension'', JString ''shippedAt''),
       (''cases'', JArray [JObject [(''point'', JString ''present''), (''value'', JBool True)]])]]\<rparr>"

definition shipped_binding :: binding where
  "shipped_binding = \<lparr>bd_name = ''shipped'', bd_reference = ''shippedAt'', bd_dimension = ''response.body.shippedAt#presence'',
     bd_cases = [\<lparr>bc_point = ''present'', bc_value = JBool True\<rparr>], bd_default = None\<rparr>"

lemma shipped_bound: "bind_states [shipped_state] shipped_space ''/states'' = Inr [[shipped_binding]]"
  by code_simp

lemma shipped_ids: "ids_refer shipped_space"
  unfolding ids_refer_def by code_simp


theorem absent_parameter_explained_witness:
  "resolve_binding shipped_binding [(''response.body.shippedAt#presence'', ''absent'')] = None
   \<and> (\<exists>d \<in> set shipped_space. bd_dimension shipped_binding = dim_id d \<and> dim_gates d = [])"
proof -
  let ?A = "[(''response.body.shippedAt#presence'', ''absent'')]"
  have none: "resolve_binding shipped_binding ?A = None" by (simp add: resolve_binding_def shipped_binding_def)
  have "valid_assignment shipped_space ?A"
    by (simp add: valid_assignment_def shipped_space_def presence_dimension_def dimension_id_def is_active_def points_of_def
        named_point_def btree_map_def)
  from absent_parameter_explained [OF shipped_bound _ _ this none] none show ?thesis by auto
qed

end
