(* ===== verification/Sampler_Size.thy ===== *)
theory Sampler_Size
  imports Sampler_Theorems
begin

text \<open>
  The size a selection reports is the number of assignments the exhaustive walk of the space visits, cut off at
  the largest \<open>u64\<close>; and it is marked exact precisely when it was not cut off.
\<close>

subsection \<open>Numbers cut off\<close>

text \<open>What the code holds for the number \<open>n\<close>: the number itself or the largest \<open>u64\<close>, and which of the two.\<close>

definition cut_off :: "nat \<Rightarrow> nat \<times> bool" where
  "cut_off n = (min n u64_max, n \<le> u64_max)"

lemma below_max: "n < 2 ^ 64 \<longleftrightarrow> n \<le> u64_max"
  by (auto simp: u64_max_def)

lemma saturating_cut_off: "saturating n exact = (min n u64_max, exact \<and> n \<le> u64_max)"
  unfolding saturating_def below_max by auto

lemma cut_off_product:
  assumes "0 < a" and "0 < b"
  shows "saturating (min a u64_max * min b u64_max) (exact \<and> a \<le> u64_max \<and> b \<le> u64_max) =
    (min (a * b) u64_max, exact \<and> a * b \<le> u64_max)"
proof -
  have ge: "a \<le> a * b" "b \<le> a * b" using assms by simp_all
  show ?thesis
  proof (cases "a \<le> u64_max \<and> b \<le> u64_max")
    case True
    then show ?thesis by (simp add: saturating_cut_off)
  next
    case False
    then have "u64_max \<le> min a u64_max * min b u64_max"
      using assms by (cases "a \<le> u64_max") (simp_all add: u64_max_def)
    moreover have "\<not> a * b \<le> u64_max" using False ge by linarith
    ultimately show ?thesis using False by (auto simp: saturating_cut_off)
  qed
qed

lemma cut_off_sum:
  "saturating (min a u64_max + min b u64_max) (a \<le> u64_max \<and> b \<le> u64_max) = cut_off (a + b)"
  by (auto simp: saturating_cut_off cut_off_def)

subsection \<open>The weight of a dimension\<close>

text \<open>The number of ways to settle a dimension and everything under its points, for enough fuel.\<close>

fun ways :: "dimension list \<Rightarrow> nat \<Rightarrow> dimension \<Rightarrow> nat" where
  "ways space 0 d = 1"
| "ways space (Suc fuel) d =
     (\<Sum>p \<leftarrow> dim_points d. \<Prod>k \<leftarrow> children_by_gate space (dim_id d) (pt_name p). ways space fuel k)"

lemma prod_list_pos: "(\<And>x. x \<in> set xs \<Longrightarrow> 0 < f x) \<Longrightarrow> 0 < (\<Prod>x \<leftarrow> xs. f x :: nat)"
  by (induction xs) auto

lemma space_points: "space_ok space \<Longrightarrow> d \<in> set space \<Longrightarrow> dim_points d \<noteq> []"
  by (auto simp: space_ok_def list_all_iff dimension_ok_def)

lemma children_in_space: "k \<in> set (children_by_gate space d p) \<Longrightarrow> k \<in> set space"
  by (simp add: children_by_gate_def)

lemma ways_pos: "space_ok space \<Longrightarrow> d \<in> set space \<Longrightarrow> 0 < ways space fuel d"
proof (induction fuel arbitrary: d)
  case (Suc fuel)
  have kids: "0 < (\<Prod>k \<leftarrow> children_by_gate space (dim_id d) q. ways space fuel k)" for q
    using Suc by (intro prod_list_pos) (auto dest: children_in_space)
  obtain p ps where "dim_points d = p # ps" using space_points [OF Suc.prems] by (cases "dim_points d") auto
  then show ?case using kids [of "pt_name p"] by simp
qed simp

text \<open>A fold that carries a number cut off.\<close>

lemma fold_product:
  assumes "\<And>x. x \<in> set xs \<Longrightarrow> w x = Some (cut_off (f x)) \<and> 0 < f x" and "0 < n"
  shows "fold (\<lambda>x acc. case acc of None \<Rightarrow> None | Some (product, exact) \<Rightarrow>
      (case w x of None \<Rightarrow> None | Some (v, x_exact) \<Rightarrow> Some (saturating (product * v) (exact \<and> x_exact))))
      xs (Some (min n u64_max, e \<and> n \<le> u64_max))
    = Some (min (n * (\<Prod>x \<leftarrow> xs. f x)) u64_max, e \<and> n * (\<Prod>x \<leftarrow> xs. f x) \<le> u64_max)"
  using assms
proof (induction xs arbitrary: n)
  case (Cons x xs)
  have x: "w x = Some (cut_off (f x))" "0 < f x" using Cons.prems(1) by auto
  have "saturating (min n u64_max * min (f x) u64_max) ((e \<and> n \<le> u64_max) \<and> f x \<le> u64_max)
      = (min (n * f x) u64_max, e \<and> n * f x \<le> u64_max)"
    using cut_off_product [OF Cons.prems(2) x(2), of e] by (simp add: conj_assoc)
  moreover have "0 < n * f x" using x(2) Cons.prems(2) by simp
  ultimately show ?case
    using Cons.IH [of "n * f x"] Cons.prems(1) x by (simp add: cut_off_def mult.assoc)
qed simp

lemma fold_sum:
  assumes "\<And>x e. x \<in> set xs \<Longrightarrow> inner x (Some (1, e)) = Some (min (f x) u64_max, e \<and> f x \<le> u64_max)"
  shows "fold (\<lambda>x acc. case acc of None \<Rightarrow> None | Some (sz, exact) \<Rightarrow>
      (case inner x (Some (1, exact)) of None \<Rightarrow> None | Some (product, exact) \<Rightarrow> Some (saturating (sz + product) exact)))
      xs (Some (cut_off n)) = Some (cut_off (n + (\<Sum>x \<leftarrow> xs. f x)))"
  using assms
proof (induction xs arbitrary: n)
  case (Cons x xs)
  have "inner x (Some (1, n \<le> u64_max)) = Some (min (f x) u64_max, n \<le> u64_max \<and> f x \<le> u64_max)"
    using Cons.prems by simp
  moreover have "saturating (min n u64_max + min (f x) u64_max) (n \<le> u64_max \<and> f x \<le> u64_max) = cut_off (n + f x)"
    by (rule cut_off_sum)
  ultimately show ?case
    using Cons.IH [of "n + f x"] Cons.prems by (simp add: cut_off_def [of n] add.assoc)
qed simp

lemma weight_ways:
  assumes "space_ok space"
  shows "i < length space \<Longrightarrow> length space - i \<le> fuel \<Longrightarrow>
    weight space fuel (dim_id (space ! i)) = Some (cut_off (ways space fuel (space ! i)))"
proof (induction fuel arbitrary: i)
  case (Suc fuel)
  let ?d = "space ! i"
  have d: "by_id space (dim_id ?d) = Some ?d"
    using by_id_of [of space ?d] assms Suc.prems(1) by (simp add: space_ok_def)
  let ?f = "\<lambda>p. \<Prod>k \<leftarrow> children_by_gate space (dim_id ?d) (pt_name p). ways space fuel k"
  let ?inner = "\<lambda>p. fold (\<lambda>kid acc. case acc of None \<Rightarrow> None | Some (product, exact) \<Rightarrow>
      (case weight space fuel (dim_id kid) of None \<Rightarrow> None
       | Some (w, kid_exact) \<Rightarrow> Some (saturating (product * w) (exact \<and> kid_exact))))
      (children_by_gate space (dim_id ?d) (pt_name p))"
  have kid: "weight space fuel (dim_id k) = Some (cut_off (ways space fuel k)) \<and> 0 < ways space fuel k"
    if "k \<in> set (children_by_gate space (dim_id ?d) (pt_name q))" for k q
  proof -
    from child_later [OF assms Suc.prems(1) that] obtain j where j: "i < j" "j < length space" "k = space ! j" by blast
    then show ?thesis using Suc.IH [of j] Suc.prems(2) ways_pos [OF assms] by simp
  qed
  have inner: "?inner p (Some (1, e)) = Some (min (?f p) u64_max, e \<and> ?f p \<le> u64_max)" for p e
  proof -
    have one: "Some (1, e) = Some (min 1 u64_max, e \<and> 1 \<le> u64_max)" by (simp add: u64_max_def)
    have "?inner p (Some (min 1 u64_max, e \<and> 1 \<le> u64_max)) = Some (min (1 * ?f p) u64_max, e \<and> 1 * ?f p \<le> u64_max)"
      by (rule fold_product) (use kid in blast, simp)
    then show ?thesis unfolding one by simp
  qed
  have "fold (\<lambda>p acc. case acc of None \<Rightarrow> None | Some (sz, exact) \<Rightarrow>
      (case ?inner p (Some (1, exact)) of None \<Rightarrow> None | Some (product, exact) \<Rightarrow> Some (saturating (sz + product) exact)))
      (dim_points ?d) (Some (cut_off 0)) = Some (cut_off (0 + (\<Sum>p \<leftarrow> dim_points ?d. ?f p)))"
    by (rule fold_sum) (rule inner)
  moreover have "cut_off 0 = (0, True)" by (simp add: cut_off_def)
  ultimately show ?case by (simp only: weight.simps ways.simps d option.case add_0)
qed simp

text \<open>With enough fuel the weight no longer depends on it.\<close>

lemma ways_fuel:
  assumes "space_ok space"
  shows "i < length space \<Longrightarrow> length space - i \<le> fuel \<Longrightarrow> length space - i \<le> fuel' \<Longrightarrow>
    ways space fuel (space ! i) = ways space fuel' (space ! i)"
proof (induction fuel arbitrary: i fuel')
  case (Suc fuel)
  obtain more where more: "fuel' = Suc more" using Suc.prems by (cases fuel') auto
  have "ways space fuel k = ways space more k" if "k \<in> set (children_by_gate space (dim_id (space ! i)) p)" for k p
  proof -
    from child_later [OF assms Suc.prems(1) that] obtain j where "i < j" "j < length space" "k = space ! j" by blast
    then show ?thesis using Suc.IH [of j more] Suc.prems more by simp
  qed
  then have "map (ways space fuel) (children_by_gate space (dim_id (space ! i)) p)
      = map (ways space more) (children_by_gate space (dim_id (space ! i)) p)" for p
    by simp
  then show ?case by (simp only: more ways.simps)
qed simp

definition all_ways :: "dimension list \<Rightarrow> dimension \<Rightarrow> nat" where
  "all_ways space d = ways space (length space + 1) d"

lemma all_ways_step:
  assumes "space_ok space" and "d \<in> set space"
  shows "all_ways space d = (\<Sum>p \<leftarrow> dim_points d. \<Prod>k \<leftarrow> children_by_gate space (dim_id d) (pt_name p). all_ways space k)"
proof -
  have "ways space (length space) k = ways space (length space + 1) k" if "k \<in> set space" for k
  proof -
    from that obtain i where "i < length space" "k = space ! i" by (auto simp: in_set_conv_nth)
    then show ?thesis using ways_fuel [OF assms(1), of i "length space" "length space + 1"] by simp
  qed
  then have "map (ways space (length space)) (children_by_gate space (dim_id d) p)
      = map (all_ways space) (children_by_gate space (dim_id d) p)" for p
    by (auto simp: all_ways_def simp del: ways.simps dest: children_in_space)
  then show ?thesis by (simp only: all_ways_def [of space d] Suc_eq_plus1 [symmetric] ways.simps)
qed

lemma space_size_ways:
  assumes "space_ok space"
  shows "space_size space = Some (cut_off (\<Prod>d \<leftarrow> filter (\<lambda>d. dim_gates d = []) space. all_ways space d))"
proof -
  let ?w = "\<lambda>d. weight space (length space + 1) (dim_id d)"
  have w: "?w d = Some (cut_off (all_ways space d)) \<and> 0 < all_ways space d" if "d \<in> set space" for d
    using that weight_ways [OF assms] ways_pos [OF assms] by (auto simp: in_set_conv_nth all_ways_def simp del: weight.simps ways.simps)
  have skip: "fold (\<lambda>d acc. case acc of None \<Rightarrow> None | Some (sz, exact) \<Rightarrow>
        if dim_gates d \<noteq> [] then acc else (case ?w d of None \<Rightarrow> None
          | Some (w, dim_exact) \<Rightarrow> Some (saturating (sz * w) (exact \<and> dim_exact)))) ds acc
      = fold (\<lambda>d acc. case acc of None \<Rightarrow> None | Some (sz, exact) \<Rightarrow>
        (case ?w d of None \<Rightarrow> None | Some (w, dim_exact) \<Rightarrow> Some (saturating (sz * w) (exact \<and> dim_exact))))
        (filter (\<lambda>d. dim_gates d = []) ds) acc" for ds acc
    by (induction ds arbitrary: acc) (auto split: option.split)
  show ?thesis
    unfolding space_size_def skip
    using fold_product [where n = 1 and e = True and w = ?w and f = "all_ways space"
        and xs = "filter (\<lambda>d. dim_gates d = []) space"] w
    by (simp add: cut_off_def u64_max_def del: weight.simps)
qed

subsection \<open>The gates of a shape's space\<close>

text \<open>The last gate of a dimension is a point of another whose gates are the rest.\<close>

definition chained :: "dimension list \<Rightarrow> bool" where
  "chained space \<longleftrightarrow>
     (\<forall>d \<in> set space. dim_gates d \<noteq> [] \<longrightarrow>
       (\<exists>parent \<in> set space. dim_id parent = gate_dimension (last (dim_gates d)) \<and> dim_gates parent = butlast (dim_gates d)))"

definition chained_under :: "gate list \<Rightarrow> dimension list \<Rightarrow> bool" where
  "chained_under gates space \<longleftrightarrow>
     (\<forall>d \<in> set space. dim_gates d = gates \<or> (dim_gates d \<noteq> [] \<and>
       (\<exists>parent \<in> set space. dim_id parent = gate_dimension (last (dim_gates d)) \<and> dim_gates parent = butlast (dim_gates d))))"

lemma chained_under_Nil [simp]: "chained_under gates []"
  by (simp add: chained_under_def)

lemma chained_under_append: "chained_under gates xs \<Longrightarrow> chained_under gates ys \<Longrightarrow> chained_under gates (xs @ ys)"
  unfolding chained_under_def set_append by (blast dest: bspec)

lemma chained_under_concat: "(\<And>ds. ds \<in> set dss \<Longrightarrow> chained_under gates ds) \<Longrightarrow> chained_under gates (concat dss)"
  by (induction dss) (auto intro: chained_under_append)

lemma chained_under_gates: "(\<And>d. d \<in> set ds \<Longrightarrow> dim_gates d = gates) \<Longrightarrow> chained_under gates ds"
  by (simp add: chained_under_def)

lemma chained_below:
  assumes "\<And>ds. ds \<in> set dss \<Longrightarrow> \<exists>p. chained_under (under gates (dim_id d) p) ds" and "dim_gates d = gates"
  shows "chained_under gates (d # concat dss)"
proof -
  have "dim_gates k = gates \<or> (dim_gates k \<noteq> [] \<and> (\<exists>parent \<in> set (d # concat dss).
      dim_id parent = gate_dimension (last (dim_gates k)) \<and> dim_gates parent = butlast (dim_gates k)))"
    if member: "k \<in> set ds" "ds \<in> set dss" for k ds
  proof -
    from assms(1) [OF member(2)] obtain p where "chained_under (under gates (dim_id d) p) ds" by blast
    then consider "dim_gates k = under gates (dim_id d) p"
      | "dim_gates k \<noteq> []" "\<exists>parent \<in> set ds. dim_id parent = gate_dimension (last (dim_gates k)) \<and> dim_gates parent = butlast (dim_gates k)"
      using member(1) unfolding chained_under_def by (auto dest: bspec)
    then show ?thesis
    proof cases
      case 1
      then show ?thesis using assms(2) by (simp add: under_def)
    next
      case 2
      moreover have "set ds \<subseteq> set (d # concat dss)" using member(2) by auto
      ultimately show ?thesis by blast
    qed
  qed
  moreover have "k = d \<or> (\<exists>ds \<in> set dss. k \<in> set ds)" if "k \<in> set (d # concat dss)" for k
    using that by auto
  ultimately show ?thesis unfolding chained_under_def using assms(2) by blast
qed

lemma cardinality_gates: "d \<in> set (cardinality_dimension opr at least most gates) \<Longrightarrow> dim_gates d = gates"
  by (auto simp: cardinality_dimension_def Let_def split: if_splits)

lemma chained_cardinality: "chained_under gates (cardinality_dimension opr at least most gates)"
  by (rule chained_under_gates) (rule cardinality_gates)

lemma space_walk_chained: "chained_under gates (space_walk L at gates s)"
proof (induction L at gates s rule: space_walk.induct)
  case (1 L at gates ex g s)
  then show ?case
    using chained_below [where dss = "[space_walk L at (under gates (dimension_id at ''presence'') ''present'') s]"
        and d = "presence_dimension at gates"]
    by (auto simp: presence_dimension_def)
next
  case (2 L at gates ex g s)
  then show ?case
    using chained_below [where dss = "[space_walk L at (under gates (dimension_id at ''nullability'') ''non-null'') s]"
        and d = "nullability_dimension at gates"]
    by (auto simp: nullability_dimension_def)
next
  case (3 L at gates ex g options)
  then show ?case by (auto simp: value_dimension_def intro!: chained_under_gates)
next
  case (4 L at gates ex g disc alternatives dflt)
  have "chained_under gates (alternative_dimension at alternatives dflt gates
      # concat (map (\<lambda>(name, alt). space_walk L (path_alternative at name)
          (under gates (dimension_id at ''alternative'') name) alt) alternatives))"
    if "\<not> length alternatives < 2"
  proof (rule chained_below)
    fix ds
    assume "ds \<in> set (map (\<lambda>(name, alt). space_walk L (path_alternative at name)
          (under gates (dimension_id at ''alternative'') name) alt) alternatives)"
    then obtain name alt where alt: "(name, alt) \<in> set alternatives"
        "ds = space_walk L (path_alternative at name) (under gates (dimension_id at ''alternative'') name) alt"
      by auto
    then show "\<exists>p. chained_under (under gates (dim_id (alternative_dimension at alternatives dflt gates)) p) ds"
      using 4 [OF that alt(1) refl] by (auto simp: alternative_dimension_def)
  qed (simp add: alternative_dimension_def)
  then show ?case by simp
next
  case (5 L at gates ex g items least most)
  then show ?case by (auto intro!: chained_under_append chained_cardinality)
next
  case (6 L at gates ex g ks vs least most)
  then show ?case
    by (auto intro!: chained_under_append chained_cardinality split: option.splits)
next
  case (7 L at gates ex g members)
  then show ?case by (auto simp: members_by_name_def intro!: chained_under_concat)
next
  case (8 L at gates ex g entries)
  then show ?case by (fastforce intro!: chained_under_concat)
next
  case (9 L at gates ex g entries)
  then show ?case by (fastforce intro!: chained_under_concat)
qed simp_all

lemma compute_space_chained: "chained (compute_space L s at)"
  using space_walk_chained [of "[]" L at s] by (auto simp: chained_def chained_under_def compute_space_def)

subsection \<open>What the exhaustive walk visits\<close>

text \<open>A dimension is pending when its last gate is open; \<open>settled\<close> says of the dimensions walked that only the
  active ones have a point.\<close>

definition pending :: "assignment \<Rightarrow> dimension \<Rightarrow> bool" where
  "pending a d \<longleftrightarrow> (case last_gate d of None \<Rightarrow> True | Some (g, p) \<Rightarrow> map_of a g = Some p)"

definition walked :: "dimension list \<Rightarrow> dimension list \<Rightarrow> assignment \<Rightarrow> bool" where
  "walked xs ds a \<longleftrightarrow>
     btree_map a \<and> (\<forall>x \<in> set xs. map_of a (dim_id x) \<noteq> None \<longrightarrow> is_active a x) \<and> (\<forall>d \<in> set ds. map_of a (dim_id d) = None)"

lemma active_iff_pending:
  assumes "chained (xs @ d # ds)" and "walked xs (d # ds) a"
  shows "is_active a d \<longleftrightarrow> pending a d"
proof (cases "dim_gates d = []")
  case True
  then show ?thesis by (simp add: is_active_def pending_def last_gate_def)
next
  case False
  let ?g = "last (dim_gates d)"
  have split: "dim_gates d = butlast (dim_gates d) @ [?g]" using False by simp
  obtain parent where parent: "parent \<in> set (xs @ d # ds)" "dim_id parent = gate_dimension ?g" "dim_gates parent = butlast (dim_gates d)"
    using assms(1) False unfolding chained_def by (metis in_set_conv_decomp)
  have "is_active a d \<longleftrightarrow> is_active a parent \<and> gate_holds a ?g"
    unfolding is_active_def parent(3) by (subst split) (simp add: list_all_append)
  moreover have "is_active a parent" if "gate_holds a ?g"
  proof -
    have "map_of a (dim_id parent) \<noteq> None" using that parent(2) by (simp add: gate_holds_def)
    then show ?thesis using parent(1) assms(2) by (auto simp: walked_def)
  qed
  ultimately show ?thesis using False by (auto simp: pending_def last_gate_def gate_holds_def)
qed

lemma prod_list_filter_or:
  assumes "\<And>x. x \<in> set xs \<Longrightarrow> \<not> (P x \<and> Q x)"
  shows "(\<Prod>x \<leftarrow> filter (\<lambda>x. P x \<or> Q x) xs. f x :: nat) = (\<Prod>x \<leftarrow> filter P xs. f x) * (\<Prod>x \<leftarrow> filter Q xs. f x)"
  using assms by (induction xs) auto

lemma children_rest:
  assumes "space_ok (xs @ d # ds)"
  shows "children_by_gate (xs @ d # ds) (dim_id d) p = filter (\<lambda>k. last_gate k = Some (dim_id d, p)) ds"
proof -
  let ?space = "xs @ d # ds"
  have "last_gate k \<noteq> Some (dim_id d, p)" if member: "k \<in> set (xs @ [d])" for k
  proof
    assume "last_gate k = Some (dim_id d, p)"
    then have "k \<in> set (children_by_gate ?space (dim_id (?space ! length xs)) p)"
      using member by (auto simp: children_by_gate_def)
    then obtain j where j: "length xs < j" "j < length ?space" "k = ?space ! j"
      using child_later [OF assms, of "length xs"] by auto
    obtain i where i: "i < length (xs @ [d])" "k = (xs @ [d]) ! i" using member by (metis in_set_conv_nth)
    then have "i \<le> length xs" "k = ?space ! i" by (auto simp: nth_append)
    have ids: "distinct (map dim_id ?space)" using assms by (simp only: space_ok_def)
    have "map dim_id ?space ! i = map dim_id ?space ! j"
      using j i(2) \<open>k = ?space ! i\<close> \<open>i \<le> length xs\<close> by (simp only: nth_map length_append list.size)
    then have "i = j" using nth_eq_iff_index_eq [OF ids, of i j] j(2) \<open>i \<le> length xs\<close> by simp
    with j(1) \<open>i \<le> length xs\<close> show False by simp
  qed
  then show ?thesis by (simp add: children_by_gate_def filter_empty_conv)
qed

lemma walked_step:
  assumes "walked xs (d # ds) a" and "space_ok (xs @ d # ds)"
  shows "\<not> is_active a d \<Longrightarrow> walked (xs @ [d]) ds a"
    and "is_active a d \<Longrightarrow> walked (xs @ [d]) ds (btree_insert (dim_id d) p a)"
proof -
  have a: "btree_map a" "map_of a (dim_id d) = None" using assms(1) by (auto simp: walked_def)
  show "walked (xs @ [d]) ds a" using assms(1) by (auto simp: walked_def)
  have "is_active (btree_insert (dim_id d) p a) x" if "is_active a x" for x
    using that a by (fastforce simp: is_active_def list_all_iff gate_holds_def map_of_btree_insert)
  moreover assume "is_active a d"
  moreover have "dim_id d \<notin> dim_id ` (set xs \<union> set ds)" using assms(2) by (auto simp: space_ok_def)
  then have "dim_id x \<noteq> dim_id d" if "x \<in> set xs \<union> set ds" for x
    using that by (metis imageI)
  ultimately show "walked (xs @ [d]) ds (btree_insert (dim_id d) p a)"
    using assms(1) a by (auto simp: walked_def map_of_btree_insert btree_map_insert)
qed

lemma pending_insert:
  assumes "btree_map a" and "map_of a k = None"
  shows "pending (btree_insert k p a) d \<longleftrightarrow> last_gate d = Some (k, p) \<or> pending a d"
  using assms by (auto simp: pending_def map_of_btree_insert split: option.splits)

lemma enumerated_ways:
  assumes "space_ok (xs @ ds)" and "chained (xs @ ds)" and "walked xs ds a"
  shows "length (enumerate_all [] ds a) = (\<Prod>d \<leftarrow> filter (pending a) ds. all_ways (xs @ ds) d)"
  using assms
proof (induction ds arbitrary: xs a)
  case Nil
  then show ?case by (simp add: matching_exclusion_def)
next
  case (Cons d ds)
  let ?space = "xs @ d # ds"
  let ?rest = "\<Prod>k \<leftarrow> filter (pending a) ds. all_ways ?space k"
  have IH: "length (enumerate_all [] ds b) = (\<Prod>k \<leftarrow> filter (pending b) ds. all_ways ?space k)"
    if "walked (xs @ [d]) ds b" for b
    using Cons.IH [of "xs @ [d]" b] Cons.prems that by simp
  have active: "is_active a d \<longleftrightarrow> pending a d" by (rule active_iff_pending [OF Cons.prems(2,3)])
  show ?case
  proof (cases "is_active a d")
    case False
    then show ?thesis using IH [OF walked_step(1) [OF Cons.prems(3,1) False]] active by simp
  next
    case True
    have a: "btree_map a" "map_of a (dim_id d) = None" using Cons.prems(3) by (auto simp: walked_def)
    have point: "length (enumerate_all [] ds (btree_insert (dim_id d) p a))
        = (\<Prod>k \<leftarrow> children_by_gate ?space (dim_id d) p. all_ways ?space k) * ?rest" for p
    proof -
      have "pending (btree_insert (dim_id d) p a) = (\<lambda>k. last_gate k = Some (dim_id d, p) \<or> pending a k)"
        using pending_insert [OF a] by blast
      moreover have "\<not> (last_gate k = Some (dim_id d, p) \<and> pending a k)" for k
        using a(2) by (auto simp: pending_def)
      ultimately show ?thesis
        unfolding children_rest [OF Cons.prems(1)]
        using IH [OF walked_step(2) [OF Cons.prems(3,1) True]] by (simp add: prod_list_filter_or)
    qed
    have "length (enumerate_all [] (d # ds) a)
        = (\<Sum>p \<leftarrow> dim_points d. length (enumerate_all [] ds (btree_insert (dim_id d) (pt_name p) a)))"
      using True by (simp add: length_concat comp_def)
    also have "\<dots> = (\<Sum>p \<leftarrow> dim_points d. \<Prod>k \<leftarrow> children_by_gate ?space (dim_id d) (pt_name p). all_ways ?space k) * ?rest"
      by (simp only: point sum_list_mult_const)
    also have "\<dots> = all_ways ?space d * ?rest"
      using all_ways_step [OF Cons.prems(1), of d] by simp
    also have "\<dots> = (\<Prod>k \<leftarrow> filter (pending a) (d # ds). all_ways ?space k)"
      using active True by simp
    finally show ?thesis .
  qed
qed

lemma space_size_enumerated:
  assumes "space_ok space" and "chained space"
  shows "space_size space = Some (cut_off (length (enumerate_all [] space [])))"
proof -
  have "walked [] space []" by (simp add: walked_def btree_map_def)
  moreover have "pending [] = (\<lambda>d. dim_gates d = [])" by (auto simp: fun_eq_iff pending_def last_gate_def)
  ultimately show ?thesis
    using enumerated_ways [of "[]" space "[]"] assms space_size_ways by simp
qed

lemma selected_size:
  assumes "select_variants space policy = Some (Inr sel)"
  shows "space_size space = Some (se_size (sl_report sel), se_exact (sl_report sel))"
proof -
  obtain pins es where refs: "resolve_refs space policy = Inr (pins, es)"
    using assms by (cases "resolve_refs space policy") (auto simp: select_variants_def)
  from assms obtain sz exact where sz: "space_size space = Some (sz, exact)"
    by (auto simp: select_variants_def refs split: bind_splits)
  from assms obtain strategy where strategy: "chosen_strategy policy sz exact = Some strategy"
    by (cases "chosen_strategy policy sz exact") (simp_all add: select_variants_def refs sz)
  from assms obtain vs where vs: "seed_variants space policy strategy pins = Some vs"
    by (cases "seed_variants space policy strategy pins") (simp_all add: select_variants_def refs sz strategy)
  from assms obtain ws es' targets dropped where
    "finish_selection space policy sz exact strategy ws es' targets dropped = Inr sel"
    by (cases "cover_seeds space policy strategy vs es") (auto simp: select_variants_def refs sz strategy vs)
  then show ?thesis using sz by (auto simp: finish_selection_def split: if_splits)
qed



end
