(* ===== verification/Hooks.thy ===== *)
theory Hooks
  imports Contract_Model
begin

text \<open>
  Lifecycle hooks, engine/kernel/src/hooks: the table of points (points.rs), the configuration and its
  validation (config.rs), what a hook answers and how its changes are applied (invoke.rs), the report
  (report.rs) and the run of the hooks at a point (runner.rs). Whatever answers a hook (a script, a process,
  a component), the deserializers of a slot and of a parts document and the clock are the record
  \<open>hook_host\<close>, a parameter.
\<close>

subsection \<open>Points\<close>

datatype scope = Run_Scope | Exchange_Scope | State_Scope

datatype hook_policy = Abort_Run | Fail_Exchange | Warn_Only

datatype mutability = Mutable_None | Outbound_Slots | Whole_Parts

definition hook_policy_parse :: "string \<Rightarrow> hook_policy option" where
  "hook_policy_parse text =
     (if text = ''abort-run'' then Some Abort_Run
      else if text = ''fail-exchange'' then Some Fail_Exchange
      else if text = ''warn'' then Some Warn_Only else None)"

definition hook_policy_text :: "hook_policy \<Rightarrow> string" where
  "hook_policy_text p = (case p of Abort_Run \<Rightarrow> ''abort-run'' | Fail_Exchange \<Rightarrow> ''fail-exchange'' | Warn_Only \<Rightarrow> ''warn'')"

record hook_point =
  hp_name :: string
  hp_scope :: scope
  hp_policy :: hook_policy
  hp_mutable :: mutability

definition hook_points :: "hook_point list" where
  "hook_points =
     [\<lparr>hp_name = ''before-verification'', hp_scope = Run_Scope, hp_policy = Abort_Run, hp_mutable = Mutable_None\<rparr>,
      \<lparr>hp_name = ''state-setup'', hp_scope = State_Scope, hp_policy = Fail_Exchange, hp_mutable = Mutable_None\<rparr>,
      \<lparr>hp_name = ''before-request'', hp_scope = Exchange_Scope, hp_policy = Fail_Exchange, hp_mutable = Outbound_Slots\<rparr>,
      \<lparr>hp_name = ''produce-message'', hp_scope = Exchange_Scope, hp_policy = Fail_Exchange, hp_mutable = Whole_Parts\<rparr>,
      \<lparr>hp_name = ''consume-message'', hp_scope = Exchange_Scope, hp_policy = Fail_Exchange, hp_mutable = Mutable_None\<rparr>,
      \<lparr>hp_name = ''after-response'', hp_scope = Exchange_Scope, hp_policy = Fail_Exchange, hp_mutable = Mutable_None\<rparr>,
      \<lparr>hp_name = ''state-teardown'', hp_scope = State_Scope, hp_policy = Warn_Only, hp_mutable = Mutable_None\<rparr>,
      \<lparr>hp_name = ''after-verification'', hp_scope = Run_Scope, hp_policy = Warn_Only, hp_mutable = Mutable_None\<rparr>]"

definition find_point :: "string \<Rightarrow> hook_point option" where
  "find_point name = List.find (\<lambda>p. hp_name p = name) hook_points"

definition points_of_scope :: "scope \<Rightarrow> hook_point list" where
  "points_of_scope scope = filter (\<lambda>p. hp_scope p = scope) hook_points"

definition default_timeout_ms :: "hook_point \<Rightarrow> nat" where
  "default_timeout_ms p = (case hp_scope p of Run_Scope \<Rightarrow> 30000 | Exchange_Scope \<Rightarrow> 5000 | State_Scope \<Rightarrow> 5000)"

definition permits :: "hook_point \<Rightarrow> string \<Rightarrow> bool" where
  "permits p path =
     (case hp_mutable p of
        Mutable_None \<Rightarrow> False
      | Whole_Parts \<Rightarrow> path = ''parts''
      | Outbound_Slots \<Rightarrow>
          (case split_on (CHR ''.'') path of
             [a, b, c] \<Rightarrow> a = ''parts'' \<and> b \<noteq> [] \<and> c \<noteq> [] | _ \<Rightarrow> False))"

subsection \<open>The configuration\<close>

record hook_when =
  hw_interaction :: "string option"
  hw_state :: "string option"
  hw_transport :: "string option"

record hook_entry =
  he_name :: string
  he_run :: json
  he_config :: "json option"
  he_when :: "hook_when option"
  he_changes :: "string list"
  he_timeout_ms :: "nat option"
  he_on_failure :: "string option"
  he_report_data :: bool

record hook_config =
  hc_version :: "nat option"
  hc_hooks :: "hook_entry list smap"

definition run_text :: "hook_entry \<Rightarrow> string \<Rightarrow> string option" where
  "run_text e member = Option.bind (json_get (he_run e) member) as_str"

definition run_kind :: "hook_entry \<Rightarrow> string" where
  "run_kind e = (case run_text e ''kind'' of Some t \<Rightarrow> t | None \<Rightarrow> [])"

definition selector_matches :: "string option \<Rightarrow> string option \<Rightarrow> bool" where
  "selector_matches wanted actual = (case wanted of None \<Rightarrow> True | Some w \<Rightarrow> actual = Some w)"

definition when_admits :: "hook_when \<Rightarrow> string option \<Rightarrow> string option \<Rightarrow> string option \<Rightarrow> bool" where
  "when_admits w interaction state transport \<longleftrightarrow>
     selector_matches (hw_interaction w) interaction \<and> selector_matches (hw_state w) state
     \<and> selector_matches (hw_transport w) transport"

definition entry_policy :: "hook_entry \<Rightarrow> hook_point \<Rightarrow> hook_policy" where
  "entry_policy e p = (case Option.bind (he_on_failure e) hook_policy_parse of Some q \<Rightarrow> q | None \<Rightarrow> hp_policy p)"

definition entry_timeout_ms :: "hook_entry \<Rightarrow> hook_point \<Rightarrow> nat" where
  "entry_timeout_ms e p = (case he_timeout_ms e of Some t \<Rightarrow> t | None \<Rightarrow> default_timeout_ms p)"

definition entry_mutable :: "hook_entry \<Rightarrow> hook_point \<Rightarrow> string list" where
  "entry_mutable e p = filter (permits p) (he_changes e)"

definition ascii_lowercase :: "char \<Rightarrow> bool" where
  "ascii_lowercase c \<longleftrightarrow> 97 \<le> (of_char c :: nat) \<and> (of_char c :: nat) \<le> 122"

definition is_valid_name :: "string \<Rightarrow> bool" where
  "is_valid_name name =
     (case name of
        [] \<Rightarrow> False
      | c # cs \<Rightarrow> ascii_lowercase c \<and> list_all (\<lambda>c. ascii_lowercase c \<or> is_digit c \<or> c = CHR ''-'') cs)"

definition hook_problem :: "string \<Rightarrow> string \<Rightarrow> problem" where
  "hook_problem pointer message = \<lparr>pr_pointer = pointer, pr_message = message\<rparr>"

definition declared_twice_text :: "string \<Rightarrow> string \<Rightarrow> string" where
  "declared_twice_text name point_name =
     quote1 name @ '' is declared twice at '' @ quote1 point_name
       @ ''; a hook that cannot be named in a failure message is a hook nobody can debug''"

definition not_permitted_text :: "string \<Rightarrow> string \<Rightarrow> string" where
  "not_permitted_text point_name path =
     quote1 point_name @ '' does not permit changing '' @ quote1 path
       @ ''; declaring a change the point refuses would be a hook that fails the first time it tries''"

definition entry_problems :: "string \<Rightarrow> hook_point \<Rightarrow> string \<Rightarrow> string list \<Rightarrow> hook_entry \<Rightarrow> problem list" where
  "entry_problems point_name p at seen e =
     (if \<not> is_valid_name (he_name e)
      then [hook_problem (at @ ''/name'') (quote1 (he_name e) @ '' is not a hook name ([a-z][a-z0-9-]*)'')] else [])
     @ (if he_name e \<in> set seen then [hook_problem (at @ ''/name'') (declared_twice_text (he_name e) point_name)] else [])
     @ (if run_kind e = [] then [hook_problem (at @ ''/run/kind'') (quote1 ''run'' @ '' must name an implementation kind'')] else [])
     @ (case he_on_failure e of
          Some f \<Rightarrow> if hook_policy_parse f = None
            then [hook_problem (at @ ''/on-failure'') (quote1 f @ '' is not a failure policy (abort-run, fail-exchange, warn)'')] else []
        | None \<Rightarrow> [])
     @ concat (map (\<lambda>(j, path). if \<not> permits p path
         then [hook_problem (at @ ''/changes/'' @ nat_text j) (not_permitted_text point_name path)] else [])
         (List.enumerate 0 (he_changes e)))"

fun entries_problems :: "string \<Rightarrow> hook_point \<Rightarrow> string \<Rightarrow> nat \<Rightarrow> string list \<Rightarrow> hook_entry list \<Rightarrow> problem list" where
  "entries_problems point_name p at i seen [] = []"
| "entries_problems point_name p at i seen (e # es) =
     entry_problems point_name p (at @ ''/'' @ nat_text i) seen e
     @ entries_problems point_name p at (i + 1) (seen @ [he_name e]) es"

definition config_problems :: "hook_config \<Rightarrow> problem list" where
  "config_problems c =
     (case hc_version c of
        Some v \<Rightarrow> if v \<noteq> 1
          then [hook_problem ''/version'' (''hook configuration version '' @ nat_text v @ '' is not supported (this engine reads 1)'')] else []
      | None \<Rightarrow> [])
     @ concat (map (\<lambda>(point_name, entries).
         case find_point point_name of
           None \<Rightarrow> [hook_problem (''/hooks/'' @ point_name) (quote1 point_name @ '' is not a lifecycle point; this engine has ''
             @ join_with '', '' (map hp_name hook_points))]
         | Some p \<Rightarrow> entries_problems point_name p (''/hooks/'' @ point_name) 0 [] entries) (hc_hooks c))"

definition validate_config :: "hook_config \<Rightarrow> problem list + unit" where
  "validate_config c = (if config_problems c = [] then Inr () else Inl (config_problems c))"

definition config_parse :: "(json \<Rightarrow> (document_segment list \<times> string) + hook_config) \<Rightarrow> json \<Rightarrow> problem list + hook_config" where
  "config_parse de document =
     (case de document of
        Inl (path, message) \<Rightarrow> Inl [hook_problem (json_pointer path) message]
      | Inr c \<Rightarrow> (case validate_config c of Inl ps \<Rightarrow> Inl ps | Inr _ \<Rightarrow> Inr c))"

definition entries_at :: "hook_config \<Rightarrow> string \<Rightarrow> hook_entry list" where
  "entries_at c point_name = (case map_of (hc_hooks c) point_name of Some es \<Rightarrow> es | None \<Rightarrow> [])"

definition kinds_used :: "hook_config \<Rightarrow> (string \<times> hook_entry) list" where
  "kinds_used c = map (\<lambda>e. (run_kind e, e)) (concat (map snd (hc_hooks c)))"

definition describe_hook :: "hook_entry \<Rightarrow> string \<Rightarrow> json smap" where
  "describe_hook e point_name =
     [(''hook'', JString (he_name e)), (''point'', JString point_name), (''implementation'', JString (run_kind e))]"

end
