(* ===== verification/Hook_Run.thy ===== *)
theory Hook_Run
  imports Hooks
begin

text \<open>
  What a hook answers, how its changes are applied to the parts in flight and how an invocation is reported,
  engine/kernel/src/hooks/invoke.rs and report.rs. The parts that a \<open>&mut\<close> reference holds are returned
  updated, beside the result.
\<close>

subsection \<open>Answers\<close>

datatype hook_outcome = H_Ok | H_Skipped | H_Unsupported | H_Failed | H_Timed_Out | H_Errored

definition outcome_parse :: "string \<Rightarrow> hook_outcome option" where
  "outcome_parse text =
     (if text = ''ok'' then Some H_Ok else if text = ''skipped'' then Some H_Skipped
      else if text = ''unsupported'' then Some H_Unsupported else if text = ''failed'' then Some H_Failed
      else if text = ''timed-out'' then Some H_Timed_Out else if text = ''errored'' then Some H_Errored else None)"

definition outcome_text :: "hook_outcome \<Rightarrow> string" where
  "outcome_text o' =
     (case o' of H_Ok \<Rightarrow> ''ok'' | H_Skipped \<Rightarrow> ''skipped'' | H_Unsupported \<Rightarrow> ''unsupported'' | H_Failed \<Rightarrow> ''failed''
      | H_Timed_Out \<Rightarrow> ''timed-out'' | H_Errored \<Rightarrow> ''errored'')"

definition is_failure :: "hook_outcome \<Rightarrow> bool" where
  "is_failure o' \<longleftrightarrow> o' \<in> {H_Failed, H_Timed_Out, H_Errored}"

record invoke_result =
  iv_outcome :: "hook_outcome option"
  iv_changes :: "json smap"
  iv_data :: "json option"
  iv_values :: "json smap option"
  iv_error :: "json option"

definition invoke_ok :: invoke_result where
  "invoke_ok = \<lparr>iv_outcome = Some H_Ok, iv_changes = [], iv_data = None, iv_values = None, iv_error = None\<rparr>"

definition result_outcome :: "invoke_result \<Rightarrow> hook_outcome" where
  "result_outcome r = (case iv_outcome r of Some o' \<Rightarrow> o' | None \<Rightarrow> H_Ok)"

definition result_parse :: "lib \<Rightarrow> json \<Rightarrow> string + invoke_result" where
  "result_parse L document =
     (case document of
        JNull \<Rightarrow> Inr invoke_ok
      | JObject members \<Rightarrow>
          (case (case map_of members ''outcome'' of
                   None \<Rightarrow> Inr (Some H_Ok)
                 | Some (JString t) \<Rightarrow> (case outcome_parse t of
                     Some o' \<Rightarrow> Inr (Some o') | None \<Rightarrow> Inl (quote1 t @ '' is not a hook outcome''))
                 | Some other \<Rightarrow> Inl (quote1 ''outcome'' @ '' must be a string, got '' @ json_text L other)) of
             Inl e \<Rightarrow> Inl e
           | Inr answered \<Rightarrow>
               (case (case map_of members ''changes'' of
                        None \<Rightarrow> Inr [] | Some JNull \<Rightarrow> Inr [] | Some (JObject changes) \<Rightarrow> Inr changes
                      | Some _ \<Rightarrow> Inl (quote1 ''changes'' @ '' must be an object of context path -> value'')) of
                  Inl e \<Rightarrow> Inl e
                | Inr changes \<Rightarrow>
                    (case (case map_of members ''values'' of
                             None \<Rightarrow> Inr None | Some JNull \<Rightarrow> Inr None | Some (JObject vs) \<Rightarrow> Inr (Some vs)
                           | Some _ \<Rightarrow> Inl (quote1 ''values'' @ '' must be an object of provider-state values'')) of
                       Inl e \<Rightarrow> Inl e
                     | Inr vs \<Rightarrow>
                         Inr \<lparr>iv_outcome = answered, iv_changes = changes, iv_data = map_of members ''data'',
                           iv_values = vs, iv_error = map_of members ''error''\<rparr>)))
      | _ \<Rightarrow> Inl ''a hook result must be an object'')"

record hook_failure =
  hf_outcome :: hook_outcome
  hf_error :: json

definition coded_error :: "string \<Rightarrow> string \<Rightarrow> json" where
  "coded_error code message = JObject [(''code'', JString code), (''message'', JString message)]"

definition failure_errored :: "string \<Rightarrow> hook_failure" where
  "failure_errored message = \<lparr>hf_outcome = H_Errored, hf_error = coded_error ''hook-errored'' message\<rparr>"

definition failure_timed_out :: "nat \<Rightarrow> hook_failure" where
  "failure_timed_out deadline_ms =
     \<lparr>hf_outcome = H_Timed_Out,
      hf_error = coded_error ''hook-timed-out'' (''the hook did not answer within '' @ nat_text deadline_ms @ ''ms'')\<rparr>"

subsection \<open>Changes\<close>

type_synonym parts = "recorded_slot smap smap"

text \<open>What can run a hook, and what reads the documents it answers with. An invoker and a component are programs
  with a state of their own, and \<open>hh_elapsed\<close> is the clock: each takes the number of invocations the run has
  made before. A component's error is its own document.\<close>

record hook_host =
  hh_invokers :: "(nat \<Rightarrow> json \<Rightarrow> json \<Rightarrow> nat \<Rightarrow> hook_failure + invoke_result) smap"
  hh_components :: "(nat \<Rightarrow> string \<Rightarrow> json \<Rightarrow> json option \<Rightarrow> nat \<Rightarrow> json + json) smap"
  hh_slot :: "json \<Rightarrow> recorded_slot option"
  hh_parts :: "json \<Rightarrow> parts option"
  hh_elapsed :: "nat \<Rightarrow> nat"

definition change_refused :: "string \<Rightarrow> string \<Rightarrow> json" where
  "change_refused path why =
     JObject [(''code'', JString ''hook-change-refused''),
       (''message'', JString (''the change to '' @ quote1 path @ '' was refused: '' @ why)),
       (''details'', JObject [(''path'', JString path)])]"

definition change_problem :: "hook_entry \<Rightarrow> hook_point \<Rightarrow> string \<Rightarrow> json option" where
  "change_problem e p path =
     (if \<not> permits p path then Some (change_refused path (quote1 (hp_name p) @ '' does not permit changing it''))
      else if path \<notin> set (he_changes e)
        then Some (change_refused path (''hook '' @ quote1 (he_name e) @ '' did not declare it in its '' @ quote1 ''changes''))
      else None)"

definition put_slot :: "string \<Rightarrow> string \<Rightarrow> recorded_slot \<Rightarrow> parts \<Rightarrow> parts" where
  "put_slot part slot v ps =
     btree_insert part (btree_insert slot v (case map_of ps part of Some slots \<Rightarrow> slots | None \<Rightarrow> [])) ps"

definition apply_change :: "hook_host \<Rightarrow> string \<Rightarrow> json \<Rightarrow> parts \<Rightarrow> json + parts" where
  "apply_change H path v ps =
     (case split_on (CHR ''.'') path of
        [a] \<Rightarrow>
          if a = ''parts''
          then (case hh_parts H v of
                  None \<Rightarrow> Inl (change_refused path ''the replacement is not a parts document'')
                | Some replacement \<Rightarrow> Inr replacement)
          else Inl (change_refused path ''it is not a context path this engine can replace'')
      | [a, part, slot] \<Rightarrow>
          if a = ''parts''
          then (case hh_slot H v of
                  None \<Rightarrow> Inl (change_refused path ''the replacement is not a slot value'')
                | Some replacement \<Rightarrow> Inr (put_slot part slot replacement ps))
          else Inl (change_refused path ''it is not a context path this engine can replace'')
      | _ \<Rightarrow> Inl (change_refused path ''it is not a context path this engine can replace''))"

text \<open>The parts are changed in place, so what was applied before a refusal stays.\<close>

fun apply_each :: "hook_host \<Rightarrow> json smap \<Rightarrow> parts \<Rightarrow> string list \<Rightarrow> (json + string list) \<times> parts" where
  "apply_each H [] ps changed = (Inr changed, ps)"
| "apply_each H ((path, v) # rest) ps changed =
     (case apply_change H path v ps of
        Inl refusal \<Rightarrow> (Inl refusal, ps)
      | Inr ps' \<Rightarrow> apply_each H rest ps' (changed @ [path]))"

definition apply_changes ::
  "hook_host \<Rightarrow> invoke_result \<Rightarrow> hook_entry \<Rightarrow> hook_point \<Rightarrow> parts \<Rightarrow> (json + string list) \<times> parts" where
  "apply_changes H r e p ps =
     (case List.map_filter (\<lambda>(path, _). change_problem e p path) (iv_changes r) of
        refusal # _ \<Rightarrow> (Inl refusal, ps)
      | [] \<Rightarrow> apply_each H (iv_changes r) ps [])"

definition parts_json :: "parts \<Rightarrow> json" where
  "parts_json ps = JObject (map (\<lambda>(part, slots). (part, JObject (map (\<lambda>(slot, v). (slot, recorded_slot_json v)) slots))) ps)"

subsection \<open>The report\<close>

datatype hook_effect = Effect_None | Effect_Warned | Effect_Failed_Exchange | Effect_State_Unavailable | Effect_Aborted_Run

definition effect_text :: "hook_effect \<Rightarrow> string" where
  "effect_text x =
     (case x of Effect_None \<Rightarrow> ''none'' | Effect_Warned \<Rightarrow> ''warned'' | Effect_Failed_Exchange \<Rightarrow> ''failed-exchange''
      | Effect_State_Unavailable \<Rightarrow> ''state-unavailable'' | Effect_Aborted_Run \<Rightarrow> ''aborted-run'')"

record invocation =
  in_point :: string
  in_hook :: string
  in_implementation :: string
  in_outcome :: hook_outcome
  in_effect :: hook_effect
  in_exchange :: "string option"
  in_interaction :: "string option"
  in_variant :: "string option"
  in_state :: "string option"
  in_changed :: "string list"
  in_duration_ms :: nat
  in_data :: "json option"
  in_values :: "json option"
  in_error :: "json option"

definition invocation_json :: "invocation \<Rightarrow> json" where
  "invocation_json i =
     JObject ([(''point'', JString (in_point i)), (''hook'', JString (in_hook i)), (''implementation'', JString (in_implementation i)),
         (''outcome'', JString (outcome_text (in_outcome i)))]
       @ (if in_outcome i \<noteq> H_Ok then [(''effect'', JString (effect_text (in_effect i)))] else [])
       @ optional_member ''exchange'' JString (in_exchange i) @ optional_member ''interaction'' JString (in_interaction i)
       @ optional_member ''variant'' JString (in_variant i) @ optional_member ''state'' JString (in_state i)
       @ [(''changed'', JArray (map JString (in_changed i))), (''duration-ms'', JNumber (PosInt (in_duration_ms i)))]
       @ optional_member ''data'' (\<lambda>v. v) (in_data i) @ optional_member ''values'' (\<lambda>v. v) (in_values i)
       @ optional_member ''error'' (\<lambda>v. v) (in_error i))"

record hook_abort =
  ab_point :: string
  ab_hook :: string
  ab_error :: "json option"
  ab_exchanges_not_run :: nat

record hook_report =
  hk_invocations :: "invocation list"
  hk_aborted :: "hook_abort option"

definition hook_report_is_empty :: "hook_report \<Rightarrow> bool" where
  "hook_report_is_empty r \<longleftrightarrow> hk_invocations r = [] \<and> hk_aborted r = None"

definition abort_json :: "hook_abort \<Rightarrow> json" where
  "abort_json a =
     JObject ([(''point'', JString (ab_point a)), (''hook'', JString (ab_hook a))]
       @ optional_member ''error'' (\<lambda>v. v) (ab_error a) @ [(''exchanges-not-run'', JNumber (PosInt (ab_exchanges_not_run a)))])"

definition hook_report_json :: "hook_report \<Rightarrow> json" where
  "hook_report_json r =
     JObject ((''invocations'', JArray (map invocation_json (hk_invocations r))) # optional_member ''aborted'' abort_json (hk_aborted r))"

end
