(* ===== verification/Hook_Runner.thy ===== *)
theory Hook_Runner
  imports Hook_Run
begin

text \<open>
  The run of the hooks at a point, engine/kernel/src/hooks/runner.rs: which entries an occurrence admits, one
  invocation with its context, its answer and the failure policy, and the loop over the entries of a point.
  The runner, the exchange's scratch, the parts in flight and the events emitted are the state passed along.
\<close>

subsection \<open>The runner\<close>

datatype config_error = Config_Invalid "problem list" | Config_Unavailable string string "string list"

datatype point_outcome =
  Continue | Fail_Attempt string json | State_Unavailable string json | Abort_The_Run string json

record exchange_scratch =
  xs_data :: "json smap"
  xs_values :: "json smap"

record occurrence =
  oc_interaction :: "json option"
  oc_variant :: "json option"
  oc_state :: "json option"
  oc_exchange :: "json option"
  oc_endpoint :: "json option"
  oc_summary :: "json option"
  oc_transport :: "string option"

definition member_text :: "json option \<Rightarrow> string \<Rightarrow> string option" where
  "member_text document member = Option.bind (Option.bind document (\<lambda>d. json_get d member)) as_str"

definition interaction_description :: "occurrence \<Rightarrow> string option" where
  "interaction_description oc = member_text (oc_interaction oc) ''description''"

definition state_name :: "occurrence \<Rightarrow> string option" where
  "state_name oc = member_text (oc_state oc) ''name''"

definition exchange_id :: "occurrence \<Rightarrow> string option" where
  "exchange_id oc = member_text (oc_exchange oc) ''id''"

definition occurrence_variant_id :: "occurrence \<Rightarrow> string option" where
  "occurrence_variant_id oc = member_text (oc_variant oc) ''id''"

definition hook_admits :: "occurrence \<Rightarrow> hook_entry \<Rightarrow> bool" where
  "hook_admits oc e =
     (case he_when e of
        None \<Rightarrow> True
      | Some w \<Rightarrow> when_admits w (interaction_description oc) (state_name oc) (oc_transport oc))"

record hook_runner =
  hr_config :: hook_config
  hr_run :: json
  hr_run_data :: "json smap"
  hr_report :: hook_report

definition runnable :: "hook_host \<Rightarrow> hook_entry \<Rightarrow> bool" where
  "runnable H e =
     (if run_kind e = ''component''
      then (case run_text e ''component'' of Some name \<Rightarrow> map_of (hh_components H) name \<noteq> None | None \<Rightarrow> False)
      else map_of (hh_invokers H) (run_kind e) \<noteq> None)"

definition available_kinds :: "hook_host \<Rightarrow> string list" where
  "available_kinds H = sort (map fst (hh_invokers H) @ (if hh_components H \<noteq> [] then [''component''] else []))"

definition runner_new ::
  "(json \<Rightarrow> (document_segment list \<times> string) + hook_config) \<Rightarrow> hook_host \<Rightarrow> json \<Rightarrow> json \<Rightarrow> config_error + hook_runner" where
  "runner_new de H document about =
     (case config_parse de document of
        Inl ps \<Rightarrow> Inl (Config_Invalid ps)
      | Inr c \<Rightarrow>
          (case filter (\<lambda>e. \<not> runnable H e) (concat (map snd (hc_hooks c))) of
             e # _ \<Rightarrow> Inl (Config_Unavailable (run_kind e) (he_name e) (available_kinds H))
           | [] \<Rightarrow> Inr \<lparr>hr_config = c, hr_run = about, hr_run_data = [],
               hr_report = \<lparr>hk_invocations = [], hk_aborted = None\<rparr>\<rparr>))"

definition runner_has :: "hook_runner \<Rightarrow> string \<Rightarrow> bool" where
  "runner_has R point_name \<longleftrightarrow> entries_at (hr_config R) point_name \<noteq> []"

definition admits_any :: "hook_runner \<Rightarrow> string \<Rightarrow> occurrence \<Rightarrow> bool" where
  "admits_any R point_name oc \<longleftrightarrow> list_ex (hook_admits oc) (entries_at (hr_config R) point_name)"

definition note_exchanges_not_run :: "nat \<Rightarrow> hook_runner \<Rightarrow> hook_runner" where
  "note_exchanges_not_run n R =
     R\<lparr>hr_report := (hr_report R)\<lparr>hk_aborted := map_option (\<lambda>a. a\<lparr>ab_exchanges_not_run := n\<rparr>) (hk_aborted (hr_report R))\<rparr>\<rparr>"

subsection \<open>One invocation\<close>

definition object_members :: "json \<Rightarrow> json smap" where
  "object_members document = (case document of JObject m \<Rightarrow> m | _ \<Rightarrow> [])"

definition hook_context :: "hook_runner \<Rightarrow> hook_point \<Rightarrow> hook_entry \<Rightarrow> occurrence \<Rightarrow> parts \<Rightarrow> json smap \<Rightarrow> nat \<Rightarrow> json" where
  "hook_context R p e oc ps exchange_data deadline_ms =
     JObject ([(''point'', JString (hp_name p)), (''role'', JString ''provider''),
         (''run'', JObject (index_insert ''data'' (JObject (hr_run_data R)) (object_members (hr_run R))))]
       @ optional_member ''interaction'' (\<lambda>v. v) (oc_interaction oc) @ optional_member ''variant'' (\<lambda>v. v) (oc_variant oc)
       @ optional_member ''state'' (\<lambda>v. v) (oc_state oc) @ optional_member ''endpoint'' (\<lambda>v. v) (oc_endpoint oc)
       @ optional_member ''summary'' (\<lambda>v. v) (oc_summary oc)
       @ optional_member ''exchange'' (\<lambda>x. JObject (index_insert ''data'' (JObject exchange_data) (object_members x))) (oc_exchange oc)
       @ (if hp_scope p \<noteq> Run_Scope then [(''parts'', parts_json ps)] else [])
       @ optional_member ''config'' (\<lambda>v. v) (he_config e)
       @ [(''mutable'', JArray (map JString (entry_mutable e p))), (''deadline-ms'', JNumber (PosInt deadline_ms))])"

definition invoke_component ::
  "hook_host \<Rightarrow> lib \<Rightarrow> nat \<Rightarrow> hook_entry \<Rightarrow> hook_point \<Rightarrow> json \<Rightarrow> nat \<Rightarrow> hook_failure + invoke_result" where
  "invoke_component H L n e p context deadline_ms =
     (case run_text e ''component'' of
        None \<Rightarrow> Inl (failure_errored ''a component hook must name its component'')
      | Some name \<Rightarrow>
          (case map_of (hh_components H) name of
             None \<Rightarrow> Inl (failure_errored (''no component '' @ quote1 name @ '' is registered''))
           | Some invoke \<Rightarrow>
               (case invoke n (hp_name p) context (he_config e) deadline_ms of
                  Inl error \<Rightarrow> Inl \<lparr>hf_outcome = H_Errored, hf_error = error\<rparr>
                | Inr document \<Rightarrow>
                    (case result_parse L document of
                       Inl message \<Rightarrow> Inl \<lparr>hf_outcome = H_Errored, hf_error = coded_error ''hook-result-invalid'' message\<rparr>
                     | Inr r \<Rightarrow> Inr r))))"

definition hook_answer ::
  "hook_host \<Rightarrow> lib \<Rightarrow> nat \<Rightarrow> hook_entry \<Rightarrow> hook_point \<Rightarrow> json \<Rightarrow> nat \<Rightarrow> hook_failure + invoke_result" where
  "hook_answer H L n e p context deadline_ms =
     (if run_kind e = ''component'' then invoke_component H L n e p context deadline_ms
      else (case map_of (hh_invokers H) (run_kind e) of
              Some invoke \<Rightarrow> invoke n (he_run e) context deadline_ms
            | None \<Rightarrow> Inl (failure_errored (''no invoker for '' @ quote1 (run_kind e)))))"

text \<open>What a result leaves behind: the scratch of the exchange, the run's data, and what is reported of both.\<close>

definition absorb_values :: "hook_entry \<Rightarrow> invoke_result \<Rightarrow> exchange_scratch \<Rightarrow> invocation \<Rightarrow> exchange_scratch \<times> invocation" where
  "absorb_values e r x i =
     (case iv_values r of
        Some vs \<Rightarrow>
          if in_point i = ''state-setup''
          then (x\<lparr>xs_values := fold (\<lambda>(k, v). index_insert k v) vs (xs_values x)\<rparr>,
                if he_report_data e then i\<lparr>in_values := Some (JObject vs)\<rparr> else i)
          else (x, i)
      | None \<Rightarrow> (x, i))"

definition absorb ::
  "hook_entry \<Rightarrow> invoke_result \<Rightarrow> json smap \<Rightarrow> exchange_scratch \<Rightarrow> invocation \<Rightarrow> json smap \<times> exchange_scratch \<times> invocation" where
  "absorb e r run_data x i =
     (let (x', i') = absorb_values e r x i
      in case iv_data r of
           None \<Rightarrow> (run_data, x', i')
         | Some data \<Rightarrow>
             let i'' = (if he_report_data e then i'\<lparr>in_data := Some data\<rparr> else i')
             in if map_option hp_scope (find_point (in_point i)) = Some Run_Scope
                then (index_insert (he_name e) data run_data, x', i'')
                else (run_data, x'\<lparr>xs_data := index_insert (he_name e) data (xs_data x')\<rparr>, i''))"

definition effect_of :: "hook_entry \<Rightarrow> hook_point \<Rightarrow> json \<Rightarrow> invocation \<Rightarrow> point_outcome \<times> invocation" where
  "effect_of e p error i =
     (case entry_policy e p of
        Abort_Run \<Rightarrow> (Abort_The_Run (he_name e) error, i\<lparr>in_effect := Effect_Aborted_Run\<rparr>)
      | Fail_Exchange \<Rightarrow> (Fail_Attempt (he_name e) error, i\<lparr>in_effect := Effect_Failed_Exchange\<rparr>)
      | Warn_Only \<Rightarrow> (Continue, i\<lparr>in_effect := Effect_Warned\<rparr>))"

definition hook_unsupported :: "hook_entry \<Rightarrow> hook_point \<Rightarrow> invoke_result \<Rightarrow> invocation \<Rightarrow> point_outcome \<times> invocation" where
  "hook_unsupported e p r i =
     (let error = (case iv_error r of Some x \<Rightarrow> x
                   | None \<Rightarrow> coded_error ''state-unsupported'' ''the provider cannot reach this state'')
      in if hp_scope p = State_Scope
         then (State_Unavailable (he_name e) error, i\<lparr>in_error := Some error, in_effect := Effect_State_Unavailable\<rparr>)
         else effect_of e p error (i\<lparr>in_error := Some error, in_outcome := H_Failed\<rparr>))"

definition first_invocation :: "hook_point \<Rightarrow> hook_entry \<Rightarrow> occurrence \<Rightarrow> invocation" where
  "first_invocation p e oc =
     \<lparr>in_point = hp_name p, in_hook = he_name e, in_implementation = run_kind e, in_outcome = H_Ok, in_effect = Effect_None,
      in_exchange = exchange_id oc, in_interaction = interaction_description oc, in_variant = occurrence_variant_id oc,
      in_state = state_name oc, in_changed = [], in_duration_ms = 0, in_data = None, in_values = None, in_error = None\<rparr>"

text \<open>What an answer does to the parts in flight and to the run.\<close>

definition settle ::
  "hook_host \<Rightarrow> hook_entry \<Rightarrow> hook_point \<Rightarrow> invoke_result \<Rightarrow> invocation \<Rightarrow> parts \<Rightarrow> (point_outcome \<times> invocation) \<times> parts" where
  "settle H e p r i ps =
     (if result_outcome r \<in> {H_Ok, H_Skipped}
      then (case apply_changes H r e p ps of
              (Inr changed, ps') \<Rightarrow> ((Continue, i\<lparr>in_changed := changed\<rparr>), ps')
            | (Inl refusal, ps') \<Rightarrow> (effect_of e p refusal (i\<lparr>in_outcome := H_Failed, in_error := Some refusal\<rparr>), ps'))
      else if result_outcome r = H_Unsupported then (hook_unsupported e p r i, ps)
      else
        let error = (case iv_error r of Some x \<Rightarrow> x
                     | None \<Rightarrow> coded_error ''hook-failed'' (''hook '' @ quote1 (he_name e) @ '' failed''))
        in (effect_of e p error (i\<lparr>in_error := Some error\<rparr>), ps))"

record hook_state =
  hs_runner :: hook_runner
  hs_parts :: parts
  hs_exchange :: exchange_scratch
  hs_emitted :: "json list"

text \<open>The end of an invocation: its time, the abort's own record, the event, the report.\<close>

definition close_invocation ::
  "hook_host \<Rightarrow> hook_point \<Rightarrow> hook_entry \<Rightarrow> point_outcome \<Rightarrow> invocation \<Rightarrow> json smap \<Rightarrow> hook_state \<Rightarrow> hook_state" where
  "close_invocation H p e out i run_data s =
     (let rep = hr_report (hs_runner s);
          i' = i\<lparr>in_duration_ms := hh_elapsed H (List.length (hk_invocations rep))\<rparr>;
          aborted = (case out of
              Abort_The_Run _ _ \<Rightarrow> Some \<lparr>ab_point = hp_name p, ab_hook = he_name e, ab_error = in_error i', ab_exchanges_not_run = 0\<rparr>
            | _ \<Rightarrow> hk_aborted rep)
      in s\<lparr>hs_runner := (hs_runner s)\<lparr>hr_run_data := run_data,
             hr_report := \<lparr>hk_invocations = hk_invocations rep @ [i'], hk_aborted = aborted\<rparr>\<rparr>,
           hs_emitted := hs_emitted s @ [invocation_json i']\<rparr>)"

definition invoke_entry ::
  "hook_host \<Rightarrow> lib \<Rightarrow> hook_point \<Rightarrow> occurrence \<Rightarrow> hook_entry \<Rightarrow> hook_state \<Rightarrow> point_outcome \<times> hook_state" where
  "invoke_entry H L p oc e s =
     (let R = hs_runner s;
          deadline_ms = entry_timeout_ms e p;
          context = hook_context R p e oc (hs_parts s) (xs_data (hs_exchange s)) deadline_ms;
          i = first_invocation p e oc
      in case hook_answer H L (List.length (hk_invocations (hr_report R))) e p context deadline_ms of
           Inl f \<Rightarrow>
             let (out, i') = effect_of e p (hf_error f) (i\<lparr>in_outcome := hf_outcome f, in_error := Some (hf_error f)\<rparr>)
             in (out, close_invocation H p e out i' (hr_run_data R) s)
         | Inr r \<Rightarrow>
             let (run_data, x, i') = absorb e r (hr_run_data R) (hs_exchange s) (i\<lparr>in_outcome := result_outcome r\<rparr>);
                 ((out, i''), ps) = settle H e p r i' (hs_parts s)
             in (out, close_invocation H p e out i'' run_data (s\<lparr>hs_parts := ps, hs_exchange := x\<rparr>)))"

subsection \<open>The hooks at a point\<close>

fun run_entries ::
  "hook_host \<Rightarrow> lib \<Rightarrow> hook_point \<Rightarrow> occurrence \<Rightarrow> hook_entry list \<Rightarrow> hook_state \<Rightarrow> point_outcome \<times> hook_state" where
  "run_entries H L p oc [] s = (Continue, s)"
| "run_entries H L p oc (e # es) s =
     (if \<not> hook_admits oc e then run_entries H L p oc es s
      else (case invoke_entry H L p oc e s of
              (Continue, s') \<Rightarrow> run_entries H L p oc es s'
            | (out, s') \<Rightarrow> (out, s')))"

definition run_point :: "hook_host \<Rightarrow> lib \<Rightarrow> string \<Rightarrow> occurrence \<Rightarrow> hook_state \<Rightarrow> point_outcome \<times> hook_state" where
  "run_point H L point_name oc s =
     (case find_point point_name of
        None \<Rightarrow> (Continue, s)
      | Some p \<Rightarrow> run_entries H L p oc (entries_at (hr_config (hs_runner s)) point_name) s)"

text \<open>A caller with no parts in flight (\<open>None\<close>): the hooks see empty ones, which are dropped.\<close>

definition run_point_scratch :: "hook_host \<Rightarrow> lib \<Rightarrow> string \<Rightarrow> occurrence \<Rightarrow> hook_state \<Rightarrow> point_outcome \<times> hook_state" where
  "run_point_scratch H L point_name oc s =
     (let (out, s') = run_point H L point_name oc (s\<lparr>hs_parts := []\<rparr>) in (out, s'\<lparr>hs_parts := hs_parts s\<rparr>))"

end
