(* ===== verification/Hook_Laws.thy ===== *)
theory Hook_Laws
  imports Hook_Runner Header_Values
begin

text \<open>
  What the lifecycle hooks of a run can do: which slots they change, in what order they are asked and what is
  reported, what the validation of their configuration rules out, and the change that is applied by halves.
\<close>

subsection \<open>Paths and parts\<close>

definition slot_path :: "string \<Rightarrow> string \<Rightarrow> string" where
  "slot_path part slot = ''parts.'' @ part @ ''.'' @ slot"

definition slot_at :: "parts \<Rightarrow> string \<Rightarrow> string \<Rightarrow> recorded_slot option" where
  "slot_at ps part slot = Option.bind (map_of ps part) (\<lambda>slots. map_of slots slot)"

text \<open>Parts are a map of maps, both ordered by name.\<close>

definition parts_ok :: "parts \<Rightarrow> bool" where
  "parts_ok ps \<longleftrightarrow> btree_map ps \<and> (\<forall>(part, slots) \<in> set ps. btree_map slots)"

lemma join_split_on: "join_with [c] (split_on c s) = s"
proof (induction s)
  case Nil
  then show ?case by simp
next
  case (Cons x xs)
  obtain y ys where split: "split_on c xs = y # ys" by (cases "split_on c xs") auto
  show ?case using Cons split by (cases ys) auto
qed

lemma permitted_slot:
  assumes "permits p path" and "hp_mutable p \<noteq> Whole_Parts"
  obtains part slot where "split_on (CHR ''.'') path = [''parts'', part, slot]" and "path = slot_path part slot"
proof -
  obtain part slot where split: "split_on (CHR ''.'') path = [''parts'', part, slot]"
    using assms by (auto simp: permits_def split: mutability.splits list.splits)
  have "path = join_with ''.'' (split_on (CHR ''.'') path)" by (simp add: join_split_on)
  then have "path = slot_path part slot" by (simp add: split slot_path_def)
  with split that show thesis by blast
qed

lemma part_ok: "parts_ok ps \<Longrightarrow> map_of ps part = Some slots \<Longrightarrow> btree_map slots"
  by (auto simp: parts_ok_def dest: map_of_SomeD)

lemma slots_ok:
  assumes "parts_ok ps"
  shows "btree_map (case map_of ps part of Some slots \<Rightarrow> slots | None \<Rightarrow> [])"
proof (cases "map_of ps part")
  case None
  then show ?thesis by (simp add: btree_map_def)
next
  case (Some slots)
  then show ?thesis using part_ok [OF assms] by simp
qed

lemma put_slot_ok:
  assumes "parts_ok ps"
  shows "parts_ok (put_slot part slot v ps)"
proof -
  let ?m = "case map_of ps part of Some slots \<Rightarrow> slots | None \<Rightarrow> []"
  have m: "btree_map (btree_insert slot v ?m)"
    by (rule btree_map_insert [OF slots_ok [OF assms]])
  have "set (btree_insert part x ps) \<subseteq> insert (part, x) (set ps)" for x
    by (induction part x ps rule: btree_insert.induct) auto
  then show ?thesis
    using assms m unfolding parts_ok_def put_slot_def by (force intro: btree_map_insert)
qed

lemma slot_at_put:
  assumes "parts_ok ps"
  shows "slot_at (put_slot part slot v ps) part' slot' =
    (if part' = part \<and> slot' = slot then Some v else slot_at ps part' slot')"
proof -
  have "btree_map ps" using assms by (simp add: parts_ok_def)
  then show ?thesis
    by (auto simp: slot_at_def put_slot_def map_of_btree_insert slots_ok [OF assms] split: option.splits)
qed

subsection \<open>Changes stay where they are declared\<close>

text \<open>Only the slots of \<open>paths\<close> differ.\<close>

definition confined :: "string set \<Rightarrow> parts \<Rightarrow> parts \<Rightarrow> bool" where
  "confined paths ps ps' \<longleftrightarrow>
     parts_ok ps' \<and> (\<forall>part slot. slot_path part slot \<notin> paths \<longrightarrow> slot_at ps' part slot = slot_at ps part slot)"

lemma confined_refl: "parts_ok ps \<Longrightarrow> confined A ps ps"
  by (simp add: confined_def)

lemma confined_trans: "confined A ps qs \<Longrightarrow> confined A qs rs \<Longrightarrow> confined A ps rs"
  by (simp add: confined_def)

lemma confined_mono: "confined A ps qs \<Longrightarrow> A \<subseteq> B \<Longrightarrow> confined B ps qs"
  by (auto simp: confined_def)

lemma apply_change_permitted:
  assumes "permits p path" and "hp_mutable p \<noteq> Whole_Parts"
  obtains part slot where "path = slot_path part slot"
    and "\<And>v ps. apply_change H path v ps = (case hh_slot H v of
      None \<Rightarrow> Inl (change_refused path ''the replacement is not a slot value'') | Some x \<Rightarrow> Inr (put_slot part slot x ps))"
proof -
  obtain part slot where split: "split_on (CHR ''.'') path = [''parts'', part, slot]" "path = slot_path part slot"
    using permitted_slot [OF assms] by blast
  have "apply_change H path v ps = (case hh_slot H v of
      None \<Rightarrow> Inl (change_refused path ''the replacement is not a slot value'') | Some x \<Rightarrow> Inr (put_slot part slot x ps))" for v ps
    by (simp add: apply_change_def split(1))
  with split(2) that show thesis by blast
qed

lemma apply_each_confined:
  assumes "hp_mutable p \<noteq> Whole_Parts" and "\<forall>(path, v) \<in> set cs. permits p path \<and> path \<in> A" and "parts_ok ps"
  shows "confined A ps (snd (apply_each H cs ps changed))"
  using assms(2,3)
proof (induction cs arbitrary: ps changed)
  case Nil
  then show ?case by (simp add: confined_refl)
next
  case (Cons c cs)
  obtain path v where c: "c = (path, v)" by force
  have permitted: "permits p path" "path \<in> A" using Cons.prems c by auto
  obtain part slot where path: "path = slot_path part slot"
    and step: "\<And>v ps. apply_change H path v ps = (case hh_slot H v of
      None \<Rightarrow> Inl (change_refused path ''the replacement is not a slot value'') | Some x \<Rightarrow> Inr (put_slot part slot x ps))"
    using apply_change_permitted [OF permitted(1) assms(1)] by blast
  show ?case
  proof (cases "hh_slot H v")
    case None
    then show ?thesis using Cons.prems by (simp add: c step confined_refl)
  next
    case (Some x)
    have "confined A ps (put_slot part slot x ps)"
      using Cons.prems(2) permitted(2) by (auto simp: confined_def put_slot_ok slot_at_put path)
    moreover have "confined A (put_slot part slot x ps) (snd (apply_each H cs (put_slot part slot x ps) (changed @ [path])))"
      using Cons.prems by (intro Cons.IH) (auto simp: put_slot_ok)
    ultimately show ?thesis by (simp add: c step Some confined_trans)
  qed
qed

lemma no_change_problem: "change_problem e p path = None \<longleftrightarrow> permits p path \<and> path \<in> set (he_changes e)"
  by (simp add: change_problem_def)

lemma no_change_problems:
  "List.map_filter (\<lambda>(path, v). change_problem e p path) cs = [] \<longleftrightarrow>
     (\<forall>(path, v) \<in> set cs. permits p path \<and> path \<in> set (he_changes e))"
  by (induction cs) (auto simp: map_filter_simps no_change_problem [symmetric] split: option.splits)

lemma apply_changes_confined:
  assumes "hp_mutable p \<noteq> Whole_Parts" and "parts_ok ps"
  shows "confined (set (he_changes e)) ps (snd (apply_changes H r e p ps))"
proof (cases "List.map_filter (\<lambda>(path, v). change_problem e p path) (iv_changes r)")
  case Nil
  then have "\<forall>(path, v) \<in> set (iv_changes r). permits p path \<and> path \<in> set (he_changes e)"
    by (simp only: no_change_problems)
  then show ?thesis using apply_each_confined [OF assms(1) _ assms(2)] Nil by (simp add: apply_changes_def)
next
  case (Cons refusal rest)
  then show ?thesis by (simp add: apply_changes_def confined_refl assms)
qed

lemma settle_confined:
  assumes "hp_mutable p \<noteq> Whole_Parts" and "parts_ok ps"
  shows "confined (set (he_changes e)) ps (snd (settle H e p r i ps))"
  using apply_changes_confined [OF assms, of e H r]
  by (auto simp: settle_def Let_def confined_refl assms split: prod.splits sum.splits)

lemma close_parts [simp]: "hs_parts (close_invocation H p e out i d s) = hs_parts s"
  by (simp add: close_invocation_def Let_def)

lemma invoke_entry_confined:
  assumes "hp_mutable p \<noteq> Whole_Parts" and "parts_ok (hs_parts s)"
  shows "confined (set (he_changes e)) (hs_parts s) (hs_parts (snd (invoke_entry H L p oc e s)))"
proof -
  have settled: "confined (set (he_changes e)) (hs_parts s) (snd (settle H e p r i (hs_parts s)))" for r i
    by (rule settle_confined [OF assms])
  show ?thesis
    using settled
    by (auto simp: invoke_entry_def Let_def confined_refl assms split: sum.splits prod.splits) (metis snd_conv)+
qed

lemma run_entries_confined:
  assumes "hp_mutable p \<noteq> Whole_Parts" and "parts_ok (hs_parts s)"
    and "\<forall>e \<in> set es. hook_admits oc e \<longrightarrow> set (he_changes e) \<subseteq> A"
  shows "confined A (hs_parts s) (hs_parts (snd (run_entries H L p oc es s)))"
  using assms(2,3)
proof (induction es arbitrary: s)
  case Nil
  then show ?case by (simp add: confined_refl)
next
  case (Cons e es)
  show ?case
  proof (cases "hook_admits oc e")
    case False
    then show ?thesis using Cons by simp
  next
    case True
    obtain out s' where step: "invoke_entry H L p oc e s = (out, s')" by force
    have one: "confined A (hs_parts s) (hs_parts s')"
      using invoke_entry_confined [OF assms(1) Cons.prems(1), of e H L oc] Cons.prems(2) True
      by (auto simp: step intro: confined_mono)
    then have "confined A (hs_parts s') (hs_parts (snd (run_entries H L p oc es s')))"
      using Cons.prems(2) by (intro Cons.IH) (auto simp: confined_def)
    then show ?thesis using one True by (auto simp: step intro: confined_trans split: point_outcome.splits)
  qed
qed

text \<open>C19: hooks change what they declared and nothing else. At a point that does not replace the whole of the
  parts, every slot that no admitted entry declares among its changes is, after all the hooks of the point have
  run, what it was before, whatever the hooks answered and however the run of the point ended.\<close>

theorem hooks_change_only_declared:
  assumes "find_point name = Some p" and "hp_mutable p \<noteq> Whole_Parts" and "parts_ok (hs_parts s)"
    and "\<forall>e \<in> set (entries_at (hr_config (hs_runner s)) name). hook_admits oc e \<longrightarrow> slot_path part slot \<notin> set (he_changes e)"
  shows "slot_at (hs_parts (snd (run_point H L name oc s))) part slot = slot_at (hs_parts s) part slot"
proof -
  have "confined (UNIV - {slot_path part slot}) (hs_parts s) (hs_parts (snd (run_point H L name oc s)))"
    unfolding run_point_def assms(1) option.case
    using assms(4) by (intro run_entries_confined assms(2,3)) auto
  then show ?thesis by (simp add: confined_def)
qed

subsection \<open>Changes applied by halves\<close>

text \<open>A list of changes all permitted and declared, up to a value that is not a slot.\<close>

lemma apply_change_slot:
  assumes "permits p path" and "hp_mutable p \<noteq> Whole_Parts"
  shows "\<exists>part slot. \<forall>v ps. apply_change H path v ps = (case hh_slot H v of
    None \<Rightarrow> Inl (change_refused path ''the replacement is not a slot value'') | Some x \<Rightarrow> Inr (put_slot part slot x ps))"
  by (rule apply_change_permitted [OF assms, of H]) blast

lemma apply_each_stops:
  assumes "hp_mutable p \<noteq> Whole_Parts" and "\<forall>(path, v) \<in> set (good @ [(bad, v')]). permits p path"
    and "\<forall>(path, v) \<in> set good. hh_slot H v \<noteq> None" and "hh_slot H v' = None"
  shows "apply_each H (good @ (bad, v') # rest) ps changed =
    (Inl (change_refused bad ''the replacement is not a slot value''), snd (apply_each H good ps changed))"
  using assms(2,3)
proof (induction good arbitrary: ps changed)
  case Nil
  then have "permits p bad" by simp
  then obtain part slot where "\<forall>v ps. apply_change H bad v ps = (case hh_slot H v of
      None \<Rightarrow> Inl (change_refused bad ''the replacement is not a slot value'') | Some x \<Rightarrow> Inr (put_slot part slot x ps))"
    using apply_change_slot [OF _ assms(1)] by blast
  then show ?case by (simp add: assms(4))
next
  case (Cons c good)
  obtain path v where c: "c = (path, v)" by force
  have "permits p path" using Cons.prems c by auto
  then obtain part slot where step: "\<forall>v ps. apply_change H path v ps = (case hh_slot H v of
      None \<Rightarrow> Inl (change_refused path ''the replacement is not a slot value'') | Some x \<Rightarrow> Inr (put_slot part slot x ps))"
    using apply_change_slot [OF _ assms(1)] by blast
  obtain x where "hh_slot H v = Some x" using Cons.prems c by auto
  then show ?case using Cons by (simp add: c step)
qed

text \<open>C22: a refused change is applied by halves. When every change a hook answers is permitted and declared, but
  one of the values is not a slot, the invocation fails and the changes before it stay in the parts in flight: the
  parts are those of applying the earlier changes alone. Under the policy \<open>warn\<close> the run goes on with them.\<close>

theorem refused_change_half_applied:
  assumes "hp_mutable p \<noteq> Whole_Parts" and "result_outcome r = H_Ok" and "iv_changes r = good @ (bad, v') # rest"
    and "\<forall>(path, v) \<in> set (iv_changes r). permits p path \<and> path \<in> set (he_changes e)"
    and "\<forall>(path, v) \<in> set good. hh_slot H v \<noteq> None" and "hh_slot H v' = None" and "entry_policy e p = Warn_Only"
  defines "refusal \<equiv> change_refused bad ''the replacement is not a slot value''"
  shows "settle H e p r i ps =
    ((Continue, i\<lparr>in_outcome := H_Failed, in_error := Some refusal, in_effect := Effect_Warned\<rparr>),
     snd (apply_changes H (r\<lparr>iv_changes := good\<rparr>) e p ps))"
proof -
  have "apply_each H (iv_changes r) ps [] = (Inl refusal, snd (apply_each H good ps []))"
    unfolding assms(3) refusal_def using assms(3,4) by (intro apply_each_stops [OF assms(1) _ assms(5,6)]) auto
  moreover have "List.map_filter (\<lambda>(path, v). change_problem e p path) (iv_changes r) = []"
    and "List.map_filter (\<lambda>(path, v). change_problem e p path) good = []"
    unfolding no_change_problems using assms(3,4) by auto
  ultimately show ?thesis
    by (simp add: settle_def apply_changes_def assms(2,7) effect_of_def)
qed

subsection \<open>The order of the hooks, and what is reported\<close>

definition effect_fits :: "point_outcome \<Rightarrow> hook_effect \<Rightarrow> bool" where
  "effect_fits out x \<longleftrightarrow>
     (case out of Continue \<Rightarrow> x \<in> {Effect_None, Effect_Warned} | Fail_Attempt _ _ \<Rightarrow> x = Effect_Failed_Exchange
      | State_Unavailable _ _ \<Rightarrow> x = Effect_State_Unavailable | Abort_The_Run _ _ \<Rightarrow> x = Effect_Aborted_Run)"

definition abort_after :: "string \<Rightarrow> point_outcome \<Rightarrow> hook_abort option \<Rightarrow> hook_abort option" where
  "abort_after name out before =
     (case out of
        Abort_The_Run hook error \<Rightarrow>
          Some \<lparr>ab_point = name, ab_hook = hook, ab_error = Some error, ab_exchanges_not_run = 0\<rparr>
      | _ \<Rightarrow> before)"

lemma abort_after_Continue [simp]: "abort_after name Continue before = before"
  by (simp add: abort_after_def)

text \<open>One invocation is one more entry of the report and one more event, and its effect is the outcome's.\<close>

definition one_more :: "hook_point \<Rightarrow> hook_entry \<Rightarrow> point_outcome \<Rightarrow> hook_state \<Rightarrow> hook_state \<Rightarrow> invocation \<Rightarrow> bool" where
  "one_more p e out s s' i \<longleftrightarrow>
     in_hook i = he_name e \<and> in_point i = hp_name p \<and> effect_fits out (in_effect i)
     \<and> hk_invocations (hr_report (hs_runner s')) = hk_invocations (hr_report (hs_runner s)) @ [i]
     \<and> hs_emitted s' = hs_emitted s @ [invocation_json i]
     \<and> hk_aborted (hr_report (hs_runner s')) = abort_after (hp_name p) out (hk_aborted (hr_report (hs_runner s)))
     \<and> hr_config (hs_runner s') = hr_config (hs_runner s)"

text \<open>An invocation whose outcome is decided: named, its effect the outcome's, its error the aborting one.\<close>

definition decided :: "hook_point \<Rightarrow> hook_entry \<Rightarrow> point_outcome \<times> invocation \<Rightarrow> bool" where
  "decided p e = (\<lambda>(out, i). in_hook i = he_name e \<and> in_point i = hp_name p \<and> effect_fits out (in_effect i)
     \<and> (\<forall>hook error. out = Abort_The_Run hook error \<longrightarrow> hook = he_name e \<and> in_error i = Some error))"

lemma decided_effect:
  "in_hook i = he_name e \<Longrightarrow> in_point i = hp_name p \<Longrightarrow> in_error i = Some error \<Longrightarrow> decided p e (effect_of e p error i)"
  by (auto simp: decided_def effect_of_def effect_fits_def split: hook_policy.splits)

lemma decided_settle:
  assumes "in_hook i = he_name e" and "in_point i = hp_name p" and "in_effect i = Effect_None"
  shows "decided p e (fst (settle H e p r i ps))"
  using assms
  by (auto simp: settle_def hook_unsupported_def Let_def intro!: decided_effect split: prod.splits sum.splits)
    (auto simp: decided_def effect_fits_def)

lemma absorb_keeps:
  "absorb e r d x i = (d', x', i') \<Longrightarrow> in_hook i' = in_hook i \<and> in_point i' = in_point i \<and> in_effect i' = in_effect i"
  by (auto simp: absorb_def absorb_values_def Let_def split: option.splits if_splits)

lemma decided_close:
  assumes "decided p e (out, i)"
  shows "\<exists>i'. one_more p e out s (close_invocation H p e out i d s) i'"
proof -
  let ?i = "i\<lparr>in_duration_ms := hh_elapsed H (List.length (hk_invocations (hr_report (hs_runner s))))\<rparr>"
  have "one_more p e out s (close_invocation H p e out i d s) ?i"
    using assms
    by (auto simp: one_more_def close_invocation_def Let_def decided_def abort_after_def split: point_outcome.splits)
  then show ?thesis by blast
qed

lemma invoke_entry_reports:
  assumes "invoke_entry H L p oc e s = (out, s')"
  shows "\<exists>i. one_more p e out s s' i"
proof -
  let ?i = "first_invocation p e oc"
  let ?c = "hook_context (hs_runner s) p e oc (hs_parts s) (xs_data (hs_exchange s)) (entry_timeout_ms e p)"
  have first: "in_hook ?i = he_name e" "in_point ?i = hp_name p" "in_effect ?i = Effect_None"
    by (simp_all add: first_invocation_def)
  show ?thesis
  proof (cases "hook_answer H L (List.length (hk_invocations (hr_report (hs_runner s)))) e p ?c (entry_timeout_ms e p)")
    case (Inl f)
    obtain out' i' where eff: "effect_of e p (hf_error f) (?i\<lparr>in_outcome := hf_outcome f, in_error := Some (hf_error f)\<rparr>) = (out', i')"
      by force
    have "decided p e (out', i')"
      unfolding eff [symmetric] by (rule decided_effect) (simp_all add: first)
    then show ?thesis using assms decided_close [of p e out' i']
      by (auto simp: invoke_entry_def Let_def Inl eff)
  next
    case (Inr r)
    obtain d x i' where ab: "absorb e r (hr_run_data (hs_runner s)) (hs_exchange s) (?i\<lparr>in_outcome := result_outcome r\<rparr>) = (d, x, i')"
      by (metis prod_cases3)
    obtain out' i'' ps where st: "settle H e p r i' (hs_parts s) = ((out', i''), ps)" by (metis prod.exhaust)
    have "decided p e (fst (settle H e p r i' (hs_parts s)))"
      by (rule decided_settle) (use absorb_keeps [OF ab] first in simp_all)
    then have "decided p e (out', i'')" by (simp add: st)
    from decided_close [OF this, where s = "s\<lparr>hs_parts := ps, hs_exchange := x\<rparr>"] show ?thesis
      using assms by (auto simp: invoke_entry_def Let_def Inr ab st one_more_def)
  qed
qed

text \<open>The entries of a list, in its order.\<close>

definition reported ::
  "hook_point \<Rightarrow> hook_entry list \<Rightarrow> point_outcome \<Rightarrow> hook_state \<Rightarrow> hook_state \<Rightarrow> nat \<Rightarrow> invocation list \<Rightarrow> bool" where
  "reported p admitted out s s' n new \<longleftrightarrow>
     hk_invocations (hr_report (hs_runner s')) = hk_invocations (hr_report (hs_runner s)) @ new
     \<and> hs_emitted s' = hs_emitted s @ map invocation_json new
     \<and> n \<le> List.length admitted \<and> map in_hook new = take n (map he_name admitted)
     \<and> (if out = Continue then n = List.length admitted else new \<noteq> [] \<and> effect_fits out (in_effect (last new)))
     \<and> (\<forall>i \<in> set (if out = Continue then new else butlast new). effect_fits Continue (in_effect i))
     \<and> hk_aborted (hr_report (hs_runner s')) = abort_after (hp_name p) out (hk_aborted (hr_report (hs_runner s)))"

lemma run_entries_reports:
  assumes "run_entries H L p oc es s = (out, s')"
  shows "\<exists>n new. reported p (filter (hook_admits oc) es) out s s' n new"
  using assms
proof (induction es arbitrary: s)
  case Nil
  then have "reported p (filter (hook_admits oc) []) out s s' 0 []"
    by (auto simp: reported_def abort_after_def)
  then show ?case by blast
next
  case (Cons e es)
  show ?case
  proof (cases "hook_admits oc e")
    case False
    then show ?thesis using Cons by simp
  next
    case True
    obtain mid t where step: "invoke_entry H L p oc e s = (mid, t)" by force
    obtain i where i: "one_more p e mid s t i" using invoke_entry_reports [OF step] by blast
    show ?thesis
    proof (cases "mid = Continue")
      case True
      then have "run_entries H L p oc es t = (out, s')" using Cons.prems step \<open>hook_admits oc e\<close> by simp
      then obtain n new where "reported p (filter (hook_admits oc) es) out t s' n new" using Cons.IH by blast
      then have "reported p (filter (hook_admits oc) (e # es)) out s s' (Suc n) (i # new)"
        using i True \<open>hook_admits oc e\<close> by (auto simp: reported_def one_more_def split: if_splits)
      then show ?thesis by blast
    next
      case False
      then have "out = mid" "s' = t" using Cons.prems step \<open>hook_admits oc e\<close> by (auto split: point_outcome.splits)
      then have "reported p (filter (hook_admits oc) (e # es)) out s s' (Suc 0) [i]"
        using i False \<open>hook_admits oc e\<close> by (auto simp: reported_def one_more_def)
      then show ?thesis by blast
    qed
  qed
qed


subsection \<open>What the validation rules out\<close>

lemma entries_problems_member:
  assumes "entries_problems name p at i seen es = []" and "e \<in> set es"
  shows "\<exists>j seen'. entry_problems name p (at @ ''/'' @ nat_text j) seen' e = []"
  using assms by (induction name p at i seen es rule: entries_problems.induct) auto

lemma entry_problems_permits:
  assumes "entry_problems name p at seen e = []" and "path \<in> set (he_changes e)"
  shows "permits p path"
proof -
  obtain x where "path = snd x" "x \<in> set (List.enumerate 0 (he_changes e))"
    using assms(2) by (metis imageE list.set_map map_snd_enumerate)
  then obtain j where "(j, path) \<in> set (List.enumerate 0 (he_changes e))" by (cases x) simp
  then show ?thesis using assms(1) by (fastforce simp: entry_problems_def split: if_splits)
qed

lemma entries_problems_distinct:
  "entries_problems name p at i seen es = [] \<Longrightarrow> distinct (map he_name es) \<and> set (map he_name es) \<inter> set seen = {}"
  by (induction name p at i seen es rule: entries_problems.induct) (auto simp: entry_problems_def split: if_splits)

lemma valid_entries:
  assumes "config_problems c = []" and "es = entries_at c name" and "e \<in> set es"
  shows "\<exists>p. find_point name = Some p \<and> (\<forall>path \<in> set (he_changes e). permits p path) \<and> distinct (map he_name es)"
proof -
  have m: "(name, es) \<in> set (hc_hooks c)"
    using assms(2,3) by (auto simp: entries_at_def split: option.splits dest: map_of_SomeD)
  have clean_points: "(case find_point name of
      None \<Rightarrow> [hook_problem (''/hooks/'' @ name) (quote1 name @ '' is not a lifecycle point; this engine has ''
        @ join_with '', '' (map hp_name hook_points))]
    | Some p \<Rightarrow> entries_problems name p (''/hooks/'' @ name) 0 [] es) = []"
    using assms(1) m by (auto simp: config_problems_def simp del: append.simps)
  then obtain p where p: "find_point name = Some p" and clean: "entries_problems name p (''/hooks/'' @ name) 0 [] es = []"
    by (auto split: option.splits)
  obtain j seen where "entry_problems name p ((''/hooks/'' @ name) @ ''/'' @ nat_text j) seen e = []"
    using entries_problems_member [OF clean assms(3)] by blast
  then show ?thesis using p entry_problems_permits entries_problems_distinct [OF clean] by blast
qed

lemma runner_new_valid:
  assumes "runner_new de H document about = Inr R"
  shows "config_problems (hr_config R) = []" and "\<And>name e. e \<in> set (entries_at (hr_config R) name) \<Longrightarrow> runnable H e"
proof -
  obtain c where c: "config_parse de document = Inr c"
    using assms by (auto simp: runner_new_def split: sum.splits)
  have none: "filter (\<lambda>e. \<not> runnable H e) (concat (map snd (hc_hooks c))) = []"
    using assms by (auto simp: runner_new_def c simp del: filter_concat split: list.splits)
  then have R: "hr_config R = c" using assms by (auto simp: runner_new_def c)
  show "config_problems (hr_config R) = []"
    using c unfolding R by (auto simp: config_parse_def validate_config_def split: sum.splits if_splits)
  show "runnable H e" if member: "e \<in> set (entries_at (hr_config R) name)" for name e
  proof -
    have "e \<in> set (concat (map snd (hc_hooks c)))"
    proof -
      obtain es where "map_of (hc_hooks c) name = Some es" "e \<in> set es"
        using member unfolding R entries_at_def by (cases "map_of (hc_hooks c) name") auto
      then have "es \<in> set (map snd (hc_hooks c))" by (metis map_of_SomeD snd_conv in_set_conv_nth nth_map length_map)
      then show ?thesis using \<open>e \<in> set es\<close> by auto
    qed
    then show ?thesis using none by (metis filter_empty_conv)
  qed
qed

lemma apply_each_all:
  assumes "\<forall>(path, v) \<in> set cs. permits p path \<and> (if path = ''parts'' then hh_parts H v \<noteq> None else hh_slot H v \<noteq> None)"
  shows "fst (apply_each H cs ps changed) = Inr (changed @ map fst cs)"
  using assms
proof (induction cs arbitrary: ps changed)
  case (Cons c cs)
  obtain path v where c: "c = (path, v)" by force
  have path: "permits p path" "if path = ''parts'' then hh_parts H v \<noteq> None else hh_slot H v \<noteq> None"
    using Cons.prems c by auto
  have "\<exists>ps'. apply_change H path v ps = Inr ps'"
  proof (cases "hp_mutable p")
    case Whole_Parts
    then have "path = ''parts''" using path(1) by (simp add: permits_def)
    moreover have "split_on (CHR ''.'') ''parts'' = [''parts'']" by code_simp
    ultimately show ?thesis using path(2) by (auto simp: apply_change_def)
  next
    case Mutable_None
    then show ?thesis using path(1) by (simp add: permits_def)
  next
    case Outbound_Slots
    have "path \<noteq> ''parts''"
    proof
      assume "path = ''parts''"
      moreover have "split_on (CHR ''.'') ''parts'' = [''parts'']" by code_simp
      ultimately show False using path(1) Outbound_Slots by (simp add: permits_def)
    qed
    then show ?thesis
      using path apply_change_slot [OF path(1), of H] Outbound_Slots by auto
  qed
  then show ?case using Cons by (auto simp: c)
qed simp


subsection \<open>A run\<close>

text \<open>A script that signs the request: it answers a header, then a body that is not a slot, under \<open>warn\<close>.\<close>

definition text_slot :: "string \<Rightarrow> recorded_slot" where
  "text_slot t = \<lparr>ro_content = JString t, ro_encoded = None, ro_content_type = None\<rparr>"

definition sign_answer :: invoke_result where
  "sign_answer = invoke_ok\<lparr>iv_changes := [(''parts.request.auth'', JString ''signed''), (''parts.request.body'', JNull)]\<rparr>"

definition sign_host :: hook_host where
  "sign_host =
     \<lparr>hh_invokers = [(''script'', \<lambda>n run context deadline. Inr sign_answer)], hh_components = [],
      hh_slot = (\<lambda>v. case v of JString t \<Rightarrow> Some (text_slot t) | _ \<Rightarrow> None), hh_parts = (\<lambda>v. None), hh_elapsed = (\<lambda>n. 3)\<rparr>"

definition sign_entry :: hook_entry where
  "sign_entry =
     \<lparr>he_name = ''sign'', he_run = JObject [(''kind'', JString ''script'')], he_config = None, he_when = None,
      he_changes = [''parts.request.auth'', ''parts.request.body''], he_timeout_ms = None, he_on_failure = Some ''warn'',
      he_report_data = False\<rparr>"

definition sign_config :: hook_config where
  "sign_config = \<lparr>hc_version = Some 1, hc_hooks = [(''before-request'', [sign_entry])]\<rparr>"

definition sign_runner :: hook_runner where
  "sign_runner =
     \<lparr>hr_config = sign_config, hr_run = JObject [], hr_run_data = [], hr_report = \<lparr>hk_invocations = [], hk_aborted = None\<rparr>\<rparr>"

definition sign_state :: hook_state where
  "sign_state =
     \<lparr>hs_runner = sign_runner, hs_parts = [(''request'', [(''body'', text_slot ''b''), (''path'', text_slot ''/'')])],
      hs_exchange = \<lparr>xs_data = [], xs_values = []\<rparr>, hs_emitted = []\<rparr>"

definition no_facts :: occurrence where
  "no_facts =
     \<lparr>oc_interaction = None, oc_variant = None, oc_state = None, oc_exchange = None, oc_endpoint = None,
      oc_summary = None, oc_transport = None\<rparr>"

definition before_request :: hook_point where
  "before_request =
     \<lparr>hp_name = ''before-request'', hp_scope = Exchange_Scope, hp_policy = Fail_Exchange, hp_mutable = Outbound_Slots\<rparr>"

lemma before_request_point: "find_point ''before-request'' = Some before_request"
  by (simp add: find_point_def hook_points_def before_request_def)

lemma sign_entries: "entries_at (hr_config (hs_runner sign_state)) ''before-request'' = [sign_entry]"
  by (simp add: entries_at_def sign_state_def sign_runner_def sign_config_def)

lemma sign_permits: "permits before_request ''parts.request.auth''" "permits before_request ''parts.request.body''"
  by (simp_all add: permits_def before_request_def)

lemma hooks_change_only_declared_witness:
  "\<forall>L. slot_at (hs_parts (snd (run_point sign_host L ''before-request'' no_facts sign_state))) ''request'' ''path''
    = slot_at (hs_parts sign_state) ''request'' ''path''"
  by (rule allI, rule hooks_change_only_declared [OF before_request_point])
    (simp_all add: before_request_def entries_at_def sign_runner_def sign_config_def sign_entry_def slot_path_def parts_ok_def
      btree_map_def sign_state_def)

lemma refused_change_half_applied_witness:
  "settle sign_host sign_entry before_request sign_answer (first_invocation before_request sign_entry no_facts) (hs_parts sign_state)
    = ((Continue, (first_invocation before_request sign_entry no_facts)
         \<lparr>in_outcome := H_Failed,
          in_error := Some (change_refused ''parts.request.body'' ''the replacement is not a slot value''),
          in_effect := Effect_Warned\<rparr>),
       snd (apply_changes sign_host (sign_answer\<lparr>iv_changes := [(''parts.request.auth'', JString ''signed'')]\<rparr>)
         sign_entry before_request (hs_parts sign_state)))
   \<and> slot_at (snd (apply_changes sign_host (sign_answer\<lparr>iv_changes := [(''parts.request.auth'', JString ''signed'')]\<rparr>)
         sign_entry before_request (hs_parts sign_state))) ''request'' ''auth'' = Some (text_slot ''signed'')"
proof
  show "settle sign_host sign_entry before_request sign_answer (first_invocation before_request sign_entry no_facts) (hs_parts sign_state)
    = ((Continue, (first_invocation before_request sign_entry no_facts)
         \<lparr>in_outcome := H_Failed,
          in_error := Some (change_refused ''parts.request.body'' ''the replacement is not a slot value''),
          in_effect := Effect_Warned\<rparr>),
       snd (apply_changes sign_host (sign_answer\<lparr>iv_changes := [(''parts.request.auth'', JString ''signed'')]\<rparr>)
         sign_entry before_request (hs_parts sign_state)))"
  proof (rule refused_change_half_applied [where v' = JNull and rest = "[]"])
    show "hp_mutable before_request \<noteq> Whole_Parts" by (simp add: before_request_def)
    show "result_outcome sign_answer = H_Ok" by (simp add: sign_answer_def invoke_ok_def result_outcome_def)
    show "iv_changes sign_answer = [(''parts.request.auth'', JString ''signed'')] @ [(''parts.request.body'', JNull)]"
      by (simp add: sign_answer_def)
    show "\<forall>(path, v) \<in> set (iv_changes sign_answer). permits before_request path \<and> path \<in> set (he_changes sign_entry)"
      by (simp add: sign_answer_def sign_permits sign_entry_def)
    show "\<forall>(path, v) \<in> set [(''parts.request.auth'', JString ''signed'')]. hh_slot sign_host v \<noteq> None"
      "hh_slot sign_host JNull = None"
      by (simp_all add: sign_host_def)
    show "entry_policy sign_entry before_request = Warn_Only"
      by (simp add: entry_policy_def sign_entry_def hook_policy_parse_def)
  qed
  show "slot_at (snd (apply_changes sign_host (sign_answer\<lparr>iv_changes := [(''parts.request.auth'', JString ''signed'')]\<rparr>)
         sign_entry before_request (hs_parts sign_state))) ''request'' ''auth'' = Some (text_slot ''signed'')"
    using sign_permits
    by (simp add: apply_changes_def map_filter_simps change_problem_def sign_answer_def sign_entry_def sign_host_def
        apply_change_def slot_at_put parts_ok_def btree_map_def sign_state_def)
qed



end
