(* ===== verification/Recording.thy ===== *)
theory Recording
  imports Sub_Report "HOL-Library.Product_Lexorder"
begin

text \<open>
  Recording a provider shape, engine/kernel/src/subsumption/record.rs: the evidence a position of a value
  accumulates over the responses of the provider's own tests (\<open>profile\<close>), the shape it adds up to, and the
  recorder that keeps a profile for each slot of each interaction. A counter is a natural number: it counts
  calls.
\<close>

subsection \<open>The evidence\<close>

record recording_policy =
  ry_max_options :: nat
  ry_min_evidence :: nat

definition default_recording :: recording_policy where
  "default_recording = \<lparr>ry_max_options = 8, ry_min_evidence = 3\<rparr>"

datatype profile = Profile
  (pf_seen: nat) (pf_nulls: nat) (pf_literals: "json smap") (pf_scalars: nat)
  (pf_strings: bool) (pf_booleans: bool) (pf_integers: bool) (pf_decimals: bool)
  (pf_object: "object_profile option") (pf_array: "array_profile option")
and object_profile = Object_Profile (op_count: nat) (op_members: "(string \<times> profile) list")
and array_profile = Array_Profile (ap_count: nat) (ap_min: nat) (ap_max: nat) (ap_items: profile)

definition no_evidence :: profile where
  "no_evidence = Profile 0 0 [] 0 False False False False None None"

definition literal_text :: "lib \<Rightarrow> json \<Rightarrow> string" where
  "literal_text L v = (case v of JNumber n \<Rightarrow> ''n:'' @ f64_text (as_f64 n) | _ \<Rightarrow> json_text L v)"

definition see_scalar :: "lib \<Rightarrow> json \<Rightarrow> profile \<Rightarrow> profile" where
  "see_scalar L v p =
     (case p of Profile seen nulls literals scalars strings booleans integers decimals obj arr \<Rightarrow>
        Profile seen nulls
          (case map_of literals (literal_text L v) of Some _ \<Rightarrow> literals | None \<Rightarrow> btree_insert (literal_text L v) v literals)
          (scalars + 1)
          (strings \<or> (case v of JString _ \<Rightarrow> True | _ \<Rightarrow> False)) (booleans \<or> (case v of JBool _ \<Rightarrow> True | _ \<Rightarrow> False))
          (integers \<or> (case v of JNumber n \<Rightarrow> is_written_integer n | _ \<Rightarrow> False))
          (decimals \<or> (case v of JNumber n \<Rightarrow> \<not> is_written_integer n | _ \<Rightarrow> False)) obj arr)"

definition set_object :: "object_profile \<Rightarrow> profile \<Rightarrow> profile" where
  "set_object ob p =
     (case p of Profile seen nulls literals scalars strings booleans integers decimals _ arr \<Rightarrow>
        Profile seen nulls literals scalars strings booleans integers decimals (Some ob) arr)"

definition set_array :: "array_profile \<Rightarrow> profile \<Rightarrow> profile" where
  "set_array ar p =
     (case p of Profile seen nulls literals scalars strings booleans integers decimals obj _ \<Rightarrow>
        Profile seen nulls literals scalars strings booleans integers decimals obj (Some ar))"

definition see_one :: "nat \<Rightarrow> profile \<Rightarrow> profile" where
  "see_one null p =
     (case p of Profile seen nulls literals scalars strings booleans integers decimals obj arr \<Rightarrow>
        Profile (seen + 1) (nulls + null) literals scalars strings booleans integers decimals obj arr)"

definition member_profile :: "(string \<times> profile) list \<Rightarrow> string \<Rightarrow> profile" where
  "member_profile members name = (case map_of members name of Some p \<Rightarrow> p | None \<Rightarrow> no_evidence)"

definition object_of :: "profile \<Rightarrow> object_profile" where
  "object_of p = (case pf_object p of Some ob \<Rightarrow> ob | None \<Rightarrow> Object_Profile 0 [])"

definition array_of :: "profile \<Rightarrow> array_profile" where
  "array_of p = (case pf_array p of Some ar \<Rightarrow> ar | None \<Rightarrow> Array_Profile 0 u64_max 0 no_evidence)"

fun observe :: "lib \<Rightarrow> json \<Rightarrow> profile \<Rightarrow> profile"
and observe_members :: "lib \<Rightarrow> (string \<times> json) list \<Rightarrow> (string \<times> profile) list \<Rightarrow> (string \<times> profile) list"
and observe_items :: "lib \<Rightarrow> json list \<Rightarrow> profile \<Rightarrow> profile" where
  "observe L JNull p = see_one 1 p"
| "observe L (JObject ms) p =
     (let ob = object_of p
      in set_object (Object_Profile (op_count ob + 1) (observe_members L ms (op_members ob))) (see_one 0 p))"
| "observe L (JArray vs) p =
     (let ar = array_of p
      in set_array (Array_Profile (ap_count ar + 1) (min (ap_min ar) (length vs)) (max (ap_max ar) (length vs))
           (observe_items L vs (ap_items ar))) (see_one 0 p))"
| "observe L (JBool b) p = see_scalar L (JBool b) (see_one 0 p)"
| "observe L (JNumber n) p = see_scalar L (JNumber n) (see_one 0 p)"
| "observe L (JString s) p = see_scalar L (JString s) (see_one 0 p)"
| "observe_members L [] members = members"
| "observe_members L ((name, v) # ms) members =
     observe_members L ms (btree_insert name (observe L v (member_profile members name)) members)"
| "observe_items L [] p = p"
| "observe_items L (v # vs) p = observe_items L vs (observe L v p)"

subsection \<open>The shape of the evidence\<close>

definition recorded_node :: "string \<Rightarrow> json smap \<Rightarrow> json" where
  "recorded_node operator rest = JObject ((''shape'', JString operator) # rest)"

definition structural_kinds :: "profile \<Rightarrow> nat" where
  "structural_kinds p = of_bool (pf_object p \<noteq> None) + of_bool (pf_array p \<noteq> None) + of_bool (0 < pf_scalars p)"

definition keeps_literals :: "recording_policy \<Rightarrow> profile \<Rightarrow> bool" where
  "keeps_literals policy p \<longleftrightarrow>
     length (pf_literals p) \<le> ry_max_options policy
     \<and> \<not> (length (pf_literals p) = pf_scalars p \<and> ry_min_evidence policy \<le> pf_scalars p)"

definition scalar_shape :: "recording_policy \<Rightarrow> profile \<Rightarrow> json" where
  "scalar_shape policy p =
     (let vs = map snd (pf_literals p);
          strings = pf_strings p; booleans = pf_booleans p; integers = pf_integers p; decimals = pf_decimals p
      in if booleans \<and> \<not> strings \<and> \<not> integers \<and> \<not> decimals \<and> length vs = 2 then recorded_node ''boolean'' []
         else if keeps_literals policy p
         then (if length vs = 1 then recorded_node ''equality'' [(''example'', hd vs)]
               else recorded_node ''any-of'' [(''options'', JArray vs), (''example'', hd vs)])
         else if strings \<and> \<not> booleans \<and> \<not> integers \<and> \<not> decimals then recorded_node ''string'' [(''example'', hd vs)]
         else if \<not> strings \<and> booleans \<and> \<not> integers \<and> \<not> decimals then recorded_node ''boolean'' [(''example'', hd vs)]
         else if \<not> strings \<and> \<not> booleans \<and> integers \<and> \<not> decimals then recorded_node ''integer'' [(''example'', hd vs)]
         else if \<not> strings \<and> \<not> booleans \<and> \<not> integers \<and> decimals then recorded_node ''decimal'' [(''example'', hd vs)]
         else if \<not> strings \<and> \<not> booleans \<and> integers \<and> decimals then recorded_node ''number'' [(''example'', hd vs)]
         else recorded_node ''any'' [])"

text \<open>The nullable wrapping of \<open>to_shape\<close> around the shape of what is not null.\<close>

definition null_or :: "profile \<Rightarrow> json \<Rightarrow> json option" where
  "null_or p vs =
     (if pf_seen p = 0 then None
      else if pf_seen p - pf_nulls p = 0 then Some (recorded_node ''null'' [])
      else Some (if 0 < pf_nulls p then recorded_node ''nullable'' [(''of'', vs)] else vs))"

definition member_shape :: "nat \<Rightarrow> profile \<Rightarrow> json \<Rightarrow> json" where
  "member_shape count member s = (if pf_seen member < count then recorded_node ''optional'' [(''of'', s)] else s)"

fun to_shape :: "recording_policy \<Rightarrow> profile \<Rightarrow> json option"
and object_shape :: "recording_policy \<Rightarrow> object_profile \<Rightarrow> json"
and member_shapes :: "recording_policy \<Rightarrow> nat \<Rightarrow> (string \<times> profile) list \<Rightarrow> json smap"
and array_shape :: "recording_policy \<Rightarrow> array_profile \<Rightarrow> json" where
  "to_shape policy (Profile seen nulls literals scalars strings booleans integers decimals obj arr) =
     (let p = Profile seen nulls literals scalars strings booleans integers decimals obj arr in
      null_or p
        (if structural_kinds p = 1
         then (case obj of
                 Some ob \<Rightarrow> object_shape policy ob
               | None \<Rightarrow> (case arr of Some ar \<Rightarrow> array_shape policy ar | None \<Rightarrow> scalar_shape policy p))
         else recorded_node ''any'' []))"
| "object_shape policy (Object_Profile count members) =
     recorded_node ''object'' [(''members'', JObject (member_shapes policy count members))]"
| "member_shapes policy count [] = []"
| "member_shapes policy count ((name, member) # members) =
     (case to_shape policy member of
        None \<Rightarrow> member_shapes policy count members
      | Some s \<Rightarrow> (name, member_shape count member s) # member_shapes policy count members)"
| "array_shape policy (Array_Profile count least most items) =
     recorded_node ''each-like''
       [(''min'', JNumber (PosInt least)), (''max'', JNumber (PosInt most)),
        (''items'', case to_shape policy items of Some s \<Rightarrow> s | None \<Rightarrow> recorded_node ''any'' [])]"

subsection \<open>The recorder\<close>

record observed =
  ob_parts :: "profile smap smap"
  ob_observations :: nat

record recorder =
  rr_provider :: string
  rr_provenance :: string
  rr_policy :: recording_policy
  rr_interactions :: "((string \<times> string list) \<times> observed) list"

text \<open>Insertion into a \<open>BTreeMap\<close> keyed by an interaction's identity.\<close>

fun keyed_insert :: "string \<times> string list \<Rightarrow> 'a \<Rightarrow> ((string \<times> string list) \<times> 'a) list \<Rightarrow> ((string \<times> string list) \<times> 'a) list" where
  "keyed_insert k v [] = [(k, v)]"
| "keyed_insert k v ((k', v') # m) =
     (if k = k' then (k, v) # m else if k < k' then (k, v) # (k', v') # m else (k', v') # keyed_insert k v m)"

definition recorder_with_policy :: "string \<Rightarrow> recording_policy \<Rightarrow> recorder" where
  "recorder_with_policy provider policy =
     \<lparr>rr_provider = provider, rr_provenance = ''recorded'', rr_policy = policy, rr_interactions = []\<rparr>"

definition recorder_new :: "string \<Rightarrow> recorder" where
  "recorder_new provider = recorder_with_policy provider default_recording"

definition recorder_observations :: "recorder \<Rightarrow> string \<Rightarrow> string list \<Rightarrow> nat" where
  "recorder_observations r description states =
     (case map_of (rr_interactions r) (description, states) of Some o' \<Rightarrow> ob_observations o' | None \<Rightarrow> 0)"

definition interaction_count :: "recorder \<Rightarrow> nat" where
  "interaction_count r = length (rr_interactions r)"

definition observe_slots :: "lib \<Rightarrow> json smap \<Rightarrow> profile smap \<Rightarrow> profile smap" where
  "observe_slots L slots kept =
     fold (\<lambda>(slot, v) kept. btree_insert slot (observe L v (member_profile kept slot)) kept) slots kept"

definition observe_parts :: "lib \<Rightarrow> json smap smap \<Rightarrow> profile smap smap \<Rightarrow> profile smap smap" where
  "observe_parts L ps kept =
     fold (\<lambda>(part, slots) kept.
       btree_insert part (observe_slots L slots (case map_of kept part of Some m \<Rightarrow> m | None \<Rightarrow> [])) kept) ps kept"

definition recorder_observe :: "lib \<Rightarrow> string \<Rightarrow> string list \<Rightarrow> json smap smap \<Rightarrow> recorder \<Rightarrow> recorder" where
  "recorder_observe L description states ps r =
     (let o' = (case map_of (rr_interactions r) (description, states) of
                  Some o' \<Rightarrow> o' | None \<Rightarrow> \<lparr>ob_parts = [], ob_observations = 0\<rparr>)
      in r\<lparr>rr_interactions := keyed_insert (description, states)
             \<lparr>ob_parts = observe_parts L ps (ob_parts o'), ob_observations = ob_observations o' + 1\<rparr> (rr_interactions r)\<rparr>)"

definition recorded_slots :: "recording_policy \<Rightarrow> profile smap \<Rightarrow> json smap" where
  "recorded_slots policy slots = List.map_filter (\<lambda>(slot, p). map_option (Pair slot) (to_shape policy p)) slots"

definition recorded_interaction :: "recording_policy \<Rightarrow> (string \<times> string list) \<times> observed \<Rightarrow> provider_interaction" where
  "recorded_interaction policy = (\<lambda>((description, states), o').
     \<lparr>pi_description = description, pi_states = (if states = [] then None else Some states), pi_selector = None,
      pi_provenance = None, pi_source = Some [(''observations'', JNumber (PosInt (ob_observations o')))],
      pi_parts = filter (\<lambda>(part, slots). slots \<noteq> [])
        (map (\<lambda>(part, slots). (part, recorded_slots policy slots)) (ob_parts o'))\<rparr>)"

definition recorder_finish :: "recorder \<Rightarrow> provider_shape" where
  "recorder_finish r =
     \<lparr>ph_format = pz_writes provider_shape_format, ph_schema = None, ph_provider = \<lparr>pa_name = rr_provider r\<rparr>,
      ph_provenance = Some (rr_provenance r), ph_metadata = None,
      ph_interactions = map (recorded_interaction (rr_policy r)) (rr_interactions r)\<rparr>"

end
