(* ===== verification/Record_Read.thy ===== *)
theory Record_Read
  imports Parse_Laws Admits_Laws
begin

text \<open>
  Reading a shape document node by node: what an accepted node says of its operator and of its children. The
  converse of the rules of \<open>Parse_Laws\<close>, for the operators a recorder writes.
\<close>

subsection \<open>An accepted node\<close>

definition reads :: "json \<Rightarrow> shape \<Rightarrow> bool" where
  "reads D s \<longleftrightarrow> wf_json D \<and> (\<exists>pos path d st st'. state_ok st \<and> parse_child D pos path d st = (Some s, st') \<and> bd_problems st' = [])"

text \<open>A call of the parser of a child that is part of an accepted parse.\<close>

lemma called_reads:
  assumes "parse_child D pos path d st = (r, st')" and "state_ok st" and "wf_json D" and "bd_problems st' = []"
  shows "state_ok st' \<and> bd_problems st = [] \<and> (\<exists>s. r = Some s \<and> reads D s)"
proof -
  have "reports_under path st st'" and "r \<noteq> None"
    using child_parsed [OF assms(3), of path pos d st] assms by (auto simp: yields_def split: option.splits)
  moreover obtain s where "r = Some s" using \<open>r \<noteq> None\<close> by blast
  moreover have "reads D s" unfolding reads_def using assms \<open>r = Some s\<close> by blast
  ultimately show ?thesis using assms by (blast dest: reports_ok reports_clean)
qed

lemma reads_member: "reads (JObject obj) s \<Longrightarrow> map_of obj k = Some D \<Longrightarrow> wf_json D"
  unfolding reads_def by (fastforce simp: list_all_iff dest: map_of_SomeD)

lemma reads_parsed: "shape_parse D at = Inr s \<Longrightarrow> wf_json D \<Longrightarrow> reads D s"
proof -
  assume s: "shape_parse D at = Inr s" and D: "wf_json D"
  obtain r st where r: "parse_child D NotASlot at 0 parse_start = (r, st)" by fastforce
  then have "r = Some s" "bd_problems st = []" using s by (auto simp: shape_parse_def split: option.splits if_splits)
  moreover have "state_ok parse_start" by (simp add: state_ok_def parse_start_def)
  ultimately show "reads D s" using D r unfolding reads_def by blast
qed

lemma entered: "budget_enter d path st = (b, st1) \<Longrightarrow> state_ok st \<Longrightarrow> state_ok st1"
  by (auto simp: budget_enter_def Let_def state_ok_def report_def split: if_splits)

lemma reads_core:
  assumes "reads (JObject obj) s" and "map_of obj ''shape'' = Some (JString operator)" and "operator \<in> set core_operators"
    and "map_of obj ''encoded'' = None"
  obtains c path d st st' where "state_ok st"
    "parse_core parse_child operator obj (map_option (\<lambda>v. \<lparr>ex_value = v, ex_encoded = None\<rparr>) (map_of obj ''example'')) path d st = (Some c, st')"
    "bd_problems st' = []"
    "s = ShapeNode (map_option (\<lambda>v. \<lparr>ex_value = v, ex_encoded = None\<rparr>) (map_of obj ''example'')) (map_of obj ''generator'') (Core c)"
proof -
  let ?ex = "map_option (\<lambda>v. \<lparr>ex_value = v, ex_encoded = None\<rparr>) (map_of obj ''example'')"
  obtain pos path d st st' where call: "state_ok st" "parse_child (JObject obj) pos path d st = (Some s, st')" "bd_problems st' = []"
    using assms(1) by (auto simp: reads_def)
  have plain: "split_once (CHR '':'') operator = None"
  proof -
    have "list_all (\<lambda>op. split_once (CHR '':'') op = None) core_operators" by code_simp
    then show ?thesis using assms(3) by (simp add: list_all_iff)
  qed
  obtain st1 where enter: "budget_enter d path st = (True, st1)"
    using call(2) by (subst (asm) parse_child.simps) (auto simp: child_step_def split: prod.splits bool.splits)
  have ex: "parse_example obj path st1 = (?ex, st1)"
    using assms(4) by (auto simp: parse_example_def split: option.split)
  obtain r st2 where core: "parse_core parse_child operator obj ?ex path d st1 = (r, st2)" by fastforce
  have node: "parse_node parse_child (JObject obj) path d st1 =
      (map_option (\<lambda>c. ShapeNode ?ex (map_of obj ''generator'') (Core c)) r, st2)"
    using assms(2,3) plain ex core by (auto simp: parse_node_def parse_operator_def and_then_def split: option.split)
  from call(2) obtain c where "r = Some c" "s = ShapeNode ?ex (map_of obj ''generator'') (Core c)"
      "st' = st2 \<or> (\<exists>m. st' = report path m st2)"
    by (subst (asm) parse_child.simps)
      (auto simp: child_step_def enter node and_then_def split: option.splits if_splits)
  then show thesis using that [OF entered [OF enter call(1)], of path d c st2] core call(3) by auto
qed

subsection \<open>The operators\<close>

lemma under_reads:
  assumes "parse_under parse_child obj m operator path d st = (Some s, st')" and "state_ok st" and "bd_problems st' = []"
    and "map_of obj m = Some D" and "wf_json D"
  shows "reads D s \<and> state_ok st'"
  using assms called_reads [of D NotASlot "path @ ''/'' @ m" "d + 1" st "Some s" st']
  by (auto simp: parse_under_def require_member_def and_then_def)

lemma child_yields_parse: "child_yields parse_child"
  by (simp add: child_yields_def child_parsed)

lemma members_read:
  assumes "parse_members parse_child path d ms acc st = (out, st')" and "state_ok st" and "bd_problems st' = []"
    and "list_all (\<lambda>(n, v). wf_json v) ms" and "index_map acc" and "(n, s) \<in> set out"
  shows "(n, s) \<in> set acc \<or> (\<exists>v. (n, v) \<in> set ms \<and> reads v s)"
  using assms
proof (induction ms arbitrary: acc st)
  case (Cons m ms)
  obtain k v where m: "m = (k, v)" by force
  let ?q = "push_pointer_segment (path @ ''/members'') k"
  obtain r st1 where r: "parse_child v ObjectMember ?q (d + 1) st = (r, st1)" by fastforce
  let ?acc = "case r of Some x \<Rightarrow> index_insert k x acc | None \<Rightarrow> acc"
  have rest: "parse_members parse_child path d ms ?acc st1 = (out, st')"
    using Cons.prems(1) by (cases r) (simp_all only: m parse_members.simps r prod.case option.case)
  have wf: "wf_json v" "list_all (\<lambda>(_, v). wf_json v) ms" using Cons.prems(4) by (auto simp: m)
  have "state_ok st1"
    using child_parsed [OF wf(1), of ?q ObjectMember "d + 1" st] Cons.prems(2) r by (auto simp: yields_def dest: reports_ok)
  have acc: "index_map ?acc" using Cons.prems(5) by (auto simp: index_map_insert split: option.split)
  have "reports_under path st1 st'"
    using members_yield [OF child_yields_parse wf(2) acc \<open>state_ok st1\<close>, of path d] rest by (simp split: prod.splits)
  then have "bd_problems st1 = []" using Cons.prems(3) by (rule reports_clean)
  from called_reads [OF r Cons.prems(2) wf(1) this] obtain x where x: "r = Some x" "reads v x" by blast
  have "(n, s) \<in> set ?acc \<or> (\<exists>v. (n, v) \<in> set ms \<and> reads v s)"
    using Cons.IH [OF rest \<open>state_ok st1\<close> Cons.prems(3) _ acc Cons.prems(6)] wf(2) by (simp add: case_prod_unfold)
  moreover have "(n, s) \<in> set acc \<or> (n, s) = (k, x)" if "(n, s) \<in> set ?acc"
    using that x(1) by (induction k x acc rule: index_insert.induct) (auto split: if_splits)
  ultimately show ?case using x(2) by (auto simp: m)
qed simp

abbreviation shown_example :: "json smap \<Rightarrow> example option" where
  "shown_example obj \<equiv> map_option (\<lambda>v. \<lparr>ex_value = v, ex_encoded = None\<rparr>) (map_of obj ''example'')"

lemma reads_leaf:
  assumes "reads (JObject obj) s" and "map_of obj ''encoded'' = None" and "map_of obj ''shape'' = Some (JString operator)"
    and "(operator, c) \<in> {(''any'', Any), (''string'', Kind VK_String), (''number'', Kind VK_Number), (''integer'', Kind VK_Integer),
      (''decimal'', Kind VK_Decimal), (''boolean'', Kind VK_Boolean), (''null'', Kind VK_Null), (''equality'', Equality)}"
  shows "s = ShapeNode (shown_example obj) (map_of obj ''generator'') (Core c)"
proof -
  have "operator \<in> set core_operators" using assms(4) by (auto simp: core_operators_def)
  from reads_core [OF assms(1,3) this assms(2)] obtain c' path d st st' where
    core: "parse_core parse_child operator obj (shown_example obj) path d st = (Some c', st')"
    and s: "s = ShapeNode (shown_example obj) (map_of obj ''generator'') (Core c')" by metis
  have "c' = c" using core assms(4) by (auto simp: parse_core_def)
  then show ?thesis using s by simp
qed

lemma reads_any_of:
  assumes "reads (JObject obj) s" and "map_of obj ''encoded'' = None" and "map_of obj ''shape'' = Some (JString ''any-of'')"
    and "map_of obj ''options'' = Some (JArray options)"
  shows "s = ShapeNode (shown_example obj) (map_of obj ''generator'') (Core (AnyOf options))"
proof -
  have "''any-of'' \<in> set core_operators" by (simp add: core_operators_def)
  from reads_core [OF assms(1,3) this assms(2)] obtain c' path d st st' where
    core: "parse_core parse_child ''any-of'' obj (shown_example obj) path d st = (Some c', st')"
    and s: "s = ShapeNode (shown_example obj) (map_of obj ''generator'') (Core c')" by metis
  have "c' = AnyOf options"
    using core assms(4) by (auto simp: parse_core_def parse_any_of_def and_then_def require_member_def split: if_splits)
  then show ?thesis using s by simp
qed

lemma reads_wrapped:
  assumes "reads (JObject obj) s" and "map_of obj ''encoded'' = None" and "map_of obj ''shape'' = Some (JString operator)"
    and "(operator, wrap) \<in> {(''nullable'', Nullable), (''optional'', Optional)}" and "map_of obj ''of'' = Some D"
  obtains t where "reads D t" "s = ShapeNode (shown_example obj) (map_of obj ''generator'') (Core (wrap t))"
proof -
  have D: "wf_json D" using reads_member [OF assms(1,5)] .
  have "operator \<in> set core_operators" using assms(4) by (auto simp: core_operators_def)
  from reads_core [OF assms(1,3) this assms(2)] obtain c' path d st st' where st: "state_ok st"
    and core: "parse_core parse_child operator obj (shown_example obj) path d st = (Some c', st')" and clean: "bd_problems st' = []"
    and s: "s = ShapeNode (shown_example obj) (map_of obj ''generator'') (Core c')" by metis
  obtain r st1 where r: "parse_under parse_child obj ''of'' operator path d st = (r, st1)" by fastforce
  obtain t where t: "r = Some t" "c' = wrap t" "bd_problems st1 = []"
    using core assms(4) r clean
    by (auto simp: parse_core_def parse_nullable_def and_then_def split: option.splits shape_kind.splits core_shape.splits)
  from under_reads [OF r [unfolded t(1)] st t(3) assms(5) D] that s t(2) show thesis by blast
qed

lemma reads_object:
  assumes "reads (JObject obj) s" and "map_of obj ''encoded'' = None" and "map_of obj ''shape'' = Some (JString ''object'')"
    and "map_of obj ''members'' = Some (JObject ms)"
  obtains members where "s = ShapeNode (shown_example obj) (map_of obj ''generator'') (Core (Object members))"
    "\<And>n t. (n, t) \<in> set members \<Longrightarrow> \<exists>v. (n, v) \<in> set ms \<and> reads v t"
proof -
  have ms: "list_all (\<lambda>(n, v). wf_json v) ms"
    using reads_member [OF assms(1,4)] by simp
  have "''object'' \<in> set core_operators" by (simp add: core_operators_def)
  from reads_core [OF assms(1,3) this assms(2)] obtain c' path d st st' where st: "state_ok st"
    and core: "parse_core parse_child ''object'' obj (shown_example obj) path d st = (Some c', st')" and clean: "bd_problems st' = []"
    and s: "s = ShapeNode (shown_example obj) (map_of obj ''generator'') (Core c')" by metis
  obtain out st1 where out: "parse_members parse_child path d ms [] st = (out, st1)" by fastforce
  have "c' = Object out" "st' = st1"
    using core assms(4) out by (auto simp: parse_core_def parse_object_def and_then_def require_member_def)
  moreover have "\<exists>v. (n, v) \<in> set ms \<and> reads v t" if "(n, t) \<in> set out" for n t
    using members_read [OF out st _ ms _ that] clean \<open>st' = st1\<close> by (auto simp: index_map_def)
  ultimately show thesis using that s by blast
qed

lemma reads_each_like:
  assumes "reads (JObject obj) s" and "map_of obj ''encoded'' = None" and "map_of obj ''shape'' = Some (JString ''each-like'')"
    and "map_of obj ''items'' = Some D" and "map_of obj ''min'' = Some (JNumber (PosInt least))"
    and "map_of obj ''max'' = Some (JNumber (PosInt most))"
  obtains t where "reads D t" "s = ShapeNode (shown_example obj) (map_of obj ''generator'') (Core (EachLike t least (Some most)))"
proof -
  have D: "wf_json D" using reads_member [OF assms(1,4)] .
  have "''each-like'' \<in> set core_operators" by (simp add: core_operators_def)
  from reads_core [OF assms(1,3) this assms(2)] obtain c' path d st st' where st: "state_ok st"
    and core: "parse_core parse_child ''each-like'' obj (shown_example obj) path d st = (Some c', st')" and clean: "bd_problems st' = []"
    and s: "s = ShapeNode (shown_example obj) (map_of obj ''generator'') (Core c')" by metis
  obtain r st1 where r: "parse_under parse_child obj ''items'' ''each-like'' path d st = (r, st1)" by fastforce
  obtain t where t: "r = Some t" "c' = EachLike t least (Some most)" "bd_problems st1 = []"
    using core r clean assms(5,6)
    by (auto simp: parse_core_def parse_each_like_def parse_cardinality_def parse_bound_def value_u64_def and_then_def
        split: option.splits if_splits)
  from under_reads [OF r [unfolded t(1)] st t(3) assms(4) D] that s t(2) show thesis by blast
qed

end
