(* ===== verification/Record_Laws.thy ===== *)
theory Record_Laws
  imports Recording Record_Read Sub_Theorems Sampler_Laws
begin

text \<open>
  What a recorded shape admits: every response that was recorded. The evidence of a profile covers each value
  observed (\<open>holds\<close>), later observations keep it, and the shape a profile adds up to admits what it covers.
\<close>

subsection \<open>The parts of a profile\<close>

lemma set_object_simps [simp]:
  "pf_seen (set_object ob p) = pf_seen p" "pf_nulls (set_object ob p) = pf_nulls p"
  "pf_literals (set_object ob p) = pf_literals p" "pf_scalars (set_object ob p) = pf_scalars p"
  "pf_strings (set_object ob p) = pf_strings p" "pf_booleans (set_object ob p) = pf_booleans p"
  "pf_integers (set_object ob p) = pf_integers p" "pf_decimals (set_object ob p) = pf_decimals p"
  "pf_object (set_object ob p) = Some ob" "pf_array (set_object ob p) = pf_array p"
  by (cases p, simp add: set_object_def)+

lemma set_array_simps [simp]:
  "pf_seen (set_array ar p) = pf_seen p" "pf_nulls (set_array ar p) = pf_nulls p"
  "pf_literals (set_array ar p) = pf_literals p" "pf_scalars (set_array ar p) = pf_scalars p"
  "pf_strings (set_array ar p) = pf_strings p" "pf_booleans (set_array ar p) = pf_booleans p"
  "pf_integers (set_array ar p) = pf_integers p" "pf_decimals (set_array ar p) = pf_decimals p"
  "pf_object (set_array ar p) = pf_object p" "pf_array (set_array ar p) = Some ar"
  by (cases p, simp add: set_array_def)+

lemma see_one_simps [simp]:
  "pf_seen (see_one n p) = pf_seen p + 1" "pf_nulls (see_one n p) = pf_nulls p + n"
  "pf_literals (see_one n p) = pf_literals p" "pf_scalars (see_one n p) = pf_scalars p"
  "pf_strings (see_one n p) = pf_strings p" "pf_booleans (see_one n p) = pf_booleans p"
  "pf_integers (see_one n p) = pf_integers p" "pf_decimals (see_one n p) = pf_decimals p"
  "pf_object (see_one n p) = pf_object p" "pf_array (see_one n p) = pf_array p"
  by (cases p, simp add: see_one_def)+

lemma see_scalar_simps [simp]:
  "pf_seen (see_scalar L v p) = pf_seen p" "pf_nulls (see_scalar L v p) = pf_nulls p"
  "pf_literals (see_scalar L v p) =
     (case map_of (pf_literals p) (literal_text L v) of
        Some _ \<Rightarrow> pf_literals p | None \<Rightarrow> btree_insert (literal_text L v) v (pf_literals p))"
  "pf_scalars (see_scalar L v p) = pf_scalars p + 1"
  "pf_strings (see_scalar L v p) = (pf_strings p \<or> (case v of JString _ \<Rightarrow> True | _ \<Rightarrow> False))"
  "pf_booleans (see_scalar L v p) = (pf_booleans p \<or> (case v of JBool _ \<Rightarrow> True | _ \<Rightarrow> False))"
  "pf_integers (see_scalar L v p) = (pf_integers p \<or> (case v of JNumber n \<Rightarrow> is_written_integer n | _ \<Rightarrow> False))"
  "pf_decimals (see_scalar L v p) = (pf_decimals p \<or> (case v of JNumber n \<Rightarrow> \<not> is_written_integer n | _ \<Rightarrow> False))"
  "pf_object (see_scalar L v p) = pf_object p" "pf_array (see_scalar L v p) = pf_array p"
  by (cases p, simp only: see_scalar_def profile.case profile.sel)+

lemma no_evidence_simps [simp]:
  "pf_seen no_evidence = 0" "pf_nulls no_evidence = 0" "pf_literals no_evidence = []" "pf_scalars no_evidence = 0"
  "pf_object no_evidence = None" "pf_array no_evidence = None"
  by (simp_all add: no_evidence_def)

lemma observed_seen [simp]: "pf_seen (observe L v p) = pf_seen p + 1"
  by (cases v) (simp_all add: Let_def)

subsection \<open>Evidence\<close>

text \<open>The flag of a scalar's kind.\<close>

definition flagged :: "profile \<Rightarrow> json \<Rightarrow> bool" where
  "flagged p v =
     (case v of
        JString _ \<Rightarrow> pf_strings p | JBool _ \<Rightarrow> pf_booleans p
      | JNumber n \<Rightarrow> (if is_written_integer n then pf_integers p else pf_decimals p) | _ \<Rightarrow> False)"

definition covered :: "lib \<Rightarrow> json \<Rightarrow> profile \<Rightarrow> bool" where
  "covered L v p \<longleftrightarrow> map_of (pf_literals p) (literal_text L v) \<noteq> None \<and> flagged p v"

text \<open>A value the evidence covers: a null was seen; every member of an object has its own evidence, and one it
  lacks was lacking; a list is as long as some list was, and its elements are covered; a scalar has its literal.\<close>

fun holds :: "lib \<Rightarrow> json \<Rightarrow> profile \<Rightarrow> bool" where
  "holds L JNull p = (0 < pf_nulls p)"
| "holds L (JObject ms) p =
     (case pf_object p of
        None \<Rightarrow> False
      | Some ob \<Rightarrow>
          list_all (\<lambda>(name, v). case map_of (op_members ob) name of None \<Rightarrow> False | Some m \<Rightarrow> holds L v m) ms
          \<and> (\<forall>(name, m) \<in> set (op_members ob). map_of ms name = None \<longrightarrow> pf_seen m < op_count ob))"
| "holds L (JArray vs) p =
     (case pf_array p of
        None \<Rightarrow> False
      | Some ar \<Rightarrow> ap_min ar \<le> length vs \<and> length vs \<le> ap_max ar \<and> list_all (\<lambda>v. holds L v (ap_items ar)) vs)"
| "holds L v p = covered L v p"

text \<open>A value whose scalars are among \<open>S\<close>.\<close>

fun within :: "json set \<Rightarrow> json \<Rightarrow> bool" where
  "within S JNull = True"
| "within S (JArray vs) = list_all (within S) vs"
| "within S (JObject ms) = (index_map ms \<and> list_all (\<lambda>(name, v). within S v) ms)"
| "within S v = (v \<in> S)"

text \<open>A profile whose counters add up, with one literal for each text.\<close>

definition count_of :: "object_profile option \<Rightarrow> nat" where
  "count_of obj = (case obj of None \<Rightarrow> 0 | Some ob \<Rightarrow> op_count ob)"

definition list_count :: "array_profile option \<Rightarrow> nat" where
  "list_count arr = (case arr of None \<Rightarrow> 0 | Some ar \<Rightarrow> ap_count ar)"

definition literals_ok :: "lib \<Rightarrow> json set \<Rightarrow> profile \<Rightarrow> bool" where
  "literals_ok L S p \<longleftrightarrow>
     btree_map (pf_literals p) \<and> (pf_scalars p = 0 \<longleftrightarrow> pf_literals p = [])
     \<and> (\<forall>(t, v) \<in> set (pf_literals p). t = literal_text L v \<and> flagged p v \<and> v \<in> S)"

fun profile_ok :: "lib \<Rightarrow> json set \<Rightarrow> profile \<Rightarrow> bool"
and object_ok :: "lib \<Rightarrow> json set \<Rightarrow> object_profile \<Rightarrow> bool"
and array_ok :: "lib \<Rightarrow> json set \<Rightarrow> array_profile \<Rightarrow> bool" where
  "profile_ok L S (Profile seen nulls literals scalars strings booleans integers decimals obj arr) =
     (seen = nulls + scalars + count_of obj + list_count arr
      \<and> literals_ok L S (Profile seen nulls literals scalars strings booleans integers decimals obj arr)
      \<and> (case obj of None \<Rightarrow> True | Some ob \<Rightarrow> object_ok L S ob) \<and> (case arr of None \<Rightarrow> True | Some ar \<Rightarrow> array_ok L S ar))"
| "object_ok L S (Object_Profile count members) =
     (0 < count \<and> btree_map members \<and> list_all (\<lambda>(name, m). profile_ok L S m \<and> 0 < pf_seen m \<and> pf_seen m \<le> count) members)"
| "array_ok L S (Array_Profile count least most items) =
     (0 < count \<and> least \<le> most \<and> profile_ok L S items)"

lemma profile_ok_iff:
  "profile_ok L S p \<longleftrightarrow>
     pf_seen p = pf_nulls p + pf_scalars p + count_of (pf_object p) + list_count (pf_array p) \<and> literals_ok L S p
     \<and> (\<forall>ob. pf_object p = Some ob \<longrightarrow> object_ok L S ob) \<and> (\<forall>ar. pf_array p = Some ar \<longrightarrow> array_ok L S ar)"
  by (cases p) (auto split: option.splits)

lemma object_ok_iff:
  "object_ok L S ob \<longleftrightarrow> 0 < op_count ob \<and> btree_map (op_members ob)
     \<and> (\<forall>(name, m) \<in> set (op_members ob). profile_ok L S m \<and> 0 < pf_seen m \<and> pf_seen m \<le> op_count ob)"
  by (cases ob) (auto simp: list_all_iff)

lemma array_ok_iff:
  "array_ok L S ar \<longleftrightarrow> 0 < ap_count ar \<and> ap_min ar \<le> ap_max ar \<and> profile_ok L S (ap_items ar)"
  by (cases ar) simp

lemma no_evidence_ok [simp]: "profile_ok L S no_evidence"
  by (simp add: profile_ok_iff count_of_def list_count_def literals_ok_def btree_map_def)

subsection \<open>Observing\<close>

lemma literals_grow:
  assumes "literals_ok L S p" and "map_of (pf_literals p) t \<noteq> None"
  shows "map_of (pf_literals (see_scalar L v p)) t \<noteq> None"
  using assms by (auto simp: literals_ok_def map_of_btree_insert split: option.split)

lemma flagged_grow: "flagged p w \<Longrightarrow> flagged (see_scalar L v p) w"
  by (auto simp: flagged_def split: json.splits)

lemma scalar_flagged:
  "v = JBool b \<or> v = JNumber n \<or> v = JString t \<Longrightarrow> flagged (see_scalar L v p) v"
  by (auto simp: flagged_def)

lemma see_scalar_literals_ok:
  assumes ok: "literals_ok L S p" and v: "v = JBool b \<or> v = JNumber n \<or> v = JString t" "v \<in> S"
  shows "literals_ok L S (see_scalar L v p)"
proof -
  have "set (btree_insert (literal_text L v) v (pf_literals p)) \<subseteq> insert (literal_text L v, v) (set (pf_literals p))"
    by (rule set_btree_insert_old)
  moreover have "btree_insert (literal_text L v) v (pf_literals p) \<noteq> []"
    by (cases "pf_literals p") (auto split: if_splits)
  ultimately show ?thesis
    using ok v(2) scalar_flagged [OF v(1), of L p] flagged_grow [of p _ L v]
    by (fastforce simp: literals_ok_def btree_map_insert split: option.split)
qed

lemma scalar_covered:
  assumes "literals_ok L S p" and "v = JBool b \<or> v = JNumber n \<or> v = JString t"
  shows "covered L v (see_scalar L v p)"
  using assms scalar_flagged [OF assms(2)]
  by (auto simp: covered_def literals_ok_def map_of_btree_insert split: option.split)

lemma covered_grow: "literals_ok L S p \<Longrightarrow> covered L w p \<Longrightarrow> covered L w (see_scalar L v p)"
  using literals_grow flagged_grow by (simp add: covered_def del: see_scalar_simps)

lemma covered_see [simp]:
  "covered L w (see_one n p) = covered L w p" "covered L w (set_object ob p) = covered L w p"
  "covered L w (set_array ar p) = covered L w p"
  by (auto simp: covered_def flagged_def split: json.splits)

lemma literals_ok_see [simp]:
  "literals_ok L S (see_one n p) = literals_ok L S p" "literals_ok L S (set_object ob p) = literals_ok L S p"
  "literals_ok L S (set_array ar p) = literals_ok L S p"
  by (auto simp: literals_ok_def flagged_def split: json.splits)

text \<open>The members after one object: those it has have one more observation, the others are as before.\<close>

lemma observed_members:
  assumes "btree_map members" and "index_map ms"
  shows "btree_map (observe_members L ms members) \<and>
    map_of (observe_members L ms members) name =
      (case map_of ms name of Some v \<Rightarrow> Some (observe L v (member_profile members name)) | None \<Rightarrow> map_of members name)"
  using assms
proof (induction ms arbitrary: members)
  case (Cons m ms)
  obtain k v where m: "m = (k, v)" by force
  have k: "map_of ms k = None" and ms: "index_map ms" using Cons.prems(2) by (auto simp: m index_map_def map_of_eq_None_iff)
  let ?members = "btree_insert k (observe L v (member_profile members k)) members"
  have "btree_map ?members" using Cons.prems(1) by (rule btree_map_insert)
  from Cons.IH [OF this ms] show ?case
    using Cons.prems(1) k by (auto simp: m map_of_btree_insert member_profile_def split: option.split)
qed simp

lemma btree_member: "btree_map m \<Longrightarrow> (k, v) \<in> set m \<longleftrightarrow> map_of m k = Some v"
  by (auto dest!: btree_map_index_map simp: index_map_def dest: map_of_SomeD)

lemma member_profile_ok:
  "btree_map members \<Longrightarrow> (\<forall>(name, m) \<in> set members. profile_ok L S m \<and> 0 < pf_seen m \<and> pf_seen m \<le> count) \<Longrightarrow>
    profile_ok L S (member_profile members name) \<and> pf_seen (member_profile members name) \<le> count"
  by (auto simp: member_profile_def split: option.split dest: map_of_SomeD)

lemma observe_object_ok:
  assumes members: "btree_map members" "\<forall>(name, m) \<in> set members. profile_ok L S m \<and> 0 < pf_seen m \<and> pf_seen m \<le> count"
    and ms: "index_map ms" and each: "\<And>name v q. map_of ms name = Some v \<Longrightarrow> profile_ok L S q \<Longrightarrow> profile_ok L S (observe L v q)"
  shows "object_ok L S (Object_Profile (count + 1) (observe_members L ms members))"
proof -
  have "profile_ok L S m \<and> 0 < pf_seen m \<and> pf_seen m \<le> count + 1"
    if "(name, m) \<in> set (observe_members L ms members)" for name m
  proof (cases "map_of ms name")
    case None
    then have "(name, m) \<in> set members"
      using that observed_members [OF members(1) ms, of L name] btree_member [of members] members(1) by (simp add: btree_member)
    then show ?thesis using members(2) by fastforce
  next
    case (Some v)
    then have "m = observe L v (member_profile members name)"
      using that observed_members [OF members(1) ms, of L name] by (simp add: btree_member)
    then show ?thesis using each [OF Some] member_profile_ok [OF members, of name] by auto
  qed
  then show ?thesis using observed_members [OF members(1) ms] by (auto simp: object_ok_iff)
qed

lemma object_of_ok:
  assumes "profile_ok L S p"
  shows "btree_map (op_members (object_of p))"
    and "\<forall>(name, m) \<in> set (op_members (object_of p)). profile_ok L S m \<and> 0 < pf_seen m \<and> pf_seen m \<le> op_count (object_of p)"
    and "op_count (object_of p) = count_of (pf_object p)"
proof -
  have "pf_object p = None \<or> (\<exists>ob. pf_object p = Some ob \<and> object_ok L S ob)"
    using assms unfolding profile_ok_iff [of L S p] by (cases "pf_object p") auto
  then show "btree_map (op_members (object_of p))"
    and "\<forall>(name, m) \<in> set (op_members (object_of p)). profile_ok L S m \<and> 0 < pf_seen m \<and> pf_seen m \<le> op_count (object_of p)"
    and "op_count (object_of p) = count_of (pf_object p)"
    unfolding object_ok_iff by (auto simp: object_of_def count_of_def btree_map_def)
qed

lemma profile_object: "profile_ok L S p \<Longrightarrow> pf_object p = Some ob \<Longrightarrow> object_ok L S ob"
  by (simp add: profile_ok_iff [of L S p])

lemma profile_array: "profile_ok L S p \<Longrightarrow> pf_array p = Some ar \<Longrightarrow> array_ok L S ar"
  by (simp add: profile_ok_iff [of L S p])

lemma profile_literals: "profile_ok L S p \<Longrightarrow> literals_ok L S p"
  by (simp add: profile_ok_iff [of L S p])

lemma array_of_ok:
  assumes "profile_ok L S p"
  shows "profile_ok L S (ap_items (array_of p))" and "ap_count (array_of p) = list_count (pf_array p)"
proof -
  have "pf_array p = None \<or> (\<exists>ar. pf_array p = Some ar \<and> array_ok L S ar)"
    using assms unfolding profile_ok_iff [of L S p] by (cases "pf_array p") auto
  then show "profile_ok L S (ap_items (array_of p))" and "ap_count (array_of p) = list_count (pf_array p)"
    unfolding array_ok_iff by (auto simp: array_of_def list_count_def)
qed

lemma observe_items_ok:
  "(\<And>v q. v \<in> set vs \<Longrightarrow> profile_ok L S q \<Longrightarrow> profile_ok L S (observe L v q)) \<Longrightarrow> profile_ok L S p \<Longrightarrow> profile_ok L S (observe_items L vs p)"
  by (induction vs arbitrary: p) simp_all

lemma observe_ok: "within S v \<Longrightarrow> profile_ok L S p \<Longrightarrow> profile_ok L S (observe L v p)"
proof (induction v arbitrary: p)
  case JNull
  then show ?case unfolding observe.simps profile_ok_iff [of L S p] profile_ok_iff [of L S "see_one _ _"] by auto
next
  case (JBool b)
  then show ?case
    unfolding observe.simps profile_ok_iff [of L S p] profile_ok_iff [of L S "see_scalar _ _ _"]
    by (auto simp: see_scalar_literals_ok simp del: see_scalar_simps(3))
next
  case (JNumber n)
  then show ?case
    unfolding observe.simps profile_ok_iff [of L S p] profile_ok_iff [of L S "see_scalar _ _ _"]
    by (auto simp: see_scalar_literals_ok simp del: see_scalar_simps(3))
next
  case (JString s)
  then show ?case
    unfolding observe.simps profile_ok_iff [of L S p] profile_ok_iff [of L S "see_scalar _ _ _"]
    by (auto simp: see_scalar_literals_ok simp del: see_scalar_simps(3))
next
  case (JArray vs)
  have "profile_ok L S (observe_items L vs (ap_items (array_of p)))"
    using JArray array_of_ok(1) [OF JArray.prems(2)] by (intro observe_items_ok) (auto simp: list_all_iff)
  then show ?case
    using JArray.prems(2) array_of_ok(2) [OF JArray.prems(2)]
    unfolding observe.simps Let_def profile_ok_iff [of L S p] profile_ok_iff [of L S "set_array _ _"]
    by (auto simp: list_count_def array_ok_iff)
next
  case (JObject ms)
  have ms: "index_map ms" using JObject.prems(1) by simp
  have each: "profile_ok L S (observe L v q)" if "map_of ms name = Some v" "profile_ok L S q" for name v q
    using JObject.IH [of "(name, v)" v q] that JObject.prems(1) by (force simp: list_all_iff dest: map_of_SomeD)
  have "object_ok L S (Object_Profile (op_count (object_of p) + 1) (observe_members L ms (op_members (object_of p))))"
    by (rule observe_object_ok [OF object_of_ok(1,2) [OF JObject.prems(2)] ms each])
  then show ?case
    using JObject.prems(2) object_of_ok(3) [OF JObject.prems(2)]
    unfolding observe.simps Let_def profile_ok_iff [of L S p] profile_ok_iff [of L S "set_object _ _"]
    by (auto simp: count_of_def)
qed

text \<open>Evidence once there stays: a value covered is still covered after another observation.\<close>

lemma items_grow:
  assumes "\<And>v q. v \<in> set vs \<Longrightarrow> profile_ok L S q \<Longrightarrow> profile_ok L S (observe L v q) \<and> (holds L u q \<longrightarrow> holds L u (observe L v q))"
    and "profile_ok L S p" and "holds L u p"
  shows "holds L u (observe_items L vs p)"
  using assms by (induction vs arbitrary: p) simp_all

lemma member_of_pairs: "index_map ms \<Longrightarrow> (k, v) \<in> set ms \<longleftrightarrow> map_of ms k = Some v"
  by (auto simp: index_map_def dest: map_of_SomeD)

lemma members_grow:
  assumes p: "profile_ok L S p" and ms: "index_map ms" and u: "holds L (JObject us) p"
    and each: "\<And>name v w q. map_of ms name = Some v \<Longrightarrow> profile_ok L S q \<Longrightarrow> holds L w q \<Longrightarrow> holds L w (observe L v q)"
  shows "holds L (JObject us) (observe L (JObject ms) p)"
proof -
  obtain ob where ob: "pf_object p = Some ob" using u by (auto split: option.splits)
  have kept: "object_of p = ob" by (simp add: object_of_def ob)
  note ok = object_of_ok [OF p, unfolded kept]
  let ?new = "observe_members L ms (op_members ob)"
  note new = observed_members [OF ok(1) ms, of L]
  have positive: "0 < op_count ob" using profile_object [OF p ob] by (simp add: object_ok_iff [of L S ob])
  have held: "\<exists>m. map_of (op_members ob) name = Some m \<and> holds L w m" if "(name, w) \<in> set us" for name w
    using u that ob by (auto simp: list_all_iff split: option.splits)
  have lacking: "pf_seen m < op_count ob" if "map_of us name = None" "map_of (op_members ob) name = Some m" for name m
    using u that ob by (auto dest: map_of_SomeD)
  have "\<exists>m. map_of ?new name = Some m \<and> holds L w m" if w: "(name, w) \<in> set us" for name w
  proof -
    obtain m where m: "map_of (op_members ob) name = Some m" "holds L w m" using held [OF w] by blast
    have "profile_ok L S m" using ok(2) m(1) by (auto dest: map_of_SomeD)
    then show ?thesis using new [of name] m each [of name _ m w] by (auto simp: member_profile_def split: option.split)
  qed
  moreover have "pf_seen m < op_count ob + 1" if m: "(name, m) \<in> set ?new" "map_of us name = None" for name m
  proof (cases "map_of ms name")
    case None
    then show ?thesis using m new [of name] lacking [of name m] by (simp add: btree_member)
  next
    case (Some v)
    then have "m = observe L v (member_profile (op_members ob) name)" using m(1) new [of name] by (simp add: btree_member)
    then show ?thesis using lacking [OF m(2)] positive by (auto simp: member_profile_def split: option.split)
  qed
  ultimately show ?thesis by (fastforce simp: Let_def kept list_all_iff)
qed

lemma holds_grow: "within S v \<Longrightarrow> profile_ok L S p \<Longrightarrow> holds L u p \<Longrightarrow> holds L u (observe L v p)"
proof (induction v arbitrary: p u)
  case JNull
  then show ?case by (cases u) simp_all
next
  case (JBool b)
  have "literals_ok L S p" using JBool.prems(2) unfolding profile_ok_iff by simp
  then show ?case using JBool.prems(3) by (cases u) (simp_all add: covered_grow)
next
  case (JNumber n)
  have "literals_ok L S p" using JNumber.prems(2) unfolding profile_ok_iff by simp
  then show ?case using JNumber.prems(3) by (cases u) (simp_all add: covered_grow)
next
  case (JString s)
  have "literals_ok L S p" using JString.prems(2) unfolding profile_ok_iff by simp
  then show ?case using JString.prems(3) by (cases u) (simp_all add: covered_grow)
next
  case (JArray vs)
  show ?case
  proof (cases "\<exists>us. u = JArray us")
    case True
    then obtain us ar where us: "u = JArray us" and ar: "pf_array p = Some ar"
      using JArray.prems(3) by (auto split: option.splits)
    have "profile_ok L S (observe L v q) \<and> (holds L w q \<longrightarrow> holds L w (observe L v q))"
      if "v \<in> set vs" "profile_ok L S q" for v q w
      using that JArray.prems(1) JArray.IH [OF that(1)] observe_ok by (auto simp: list_all_iff)
    then have "holds L w (observe_items L vs (ap_items ar))" if "holds L w (ap_items ar)" for w
      using that array_of_ok(1) [OF JArray.prems(2)] by (intro items_grow) (auto simp: array_of_def ar)
    then show ?thesis using JArray.prems(3) by (auto simp: us ar array_of_def Let_def list_all_iff)
  next
    case False
    then show ?thesis using JArray.prems(3) by (cases u) (simp_all add: Let_def)
  qed
next
  case (JObject ms)
  show ?case
  proof (cases "\<exists>us. u = JObject us")
    case True
    then obtain us where us: "u = JObject us" by blast
    show ?thesis
      using JObject.prems unfolding us
    proof (intro members_grow)
      fix name v w q
      assume v: "map_of ms name = Some v" and q: "profile_ok L S q" "holds L w q"
      have "within S v" using JObject.prems(1) v by (auto simp: list_all_iff dest: map_of_SomeD)
      then show "holds L w (observe L v q)" using JObject.IH [of "(name, v)" v q w] v q by (auto dest: map_of_SomeD)
    qed (use JObject.prems in simp_all)
  next
    case False
    then show ?thesis using JObject.prems(3) by (cases u) (simp_all add: Let_def)
  qed
qed

lemma items_hold:
  assumes "\<And>v q. v \<in> set vs \<Longrightarrow> profile_ok L S q \<Longrightarrow> holds L v (observe L v q)" and "list_all (within S) vs" and "profile_ok L S p"
    and "u \<in> set vs"
  shows "holds L u (observe_items L vs p)"
  using assms
proof (induction vs arbitrary: p)
  case (Cons v vs)
  have ok: "profile_ok L S (observe L v p)" using Cons.prems by (simp add: observe_ok)
  show ?case
  proof (cases "u \<in> set vs")
    case True
    then show ?thesis using Cons.IH [OF _ _ ok] Cons.prems by simp
  next
    case False
    then have "holds L u (observe L v p)" using Cons.prems by auto
    then show ?thesis
      using Cons.prems(2) ok by (auto intro!: items_grow simp: observe_ok holds_grow list_all_iff)
  qed
qed simp

lemma observe_holds: "within S v \<Longrightarrow> profile_ok L S p \<Longrightarrow> holds L v (observe L v p)"
proof (induction v arbitrary: p)
  case (JArray vs)
  have "\<forall>u \<in> set vs. holds L u (observe_items L vs (ap_items (array_of p)))"
    using JArray array_of_ok(1) [OF JArray.prems(2)] by (auto intro!: items_hold simp: list_all_iff)
  then show ?case by (simp add: Let_def list_all_iff)
next
  case (JObject ms)
  have ms: "index_map ms" using JObject.prems(1) by simp
  note ok = object_of_ok [OF JObject.prems(2)]
  note new = observed_members [OF ok(1) ms, of L]
  have "holds L v (observe L v (member_profile (op_members (object_of p)) name))" if v: "(name, v) \<in> set ms" for name v
  proof -
    have "within S v" using JObject.prems(1) v by (auto simp: list_all_iff)
    then show ?thesis using JObject.IH [OF v] member_profile_ok [OF ok(1,2), of name] by auto
  qed
  moreover have "pf_seen m < op_count (object_of p) + 1"
    if m: "(name, m) \<in> set (observe_members L ms (op_members (object_of p)))" "map_of ms name = None" for name m
    using m new [of name] ok(2) by (fastforce simp: btree_member dest: map_of_SomeD)
  moreover have "map_of ms name = Some v" if "(name, v) \<in> set ms" for name v
    using that ms by (simp add: member_of_pairs)
  ultimately show ?case using new by (fastforce simp: Let_def list_all_iff)
next
  case (JBool b)
  have "literals_ok L S (see_one 0 p)" using JBool.prems(2) unfolding profile_ok_iff by simp
  then show ?case using scalar_covered by simp
next
  case (JNumber n)
  have "literals_ok L S (see_one 0 p)" using JNumber.prems(2) unfolding profile_ok_iff by simp
  then show ?case using scalar_covered by simp
next
  case (JString s)
  have "literals_ok L S (see_one 0 p)" using JString.prems(2) unfolding profile_ok_iff by simp
  then show ?case using scalar_covered by simp
qed simp_all

subsection \<open>The recorded shape admits the evidence\<close>

text \<open>Two scalars with one text are one value.\<close>

definition tells_apart :: "lib \<Rightarrow> json set \<Rightarrow> bool" where
  "tells_apart L S \<longleftrightarrow> (\<forall>x \<in> S. \<forall>y \<in> S. literal_text L x = literal_text L y \<longrightarrow> value_eq x y)"

lemma recorded_node_get [simp]:
  "map_of ((''shape'', JString op) # rest) ''shape'' = Some (JString op)"
  by simp

lemma covered_literal:
  assumes "profile_ok L S p" and "tells_apart L S" and "v \<in> S" and "covered L v p"
  obtains w where "(literal_text L v, w) \<in> set (pf_literals p)" "value_eq v w" "value_eq w v"
proof -
  obtain w where w: "map_of (pf_literals p) (literal_text L v) = Some w" using assms(4) by (auto simp: covered_def)
  have member: "(literal_text L v, w) \<in> set (pf_literals p)" using w by (rule map_of_SomeD)
  then have "literal_text L v = literal_text L w \<and> w \<in> S"
    using profile_literals [OF assms(1)] by (auto simp: literals_ok_def)
  then have "value_eq v w" "value_eq w v" using assms(2,3) by (simp_all add: tells_apart_def)
  with member show thesis by (rule that)
qed

definition is_scalar :: "json \<Rightarrow> bool" where
  "is_scalar v \<longleftrightarrow> (case v of JBool _ \<Rightarrow> True | JNumber _ \<Rightarrow> True | JString _ \<Rightarrow> True | _ \<Rightarrow> False)"

lemma from_json_present [simp]: "rv_from_json v \<noteq> RAbsent"
  by (cases v) simp_all

lemma reads_any: "reads (recorded_node ''any'' []) s \<Longrightarrow> shape_admits L R s (rv_from_json v)"
  using reads_leaf [of "[(''shape'', JString ''any'')]" s "''any''" Any]
  by (simp add: recorded_node_def shape_admits_leaves)

lemma reads_kind:
  assumes "reads (recorded_node op rest) s" and "rest = [] \<or> rest = [(''example'', w)]"
    and "(op, k) \<in> {(''string'', VK_String), (''number'', VK_Number), (''integer'', VK_Integer), (''decimal'', VK_Decimal),
      (''boolean'', VK_Boolean), (''null'', VK_Null)}"
  shows "shape_admits L R s v = kind_admits k v"
  using reads_leaf [of "(''shape'', JString op) # rest" s op "Kind k"] assms
  by (auto simp: recorded_node_def shape_admits_leaves)

lemma reads_wrap:
  assumes "reads (recorded_node op [(''of'', D)]) s" and "(op, wrap) \<in> {(''nullable'', Nullable), (''optional'', Optional)}"
  shows "\<exists>t. reads D t \<and> s = ShapeNode None None (Core (wrap t))"
  by (rule reads_wrapped [OF assms(1) [unfolded recorded_node_def] _ _ assms(2)]) auto

definition kind_nodes :: "(string \<times> value_kind) set" where
  "kind_nodes = {(''string'', VK_String), (''number'', VK_Number), (''integer'', VK_Integer), (''decimal'', VK_Decimal),
     (''boolean'', VK_Boolean), (''null'', VK_Null)}"

lemma scalar_shape_cases:
  assumes "flagged p v" and "is_scalar v"
  defines "vs \<equiv> map snd (pf_literals p)"
  shows "scalar_shape policy p = recorded_node ''any'' []
    \<or> (scalar_shape policy p = recorded_node ''equality'' [(''example'', hd vs)] \<and> length vs = 1)
    \<or> scalar_shape policy p = recorded_node ''any-of'' [(''options'', JArray vs), (''example'', hd vs)]
    \<or> (\<exists>(op, k) \<in> kind_nodes. kind_admits k (rv_from_json v)
        \<and> (scalar_shape policy p = recorded_node op [] \<or> scalar_shape policy p = recorded_node op [(''example'', hd vs)]))"
proof (cases "keeps_literals policy p")
  case True
  show ?thesis
  proof (cases "pf_booleans p \<and> \<not> pf_strings p \<and> \<not> pf_integers p \<and> \<not> pf_decimals p \<and> length vs = 2")
    case True
    then have "scalar_shape policy p = recorded_node ''boolean'' []" by (simp add: scalar_shape_def Let_def vs_def)
    moreover have "kind_admits VK_Boolean (rv_from_json v)"
      using True assms(1,2) by (auto simp: flagged_def is_scalar_def split: json.splits if_splits)
    ultimately show ?thesis by (auto simp: kind_nodes_def)
  next
    case False
    then show ?thesis using \<open>keeps_literals policy p\<close> by (auto simp: scalar_shape_def Let_def vs_def)
  qed
next
  case False
  show ?thesis
    using assms(1,2) False unfolding scalar_shape_def Let_def vs_def [symmetric] kind_nodes_def
    by (cases v; cases "pf_strings p"; cases "pf_booleans p"; cases "pf_integers p"; cases "pf_decimals p")
      (simp_all add: flagged_def is_scalar_def split: if_splits)
qed

lemma scalar_shape_sound:
  assumes p: "profile_ok L S p" and apart: "tells_apart L S" and v: "v \<in> S" "is_scalar v" "covered L v p"
    and reads: "reads (scalar_shape policy p) s"
  shows "shape_admits L R s (rv_from_json v)"
proof -
  have flag: "flagged p v" using v(3) by (simp add: covered_def)
  obtain w where w: "(literal_text L v, w) \<in> set (pf_literals p)" "value_eq v w" "value_eq w v"
    by (rule covered_literal [OF p apart v(1,3)])
  let ?vs = "map snd (pf_literals p)"
  have w_in: "w \<in> set ?vs" using w(1) by force
  from scalar_shape_cases [OF flag v(2), of policy]
  consider (any) "scalar_shape policy p = recorded_node ''any'' []"
    | (one) "scalar_shape policy p = recorded_node ''equality'' [(''example'', hd ?vs)]" "length ?vs = 1"
    | (several) "scalar_shape policy p = recorded_node ''any-of'' [(''options'', JArray ?vs), (''example'', hd ?vs)]"
    | (kind) op k where "(op, k) \<in> kind_nodes" "kind_admits k (rv_from_json v)"
        "scalar_shape policy p = recorded_node op [] \<or> scalar_shape policy p = recorded_node op [(''example'', hd ?vs)]"
    by blast
  then show ?thesis
  proof cases
    case kind
    then obtain rest where "reads (recorded_node op rest) s" "rest = [] \<or> rest = [(''example'', hd ?vs)]" using reads by metis
    then show ?thesis using reads_kind [OF _ _ kind(1) [unfolded kind_nodes_def]] kind(2) by blast
  next
    case one
    then have "hd ?vs = w" using w_in by (cases "pf_literals p") auto
    then have "s = ShapeNode (Some \<lparr>ex_value = w, ex_encoded = None\<rparr>) None (Core Equality)"
      using reads_leaf [OF reads [unfolded one(1) recorded_node_def], where operator = "''equality''" and c = Equality] by simp
    then show ?thesis using w(2) by (simp add: shape_admits_leaves example_value_def runtime_eq_from_json)
  next
    case several
    have "s = ShapeNode (Some \<lparr>ex_value = hd ?vs, ex_encoded = None\<rparr>) None (Core (AnyOf ?vs))"
      using reads_any_of [OF reads [unfolded several recorded_node_def]] by simp
    then show ?thesis using w(3) w_in by (auto simp: shape_admits_simps runtime_eq_from_json)
  next
    case any
    then show ?thesis using reads reads_any by simp
  qed
qed

lemma null_or_null:
  assumes "profile_ok L S p" and "0 < pf_nulls p" and "null_or p D = Some D'" and "reads D' s"
  shows "shape_admits L R s RNull"
proof (cases "pf_seen p - pf_nulls p = 0")
  case True
  then have "D' = recorded_node ''null'' []" using assms(3) by (auto simp: null_or_def split: if_splits)
  then show ?thesis using reads_kind [of "''null''" "[]" s _ VK_Null] assms(4) by simp
next
  case False
  then have "D' = recorded_node ''nullable'' [(''of'', D)]" using assms(2,3) by (auto simp: null_or_def split: if_splits)
  then obtain t where "s = ShapeNode None None (Core (Nullable t))"
    using reads_wrap [where op = "''nullable''" and wrap = Nullable] assms(4) by auto
  then show ?thesis by (simp add: shape_admits_simps)
qed

lemma null_or_value:
  assumes "0 < pf_seen p - pf_nulls p" and "null_or p D = Some D'" and "reads D' s"
  shows "\<exists>t. reads D t \<and> (\<forall>L R v. shape_admits L R t v \<longrightarrow> shape_admits L R s v)"
proof (cases "0 < pf_nulls p")
  case True
  then have "D' = recorded_node ''nullable'' [(''of'', D)]" using assms(1,2) by (auto simp: null_or_def split: if_splits)
  then obtain t where "reads D t" "s = ShapeNode None None (Core (Nullable t))"
    using reads_wrap [where op = "''nullable''" and wrap = Nullable] assms(3) by auto
  then show ?thesis by (auto simp: shape_admits_simps)
next
  case False
  then have "D' = D" using assms(1,2) by (auto simp: null_or_def split: if_splits)
  then show ?thesis using assms(3) by auto
qed

lemma member_shapes_in:
  "(n, D) \<in> set (member_shapes policy count members) \<Longrightarrow>
    \<exists>m Dm. (n, m) \<in> set members \<and> to_shape policy m = Some Dm \<and> D = member_shape count m Dm"
proof (induction members)
  case (Cons x members)
  obtain k q where x: "x = (k, q)" by force
  show ?case
  proof (cases "to_shape policy q")
    case None
    then show ?thesis using Cons by (auto simp: x)
  next
    case (Some Dq)
    then have "(n, D) = (k, member_shape count q Dq) \<or> (n, D) \<in> set (member_shapes policy count members)"
      using Cons.prems by (simp add: x)
    then show ?thesis using Cons.IH Some by (auto simp: x)
  qed
qed simp

lemma to_shape_unfold:
  "to_shape policy p = null_or p
     (if structural_kinds p = 1
      then (case pf_object p of Some ob \<Rightarrow> object_shape policy ob
        | None \<Rightarrow> (case pf_array p of Some ar \<Rightarrow> array_shape policy ar | None \<Rightarrow> scalar_shape policy p))
      else recorded_node ''any'' [])"
  by (cases p) (simp add: Let_def split: option.split)

lemma object_shape_unfold:
  "object_shape policy ob = recorded_node ''object'' [(''members'', JObject (member_shapes policy (op_count ob) (op_members ob)))]"
  by (cases ob) simp

lemma array_shape_unfold:
  "array_shape policy ar = recorded_node ''each-like''
     [(''min'', JNumber (PosInt (ap_min ar))), (''max'', JNumber (PosInt (ap_max ar))),
      (''items'', case to_shape policy (ap_items ar) of Some s \<Rightarrow> s | None \<Rightarrow> recorded_node ''any'' [])]"
  by (cases ar) simp

lemma held_seen:
  assumes "profile_ok L S p" and "holds L v p" and "v \<noteq> JNull"
  shows "0 < pf_seen p - pf_nulls p" and "v = JObject ms \<Longrightarrow> pf_object p \<noteq> None" and "v = JArray vs \<Longrightarrow> pf_array p \<noteq> None"
    and "is_scalar v \<Longrightarrow> 0 < pf_scalars p"
proof -
  have sum: "pf_seen p = pf_nulls p + pf_scalars p + count_of (pf_object p) + list_count (pf_array p)"
    using assms(1) by (simp add: profile_ok_iff [of L S p])
  have obj: "v = JObject ms \<Longrightarrow> pf_object p \<noteq> None \<and> 0 < count_of (pf_object p)" for ms
    using assms(2) profile_object [OF assms(1)] by (auto simp: count_of_def object_ok_iff split: option.splits)
  have arr: "v = JArray vs \<Longrightarrow> pf_array p \<noteq> None \<and> 0 < list_count (pf_array p)" for vs
    using assms(2) profile_array [OF assms(1)] by (auto simp: list_count_def array_ok_iff split: option.splits)
  have sc: "is_scalar v \<Longrightarrow> 0 < pf_scalars p"
    using assms(2) profile_literals [OF assms(1)] by (cases v) (auto simp: is_scalar_def covered_def literals_ok_def)
  show "v = JObject ms \<Longrightarrow> pf_object p \<noteq> None" "v = JArray vs \<Longrightarrow> pf_array p \<noteq> None" "is_scalar v \<Longrightarrow> 0 < pf_scalars p"
    using obj arr sc by auto
  show "0 < pf_seen p - pf_nulls p"
    using obj arr sc sum assms(3) by (cases v) (auto simp: is_scalar_def)
qed

lemma object_admitted:
  assumes ob: "object_ok L S ob" and us: "index_map us"
    and held: "\<And>n v. (n, v) \<in> set us \<Longrightarrow> \<exists>m. map_of (op_members ob) n = Some m \<and> holds L v m"
    and lacking: "\<And>n m. (n, m) \<in> set (op_members ob) \<Longrightarrow> map_of us n = None \<Longrightarrow> pf_seen m < op_count ob"
    and each: "\<And>n v m D t. (n, v) \<in> set us \<Longrightarrow> profile_ok L S m \<Longrightarrow> holds L v m \<Longrightarrow> to_shape policy m = Some D \<Longrightarrow> reads D t \<Longrightarrow>
      shape_admits L R t (rv_from_json v)"
    and reads: "reads (object_shape policy ob) s"
  shows "shape_admits L R s (rv_from_json (JObject us))"
proof -
  obtain members where s: "s = ShapeNode None None (Core (Object members))"
    and read: "\<And>n t. (n, t) \<in> set members \<Longrightarrow>
      \<exists>D. (n, D) \<in> set (member_shapes policy (op_count ob) (op_members ob)) \<and> reads D t"
    by (rule reads_object [OF reads [unfolded object_shape_unfold recorded_node_def]]) auto
  have "shape_admits L R t (or_absent (map_of (map (\<lambda>(k, v). (k, rv_from_json v)) us) n))"
    if member: "(n, t) \<in> set members" for n t
  proof -
    obtain m Dm where m: "(n, m) \<in> set (op_members ob)" "to_shape policy m = Some Dm" "reads (member_shape (op_count ob) m Dm) t"
      using read [OF member] member_shapes_in by blast
    have found: "map_of (op_members ob) n = Some m" and m_ok: "profile_ok L S m"
      using m(1) ob btree_member [of "op_members ob" n m] by (auto simp: object_ok_iff)
    have got: "map_of (map (\<lambda>(k, v). (k, rv_from_json v)) us) n = map_option rv_from_json (map_of us n)"
      by (simp add: map_of_map)
    show ?thesis
    proof (cases "map_of us n")
      case None
      then have "member_shape (op_count ob) m Dm = recorded_node ''optional'' [(''of'', Dm)]"
        using lacking [OF m(1)] by (simp add: member_shape_def)
      then obtain t' where "t = ShapeNode None None (Core (Optional t'))"
        using m(3) reads_wrap [where op = "''optional''" and wrap = Optional] by auto
      then show ?thesis by (simp add: got None or_absent_def shape_admits_simps)
    next
      case (Some v)
      then have v: "(n, v) \<in> set us" by (rule map_of_SomeD)
      then have "holds L v m" using held [OF v] found by simp
      note admitted = each [OF v m_ok this m(2)]
      consider "reads Dm t" | t' where "reads Dm t'" "t = ShapeNode None None (Core (Optional t'))"
        using m(3) reads_wrap [where op = "''optional''" and wrap = Optional] by (auto simp: member_shape_def split: if_splits)
      then have "shape_admits L R t (rv_from_json v)" using admitted by cases (simp_all add: shape_admits_simps)
      then show ?thesis by (simp add: got Some or_absent_def)
    qed
  qed
  then show ?thesis by (auto simp: s shape_admits_simps)
qed

lemma array_admitted:
  assumes size: "ap_min ar \<le> length vs" "length vs \<le> ap_max ar" and items: "profile_ok L S (ap_items ar)"
    and held: "\<And>v. v \<in> set vs \<Longrightarrow> holds L v (ap_items ar)"
    and each: "\<And>v D t. v \<in> set vs \<Longrightarrow> holds L v (ap_items ar) \<Longrightarrow> to_shape policy (ap_items ar) = Some D \<Longrightarrow> reads D t \<Longrightarrow>
      shape_admits L R t (rv_from_json v)"
    and reads: "reads (array_shape policy ar) s"
  shows "shape_admits L R s (rv_from_json (JArray vs))"
proof -
  let ?D = "case to_shape policy (ap_items ar) of Some s \<Rightarrow> s | None \<Rightarrow> recorded_node ''any'' []"
  obtain t where t: "reads ?D t" "s = ShapeNode None None (Core (EachLike t (ap_min ar) (Some (ap_max ar))))"
    by (rule reads_each_like [OF reads [unfolded array_shape_unfold recorded_node_def [of "''each-like''"]],
          where D = ?D]) auto
  have "shape_admits L R t (rv_from_json v)" if "v \<in> set vs" for v
  proof (cases "to_shape policy (ap_items ar)")
    case None
    then show ?thesis using t(1) reads_any by simp
  next
    case (Some D)
    then show ?thesis using each [OF that held [OF that] Some] t(1) by simp
  qed
  then show ?thesis using size by (auto simp: t(2) shape_admits_simps in_region_def)
qed

lemma scalar_admitted:
  assumes ok: "profile_ok L S p" and apart: "tells_apart L S" and v: "v \<in> S" "is_scalar v" "covered L v p"
    and D: "to_shape policy p = Some D" "reads D s"
  shows "shape_admits L R s (rv_from_json v)"
proof -
  have held: "holds L v p" using v(2,3) by (cases v) (auto simp: is_scalar_def)
  have v': "v \<noteq> JNull" using v(2) by (auto simp: is_scalar_def)
  note seen = held_seen [OF ok held v']
  have none: "pf_object p = None \<and> pf_array p = None" if "structural_kinds p = 1"
    using that seen(4) v(2) by (auto simp: structural_kinds_def)
  have "null_or p (if structural_kinds p = 1 then scalar_shape policy p else recorded_node ''any'' []) = Some D"
    using D(1) none unfolding to_shape_unfold by (auto split: if_splits)
  from null_or_value [OF seen(1) this D(2)] obtain t where
    t: "reads (if structural_kinds p = 1 then scalar_shape policy p else recorded_node ''any'' []) t"
    and up: "\<And>v. shape_admits L R t v \<Longrightarrow> shape_admits L R s v" by blast
  have "shape_admits L R t (rv_from_json v)"
    using t scalar_shape_sound [OF ok apart v] reads_any by (auto split: if_splits)
  then show ?thesis by (rule up)
qed

lemma to_shape_admits:
  assumes "tells_apart L S"
  shows "profile_ok L S p \<Longrightarrow> within S v \<Longrightarrow> holds L v p \<Longrightarrow> to_shape policy p = Some D \<Longrightarrow> reads D s \<Longrightarrow>
    shape_admits L R s (rv_from_json v)"
proof (induction v arbitrary: p D s)
  case JNull
  then show ?case using null_or_null [of L S p] by (simp add: to_shape_unfold)
next
  case (JObject us)
  note ok = JObject.prems(1) and held = held_seen [OF JObject.prems(1,3)]
  obtain ob where ob: "pf_object p = Some ob" using held(2) by auto
  have "null_or p (if structural_kinds p = 1 then object_shape policy ob else recorded_node ''any'' []) = Some D"
    using JObject.prems(4) unfolding to_shape_unfold ob option.case .
  from null_or_value [OF held(1) this JObject.prems(5)] obtain t where
    t: "reads (if structural_kinds p = 1 then object_shape policy ob else recorded_node ''any'' []) t"
    and up: "\<And>v. shape_admits L R t v \<Longrightarrow> shape_admits L R s v" by blast
  show ?case
  proof (cases "structural_kinds p = 1")
    case False
    then have "reads (recorded_node ''any'' []) t" using t by simp
    then show ?thesis by (intro up reads_any)
  next
    case True
    have "shape_admits L R t (rv_from_json (JObject us))"
    proof (rule object_admitted [OF profile_object [OF ok ob]])
      show "index_map us" using JObject.prems(2) by simp
      show "\<exists>m. map_of (op_members ob) n = Some m \<and> holds L v m" if "(n, v) \<in> set us" for n v
        using that JObject.prems(3) by (auto simp: ob list_all_iff split: option.splits)
      show "pf_seen m < op_count ob" if "(n, m) \<in> set (op_members ob)" "map_of us n = None" for n m
        using that JObject.prems(3) by (auto simp: ob)
      show "shape_admits L R t (rv_from_json v)"
        if "(n, v) \<in> set us" "profile_ok L S m" "holds L v m" "to_shape policy m = Some D" "reads D t" for n v m D t
        using JObject.IH [of "(n, v)" v m D t] that JObject.prems(2) by (auto simp: list_all_iff)
      show "reads (object_shape policy ob) t" using t True by simp
    qed
    then show ?thesis by (rule up)
  qed
next
  case (JArray vs)
  note ok = JArray.prems(1) and held = held_seen [OF JArray.prems(1,3)]
  obtain ar where ar: "pf_array p = Some ar" using held(3) by auto
  have none: "pf_object p = None" if "structural_kinds p = 1" using that ar by (auto simp: structural_kinds_def)
  have "null_or p (if structural_kinds p = 1 then array_shape policy ar else recorded_node ''any'' []) = Some D"
    using JArray.prems(4) none ar unfolding to_shape_unfold by (auto split: if_splits)
  from null_or_value [OF held(1) this JArray.prems(5)] obtain t where
    t: "reads (if structural_kinds p = 1 then array_shape policy ar else recorded_node ''any'' []) t"
    and up: "\<And>v. shape_admits L R t v \<Longrightarrow> shape_admits L R s v" by blast
  show ?case
  proof (cases "structural_kinds p = 1")
    case False
    then have "reads (recorded_node ''any'' []) t" using t by simp
    then show ?thesis by (intro up reads_any)
  next
    case True
    have items: "profile_ok L S (ap_items ar)" using profile_array [OF ok ar] by (simp add: array_ok_iff [of L S ar])
    have "shape_admits L R t (rv_from_json (JArray vs))"
    proof (rule array_admitted [OF _ _ items])
      show "ap_min ar \<le> length vs" "length vs \<le> ap_max ar" using JArray.prems(3) by (auto simp: ar)
      show "holds L v (ap_items ar)" if "v \<in> set vs" for v using that JArray.prems(3) by (auto simp: ar list_all_iff)
      show "shape_admits L R t (rv_from_json v)"
        if "v \<in> set vs" "holds L v (ap_items ar)" "to_shape policy (ap_items ar) = Some D" "reads D t" for v D t
        using JArray.IH [OF that(1) items _ that(2-4)] that(1) JArray.prems(2) by (auto simp: list_all_iff)
      show "reads (array_shape policy ar) t" using t True by simp
    qed
    then show ?thesis by (rule up)
  qed
next
  case (JBool b)
  from scalar_admitted [OF JBool.prems(1) assms _ _ _ JBool.prems(4,5)] JBool.prems show ?case by (force simp: is_scalar_def)
next
  case (JNumber n)
  from scalar_admitted [OF JNumber.prems(1) assms _ _ _ JNumber.prems(4,5)] JNumber.prems show ?case by (force simp: is_scalar_def)
next
  case (JString t)
  from scalar_admitted [OF JString.prems(1) assms _ _ _ JString.prems(4,5)] JString.prems show ?case by (force simp: is_scalar_def)
qed

subsection \<open>The recorder\<close>

lemma map_of_keyed_insert: "map_of (keyed_insert k v m) = (map_of m)(k \<mapsto> v)"
  by (induction k v m rule: keyed_insert.induct) (auto simp: fun_eq_iff)

lemma set_keyed_insert: "set (keyed_insert k v m) \<subseteq> insert (k, v) (set m)"
  by (induction k v m rule: keyed_insert.induct) auto

text \<open>The slots of a part, whose evidence is well-formed and was looked at.\<close>

definition slots_ok :: "lib \<Rightarrow> json set \<Rightarrow> profile smap \<Rightarrow> bool" where
  "slots_ok L S m \<longleftrightarrow> btree_map m \<and> (\<forall>(slot, p) \<in> set m. profile_ok L S p \<and> 0 < pf_seen p)"

definition slot_held :: "lib \<Rightarrow> profile smap \<Rightarrow> string \<Rightarrow> json \<Rightarrow> bool" where
  "slot_held L m slot v \<longleftrightarrow> (\<exists>p. map_of m slot = Some p \<and> holds L v p)"

definition parts_recorded :: "lib \<Rightarrow> json set \<Rightarrow> profile smap smap \<Rightarrow> bool" where
  "parts_recorded L S ps \<longleftrightarrow> btree_map ps \<and> (\<forall>(part, m) \<in> set ps. slots_ok L S m)"

definition part_held :: "lib \<Rightarrow> profile smap smap \<Rightarrow> string \<Rightarrow> string \<Rightarrow> json \<Rightarrow> bool" where
  "part_held L ps part slot v \<longleftrightarrow> (\<exists>m. map_of ps part = Some m \<and> slot_held L m slot v)"

lemma set_inserted: "x \<in> set (btree_insert k v m) \<Longrightarrow> x = (k, v) \<or> x \<in> set m"
  using set_btree_insert_old [of k v m] by auto

lemma one_slot:
  assumes "slots_ok L S m" and "within S v"
  shows "slots_ok L S (btree_insert slot (observe L v (member_profile m slot)) m)"
    and "slot_held L (btree_insert slot (observe L v (member_profile m slot)) m) slot v"
    and "slot_held L m slot' u \<Longrightarrow> slot_held L (btree_insert slot (observe L v (member_profile m slot)) m) slot' u"
proof -
  have m: "btree_map m" using assms(1) by (simp add: slots_ok_def)
  have old: "profile_ok L S (member_profile m slot)"
    using assms(1) by (auto simp: slots_ok_def member_profile_def split: option.split dest: map_of_SomeD)
  show "slots_ok L S (btree_insert slot (observe L v (member_profile m slot)) m)"
    using assms(1) observe_ok [OF assms(2) old] by (auto simp: slots_ok_def btree_map_insert dest!: set_inserted)
  show "slot_held L (btree_insert slot (observe L v (member_profile m slot)) m) slot v"
    using observe_holds [OF assms(2) old] by (simp add: slot_held_def map_of_btree_insert [OF m])
  show "slot_held L m slot' u \<Longrightarrow> slot_held L (btree_insert slot (observe L v (member_profile m slot)) m) slot' u"
    using holds_grow [OF assms(2) old, of u] by (auto simp: slot_held_def map_of_btree_insert [OF m] member_profile_def)
qed

lemma all_slots:
  assumes "slots_ok L S m" and "\<forall>(slot, v) \<in> set slots. within S v"
  shows "slots_ok L S (observe_slots L slots m)
    \<and> (\<forall>slot u. (slot, u) \<in> set slots \<or> slot_held L m slot u \<longrightarrow> slot_held L (observe_slots L slots m) slot u)"
  using assms unfolding observe_slots_def
proof (induction slots arbitrary: m)
  case (Cons x slots)
  obtain k v where x: "x = (k, v)" by force
  have v: "within S v" using Cons.prems(2) x by auto
  note one = one_slot [OF Cons.prems(1) v]
  show ?case using Cons.IH [OF one(1)] Cons.prems(2) one(2,3) by (auto simp: x)
qed simp

lemma one_part:
  fixes part :: string
  assumes "parts_recorded L S ps" and "\<forall>(slot, v) \<in> set slots. within S v"
  defines "ps' \<equiv> btree_insert part (observe_slots L slots (case map_of ps part of Some m \<Rightarrow> m | None \<Rightarrow> [])) ps"
  shows "parts_recorded L S ps'"
    and "(slot, u) \<in> set slots \<Longrightarrow> part_held L ps' part slot u"
    and "part_held L ps part' slot u \<Longrightarrow> part_held L ps' part' slot u"
proof -
  have ps: "btree_map ps" using assms(1) by (simp add: parts_recorded_def)
  let ?m = "case map_of ps part of Some m \<Rightarrow> m | None \<Rightarrow> []"
  have m: "slots_ok L S ?m"
    using assms(1) by (auto simp: parts_recorded_def slots_ok_def btree_map_def split: option.split dest!: map_of_SomeD)
  note all = all_slots [OF m assms(2)]
  show "parts_recorded L S ps'"
    using assms(1) all by (auto simp: parts_recorded_def ps'_def btree_map_insert dest!: set_inserted)
  show "(slot, u) \<in> set slots \<Longrightarrow> part_held L ps' part slot u"
    using all by (auto simp: part_held_def ps'_def map_of_btree_insert [OF ps])
  show "part_held L ps part' slot u \<Longrightarrow> part_held L ps' part' slot u"
    using all by (auto simp: part_held_def ps'_def map_of_btree_insert [OF ps])
qed

lemma all_parts:
  assumes "parts_recorded L S ps" and "\<forall>(part, slots) \<in> set new. \<forall>(slot, v) \<in> set slots. within S v"
  shows "parts_recorded L S (observe_parts L new ps)
    \<and> (\<forall>part slot u. (\<exists>slots. (part, slots) \<in> set new \<and> (slot, u) \<in> set slots) \<or> part_held L ps part slot u \<longrightarrow>
        part_held L (observe_parts L new ps) part slot u)"
  using assms unfolding observe_parts_def
proof (induction new arbitrary: ps)
  case (Cons x new)
  obtain k slots where x: "x = (k, slots)" by force
  have slots: "\<forall>(slot, v) \<in> set slots. within S v" using Cons.prems(2) x by auto
  note one = one_part [OF Cons.prems(1) slots]
  show ?case using Cons.IH [OF one(1)] Cons.prems(2) one(2,3) by (auto simp: x) blast+
qed simp

text \<open>Responses: the description and states of their interaction, and the value of each slot.\<close>

type_synonym response = "string \<times> string list \<times> json smap smap"

definition record_all :: "lib \<Rightarrow> response list \<Rightarrow> recorder \<Rightarrow> recorder" where
  "record_all L responses r = fold (\<lambda>(description, states, ps). recorder_observe L description states ps) responses r"

definition responses_within :: "json set \<Rightarrow> response list \<Rightarrow> bool" where
  "responses_within S responses \<longleftrightarrow>
     (\<forall>(description, states, ps) \<in> set responses. \<forall>(part, slots) \<in> set ps. \<forall>(slot, v) \<in> set slots. within S v)"

definition recorder_ok :: "lib \<Rightarrow> json set \<Rightarrow> recorder \<Rightarrow> bool" where
  "recorder_ok L S r \<longleftrightarrow> (\<forall>key o'. map_of (rr_interactions r) key = Some o' \<longrightarrow> parts_recorded L S (ob_parts o'))"

definition recorder_held :: "lib \<Rightarrow> recorder \<Rightarrow> string \<Rightarrow> string list \<Rightarrow> string \<Rightarrow> string \<Rightarrow> json \<Rightarrow> bool" where
  "recorder_held L r description states part slot v \<longleftrightarrow>
     (\<exists>o'. map_of (rr_interactions r) (description, states) = Some o' \<and> part_held L (ob_parts o') part slot v)"

lemma one_response:
  assumes "recorder_ok L S r" and "\<forall>(part, slots) \<in> set ps. \<forall>(slot, v) \<in> set slots. within S v"
  shows "recorder_ok L S (recorder_observe L description states ps r)"
    and "(part, slots) \<in> set ps \<Longrightarrow> (slot, u) \<in> set slots \<Longrightarrow>
      recorder_held L (recorder_observe L description states ps r) description states part slot u"
    and "recorder_held L r d' s' part slot u \<Longrightarrow> recorder_held L (recorder_observe L description states ps r) d' s' part slot u"
proof -
  let ?o = "case map_of (rr_interactions r) (description, states) of Some o' \<Rightarrow> o' | None \<Rightarrow> \<lparr>ob_parts = [], ob_observations = 0\<rparr>"
  have old: "parts_recorded L S (ob_parts ?o)"
    using assms(1) by (auto simp: recorder_ok_def parts_recorded_def btree_map_def split: option.split)
  note all = all_parts [OF old assms(2)]
  show "recorder_ok L S (recorder_observe L description states ps r)"
    using assms(1) all by (auto simp: recorder_ok_def recorder_observe_def Let_def map_of_keyed_insert)
  show "(part, slots) \<in> set ps \<Longrightarrow> (slot, u) \<in> set slots \<Longrightarrow>
      recorder_held L (recorder_observe L description states ps r) description states part slot u"
    using all by (auto simp: recorder_held_def recorder_observe_def Let_def map_of_keyed_insert)
  show "recorder_held L r d' s' part slot u \<Longrightarrow> recorder_held L (recorder_observe L description states ps r) d' s' part slot u"
    using all by (auto simp: recorder_held_def recorder_observe_def Let_def map_of_keyed_insert)
qed

lemma all_responses:
  assumes "recorder_ok L S r" and "responses_within S responses"
  shows "recorder_ok L S (record_all L responses r)
    \<and> (\<forall>d ss part slot u. (\<exists>ps slots. (d, ss, ps) \<in> set responses \<and> (part, slots) \<in> set ps \<and> (slot, u) \<in> set slots)
          \<or> recorder_held L r d ss part slot u \<longrightarrow>
        recorder_held L (record_all L responses r) d ss part slot u)"
  using assms unfolding record_all_def
proof (induction responses arbitrary: r)
  case (Cons x responses)
  obtain d ss ps where x: "x = (d, ss, ps)" by (metis prod_cases3)
  have ps: "\<forall>(part, slots) \<in> set ps. \<forall>(slot, v) \<in> set slots. within S v" and rest: "responses_within S responses"
    using Cons.prems(2) by (auto simp: responses_within_def x)
  note one = one_response [OF Cons.prems(1) ps]
  show ?case using Cons.IH [OF one(1) rest] one(2,3) by (auto simp: x) blast+
qed simp

lemma find_recorded:
  assumes "map_of m (description, states) = Some o'"
  shows "List.find (\<lambda>entry. pi_description entry = description \<and> state_names entry = states) (map (recorded_interaction policy) m)
    = Some (recorded_interaction policy ((description, states), o'))"
  using assms
proof (induction m)
  case (Cons x m)
  obtain d ss o1 where x: "x = ((d, ss), o1)" by (metis prod.exhaust)
  have "state_names (recorded_interaction policy ((d, ss), o1)) = ss"
    by (simp add: recorded_interaction_def state_names_def)
  moreover have "pi_description (recorded_interaction policy ((d, ss), o1)) = d" by (simp add: recorded_interaction_def)
  ultimately show ?case using Cons by (auto simp: x)
qed simp

lemma map_of_recorded_slots:
  "(\<And>slot p. (slot, p) \<in> set m \<Longrightarrow> to_shape policy p \<noteq> None) \<Longrightarrow>
    map_of (recorded_slots policy m) slot = Option.bind (map_of m slot) (to_shape policy)"
  unfolding recorded_slots_def by (induction m) (fastforce simp: map_filter_simps split: option.split)+

lemma to_shape_some: "0 < pf_seen p \<Longrightarrow> to_shape policy p \<noteq> None"
  by (simp add: to_shape_unfold null_or_def)

lemma map_of_filtered:
  "map_of m k = Some v \<Longrightarrow> f v \<noteq> [] \<Longrightarrow>
    map_of (filter (\<lambda>(_, x). x \<noteq> []) (map (\<lambda>(k, v). (k, f v)) m)) k = Some (f v)"
  by (induction m) (auto split: if_splits)



text \<open>Three responses of a state of an order: two members always there, one sometimes null, one sometimes missing.\<close>

definition order_response :: "json smap \<Rightarrow> response" where
  "order_response ms = (''an order'', [], [(''response'', [(''body'', JObject ms)])])"

definition first_order :: "json smap" where
  "first_order = [(''id'', JString ''1''), (''state'', JString ''open''), (''note'', JNull)]"

definition orders :: "response list" where
  "orders =
     [order_response first_order,
      order_response [(''id'', JString ''2''), (''state'', JString ''open''), (''note'', JString ''n'')],
      order_response [(''id'', JString ''3''), (''state'', JString ''shipped'')]]"

definition order_scalars :: "json set" where
  "order_scalars =
     {JString ''1'', JString ''2'', JString ''3'', JString ''open'', JString ''shipped'', JString ''n''}"


text \<open>The document published for them, which the parser accepts.\<close>

definition order_document :: json where
  "order_document =
     JObject [(''shape'', JString ''object''), (''members'', JObject
       [(''id'', JObject [(''shape'', JString ''string''), (''example'', JString ''1'')]),
        (''note'', JObject [(''shape'', JString ''optional''), (''of'', JObject [(''shape'', JString ''nullable''),
           (''of'', JObject [(''shape'', JString ''equality''), (''example'', JString ''n'')])])]),
        (''state'', JObject [(''shape'', JString ''any-of''), (''options'', JArray [JString ''open'', JString ''shipped'']),
           (''example'', JString ''open'')])])]"

lemma orders_published:
  "map pi_parts (ph_interactions (recorder_finish (record_all example_lib orders (recorder_new ''shop'')))) =
     [[(''response'', [(''body'', order_document)])]]"
  by code_simp

lemma order_document_accepted: "wf_json order_document" "case shape_parse order_document [] of Inr s \<Rightarrow> True | Inl ps \<Rightarrow> False"
  by (simp_all add: order_document_def index_map_def shape_parse_def parse_child.simps child_step_def budget_enter_def parse_start_def
      max_depth_def max_nodes_def parse_node_def parse_example_def parse_operator_def core_operators_def parse_core_def
      parse_any_of_def parse_object_def parse_under_def parse_nullable_def require_member_def require_example_def and_then_def
      report_outside_def report_repeated_def repeated_option_def admits_absent.simps Let_def)

definition minus_zero :: json where
  "minus_zero = JNumber (Float 0x8000000000000000)"

definition plus_zero :: json where
  "plus_zero = JNumber (Float 0)"

lemma zero_texts: "literal_text L minus_zero = ''n:-0''" "literal_text L plus_zero = ''n:0''"
  by (simp_all add: literal_text_def minus_zero_def plus_zero_def f64_text_def f64_negative_def f64_is_zero_def)

lemma zeros_equal: "value_eq plus_zero minus_zero" "value_eq minus_zero minus_zero"
  by (simp_all add: minus_zero_def plus_zero_def f64_eq_def f64_is_zero_def)

lemma zeros_document:
  "to_shape default_recording (observe L minus_zero (observe L plus_zero no_evidence)) =
     Some (JObject [(''shape'', JString ''any-of''), (''options'', JArray [minus_zero, plus_zero]), (''example'', minus_zero)])"
proof -
  have one: "observe L plus_zero no_evidence = Profile 1 0 [(''n:0'', plus_zero)] 1 False False False True None None"
    using zero_texts(2) [of L]
    by (simp add: plus_zero_def see_one_def see_scalar_def no_evidence_def is_written_integer_def)
  have "observe L minus_zero (observe L plus_zero no_evidence) =
      Profile 2 0 [(''n:-0'', minus_zero), (''n:0'', plus_zero)] 2 False False False True None None"
    unfolding one using zero_texts(1) [of L]
    by (simp add: minus_zero_def see_one_def see_scalar_def is_written_integer_def)
  then show ?thesis
    by (simp add: null_or_def structural_kinds_def scalar_shape_def keeps_literals_def default_recording_def recorded_node_def)
qed

text \<open>C28: two zeros make a document the parser refuses. After \<open>0.0\<close> and \<open>-0.0\<close>, which are one value, the recorder keeps
  both, since they are written differently, and publishes an \<open>any-of\<close> over them; the shape parser refuses a literal
  set with two equal options, so the recorded shape of the slot cannot be read.\<close>

theorem recorded_zeros_refused:
  "\<exists>D. to_shape default_recording (observe L minus_zero (observe L plus_zero no_evidence)) = Some D
     \<and> (\<exists>ps. shape_parse D at = Inl ps \<and> map pr_pointer ps = [at @ ''/options/1''])"
proof -
  have "nat_text 1 = ''1''" by code_simp
  then show ?thesis
    unfolding zeros_document
    using zeros_equal
    by (simp add: shape_parse_def parse_child.simps child_step_def budget_enter_def parse_start_def max_depth_def max_nodes_def
      parse_node_def parse_example_def parse_operator_def core_operators_def parse_core_def parse_any_of_def require_member_def
      and_then_def report_outside_def report_repeated_def repeated_option_def report_def Let_def)
qed

end
