(* ===== verification/Spec2Isabelle.thy ===== *)
theory Spec2Isabelle
  imports Plan_Theorems Interpret_Laws Fragment Header_Values Variant_Space Value_Equality Sub_Theorems Policy Parse_Theorems Sampler_Theorems
    Contract_Laws Report_Laws Compat_Laws Generate_Laws Params_Laws Sampler_Size Hook_Laws Record_Laws
begin

text \<open>
  A verification library for the Janus engine kernel (engine/kernel/src), in Isabelle/HOL.

  \<^bold>\<open>The program.\<close> A contract describes each slot of an interaction (a status, a set of headers, a
  body) by a \<^emph>\<open>shape\<close>: a tree of operators, each with an optional example. A shape has a \<^emph>\<open>variant
  space\<close>, the dimensions it can vary along. The engine compiles an interaction and an assignment of
  variant points into a \<^emph>\<open>plan\<close>, a tree of namespaced actions, interprets it against the values
  captured from a reply, and reads a verdict and a list of mismatches off the executed tree. A
  component (a plugin) may contribute a plan \<^emph>\<open>fragment\<close>, which is checked and spliced into a slot.

  \<^bold>\<open>The theories\<close>, in import order, with the files of engine/kernel/src they translate:

  \<^item> \<open>Prelude\<close>: strings, options, decimal numerals and \<open>u64\<close> arithmetic, as the standard library has them.
  \<^item> \<open>String_Map\<close>: the interface of a map keyed by strings (locale \<open>entry_map\<close>), interpreted on the
    insertion of an \<open>IndexMap\<close> (insertion order) and of a \<open>BTreeMap\<close> (key order).
  \<^item> \<open>Json\<close>: \<open>serde_json\<close> values, numbers as \<open>u64\<close>, \<open>i64\<close> or an IEEE double given by its bits, and the
    equality of the shape language (\<open>values_equal\<close>, \<open>value_eq\<close>).
  \<^item> \<open>Display\<close>: marked text, display.rs.
  \<^item> \<open>Shape_Model\<close>: shape/model.rs and the paths of shape/path.rs.
  \<^item> \<open>Variant_Space\<close>: shape/variant_space.rs.
  \<^item> \<open>Plan_Model\<close>: plan/model.rs, with a plan's JSON document written and read.
  \<^item> \<open>Plan_Actions\<close>: plan/actions.rs, the table of core actions and the grammars.
  \<^item> \<open>Fragment\<close>: plan/fragment.rs, the checks a contributed fragment passes, and \<open>splice\<close>.
  \<^item> \<open>Runtime_Value\<close>: plan/value.rs, values at run time and the paths that navigate them.
  \<^item> \<open>Resolve\<close>: plan/resolve.rs, the captured values a plan reads (locale \<open>slot_resolver\<close>).
  \<^item> \<open>Plan_Text\<close>, \<open>Header_Values\<close>, \<open>Plan_Dispatch\<close>, \<open>Plan_Interpret\<close>: plan/interpret.rs, from the text of a
    mismatch over the comparison of header values and the arm of every action to the walk.
  \<^item> \<open>Interpret_Laws\<close>: what a run keeps of the plan, and what its mismatches say.
  \<^item> \<open>Plan_Compile\<close>: plan/compile.rs.
  \<^item> \<open>Shape_Admits\<close>: the specification: which values a shape admits under pinned points.
  \<^item> \<open>Phrases\<close>, \<open>Findings\<close>, \<open>Subsumption\<close>, \<open>Sub_Walk\<close>: subsumption/phrases.rs, the findings of report.rs, and
    compare.rs: whether every value the provider's shape admits is one the consumer's admits. \<open>walk_node\<close>
    is \<open>Walk::node\<close>; the arms take the walk of a child as an argument and \<open>walk_node\<close> ties them over the
    joint weight of the two shapes.
  \<^item> \<open>Walk_Laws\<close>: the contract of the walk (locale \<open>walk_contract\<close>), interpreted twice: every verdict is
    recorded, and a \<open>yes\<close> is sound.
  \<^item> \<open>Admits_Laws\<close>, \<open>Sub_Sound\<close>, \<open>Sub_Leaves\<close>, \<open>Sub_Refine\<close>, \<open>Sub_Total\<close>, \<open>Sub_Theorems\<close>: the soundness of the
    checker against \<open>Shape_Admits\<close>, arm by arm, and where it fails.
  \<^item> \<open>Problem\<close>, \<open>Policy\<close>: error.rs, positions in documents as JSON pointers, and subsumption/policy.rs: layers of
    policy, exemptions and their expiry.
  \<^item> \<open>Shape_Parse\<close>, \<open>Interaction_Parse\<close>: shape/parse.rs and interaction_spec, documents into shapes and
    interactions, with every violation collected. The parser of a child is an argument of the functions it
    goes through, and \<open>parse_child\<close> ties the recursion over the size of the document.
  \<^item> \<open>Parse_Laws\<close>, \<open>Parse_Theorems\<close>: what an accepted document is (one judgement, \<open>yields\<close>, a rule per
    construct), and the composition of the parser with the compiler and the interpreter.
  \<^item> \<open>Sampling\<close>, \<open>Sampler\<close>: variant/mod.rs: references to a dimension, the layers of a sampling policy, the size
    of a space, its boundary variants, the covering algorithm \<open>janus-ipog-v1\<close> and the selection with its report.
  \<^item> \<open>Sampler_Laws\<close>, \<open>Sampler_Cover\<close>, \<open>Sampler_Select\<close>: well-formed assignments as a step relation (\<open>settles\<close>), and
    what the algorithm keeps of them; \<open>Sampler_Flat\<close>, \<open>Sampler_Grow\<close>, \<open>Sampler_Covers\<close>: no step of the growth
    loses a target of a space without gates; \<open>Sampler_Theorems\<close>: what a selection promises; \<open>Sampler_Size\<close>: the
    size of a space, counted by weights, is the length of the enumeration.
  \<^item> \<open>Contract_Model\<close>, \<open>Contract_Laws\<close>: contract/ and shape/canonical.rs, a contract's records, how each is written,
    its identification, and the merge of two contracts (locale \<open>keyed_join\<close>).
  \<^item> \<open>Sub_Report\<close>, \<open>Report_Laws\<close>: subsumption/provider_shape.rs, select.rs and the loop of report.rs: which published
    entry an interaction is checked against, and the report over a contract.
  \<^item> \<open>Recording\<close>, \<open>Record_Read\<close>, \<open>Record_Laws\<close>: subsumption/record.rs, a provider shape from the responses of the
    provider's own tests; how the parser reads the documents it writes; and that they admit what was recorded.
  \<^item> \<open>Compat\<close>, \<open>Compat_Laws\<close>: compatibility/decide.rs, the decision over the subsumption reports, the verification
    summaries and one policy.
  \<^item> \<open>Generate\<close>, \<open>Generate_Laws\<close>: variant/generate.rs, the payload a shape produces under a variant's points, and
    its agreement with \<open>Shape_Admits\<close>.
  \<^item> \<open>Variant_Params\<close>, \<open>Params_Laws\<close>: variant/params.rs, the state parameters bound to a variant's points.
  \<^item> \<open>Hooks\<close>, \<open>Hook_Run\<close>, \<open>Hook_Runner\<close>, \<open>Hook_Laws\<close>: hooks/points.rs and config.rs, invoke.rs and report.rs,
    runner.rs: the lifecycle points, what may change there, an invocation, and the loop over a point. What answers a
    hook, and the clock, is the record \<open>hook_host\<close>.
  \<^item> \<open>Value_Equality\<close>, \<open>Plan_Verdict\<close>, \<open>Plan_Correct\<close>, \<open>Plan_Theorems\<close>: the proofs that lead from
    a shape's meaning to a run's verdict.

  \<^bold>\<open>What is shown.\<close> The central result is a refinement: compiling a well-formed shape and running its
  plan reports a match exactly when the value is one the shape admits under the pinned points
  (\<open>Plan_Theorems\<close>). Around it: a matched plan is admitted unpinned; the points of a cardinality
  partition its lengths and a variant space is a well-formed document (\<open>Variant_Space\<close>); a checked
  fragment stays inside its slot and never reaches past its children (\<open>Fragment\<close>); plan documents round
  trip; a path is read back as it was written (\<open>Runtime_Value\<close>); the table of core actions and the
  interpreter's arms agree (\<open>Plan_Dispatch\<close>); a run keeps its plan, and the marked form of a mismatch is
  its message (\<open>Interpret_Laws\<close>); a \<open>yes\<close> of the subsumption checker is sound, its verdict is what its
  findings say, and a shape is inside itself (\<open>Sub_Theorems\<close>); what the shape parser
  accepts is well-formed at every node and what it refuses it locates (\<open>Parse_Theorems\<close>); a selection of
  variants is always made, of distinct well-formed assignments, and over a space without gates it covers
  every target (\<open>Sampler_Theorems\<close>; the dimensions' ids have to be distinct there, which member names with a
  dot can break); merging contracts does not depend on which came first, and writing again changes nothing
  (\<open>Contract_Laws\<close>); a report answers for every interaction and its \<open>yes\<close> is sound for the documents
  (\<open>Report_Laws\<close>); the decision is read off the verification status and what is left live, every finding is
  disposed of once, and a \<open>Pass\<close> promises what the checker and the runs established (\<open>Compat_Laws\<close>); the payload
  generated for a variant is one the plan compiled for that variant matches (\<open>Generate_Laws\<close>); a variant-bound
  parameter resolves the same way written by path or by id (\<open>Params_Laws\<close>); a recorded provider shape admits every
  response it was recorded from (\<open>Record_Laws\<close>); the size of a space, counted in saturating
  64-bit arithmetic, is the number of its assignments, or the largest number and marked inexact (\<open>Sampler_Size\<close>);
  hooks change only the slots they declared, run in declaration order until one fails, and one that does what it
  declared is never refused (\<open>Hook_Laws\<close>). Where the code departs from its documentation, the departure is a theorem
  too.

  \<^bold>\<open>Conventions.\<close> Every definition is named after the function it translates, or after it and its module
  where the name is taken. A Rust \<open>Result\<close> is a sum, the error on the left. A string is a list of its
  UTF-8 bytes. The iteration stack of the interpreter, which the code pushes and pops in step, is a
  parameter passed down. What the code calls but this repository does not hold (a regular expression
  engine, dates, semantic versions, the printing and parsing of a double, base64) is the record \<open>lib\<close>, an
  argument of the definitions that use it; the content detector and the components' actions are the
  record \<open>host\<close>. The walks recurse on the tree they are given and need no fuel; the two recursions of the
  sampler over the forest of gates have one more than the number of dimensions, proved enough.

  \<^bold>\<open>Not modelled.\<close> The renderings of reports; the upgrade of legacy pacts,
  which is written over the types of the pact_models crate; the interpreter of hook scripts, a crate of its own; the
  engine protocol and the component host, which are threads and I/O around the parts modelled here. Reading a contract or a published shape from bytes is \<open>serde\<close>'s derived deserializer, a
  parameter. The text and \<open>explain\<close> renderings of a plan are left out but for the printing of bytes.
\<close>

end
